(* ===== verification/Prelude.thy ===== *)
theory Prelude
  imports Main "HOL-Library.List_Lexorder" "HOL-Library.Product_Lexorder"
    "HOL-Library.Option_ord" "HOL-Library.Multiset" "HOL-Library.Sublist"
begin

text \<open>
  Shared vocabulary of the development: failures and the result type, unsigned 64-bit
  arithmetic, Rust strings, and the list lemmas the components share.

  \<^item> A fallible Rust function returns \<open>'a res\<close>: \<open>Inl\<close> is an \<open>io::Error\<close> (its kind, without
    the message) or a panic (which assertion or \<open>unreachable!\<close> fired), \<open>Inr\<close> is \<open>Ok\<close>. The
    question mark operator is \<open>rbind\<close>. The state a failed call leaves behind is not modelled:
    a failed \<open>apply\<close> is a fatal storage error for the raft core.
  \<^item> A \<open>u64\<close> is a \<open>nat\<close>; the operations that can leave the 64-bit range are written with
    their wrap-around (the release profile of Cargo.toml sets \<open>overflow-checks = false\<close>)
    or their saturation.
  \<^item> A \<open>String\<close> is the list of its Unicode scalar values, ordered lexicographically. That is
    the order of Rust strings: UTF-8 keeps the order of scalar values.
  \<^item> A stream of results is the list of its items; the adaptors of the \<open>futures\<close> crate that
    have an \<open>Iterator\<close> counterpart are the corresponding list functions.
\<close>

section \<open>Failures and results\<close>

datatype io_error_kind = InvalidData | InvalidInput | OtherIo

datatype panic = AssertFailed | UnreachableCode | RangePanic | UnwrapNone | IndexOutOfBounds

datatype failure = IoError io_error_kind | Panic panic

type_synonym 'a res = "failure + 'a"

fun rbind :: "'e + 'a \<Rightarrow> ('a \<Rightarrow> 'e + 'b) \<Rightarrow> 'e + 'b" where
  "rbind (Inl e) f = Inl e"
| "rbind (Inr x) f = f x"

text \<open>A \<open>for\<close> loop whose body may fail, over a list, threading a state.\<close>

fun rfold :: "('s \<Rightarrow> 'a \<Rightarrow> 'e + 's) \<Rightarrow> 's \<Rightarrow> 'a list \<Rightarrow> 'e + 's" where
  "rfold f s [] = Inr s"
| "rfold f s (x # xs) = rbind (f s x) (\<lambda>s'. rfold f s' xs)"

text \<open>Collecting the results of a fallible call on every element of a list.\<close>

fun rmap :: "('a \<Rightarrow> 'e + 'b) \<Rightarrow> 'a list \<Rightarrow> 'e + 'b list" where
  "rmap f [] = Inr []"
| "rmap f (x # xs) = rbind (f x) (\<lambda>y. rbind (rmap f xs) (\<lambda>ys. Inr (y # ys)))"

text \<open>Draining a stream of results: the first error ends it (\<open>try_collect\<close>).\<close>

fun try_collect :: "('e + 'a) list \<Rightarrow> 'e + 'a list" where
  "try_collect [] = Inr []"
| "try_collect (Inl e # xs) = Inl e"
| "try_collect (Inr x # xs) = rbind (try_collect xs) (\<lambda>ys. Inr (x # ys))"

fun try_take_while :: "('a \<Rightarrow> bool) \<Rightarrow> ('e + 'a) list \<Rightarrow> ('e + 'a) list" where
  "try_take_while p [] = []"
| "try_take_while p (Inl e # xs) = Inl e # try_take_while p xs"
| "try_take_while p (Inr x # xs) = (if p x then Inr x # try_take_while p xs else [])"

fun try_filter_map :: "('a \<Rightarrow> 'b option) \<Rightarrow> ('e + 'a) list \<Rightarrow> ('e + 'b) list" where
  "try_filter_map f [] = []"
| "try_filter_map f (Inl e # xs) = Inl e # try_filter_map f xs"
| "try_filter_map f (Inr x # xs) =
     (case f x of None \<Rightarrow> try_filter_map f xs | Some y \<Rightarrow> Inr y # try_filter_map f xs)"

section \<open>Unsigned 64-bit integers\<close>

definition u64_max :: nat where
  "u64_max = 2 ^ 64 - 1"

definition u64_add :: "nat \<Rightarrow> nat \<Rightarrow> nat" where
  "u64_add a b = (a + b) mod 2 ^ 64"

definition u64_mul :: "nat \<Rightarrow> nat \<Rightarrow> nat" where
  "u64_mul a b = (a * b) mod 2 ^ 64"

definition saturating_add :: "nat \<Rightarrow> nat \<Rightarrow> nat" where
  "saturating_add a b = min (a + b) u64_max"

definition saturating_sub :: "nat \<Rightarrow> nat \<Rightarrow> nat" where
  "saturating_sub a b = (if b \<le> a then a - b else 0)"

section \<open>Strings\<close>

type_synonym rstr = "nat list"
type_synonym bytes = "nat list"

definition valid_char :: "nat \<Rightarrow> bool" where
  "valid_char c \<longleftrightarrow> c < 0xD800 \<or> (0xE000 \<le> c \<and> c \<le> 0x10FFFF)"

definition valid_str :: "rstr \<Rightarrow> bool" where
  "valid_str s \<longleftrightarrow> (\<forall>c \<in> set s. valid_char c)"

text \<open>A string literal of the source.\<close>

definition str :: "string \<Rightarrow> rstr" where
  "str s = map of_char s"

definition starts_with :: "rstr \<Rightarrow> rstr \<Rightarrow> bool" where
  "starts_with s p \<longleftrightarrow> take (length p) s = p"

text \<open>\<open>str::strip_prefix\<close>.\<close>

definition strip_prefix :: "rstr \<Rightarrow> rstr \<Rightarrow> rstr option" where
  "strip_prefix p s = (if starts_with s p then Some (drop (length p) s) else None)"

text \<open>Decimal formatting of an integer (\<open>format!("{}", n)\<close>), least digit last.\<close>

fun show_dec :: "nat \<Rightarrow> rstr" where
  "show_dec n = (if n < 10 then [48 + n] else show_dec (n div 10) @ [48 + n mod 10])"

definition is_digit :: "nat \<Rightarrow> bool" where
  "is_digit c \<longleftrightarrow> 48 \<le> c \<and> c \<le> 57"

definition dec_val :: "rstr \<Rightarrow> nat" where
  "dec_val ds = foldl (\<lambda>a c. 10 * a + (c - 48)) 0 ds"

text \<open>
  \<open>str::parse::<u64>\<close>: an optional plus sign, at least one decimal digit, no other
  character, and a value below \<open>2 ^ 64\<close>.
\<close>

definition parse_u64 :: "rstr \<Rightarrow> nat option" where
  "parse_u64 s =
     (let ds = (case s of [] \<Rightarrow> [] | c # cs \<Rightarrow> if c = 43 then cs else s)
      in if ds = [] \<or> \<not> list_all is_digit ds then None
         else if dec_val ds < 2 ^ 64 then Some (dec_val ds) else None)"

text \<open>\<open>str::split\<close> by a character: always at least one piece.\<close>

fun split_on :: "nat \<Rightarrow> rstr \<Rightarrow> rstr list" where
  "split_on d [] = [[]]"
| "split_on d (c # cs) =
     (if c = d then [] # split_on d cs
      else (case split_on d cs of [] \<Rightarrow> [[c]] | w # ws \<Rightarrow> (c # w) # ws))"

declare show_dec.simps [simp del]

section \<open>Lemma collections and shared lemmas\<close>

named_theorems res_simps "rewriting of results of fallible calls"

subsection \<open>Results\<close>

lemma rbind_Inr_iff: "rbind m f = Inr y \<longleftrightarrow> (\<exists>x. m = Inr x \<and> f x = Inr y)"
  by (cases m) auto

lemma rbind_assoc: "rbind (rbind m f) g = rbind m (\<lambda>x. rbind (f x) g)"
  by (cases m) auto

lemma rbind_cong [fundef_cong]:
  "m = m' \<Longrightarrow> (\<And>x. m' = Inr x \<Longrightarrow> f x = f' x) \<Longrightarrow> rbind m f = rbind m' f'"
  by (cases m') auto

lemma rfold_append: "rfold f s (xs @ ys) = rbind (rfold f s xs) (\<lambda>s'. rfold f s' ys)"
  by (induction xs arbitrary: s) (auto simp: rbind_assoc)

text \<open>A loop invariant: if every iteration succeeds and keeps \<open>P\<close>, so does the loop.\<close>

lemma rfold_invariant:
  assumes "P s" and "\<And>s x. P s \<Longrightarrow> x \<in> set xs \<Longrightarrow> \<exists>s'. f s x = Inr s' \<and> P s'"
  shows "\<exists>s'. rfold f s xs = Inr s' \<and> P s'"
  using assms
proof (induction xs arbitrary: s)
  case Nil
  then show ?case by simp
next
  case (Cons x xs)
  from Cons.prems obtain s1 where "f s x = Inr s1" "P s1" by fastforce
  with Cons.IH [of s1] Cons.prems(2) show ?case by fastforce
qed

lemma rmap_Inr: "(\<And>x. x \<in> set xs \<Longrightarrow> f x = Inr (g x)) \<Longrightarrow> rmap f xs = Inr (map g xs)"
  by (induction xs) auto

lemma try_collect_map_Inr [res_simps]: "try_collect (map Inr xs) = Inr xs"
  by (induction xs) auto

lemma try_take_while_map_Inr [res_simps]:
  "try_take_while p (map Inr xs) = map Inr (takeWhile p xs)"
  by (induction xs) auto

lemma try_filter_map_map_Inr [res_simps]:
  "try_filter_map f (map Inr xs) = map Inr (List.map_filter f xs)"
  by (induction xs) (auto simp: List.map_filter_simps split: option.splits)

lemma set_map_filter: "set (List.map_filter f xs) = {y. \<exists>x \<in> set xs. f x = Some y}"
  by (induction xs) (auto simp: List.map_filter_simps split: option.splits)

subsection \<open>Unsigned arithmetic\<close>

lemma u64_add_small [simp]: "a + b < 2 ^ 64 \<Longrightarrow> u64_add a b = a + b"
  by (simp add: u64_add_def)

lemma u64_add_less [simp]: "u64_add a b < 2 ^ 64"
  by (simp add: u64_add_def)

lemma u64_mul_less [simp]: "u64_mul a b < 2 ^ 64"
  by (simp add: u64_mul_def)

lemma saturating_add_le [simp]: "saturating_add a b \<le> u64_max"
  by (simp add: saturating_add_def)

lemma saturating_sub_eq: "saturating_sub a b = a - b"
  by (simp add: saturating_sub_def)

subsection \<open>Strings\<close>

lemma starts_with_prefix: "starts_with s p \<longleftrightarrow> prefix p s"
  by (metis append_eq_conv_conj prefix_def starts_with_def append_take_drop_id)

lemma strip_prefix_append [simp]: "strip_prefix p (p @ s) = Some s"
  by (simp add: strip_prefix_def starts_with_def)

lemma strip_prefix_Some: "strip_prefix p s = Some t \<Longrightarrow> s = p @ t"
  by (metis append_take_drop_id option.sel option.simps(3) starts_with_def strip_prefix_def)

lemma dec_val_append1: "dec_val (ds @ [d]) = 10 * dec_val ds + (d - 48)"
  by (simp add: dec_val_def)

lemma dec_val_show_dec [simp]: "dec_val (show_dec n) = n"
proof (induction n rule: show_dec.induct)
  case (1 n)
  show ?case
  proof (cases "n < 10")
    case True
    then show ?thesis by (simp add: show_dec.simps [of n] dec_val_def)
  next
    case False
    with 1 have "dec_val (show_dec (n div 10)) = n div 10" by simp
    with False show ?thesis
      by (simp add: show_dec.simps [of n] dec_val_append1)
  qed
qed

lemma show_dec_digits: "list_all is_digit (show_dec n)"
proof (induction n rule: show_dec.induct)
  case (1 n)
  then show ?case
    by (auto simp: show_dec.simps [of n] is_digit_def)
qed

lemma show_dec_nonempty [simp]: "show_dec n \<noteq> []"
  by (subst show_dec.simps) simp

lemma parse_show_dec:
  assumes "n < 2 ^ 64"
  shows "parse_u64 (show_dec n) = Some n"
proof -
  obtain c cs where s: "show_dec n = c # cs"
    by (meson list.exhaust show_dec_nonempty)
  with show_dec_digits [of n] have "c \<noteq> 43"
    by (auto simp: is_digit_def)
  with s assms show_dec_digits [of n] dec_val_show_dec [of n] show ?thesis
    by (simp add: parse_u64_def)
qed

lemma split_on_nonempty [simp]: "split_on d s \<noteq> []"
  by (induction s) (auto split: list.splits)

lemma split_on_no_sep: "d \<notin> set s \<Longrightarrow> split_on d s = [s]"
  by (induction s) auto

lemma split_on_append_sep: "d \<notin> set s \<Longrightarrow> split_on d (s @ d # t) = s # split_on d t"
  by (induction s) auto

subsection \<open>Sorted association lists\<close>

lemma sorted_wrt_less_distinct: "sorted_wrt (<) (xs :: 'a :: linorder list) \<Longrightarrow> distinct xs"
  by (simp add: strict_sorted_iff)

lemma map_of_in_set:
  "distinct (map fst ps) \<Longrightarrow> map_of ps k = Some v \<longleftrightarrow> (k, v) \<in> set ps"
  by (simp add: map_of_eq_Some_iff)

lemma sorted_wrt_map_filter:
  "sorted_wrt R (map f xs) \<Longrightarrow> sorted_wrt R (map f (filter P xs))"
  by (simp add: sorted_wrt_filter sorted_wrt_map)

text \<open>Two strictly sorted association lists with the same entries are equal.\<close>

lemma sorted_alist_unique:
  fixes xs ys :: "('k :: linorder \<times> 'v) list"
  assumes "sorted_wrt (<) (map fst xs)" "sorted_wrt (<) (map fst ys)" "set xs = set ys"
  shows "xs = ys"
proof (rule map_sorted_distinct_set_unique)
  show "inj_on fst (set xs \<union> set ys)"
    using assms(1,3) by (simp add: distinct_map strict_sorted_iff)
qed (use assms in \<open>simp_all add: strict_sorted_iff\<close>)

end
