(* ===== verification/BTree.thy ===== *)
theory BTree
  imports Prelude
begin

text \<open>
  The parts of \<open>std::collections::BTreeMap\<close> and \<open>std::ops::RangeBounds\<close> the metadata store
  uses. A map is the list of its entries in key order (\<open>btree_ok\<close>). \<open>BTreeMap::range\<close> panics
  when the start of the range is after its end, or when both bounds exclude the same key;
  \<open>btree_range\<close> has that branch.
\<close>

section \<open>Definitions\<close>

datatype 'k bound = Included 'k | Excluded 'k | Unbounded

type_synonym 'k bounds = "'k bound \<times> 'k bound"

type_synonym ('k, 'v) btree = "('k \<times> 'v) list"

fun above_start :: "'k::linorder bound \<Rightarrow> 'k \<Rightarrow> bool" where
  "above_start (Included s) k \<longleftrightarrow> s \<le> k"
| "above_start (Excluded s) k \<longleftrightarrow> s < k"
| "above_start Unbounded k \<longleftrightarrow> True"

fun below_end :: "'k::linorder bound \<Rightarrow> 'k \<Rightarrow> bool" where
  "below_end (Included e) k \<longleftrightarrow> k \<le> e"
| "below_end (Excluded e) k \<longleftrightarrow> k < e"
| "below_end Unbounded k \<longleftrightarrow> True"

definition in_bounds :: "'k::linorder bounds \<Rightarrow> 'k \<Rightarrow> bool" where
  "in_bounds r k \<longleftrightarrow> above_start (fst r) k \<and> below_end (snd r) k"

text \<open>The ranges \<open>BTreeMap::range\<close> accepts.\<close>

fun range_ok :: "'k::linorder bounds \<Rightarrow> bool" where
  "range_ok (Included s, Included e) \<longleftrightarrow> s \<le> e"
| "range_ok (Included s, Excluded e) \<longleftrightarrow> s \<le> e"
| "range_ok (Excluded s, Included e) \<longleftrightarrow> s \<le> e"
| "range_ok (Excluded s, Excluded e) \<longleftrightarrow> s < e"
| "range_ok (s, e) \<longleftrightarrow> True"

definition btree_ok :: "('k::linorder, 'v) btree \<Rightarrow> bool" where
  "btree_ok t \<longleftrightarrow> sorted_wrt (<) (map fst t)"

definition btree_get :: "('k, 'v) btree \<Rightarrow> 'k \<Rightarrow> 'v option" where
  "btree_get t k = map_of t k"

fun btree_insert :: "'k::linorder \<Rightarrow> 'v \<Rightarrow> ('k, 'v) btree \<Rightarrow> ('k, 'v) btree" where
  "btree_insert k v [] = [(k, v)]"
| "btree_insert k v ((a, b) # t) =
     (if k < a then (k, v) # (a, b) # t
      else if k = a then (k, v) # t
      else (a, b) # btree_insert k v t)"

definition btree_remove :: "'k \<Rightarrow> ('k, 'v) btree \<Rightarrow> ('k, 'v) btree" where
  "btree_remove k t = filter (\<lambda>(a, b). a \<noteq> k) t"

definition btree_range :: "('k::linorder, 'v) btree \<Rightarrow> 'k bounds \<Rightarrow> ('k \<times> 'v) list res" where
  "btree_range t r =
     (if range_ok r then Inr (filter (\<lambda>(k, v). in_bounds r k) t) else Inl (Panic RangePanic))"

text \<open>Collecting an iterator of pairs into a map: later entries replace earlier ones.\<close>

definition btree_collect :: "('k::linorder \<times> 'v) list \<Rightarrow> ('k, 'v) btree" where
  "btree_collect xs = foldl (\<lambda>t (k, v). btree_insert k v t) [] xs"

section \<open>Lemmas\<close>

lemma btree_ok_Nil [simp]: "btree_ok []"
  by (simp add: btree_ok_def)

lemma btree_ok_distinct: "btree_ok t \<Longrightarrow> distinct (map fst t)"
  by (simp add: btree_ok_def strict_sorted_iff)

lemma btree_get_Nil [simp]: "btree_get [] k = None"
  by (simp add: btree_get_def)

lemma btree_get_in_set: "btree_ok t \<Longrightarrow> btree_get t k = Some v \<longleftrightarrow> (k, v) \<in> set t"
  by (simp add: btree_get_def map_of_in_set btree_ok_distinct)

lemma fst_set_btree_insert: "fst ` set (btree_insert k v t) = insert k (fst ` set t)"
  by (induction k v t rule: btree_insert.induct) auto

lemma btree_get_insert [simp]:
  "btree_get (btree_insert k v t) = (btree_get t)(k \<mapsto> v)"
  by (induction k v t rule: btree_insert.induct) (auto simp: btree_get_def fun_eq_iff)

lemma btree_ok_insert [simp]: "btree_ok t \<Longrightarrow> btree_ok (btree_insert k v t)"
proof (induction k v t rule: btree_insert.induct)
  case (2 k v a b t)
  then have "\<forall>x \<in> fst ` set (btree_insert k v t). a < x" if "a < k"
    using that by (auto simp: fst_set_btree_insert btree_ok_def)
  with 2 show ?case
    by (fastforce simp: btree_ok_def)
qed (simp add: btree_ok_def)

lemma set_btree_insert:
  assumes "btree_ok t"
  shows "set (btree_insert k v t) = insert (k, v) {p \<in> set t. fst p \<noteq> k}"
proof -
  have "p \<in> set (btree_insert k v t) \<longleftrightarrow> btree_get (btree_insert k v t) (fst p) = Some (snd p)" for p
    using assms by (simp add: btree_get_in_set del: btree_get_insert)
  moreover have "p \<in> set t \<longleftrightarrow> btree_get t (fst p) = Some (snd p)" for p
    using assms by (simp add: btree_get_in_set)
  ultimately show ?thesis
    by (auto split: if_splits)
qed

lemma btree_ok_filter: "btree_ok t \<Longrightarrow> btree_ok (filter P t)"
  by (simp add: btree_ok_def sorted_wrt_map_filter)

lemma btree_get_remove [simp]: "btree_get (btree_remove k t) = (btree_get t)(k := None)"
  by (induction t) (auto simp: btree_get_def btree_remove_def fun_eq_iff)

lemma btree_ok_remove [simp]: "btree_ok t \<Longrightarrow> btree_ok (btree_remove k t)"
  by (simp add: btree_ok_def btree_remove_def sorted_wrt_map_filter)

lemma btree_range_ok [simp]:
  "range_ok r \<Longrightarrow> btree_range t r = Inr (filter (\<lambda>(k, v). in_bounds r k) t)"
  by (simp add: btree_range_def)

lemma btree_insert_last:
  "\<forall>x \<in> fst ` set t. x < k \<Longrightarrow> btree_insert k v t = t @ [(k, v)]"
  by (induction k v t rule: btree_insert.induct) auto

text \<open>Collecting entries that are already in key order keeps them as they are.\<close>

lemma btree_collect_sorted: "sorted_wrt (<) (map fst xs) \<Longrightarrow> btree_collect xs = xs"
proof (induction xs rule: rev_induct)
  case Nil
  then show ?case by (simp add: btree_collect_def)
next
  case (snoc x xs)
  then have "btree_collect xs = xs" and "\<forall>a \<in> fst ` set xs. a < fst x"
    by (auto simp: sorted_wrt_append)
  then show ?case
    by (cases x) (simp add: btree_collect_def btree_insert_last)
qed

lemma in_bounds_Unbounded [simp]: "in_bounds (Unbounded, Unbounded) k"
  by (simp add: in_bounds_def)

end
