(* ===== verification/MarkedValue.thy ===== *)
theory MarkedValue
  imports SeqValue
begin

text \<open>
  The stored form of a value (\<open>src/meta/raft-store/src/marked\<close>) and the key of the expiration
  index (\<open>state_machine/expire.rs\<close>). A \<open>marked\<close> entry is a value or a tombstone, each with the
  internal sequence number that says how fresh it is; \<open>order_key\<close> compares two entries of one
  key, a tombstone being newer than a value of the same number. Both order keys are made
  linear orders, as the source derives \<open>Ord\<close> for them.
\<close>

section \<open>Entries\<close>

datatype 'v marked =
    TombStone (internal_seq: nat)
  | Normal (internal_seq: nat) 'v "kv_meta option"

datatype seq_tombstone = SeqTombstone (st_seq: nat) (st_tombstone: bool)

definition SeqTombstone_normal :: "nat \<Rightarrow> seq_tombstone" where
  "SeqTombstone_normal s = SeqTombstone s False"

definition SeqTombstone_tombstone :: "nat \<Rightarrow> seq_tombstone" where
  "SeqTombstone_tombstone s = SeqTombstone s True"

definition marked_empty :: "'v marked" where
  "marked_empty = TombStone 0"

text \<open>The trait \<open>SeqValue\<close> for \<open>Marked\<close>: the number an application sees, value and metadata.\<close>

fun marked_seq :: "'v marked \<Rightarrow> nat" where
  "marked_seq (TombStone _) = 0"
| "marked_seq (Normal s _ _) = s"

fun marked_value :: "'v marked \<Rightarrow> 'v option" where
  "marked_value (TombStone _) = None"
| "marked_value (Normal _ v _) = Some v"

fun marked_meta :: "'v marked \<Rightarrow> kv_meta option" where
  "marked_meta (TombStone _) = None"
| "marked_meta (Normal _ _ m) = m"

definition marked_expires_at_ms_opt :: "'v marked \<Rightarrow> nat option" where
  "marked_expires_at_ms_opt m = meta_expires_at_ms_opt (marked_meta m)"

fun order_key :: "'v marked \<Rightarrow> seq_tombstone" where
  "order_key (TombStone s) = SeqTombstone_tombstone s"
| "order_key (Normal s _ _) = SeqTombstone_normal s"

fun unpack_marked :: "'v marked \<Rightarrow> ('v \<times> kv_meta option) option" where
  "unpack_marked (TombStone _) = None"
| "unpack_marked (Normal _ v m) = Some (v, m)"

fun is_not_found :: "'v marked \<Rightarrow> bool" where
  "is_not_found (TombStone s) \<longleftrightarrow> s = 0"
| "is_not_found (Normal _ _ _) \<longleftrightarrow> False"

fun is_tombstone :: "'v marked \<Rightarrow> bool" where
  "is_tombstone (TombStone _) \<longleftrightarrow> True"
| "is_tombstone (Normal _ _ _) \<longleftrightarrow> False"

definition is_normal :: "'v marked \<Rightarrow> bool" where
  "is_normal m \<longleftrightarrow> \<not> is_tombstone m"

text \<open>\<open>From<(u64, T, Option<KVMeta>)>\<close> asserts a positive sequence number.\<close>

definition marked_from_triple :: "nat \<times> 'v \<times> kv_meta option \<Rightarrow> 'v marked res" where
  "marked_from_triple t =
     (case t of (seq, v, m) \<Rightarrow>
        if seq = 0 then Inl (Panic AssertFailed) else Inr (Normal seq v m))"

definition marked_from_seqv :: "'v seqv \<Rightarrow> 'v marked" where
  "marked_from_seqv v = Normal (sv_seq v) (sv_data v) (sv_meta v)"

text \<open>\<open>From<Marked<T>> for Option<SeqV<T>>\<close>: what an application sees of an entry.\<close>

fun marked_to_seqv :: "'v marked \<Rightarrow> 'v seqv option" where
  "marked_to_seqv (TombStone _) = None"
| "marked_to_seqv (Normal s v m) = Some (SeqV_with_meta s m v)"

text \<open>\<open>Marked::with_meta\<close> panics on a tombstone.\<close>

fun marked_with_meta :: "'v marked \<Rightarrow> kv_meta option \<Rightarrow> 'v marked res" where
  "marked_with_meta (TombStone _) m = Inl (Panic UnreachableCode)"
| "marked_with_meta (Normal s v _) m = Inr (Normal s v m)"

section \<open>Keys of the expiration index\<close>

datatype expire_key = ExpireKey (time_ms: nat) (ek_seq: nat)

definition expire_key_is_expired :: "expire_key \<Rightarrow> nat \<Rightarrow> bool" where
  "expire_key_is_expired k t \<longleftrightarrow> time_ms k < t"

record expire_value =
  ev_seq :: nat
  ev_key :: rstr

fun marked_to_expire_value :: "rstr marked \<Rightarrow> expire_value option" where
  "marked_to_expire_value (TombStone _) = None"
| "marked_to_expire_value (Normal s v _) = Some \<lparr>ev_seq = s, ev_key = v\<rparr>"

definition marked_from_expire_value :: "expire_value \<Rightarrow> rstr marked" where
  "marked_from_expire_value v = Normal (ev_seq v) (ev_key v) None"

instantiation seq_tombstone :: linorder
begin

definition less_eq_seq_tombstone :: "seq_tombstone \<Rightarrow> seq_tombstone \<Rightarrow> bool" where
  "a \<le> b \<longleftrightarrow> (st_seq a, st_tombstone a) \<le> (st_seq b, st_tombstone b)"

definition less_seq_tombstone :: "seq_tombstone \<Rightarrow> seq_tombstone \<Rightarrow> bool" where
  "a < b \<longleftrightarrow> (st_seq a, st_tombstone a) < (st_seq b, st_tombstone b)"

instance
  by standard
    (auto simp: less_eq_seq_tombstone_def less_seq_tombstone_def seq_tombstone.expand)

end

instantiation expire_key :: linorder
begin

definition less_eq_expire_key :: "expire_key \<Rightarrow> expire_key \<Rightarrow> bool" where
  "a \<le> b \<longleftrightarrow> (time_ms a, ek_seq a) \<le> (time_ms b, ek_seq b)"

definition less_expire_key :: "expire_key \<Rightarrow> expire_key \<Rightarrow> bool" where
  "a < b \<longleftrightarrow> (time_ms a, ek_seq a) < (time_ms b, ek_seq b)"

instance
  by standard (auto simp: less_eq_expire_key_def less_expire_key_def expire_key.expand)

end

text \<open>\<open>Marked::max\<close>: the second argument wins a tie.\<close>

definition marked_max :: "'v marked \<Rightarrow> 'v marked \<Rightarrow> 'v marked" where
  "marked_max a b = (if order_key a > order_key b then a else b)"

section \<open>Lemmas\<close>

lemma seq_tombstone_le_iff [simp]:
  "SeqTombstone a x \<le> SeqTombstone b y \<longleftrightarrow> a < b \<or> a = b \<and> (x \<longrightarrow> y)"
  by (auto simp: less_eq_seq_tombstone_def)

lemma seq_tombstone_less_iff [simp]:
  "SeqTombstone a x < SeqTombstone b y \<longleftrightarrow> a < b \<or> a = b \<and> \<not> x \<and> y"
  by (auto simp: less_seq_tombstone_def)

lemma expire_key_le_iff [simp]:
  "ExpireKey t q \<le> ExpireKey t' q' \<longleftrightarrow> t < t' \<or> t = t' \<and> q \<le> q'"
  by (auto simp: less_eq_expire_key_def)

lemma expire_key_less_iff [simp]:
  "ExpireKey t q < ExpireKey t' q' \<longleftrightarrow> t < t' \<or> t = t' \<and> q < q'"
  by (auto simp: less_expire_key_def)

lemmas order_key_defs = SeqTombstone_normal_def SeqTombstone_tombstone_def

lemma is_not_found_iff: "is_not_found m \<longleftrightarrow> m = TombStone 0"
  by (cases m) auto

lemma marked_empty_simps [simp]:
  "is_not_found marked_empty" "is_tombstone marked_empty" "marked_to_seqv marked_empty = None"
  "unpack_marked marked_empty = None" "marked_seq marked_empty = 0"
  by (simp_all add: marked_empty_def)

lemma is_normal_simps [simp]: "\<not> is_normal (TombStone s)" "is_normal (Normal s v m)"
  by (simp_all add: is_normal_def)

lemma marked_max_eq_right: "order_key a \<le> order_key b \<Longrightarrow> marked_max a b = b"
  by (auto simp: marked_max_def dest: leD)

text \<open>Two entries with the same order key are the same tombstone, or both are values.\<close>

lemma order_key_tombstone_eq:
  "order_key a = order_key b \<Longrightarrow> is_tombstone a \<Longrightarrow> a = b"
  by (cases a; cases b) (auto simp: order_key_defs)

lemma order_key_seq_mono: "order_key a \<le> order_key b \<Longrightarrow> internal_seq a \<le> internal_seq b"
  by (cases a; cases b) (auto simp: order_key_defs)

lemma order_key_is_tombstone: "st_tombstone (order_key m) \<longleftrightarrow> is_tombstone m"
  by (cases m) (simp_all add: order_key_defs)

lemma st_seq_order_key: "st_seq (order_key m) = internal_seq m"
  by (cases m) (simp_all add: order_key_defs)

lemma marked_seqv_round_trip: "marked_to_seqv (marked_from_seqv v) = Some v"
  by (simp add: marked_from_seqv_def SeqV_with_meta_def)

lemma marked_to_seqv_None_iff [simp]: "marked_to_seqv m = None \<longleftrightarrow> is_tombstone m"
  by (cases m) auto

lemma marked_to_seqv_Some_iff:
  "marked_to_seqv m = Some v \<longleftrightarrow> m = Normal (sv_seq v) (sv_data v) (sv_meta v)"
  by (cases m; cases v) (auto simp: SeqV_with_meta_def)

lemma opt_seq_marked [simp]: "opt_seq (marked_to_seqv m) = marked_seq m"
  by (cases m) (simp_all add: SeqV_with_meta_def)

lemma opt_value_marked [simp]: "opt_value (marked_to_seqv m) = marked_value m"
  by (cases m) (simp_all add: SeqV_with_meta_def opt_value_def)

lemma opt_meta_marked [simp]: "opt_meta (marked_to_seqv m) = marked_meta m"
  by (cases m) (simp_all add: SeqV_with_meta_def opt_meta_def)

lemma unpack_marked_Some_iff: "unpack_marked m = Some (v, mt) \<longleftrightarrow> (\<exists>s. m = Normal s v mt)"
  by (cases m) auto

end
