(* ===== verification/StreamMore.thy ===== *)
theory StreamMore
  imports Prelude
begin

text \<open>
  The stream combinators of the third-party crate \<open>stream_more\<close> that the leveled store calls:
  \<open>KMerge\<close>, which merges streams by a comparison, and \<open>coalesce\<close>, which joins adjacent items.
  Their code is not part of the repository, so they are a parameter of the model, a record of
  two functions, and the store relies only on what \<open>stream_more_ok\<close> states:
  \<^item> merging streams that are sorted by a total preorder, with a comparison that decides that
    preorder between items of different streams without panicking, gives a sorted stream of
    exactly the same items;
  \<^item> \<open>coalesce f\<close> replaces the first two items by \<open>f\<close>'s result while \<open>f\<close> joins them, and
    otherwise yields the first item and goes on with the second.
  \<open>stream_more_ref\<close> is an executable instance; the contract is proved for it, so hypotheses
  that use the contract can be met.
\<close>

section \<open>Interface\<close>

record 'a stream_more =
  sm_kmerge :: "('a \<Rightarrow> 'a \<Rightarrow> bool res) \<Rightarrow> 'a list list \<Rightarrow> 'a list res"
  sm_coalesce :: "('a \<Rightarrow> 'a \<Rightarrow> ('a \<times> 'a) + 'a) \<Rightarrow> 'a list \<Rightarrow> 'a list"

definition kmerge_ok :: "'a stream_more \<Rightarrow> bool" where
  "kmerge_ok S \<longleftrightarrow>
     (\<forall>cmp R xss.
        (\<forall>x y. R x y \<or> R y x) \<longrightarrow> transp R \<longrightarrow>
        (\<forall>i < length xss. \<forall>j < length xss. i \<noteq> j \<longrightarrow>
           (\<forall>x \<in> set (xss ! i). \<forall>y \<in> set (xss ! j). cmp x y = Inr (R x y))) \<longrightarrow>
        (\<forall>xs \<in> set xss. sorted_wrt R xs) \<longrightarrow>
        (\<exists>ys. sm_kmerge S cmp xss = Inr ys \<and> mset ys = mset (concat xss) \<and> sorted_wrt R ys))"

definition coalesce_ok :: "'a stream_more \<Rightarrow> bool" where
  "coalesce_ok S \<longleftrightarrow>
     (\<forall>f. sm_coalesce S f [] = []) \<and>
     (\<forall>f x. sm_coalesce S f [x] = [x]) \<and>
     (\<forall>f x y zs. sm_coalesce S f (x # y # zs) =
        (case f x y of
           Inr z \<Rightarrow> sm_coalesce S f (z # zs)
         | Inl (a, b) \<Rightarrow> a # sm_coalesce S f (b # zs)))"

definition stream_more_ok :: "'a stream_more \<Rightarrow> bool" where
  "stream_more_ok S \<longleftrightarrow> kmerge_ok S \<and> coalesce_ok S"

section \<open>An executable instance\<close>

fun merge2 :: "('a \<Rightarrow> 'a \<Rightarrow> bool res) \<Rightarrow> 'a list \<Rightarrow> 'a list \<Rightarrow> 'a list res" where
  "merge2 cmp [] ys = Inr ys"
| "merge2 cmp xs [] = Inr xs"
| "merge2 cmp (x # xs) (y # ys) =
     rbind (cmp x y) (\<lambda>b.
       if b then rbind (merge2 cmp xs (y # ys)) (\<lambda>zs. Inr (x # zs))
       else rbind (merge2 cmp (x # xs) ys) (\<lambda>zs. Inr (y # zs)))"

fun kmerge_ref :: "('a \<Rightarrow> 'a \<Rightarrow> bool res) \<Rightarrow> 'a list list \<Rightarrow> 'a list res" where
  "kmerge_ref cmp [] = Inr []"
| "kmerge_ref cmp (xs # xss) = rbind (kmerge_ref cmp xss) (merge2 cmp xs)"

function coalesce_ref :: "('a \<Rightarrow> 'a \<Rightarrow> ('a \<times> 'a) + 'a) \<Rightarrow> 'a list \<Rightarrow> 'a list" where
  "coalesce_ref f [] = []"
| "coalesce_ref f [x] = [x]"
| "coalesce_ref f (x # y # zs) =
     (case f x y of
        Inr z \<Rightarrow> coalesce_ref f (z # zs)
      | Inl (a, b) \<Rightarrow> a # coalesce_ref f (b # zs))"
  by pat_completeness auto
termination
  by (relation "measure (\<lambda>(f, xs). length xs)") auto

definition stream_more_ref :: "'a stream_more" where
  "stream_more_ref = \<lparr>sm_kmerge = kmerge_ref, sm_coalesce = coalesce_ref\<rparr>"

section \<open>Lemmas\<close>

lemma kmerge_okD:
  assumes "kmerge_ok S" and "\<And>x y. R x y \<or> R y x" and "transp R"
    and "\<And>i j x y. i < length xss \<Longrightarrow> j < length xss \<Longrightarrow> i \<noteq> j \<Longrightarrow>
           x \<in> set (xss ! i) \<Longrightarrow> y \<in> set (xss ! j) \<Longrightarrow> cmp x y = Inr (R x y)"
    and "\<And>xs. xs \<in> set xss \<Longrightarrow> sorted_wrt R xs"
  obtains ys where "sm_kmerge S cmp xss = Inr ys" "mset ys = mset (concat xss)" "sorted_wrt R ys"
  using assms(1) [unfolded kmerge_ok_def, rule_format, of R xss cmp] assms(2-) by auto

lemma merge2_ok:
  assumes "\<And>x y. R x y \<or> R y x" and "transp R"
    and "\<And>x y. x \<in> set xs \<Longrightarrow> y \<in> set ys \<Longrightarrow> cmp x y = Inr (R x y)"
    and "sorted_wrt R xs" and "sorted_wrt R ys"
  shows "\<exists>zs. merge2 cmp xs ys = Inr zs \<and> mset zs = mset xs + mset ys \<and> sorted_wrt R zs"
  using assms
proof (induction cmp xs ys rule: merge2.induct)
  case (3 cmp x xs y ys)
  have cmp: "cmp x y = Inr (R x y)"
    using "3.prems"(3) by simp
  show ?case
  proof (cases "R x y")
    case True
    obtain zs where zs: "merge2 cmp xs (y # ys) = Inr zs"
      "mset zs = mset xs + mset (y # ys)" "sorted_wrt R zs"
      using "3.IH"(1) [OF cmp True] "3.prems" by auto
    have "\<forall>z \<in> set zs. R x z"
    proof
      fix z assume "z \<in> set zs"
      then have "z \<in> set xs \<or> z = y \<or> z \<in> set ys"
        using zs(2) by (metis Un_iff set_ConsD set_mset_mset set_mset_union)
      then show "R x z"
        using True "3.prems"(2,4,5) by (auto dest: transpD)
    qed
    with zs show ?thesis
      by (simp add: cmp True)
  next
    case False
    then have yx: "R y x" using "3.prems"(1) by blast
    obtain zs where zs: "merge2 cmp (x # xs) ys = Inr zs"
      "mset zs = mset (x # xs) + mset ys" "sorted_wrt R zs"
      using "3.IH"(2) [OF cmp False] "3.prems" by auto
    have "\<forall>z \<in> set zs. R y z"
    proof
      fix z assume "z \<in> set zs"
      then have "z = x \<or> z \<in> set xs \<or> z \<in> set ys"
        using zs(2) by (metis Un_iff set_ConsD set_mset_mset set_mset_union)
      then show "R y z"
        using yx "3.prems"(2,4,5) by (auto dest: transpD)
    qed
    with zs show ?thesis
      by (simp add: cmp False)
  qed
qed simp_all

lemma kmerge_ref_ok:
  assumes "\<And>x y. R x y \<or> R y x" and "transp R"
    and "\<And>i j x y. i < length xss \<Longrightarrow> j < length xss \<Longrightarrow> i \<noteq> j \<Longrightarrow>
           x \<in> set (xss ! i) \<Longrightarrow> y \<in> set (xss ! j) \<Longrightarrow> cmp x y = Inr (R x y)"
    and "\<And>xs. xs \<in> set xss \<Longrightarrow> sorted_wrt R xs"
  shows "\<exists>ys. kmerge_ref cmp xss = Inr ys \<and> mset ys = mset (concat xss) \<and> sorted_wrt R ys"
  using assms
proof (induction xss)
  case (Cons xs xss)
  have "cmp x y = Inr (R x y)"
    if "i < length xss" "j < length xss" "i \<noteq> j" "x \<in> set (xss ! i)" "y \<in> set (xss ! j)" for i j x y
    using Cons.prems(3) [of "Suc i" "Suc j" x y] that by simp
  then obtain ys where ys: "kmerge_ref cmp xss = Inr ys" "mset ys = mset (concat xss)"
    "sorted_wrt R ys"
    using Cons.IH Cons.prems(1,2,4) by auto
  have cross: "cmp x y = Inr (R x y)" if "x \<in> set xs" "y \<in> set ys" for x y
  proof -
    have "y \<in> set (concat xss)"
      using that(2) ys(2) by (metis set_mset_mset)
    then obtain zs where "zs \<in> set xss" "y \<in> set zs" by auto
    then obtain j where "j < length xss" "y \<in> set (xss ! j)"
      by (metis in_set_conv_nth)
    with that(1) Cons.prems(3) [of 0 "Suc j" x y] show ?thesis by simp
  qed
  show ?case
    using merge2_ok [of R xs ys cmp, OF Cons.prems(1,2) cross _ ys(3)] ys Cons.prems(4) by auto
qed simp

lemma stream_more_ref_ok: "stream_more_ok stream_more_ref"
proof -
  have "kmerge_ok stream_more_ref"
    unfolding kmerge_ok_def stream_more_ref_def by (auto intro!: kmerge_ref_ok)
  moreover have "coalesce_ok stream_more_ref"
    by (auto simp: coalesce_ok_def stream_more_ref_def split: sum.splits prod.splits)
  ultimately show ?thesis by (simp add: stream_more_ok_def)
qed

end
