(* ===== verification/MapApi.thy ===== *)
theory MapApi
  imports BTree MarkedValue StreamMore
begin

text \<open>
  The map interface of the leveled store (\<open>src/meta/raft-store/src/leveled_store/map_api.rs\<close>)
  and the two functions that read several levels as one map: \<open>compacted_get\<close> and
  \<open>compacted_range\<close>, with the comparison and the joining function of \<open>util.rs\<close>.

  The traits \<open>MapApiRO\<close> and \<open>MapApi\<close> are the record \<open>map_api\<close> of an implementation's functions.
  The locale \<open>map_api_ro\<close> states what a reader may rely on; the store's implementations are
  shown to satisfy it where they are defined. A list of tables, newest first, is well formed
  (\<open>tables_ok\<close>) when for every key a newer table holds a fresher entry. The central lemma,
  \<open>compacted_range_tables\<close>, says that merging the tables by \<open>(key, order_key)\<close> and keeping the
  greatest entry of each key gives exactly what reading the tables newest first gives.
\<close>

section \<open>The traits\<close>

type_synonym ('k, 'v) kvres = "('k \<times> 'v marked) res"

record ('m, 'k, 'v) map_api =
  ma_get :: "'m \<Rightarrow> 'k \<Rightarrow> 'v marked res"
  ma_range :: "'m \<Rightarrow> 'k bounds \<Rightarrow> ('k, 'v) kvres list res"
  ma_set :: "'m \<Rightarrow> 'k \<Rightarrow> ('v \<times> kv_meta option) option \<Rightarrow> (('v marked \<times> 'v marked) \<times> 'm) res"

text \<open>\<open>MapApiExt::update_meta\<close> and \<open>MapApiExt::upsert_value\<close>.\<close>

definition update_meta ::
    "('m, 'k, 'v) map_api \<Rightarrow> 'm \<Rightarrow> 'k \<Rightarrow> kv_meta option \<Rightarrow> (('v marked \<times> 'v marked) \<times> 'm) res" where
  "update_meta A s key meta =
     rbind (ma_get A s key) (\<lambda>got.
       if is_tombstone got then Inr ((got, got), s)
       else case unpack_marked got of
              None \<Rightarrow> Inl (Panic UnwrapNone)
            | Some (v, _) \<Rightarrow> ma_set A s key (Some (v, meta)))"

definition upsert_value ::
    "('m, 'k, 'v) map_api \<Rightarrow> 'm \<Rightarrow> 'k \<Rightarrow> 'v \<Rightarrow> (('v marked \<times> 'v marked) \<times> 'm) res" where
  "upsert_value A s key value =
     rbind (ma_get A s key) (\<lambda>got.
       let meta = (case unpack_marked got of Some (_, meta) \<Rightarrow> meta | None \<Rightarrow> None)
       in ma_set A s key (Some (value, meta)))"

section \<open>Comparing and joining entries\<close>

fun by_key_seq :: "('k::linorder, 'v) kvres \<Rightarrow> ('k, 'v) kvres \<Rightarrow> bool res" where
  "by_key_seq (Inr (k1, v1)) (Inr (k2, v2)) =
     (let iseq1 = order_key v1; iseq2 = order_key v2
      in if (k1, iseq1) \<noteq> (k2, iseq2) \<or> (st_tombstone iseq1 \<and> st_tombstone iseq2)
         then Inr ((k1, iseq1) \<le> (k2, iseq2))
         else Inl (Panic AssertFailed))"
| "by_key_seq _ _ = Inr True"

fun choose_greater ::
    "('k, 'v) kvres \<Rightarrow> ('k, 'v) kvres \<Rightarrow> (('k, 'v) kvres \<times> ('k, 'v) kvres) + ('k, 'v) kvres" where
  "choose_greater (Inr (k1, v1)) (Inr (k2, v2)) =
     (if k1 = k2 then Inr (Inr (k1, marked_max v1 v2)) else Inl (Inr (k1, v1), Inr (k2, v2)))"
| "choose_greater r1 r2 = Inl (r1, r2)"

section \<open>Reading several levels\<close>

text \<open>The loop of \<open>compacted_get\<close> over one group of levels.\<close>

fun first_found :: "('l \<Rightarrow> 'k \<Rightarrow> 'v marked res) \<Rightarrow> 'k \<Rightarrow> 'l list \<Rightarrow> 'v marked option res" where
  "first_found get key [] = Inr None"
| "first_found get key (l # ls) =
     rbind (get l key) (\<lambda>got.
       if \<not> is_not_found got then Inr (Some got) else first_found get key ls)"

definition compacted_get ::
    "('l \<Rightarrow> 'k \<Rightarrow> 'v marked res) \<Rightarrow> ('p \<Rightarrow> 'k \<Rightarrow> 'v marked res) \<Rightarrow>
     'k \<Rightarrow> 'l list \<Rightarrow> 'p list \<Rightarrow> 'v marked res" where
  "compacted_get get_l get_p key levels persisted =
     rbind (first_found get_l key levels) (\<lambda>r.
       case r of
         Some got \<Rightarrow> Inr got
       | None \<Rightarrow>
           rbind (first_found get_p key persisted) (\<lambda>r.
             case r of Some got \<Rightarrow> Inr got | None \<Rightarrow> Inr marked_empty))"

definition compacted_range ::
    "('k::linorder, 'v) kvres stream_more \<Rightarrow>
     ('t \<Rightarrow> 'k bounds \<Rightarrow> ('k, 'v) kvres list res) \<Rightarrow>
     ('l \<Rightarrow> 'k bounds \<Rightarrow> ('k, 'v) kvres list res) \<Rightarrow>
     ('p \<Rightarrow> 'k bounds \<Rightarrow> ('k, 'v) kvres list res) \<Rightarrow>
     'k bounds \<Rightarrow> 't option \<Rightarrow> 'l list \<Rightarrow> 'p list \<Rightarrow> ('k, 'v) kvres list res" where
  "compacted_range S range_t range_l range_p r top_level levels persisted =
     rbind (rmap (\<lambda>t. range_t t r) (case top_level of None \<Rightarrow> [] | Some t \<Rightarrow> [t])) (\<lambda>s0.
     rbind (rmap (\<lambda>l. range_l l r) levels) (\<lambda>s1.
     rbind (rmap (\<lambda>p. range_p p r) persisted) (\<lambda>s2.
     rbind (sm_kmerge S by_key_seq (s0 @ s1 @ s2)) (\<lambda>kmerge.
     Inr (sm_coalesce S choose_greater kmerge)))))"

section \<open>Specification: tables, newest first\<close>

type_synonym ('k, 'v) table = "('k, 'v marked) btree"

fun tables_get :: "('k, 'v) table list \<Rightarrow> 'k \<Rightarrow> 'v marked" where
  "tables_get [] k = TombStone 0"
| "tables_get (t # ts) k = (case btree_get t k of Some m \<Rightarrow> m | None \<Rightarrow> tables_get ts k)"

definition table_ok :: "nat \<Rightarrow> ('k::linorder, 'v) table \<Rightarrow> bool" where
  "table_ok cs t \<longleftrightarrow>
     btree_ok t \<and> (\<forall>(k, m) \<in> set t. 1 \<le> internal_seq m \<and> internal_seq m \<le> cs)"

definition newer :: "('k, 'v) table \<Rightarrow> ('k, 'v) table \<Rightarrow> bool" where
  "newer t1 t2 \<longleftrightarrow>
     (\<forall>k m1 m2. (k, m1) \<in> set t1 \<longrightarrow> (k, m2) \<in> set t2 \<longrightarrow>
        order_key m2 < order_key m1 \<or> (m1 = m2 \<and> is_tombstone m1))"

definition tables_ok :: "nat \<Rightarrow> ('k::linorder, 'v) table list \<Rightarrow> bool" where
  "tables_ok cs ts \<longleftrightarrow> (\<forall>t \<in> set ts. table_ok cs t) \<and> sorted_wrt newer ts"

definition table_range :: "'k::linorder bounds \<Rightarrow> ('k, 'v) table \<Rightarrow> ('k, 'v) table" where
  "table_range r t = filter (\<lambda>(k, m). in_bounds r k) t"

text \<open>What a range over a map that reads as \<open>view\<close> returns.\<close>

definition range_spec ::
    "('k::linorder \<Rightarrow> 'v marked) \<Rightarrow> 'k bounds \<Rightarrow> ('k \<times> 'v marked) list \<Rightarrow> bool" where
  "range_spec view r xs \<longleftrightarrow>
     sorted_wrt (<) (map fst xs) \<and>
     (\<forall>(k, m) \<in> set xs. in_bounds r k \<and> view k = m) \<and>
     (\<forall>k. in_bounds r k \<longrightarrow> is_normal (view k) \<longrightarrow> (k, view k) \<in> set xs)"

text \<open>\<open>marked_to_seqv\<close> of \<open>state_machine_api_ext.rs\<close>: tombstones are dropped.\<close>

fun marked_to_kv :: "'k \<times> 'v marked \<Rightarrow> ('k \<times> 'v seqv) option" where
  "marked_to_kv (k, m) = map_option (Pair k) (marked_to_seqv m)"

text \<open>The live entries of the keys that satisfy \<open>P\<close>, in key order.\<close>

definition live_spec ::
    "('k::linorder \<Rightarrow> 'v marked) \<Rightarrow> ('k \<Rightarrow> bool) \<Rightarrow> ('k \<times> 'v seqv) list \<Rightarrow> bool" where
  "live_spec view P xs \<longleftrightarrow>
     sorted_wrt (<) (map fst xs) \<and>
     set xs = {(k, v). P k \<and> marked_to_seqv (view k) = Some v}"

text \<open>The last entry of every run of entries with one key.\<close>

fun last_by_key :: "('k \<times> 'a) list \<Rightarrow> ('k \<times> 'a) list" where
  "last_by_key [] = []"
| "last_by_key [x] = [x]"
| "last_by_key (x # y # zs) =
     (if fst x = fst y then last_by_key (y # zs) else x # last_by_key (y # zs))"

abbreviation entry_sorted :: "('k::linorder \<times> 'v marked) list \<Rightarrow> bool" where
  "entry_sorted \<equiv> sorted_wrt (\<lambda>x y. (fst x, order_key (snd x)) \<le> (fst y, order_key (snd y)))"

section \<open>Lemmas\<close>

subsection \<open>Merging and joining\<close>

text \<open>The order in which a merged stream yields its items, for entries that are ordered as \<open>g\<close> says.\<close>

definition merge_le :: "('a \<Rightarrow> 'v marked) \<Rightarrow> ('k::linorder \<times> 'a) res \<Rightarrow> ('k \<times> 'a) res \<Rightarrow> bool" where
  "merge_le g x y \<longleftrightarrow>
     (case x of Inl e \<Rightarrow> True
      | Inr (k1, v1) \<Rightarrow> (case y of Inl e \<Rightarrow> False | Inr (k2, v2) \<Rightarrow> (k1, order_key (g v1)) \<le> (k2, order_key (g v2))))"

lemma merge_le_total: "merge_le g x y \<or> merge_le g y x"
  by (auto simp: merge_le_def split: sum.splits)

lemma transp_merge_le: "transp (merge_le g)"
  by (rule transpI) (force simp: merge_le_def split: sum.splits)

lemma merge_le_Inr:
  "merge_le g (Inr x) (Inr y) \<longleftrightarrow> (fst x, order_key (g (snd x))) \<le> (fst y, order_key (g (snd y)))"
  by (cases x; cases y) (simp add: merge_le_def)

lemma coalesce_last:
  assumes "coalesce_ok S" and "sorted_wrt P zs"
    and "\<And>x y. P x y \<Longrightarrow> f (Inr x) (Inr y) = (if fst x = fst y then Inr (Inr y) else Inl (Inr x, Inr y))"
  shows "sm_coalesce S f (map Inr zs) = map Inr (last_by_key zs)"
  using assms(2)
proof (induction zs rule: last_by_key.induct)
  case (3 x y zs)
  then have "f (Inr x) (Inr y) = (if fst x = fst y then Inr (Inr y) else Inl (Inr x, Inr y))"
    by (intro assms(3)) simp
  with 3 assms(1) show ?case
    by (simp add: coalesce_ok_def)
qed (use assms(1) in \<open>auto simp: coalesce_ok_def\<close>)

text \<open>
  Merging sorted streams and joining the entries of one key: the items of all streams, sorted,
  of which the last entry of every key is kept.
\<close>

lemma kmerge_last:
  fixes S :: "('k::linorder \<times> 'a) res stream_more" and g :: "'a \<Rightarrow> 'v marked"
  assumes S: "stream_more_ok S"
    and cross: "\<And>i j x y. i < length ts \<Longrightarrow> j < length ts \<Longrightarrow> i \<noteq> j \<Longrightarrow> x \<in> set (ts ! i) \<Longrightarrow> y \<in> set (ts ! j) \<Longrightarrow>
      cmp (Inr x) (Inr y) = Inr (merge_le g (Inr x) (Inr y))"
    and each: "\<And>t. t \<in> set ts \<Longrightarrow> btree_ok t"
    and join: "\<And>x y. merge_le g (Inr x) (Inr y) \<Longrightarrow>
      f (Inr x) (Inr y) = (if fst x = fst y then Inr (Inr y) else Inl (Inr x, Inr y))"
  shows "\<exists>ys zs. sm_kmerge S cmp (map (map Inr) ts) = Inr ys \<and>
    sm_coalesce S f ys = map Inr (last_by_key zs) \<and> set zs = set (concat ts) \<and>
    entry_sorted (map (map_prod id g) zs)"
proof -
  let ?xss = "map (map Inr) ts"
  have cross': "cmp x y = Inr (merge_le g x y)"
    if "i < length ?xss" "j < length ?xss" "i \<noteq> j" "x \<in> set (?xss ! i)" "y \<in> set (?xss ! j)" for i j x y
    using that cross [of i j] by auto
  have each': "sorted_wrt (merge_le g) xs" if "xs \<in> set ?xss" for xs
  proof -
    obtain t where t: "t \<in> set ts" "xs = map Inr t" using \<open>xs \<in> set ?xss\<close> by auto
    then have "sorted_wrt (\<lambda>x y. fst x < fst y) t"
      using each [OF t(1)] by (simp add: btree_ok_def sorted_wrt_map)
    then show ?thesis
      unfolding t(2) sorted_wrt_map by (rule sorted_wrt_mono_rel [rotated]) (auto simp: merge_le_Inr)
  qed
  have "kmerge_ok S" using S by (simp add: stream_more_ok_def)
  then obtain ys where ys: "sm_kmerge S cmp ?xss = Inr ys" "mset ys = mset (concat ?xss)"
    "sorted_wrt (merge_le g) ys"
    by (rule kmerge_okD [OF _ merge_le_total transp_merge_le cross' each'])
  have Inr_zs: "concat ?xss = map Inr (concat ts)"
    by (simp add: map_concat)
  have set_ys: "set ys = Inr ` set (concat ts)"
    using mset_eq_setD [OF ys(2)] unfolding Inr_zs by (simp only: list.set_map)
  define zs where "zs = map projr ys"
  have ys_zs: "ys = map Inr zs"
  proof -
    have "\<forall>y \<in> set ys. Inr (projr y) = y"
      unfolding set_ys by auto
    then have "map (\<lambda>y. Inr (projr y)) ys = ys" by (simp add: map_idI)
    then show ?thesis by (simp add: zs_def comp_def)
  qed
  have set_zs: "set zs = set (concat ts)"
    using set_ys by (simp only: zs_def list.set_map image_image sum.sel(2) image_ident)
  have srt: "sorted_wrt (\<lambda>x y. merge_le g (Inr x) (Inr y)) zs"
    using ys(3) unfolding ys_zs by (simp add: sorted_wrt_map)
  have "sm_coalesce S f ys = map Inr (last_by_key zs)"
    unfolding ys_zs by (rule coalesce_last [OF _ srt join]) (use S in \<open>simp add: stream_more_ok_def\<close>)
  moreover have "entry_sorted (map (map_prod id g) zs)"
    using srt by (simp add: sorted_wrt_map merge_le_Inr)
  ultimately show ?thesis
    using ys(1) set_zs by blast
qed

lemma choose_greater_last:
  "merge_le id (Inr x) (Inr y) \<Longrightarrow>
   choose_greater (Inr x) (Inr y) = (if fst x = fst y then Inr (Inr y) else Inl (Inr x, Inr y))"
  by (cases x; cases y) (auto simp: merge_le_Inr intro: marked_max_eq_right)

lemma last_by_key_map:
  "last_by_key (map (map_prod id g) zs) = map (map_prod id g) (last_by_key zs)"
  by (induction zs rule: last_by_key.induct) auto

lemma last_by_key_subset: "set (last_by_key zs) \<subseteq> set zs"
  by (induction zs rule: last_by_key.induct) auto

lemma last_by_key_sorted: "entry_sorted zs \<Longrightarrow> sorted_wrt (<) (map fst (last_by_key zs))"
proof (induction zs rule: last_by_key.induct)
  case (3 x y zs)
  show ?case
  proof (cases "fst x = fst y")
    case False
    then have "fst x < fst y"
      using "3.prems" by auto
    moreover have "fst y \<le> k" if "k \<in> fst ` set (y # zs)" for k
      using "3.prems" that by auto
    ultimately have "\<forall>k \<in> fst ` set (last_by_key (y # zs)). fst x < k"
      using last_by_key_subset [of "y # zs"] by fastforce
    with False 3 show ?thesis by simp
  qed (use 3 in auto)
qed simp_all

lemma last_by_key_max:
  assumes "entry_sorted zs" and "(k, m) \<in> set (last_by_key zs)" and "(k, m') \<in> set zs"
  shows "order_key m' \<le> order_key m"
  using assms
proof (induction zs arbitrary: m' rule: last_by_key.induct)
  case (3 x y zs)
  show ?case
  proof (cases "fst x = fst y")
    case True
    with "3.prems" have last: "(k, m) \<in> set (last_by_key (y # zs))" by simp
    show ?thesis
    proof (cases "(k, m') = x")
      case xk: True
      with True "3.prems"(1) have "(k, snd y) \<in> set (y # zs)" "order_key m' \<le> order_key (snd y)"
        by (cases y; auto)+
      with 3 True last show ?thesis by (meson order_trans sorted_wrt.simps(2))
    qed (use 3 True last in auto)
  next
    case False
    then have lt: "\<forall>p \<in> set (y # zs). fst x < fst p"
      using "3.prems"(1) by (auto simp: less_le)
    show ?thesis
    proof (cases "(k, m) = x")
      case True
      with lt "3.prems"(3) show ?thesis by fastforce
    next
      case False
      with \<open>fst x \<noteq> fst y\<close> "3.prems"(2) have "(k, m) \<in> set (last_by_key (y # zs))" by auto
      moreover have "(k, m') \<in> set (y # zs)"
        using calculation "3.prems"(3) lt last_by_key_subset [of "y # zs"] by fastforce
      ultimately show ?thesis
        using 3 \<open>fst x \<noteq> fst y\<close> by simp
    qed
  qed
qed auto

lemma last_by_key_complete: "(k, m) \<in> set zs \<Longrightarrow> \<exists>m'. (k, m') \<in> set (last_by_key zs)"
proof (induction zs arbitrary: m rule: last_by_key.induct)
  case (3 x y zs)
  show ?case
  proof (cases "fst x = fst y \<and> (k, m) = x")
    case True
    then have "(k, snd y) \<in> set (y # zs)" by (cases y) auto
    with 3 True show ?thesis by fastforce
  next
    case False
    with 3 show ?thesis by (auto split: if_splits)
  qed
qed auto

text \<open>
  The entries kept from a sorted stream, when no two distinct entries of a key have the same
  order key: for every key the entry with the greatest order key.
\<close>

lemma set_last_by_key:
  assumes "entry_sorted zs"
    and "\<And>k m m'. (k, m) \<in> set zs \<Longrightarrow> (k, m') \<in> set zs \<Longrightarrow> order_key m = order_key m' \<Longrightarrow> m = m'"
  shows "set (last_by_key zs) =
    {(k, m). (k, m) \<in> set zs \<and> (\<forall>m'. (k, m') \<in> set zs \<longrightarrow> order_key m' \<le> order_key m)}"
    (is "_ = ?M")
proof
  show "set (last_by_key zs) \<subseteq> ?M"
    using last_by_key_subset [of zs] last_by_key_max [OF assms(1)] by blast
  show "?M \<subseteq> set (last_by_key zs)"
  proof
    fix p assume "p \<in> ?M"
    then obtain k m where p: "p = (k, m)" "(k, m) \<in> set zs"
      "\<forall>m'. (k, m') \<in> set zs \<longrightarrow> order_key m' \<le> order_key m" by blast
    then obtain m' where m': "(k, m') \<in> set (last_by_key zs)"
      using last_by_key_complete [OF p(2)] by blast
    then have "(k, m') \<in> set zs"
      using last_by_key_subset by fastforce
    then have "m' = m"
      using p(2,3) last_by_key_max [OF assms(1) m' p(2)] assms(2) [of k m' m] by (simp add: antisym)
    with m' p(1) show "p \<in> set (last_by_key zs)" by simp
  qed
qed

subsection \<open>Tables\<close>

lemma table_ok_btree: "table_ok cs t \<Longrightarrow> btree_ok t"
  by (simp add: table_ok_def)

lemma table_ok_seq:
  "table_ok cs t \<Longrightarrow> (k, m) \<in> set t \<Longrightarrow> 1 \<le> internal_seq m \<and> internal_seq m \<le> cs"
  by (auto simp: table_ok_def)

lemma table_ok_found: "table_ok cs t \<Longrightarrow> (k, m) \<in> set t \<Longrightarrow> \<not> is_not_found m"
  using table_ok_seq by (cases m) fastforce+

lemma table_ok_mono: "table_ok cs t \<Longrightarrow> cs \<le> cs' \<Longrightarrow> table_ok cs' t"
  by (fastforce simp: table_ok_def)

lemma tables_ok_mono: "tables_ok cs ts \<Longrightarrow> cs \<le> cs' \<Longrightarrow> tables_ok cs' ts"
  by (auto simp: tables_ok_def intro: table_ok_mono)

lemma tables_ok_Nil [simp]: "tables_ok cs []"
  by (simp add: tables_ok_def)

lemma tables_ok_Cons:
  "tables_ok cs (t # ts) \<longleftrightarrow> table_ok cs t \<and> (\<forall>u \<in> set ts. newer t u) \<and> tables_ok cs ts"
  by (auto simp: tables_ok_def)

lemma table_ok_Nil [simp]: "table_ok cs []"
  by (simp add: table_ok_def)

lemma newer_Nil [simp]: "newer [] t" "newer t []"
  by (simp_all add: newer_def)

lemma tables_get_eq_Normal:
  "tables_ok cs ts \<Longrightarrow> \<not> is_not_found (tables_get ts k) \<Longrightarrow>
     \<exists>t \<in> set ts. (k, tables_get ts k) \<in> set t"
proof (induction ts)
  case (Cons t ts)
  then show ?case
    by (cases "btree_get t k")
      (auto simp: tables_ok_Cons btree_get_in_set table_ok_btree)
qed simp

lemma tables_get_max:
  assumes "tables_ok cs ts" and "t \<in> set ts" and "(k, m) \<in> set t"
  shows "order_key m \<le> order_key (tables_get ts k) \<and> \<not> is_not_found (tables_get ts k)"
  using assms
proof (induction ts)
  case (Cons u ts)
  have u: "table_ok cs u" "btree_ok u" and nw: "\<forall>t \<in> set ts. newer u t" and ts: "tables_ok cs ts"
    using Cons.prems(1) by (auto simp: tables_ok_Cons table_ok_btree)
  show ?case
  proof (cases "btree_get u k")
    case None
    then have "t \<noteq> u"
      using Cons.prems(3) u(2) by (metis btree_get_in_set option.distinct(1))
    with Cons ts None show ?thesis by simp
  next
    case (Some n)
    then have n: "(k, n) \<in> set u"
      using u(2) by (simp add: btree_get_in_set)
    have "order_key m \<le> order_key n"
    proof (cases "t = u")
      case True
      with Cons.prems(3) Some u(2) show ?thesis
        by (metis btree_get_in_set option.inject order_refl)
    next
      case False
      with Cons.prems nw n show ?thesis
        by (fastforce simp: newer_def)
    qed
    with Some n u(1) table_ok_found show ?thesis by auto
  qed
qed simp

lemma tables_same_order_key:
  assumes "tables_ok cs ts" and "t \<in> set ts" "(k, m) \<in> set t" and "u \<in> set ts" "(k, n) \<in> set u"
    and "order_key m = order_key n"
  shows "m = n"
  using assms
proof (induction ts)
  case (Cons v ts)
  have v: "btree_ok v" and nw: "\<forall>t \<in> set ts. newer v t" and ts: "tables_ok cs ts"
    using Cons.prems(1) by (auto simp: tables_ok_Cons table_ok_btree)
  consider "t = v" "u = v" | "t = v" "u \<in> set ts" | "t \<in> set ts" "u = v" | "t \<in> set ts" "u \<in> set ts"
    using Cons.prems(2,4) by auto
  then show ?case
  proof cases
    case 1
    with Cons.prems(3,5) v show ?thesis by (metis btree_get_in_set option.inject)
  next
    case 2
    with Cons.prems(3,5,6) nw show ?thesis by (fastforce simp: newer_def)
  next
    case 3
    with Cons.prems(3,5,6) nw show ?thesis by (fastforce simp: newer_def)
  next
    case 4
    with Cons ts show ?thesis by blast
  qed
qed simp

text \<open>Reading the tables newest first finds the entry with the greatest order key.\<close>

lemma tables_get_iff_max:
  assumes "tables_ok cs ts"
  shows "tables_get ts k = m \<and> \<not> is_not_found m \<longleftrightarrow>
    (\<exists>t \<in> set ts. (k, m) \<in> set t) \<and>
    (\<forall>m'. (\<exists>t \<in> set ts. (k, m') \<in> set t) \<longrightarrow> order_key m' \<le> order_key m)"
proof
  assume "tables_get ts k = m \<and> \<not> is_not_found m"
  then show "(\<exists>t \<in> set ts. (k, m) \<in> set t) \<and>
    (\<forall>m'. (\<exists>t \<in> set ts. (k, m') \<in> set t) \<longrightarrow> order_key m' \<le> order_key m)"
    using assms tables_get_eq_Normal tables_get_max by blast
next
  assume *: "(\<exists>t \<in> set ts. (k, m) \<in> set t) \<and>
    (\<forall>m'. (\<exists>t \<in> set ts. (k, m') \<in> set t) \<longrightarrow> order_key m' \<le> order_key m)"
  then obtain t where t: "t \<in> set ts" "(k, m) \<in> set t" by blast
  then have found: "\<not> is_not_found (tables_get ts k)"
    using tables_get_max [OF assms] by blast
  then obtain u where u: "u \<in> set ts" "(k, tables_get ts k) \<in> set u"
    using tables_get_eq_Normal [OF assms] by blast
  have "order_key m = order_key (tables_get ts k)"
    using * u tables_get_max [OF assms t] by (meson antisym)
  then show "tables_get ts k = m \<and> \<not> is_not_found m"
    using tables_same_order_key [OF assms t u] found by simp
qed

subsection \<open>Reading several levels\<close>

lemma first_found_tables:
  assumes "\<And>l. l \<in> set ls \<Longrightarrow>
      get l k = Inr (case btree_get (tab l) k of Some m \<Rightarrow> m | None \<Rightarrow> marked_empty)"
    and "\<And>l. l \<in> set ls \<Longrightarrow> table_ok cs (tab l)"
  shows "first_found get k ls =
    Inr (let m = tables_get (map tab ls) k in if is_not_found m then None else Some m)"
  using assms
proof (induction ls)
  case (Cons l ls)
  show ?case
  proof (cases "btree_get (tab l) k")
    case None
    with Cons show ?thesis by simp
  next
    case (Some m)
    then have "\<not> is_not_found m"
      using Cons.prems(2) [of l] by (auto simp: btree_get_in_set table_ok_btree dest: table_ok_found)
    with Some Cons.prems(1) [of l] show ?thesis by (simp add: Let_def)
  qed
qed simp

lemma tables_get_append:
  "tables_ok cs ts \<Longrightarrow>
   tables_get (ts @ us) k =
     (let m = tables_get ts k in if is_not_found m then tables_get us k else m)"
proof (induction ts)
  case (Cons t ts)
  show ?case
  proof (cases "btree_get t k")
    case (Some m)
    then have "\<not> is_not_found m"
      using Cons.prems by (auto simp: tables_ok_Cons btree_get_in_set table_ok_btree dest: table_ok_found)
    with Some show ?thesis by (simp add: Let_def)
  qed (use Cons in \<open>simp add: tables_ok_Cons\<close>)
qed simp

lemma compacted_get_tables:
  assumes "\<And>l. l \<in> set ls \<Longrightarrow>
      get_l l k = Inr (case btree_get (tab_l l) k of Some m \<Rightarrow> m | None \<Rightarrow> marked_empty)"
    and "\<And>p. p \<in> set ps \<Longrightarrow>
      get_p p k = Inr (case btree_get (tab_p p) k of Some m \<Rightarrow> m | None \<Rightarrow> marked_empty)"
    and "tables_ok cs (map tab_l ls @ map tab_p ps)"
  shows "compacted_get get_l get_p k ls ps = Inr (tables_get (map tab_l ls @ map tab_p ps) k)"
proof -
  have oks: "tables_ok cs (map tab_l ls)" "tables_ok cs (map tab_p ps)"
    using assms(3) by (auto simp: tables_ok_def sorted_wrt_append)
  have "first_found get_l k ls =
      Inr (let m = tables_get (map tab_l ls) k in if is_not_found m then None else Some m)"
    by (rule first_found_tables [where cs = cs]) (use assms(1) oks in \<open>auto simp: tables_ok_def\<close>)
  moreover have "first_found get_p k ps =
      Inr (let m = tables_get (map tab_p ps) k in if is_not_found m then None else Some m)"
    by (rule first_found_tables [where cs = cs]) (use assms(2) oks in \<open>auto simp: tables_ok_def\<close>)
  ultimately show ?thesis
    by (simp add: compacted_get_def tables_get_append [OF oks(1)] Let_def is_not_found_iff marked_empty_def)
qed

lemma by_key_seq_tables:
  assumes "tables_ok cs ts" "i < length ts" "j < length ts" "i \<noteq> j"
    and "x \<in> set (ts ! i)" "y \<in> set (ts ! j)"
  shows "by_key_seq (Inr x) (Inr y) = Inr (merge_le id (Inr x) (Inr y))"
proof -
  obtain k1 m1 k2 m2 where xy: "x = (k1, m1)" "y = (k2, m2)" by fastforce
  have "order_key m1 \<noteq> order_key m2 \<or> (is_tombstone m1 \<and> is_tombstone m2)" if "k1 = k2"
  proof (cases "i < j")
    case True
    then have "newer (ts ! i) (ts ! j)"
      using assms(1,3) by (simp add: tables_ok_def sorted_wrt_nth_less)
    with that xy assms(5,6) show ?thesis by (fastforce simp: newer_def)
  next
    case False
    then have "newer (ts ! j) (ts ! i)"
      using assms(1,2,4) by (simp add: tables_ok_def sorted_wrt_nth_less)
    with that xy assms(5,6) show ?thesis by (fastforce simp: newer_def)
  qed
  then show ?thesis
    by (auto simp: xy merge_le_Inr order_key_is_tombstone Let_def)
qed

text \<open>
  Merging the streams of well-formed tables never trips the assertion of \<open>by_key_seq\<close> and
  yields, in key order, the entry that reading the tables newest first finds.
\<close>

lemma merge_tables:
  assumes S: "stream_more_ok S" and ok: "tables_ok cs ts"
  shows "\<exists>ys xs. sm_kmerge S by_key_seq (map (\<lambda>t. map Inr (table_range r t)) ts) = Inr ys \<and>
    sm_coalesce S choose_greater ys = map Inr xs \<and> sorted_wrt (<) (map fst xs) \<and>
    set xs = {(k, m). in_bounds r k \<and> tables_get ts k = m \<and> \<not> is_not_found m}"
proof -
  let ?ts = "map (table_range r) ts"
  have cross: "by_key_seq (Inr x) (Inr y) = Inr (merge_le id (Inr x) (Inr y))"
    if "i < length ?ts" "j < length ?ts" "i \<noteq> j" "x \<in> set (?ts ! i)" "y \<in> set (?ts ! j)" for i j x y
    using that by_key_seq_tables [OF ok, of i j] by (auto simp: table_range_def)
  have each: "btree_ok t" if "t \<in> set ?ts" for t
    using ok that by (auto simp: tables_ok_def table_range_def intro: btree_ok_filter table_ok_btree)
  have "\<exists>ys zs. sm_kmerge S by_key_seq (map (map Inr) ?ts) = Inr ys \<and>
      sm_coalesce S choose_greater ys = map Inr (last_by_key zs) \<and> set zs = set (concat ?ts) \<and>
      entry_sorted (map (map_prod id id) zs)"
    by (rule kmerge_last [OF S]) (erule (4) cross, erule each, erule choose_greater_last)
  then obtain ys zs where ys: "sm_kmerge S by_key_seq (map (map Inr) ?ts) = Inr ys"
    "sm_coalesce S choose_greater ys = map Inr (last_by_key zs)" "set zs = set (concat ?ts)"
    "entry_sorted (map (map_prod id id) zs)"
    by blast
  have mem: "(k, m) \<in> set zs \<longleftrightarrow> in_bounds r k \<and> (\<exists>t \<in> set ts. (k, m) \<in> set t)" for k m
    using ys(3) by (auto simp: table_range_def)
  have srt: "entry_sorted zs"
    using ys(4) by (simp only: prod.map_id0 list.map_id id_apply)
  have uniq: "m = m'" if "(k, m) \<in> set zs" "(k, m') \<in> set zs" "order_key m = order_key m'" for k m m'
    using that tables_same_order_key [OF ok] unfolding mem by blast
  have "set (last_by_key zs) =
      {(k, m). in_bounds r k \<and> tables_get ts k = m \<and> \<not> is_not_found m}"
  proof -
    have "set (last_by_key zs) =
        {(k, m). (k, m) \<in> set zs \<and> (\<forall>m'. (k, m') \<in> set zs \<longrightarrow> order_key m' \<le> order_key m)}"
      by (rule set_last_by_key [OF srt]) (rule uniq)
    then show ?thesis
      unfolding mem tables_get_iff_max [OF ok] by blast
  qed
  with ys(1,2) last_by_key_sorted [OF srt] show ?thesis
    by (auto simp: comp_def)
qed

lemma compacted_range_tables:
  assumes "stream_more_ok S"
    and "\<And>t. t \<in> set_option tp \<Longrightarrow> range_t t r = Inr (map Inr (table_range r (tab_t t)))"
    and "\<And>l. l \<in> set ls \<Longrightarrow> range_l l r = Inr (map Inr (table_range r (tab_l l)))"
    and "\<And>p. p \<in> set ps \<Longrightarrow> range_p p r = Inr (map Inr (table_range r (tab_p p)))"
    and "ts = map tab_t (case tp of None \<Rightarrow> [] | Some t \<Rightarrow> [t]) @ map tab_l ls @ map tab_p ps"
    and "tables_ok cs ts"
  shows "\<exists>xs. compacted_range S range_t range_l range_p r tp ls ps = Inr (map Inr xs) \<and>
    sorted_wrt (<) (map fst xs) \<and>
    set xs = {(k, m). in_bounds r k \<and> tables_get ts k = m \<and> \<not> is_not_found m}"
proof -
  let ?f = "\<lambda>t. map Inr (table_range r t)"
  have "rmap (\<lambda>t. range_t t r) (case tp of None \<Rightarrow> [] | Some t \<Rightarrow> [t]) =
      Inr (map (?f \<circ> tab_t) (case tp of None \<Rightarrow> [] | Some t \<Rightarrow> [t]))"
    by (rule rmap_Inr) (use assms(2) in \<open>auto split: option.splits\<close>)
  moreover have "rmap (\<lambda>l. range_l l r) ls = Inr (map (?f \<circ> tab_l) ls)"
    by (rule rmap_Inr) (use assms(3) in auto)
  moreover have "rmap (\<lambda>p. range_p p r) ps = Inr (map (?f \<circ> tab_p) ps)"
    by (rule rmap_Inr) (use assms(4) in auto)
  moreover obtain ys xs where "sm_kmerge S by_key_seq (map ?f ts) = Inr ys"
    "sm_coalesce S choose_greater ys = map Inr xs" "sorted_wrt (<) (map fst xs)"
    "set xs = {(k, m). in_bounds r k \<and> tables_get ts k = m \<and> \<not> is_not_found m}"
    using merge_tables [OF assms(1,6), of r] by blast
  ultimately show ?thesis
    by (simp add: compacted_range_def assms(5))
qed

subsection \<open>The reader's interface\<close>

lemma sorted_map_filter:
  assumes "\<And>x y. f x = Some y \<Longrightarrow> g y = h x" and "sorted_wrt R (map h xs)"
  shows "sorted_wrt R (map g (List.map_filter f xs))"
  using assms(2)
proof (induction xs)
  case Nil
  then show ?case by (simp add: List.map_filter_simps)
next
  case (Cons x xs)
  then show ?case
    using assms(1) by (auto simp: List.map_filter_simps set_map_filter split: option.splits)
qed

lemma live_spec_unique: "live_spec view P xs \<Longrightarrow> live_spec view P ys \<Longrightarrow> xs = ys"
  by (rule sorted_alist_unique) (auto simp: live_spec_def)

lemma live_spec_cong:
  "(\<And>k. marked_to_seqv (view k) = marked_to_seqv (view' k)) \<Longrightarrow>
   live_spec view P xs \<longleftrightarrow> live_spec view' P xs"
  by (simp add: live_spec_def)

text \<open>
  What a reader of a map may rely on: an instance that satisfies its invariant reads as a total
  function \<open>view\<close> (absent keys as the empty tombstone), reads never fail, and an admissible range
  (\<open>rok\<close>) returns entries of the view in key order, among them every live one.
\<close>

locale map_api_ro =
  fixes get :: "'m \<Rightarrow> 'k::linorder \<Rightarrow> 'v marked res"
    and rng :: "'m \<Rightarrow> 'k bounds \<Rightarrow> ('k, 'v) kvres list res"
    and rok :: "'k bounds \<Rightarrow> bool"
    and inv :: "'m \<Rightarrow> bool"
    and view :: "'m \<Rightarrow> 'k \<Rightarrow> 'v marked"
  assumes get_view: "inv m \<Longrightarrow> get m k = Inr (view m k)"
    and rng_view: "inv m \<Longrightarrow> rok r \<Longrightarrow> \<exists>xs. rng m r = Inr (map Inr xs) \<and> range_spec (view m) r xs"
begin

text \<open>Dropping the tombstones of a range leaves exactly the live entries, in key order.\<close>

lemma rng_live:
  assumes "inv m" and "rok r"
  shows "\<exists>xs. rng m r = Inr (map Inr xs) \<and> range_spec (view m) r xs \<and>
    live_spec (view m) (in_bounds r) (List.map_filter marked_to_kv xs)"
proof -
  obtain xs where xs: "rng m r = Inr (map Inr xs)" "range_spec (view m) r xs"
    using rng_view [OF assms] by blast
  have "sorted_wrt (<) (map fst (List.map_filter marked_to_kv xs))"
    by (rule sorted_map_filter [where h = fst]) (use xs(2) in \<open>auto simp: range_spec_def\<close>)
  moreover have "set (List.map_filter marked_to_kv xs) =
      {(k, v). in_bounds r k \<and> marked_to_seqv (view m k) = Some v}"
  proof (intro set_eqI iffI)
    fix p assume "p \<in> set (List.map_filter marked_to_kv xs)"
    with xs(2) show "p \<in> {(k, v). in_bounds r k \<and> marked_to_seqv (view m k) = Some v}"
      by (fastforce simp: set_map_filter range_spec_def)
  next
    fix p assume "p \<in> {(k, v). in_bounds r k \<and> marked_to_seqv (view m k) = Some v}"
    then obtain k v where p: "p = (k, v)" "in_bounds r k" "marked_to_seqv (view m k) = Some v" by blast
    then have "(k, view m k) \<in> set xs"
      using xs(2) by (auto simp: range_spec_def is_normal_def simp flip: marked_to_seqv_None_iff)
    then show "p \<in> set (List.map_filter marked_to_kv xs)"
      using p by (auto simp: set_map_filter intro!: bexI [of _ "(k, view m k)"])
  qed
  ultimately show ?thesis
    using xs by (auto simp: live_spec_def)
qed

text \<open>A range over a single key returns its entry if it is live.\<close>

lemma rng_single:
  assumes "inv m" and "rok (Included k, Included k)" and "is_normal (view m k)"
  shows "rng m (Included k, Included k) = Inr [Inr (k, view m k)]"
proof -
  obtain xs where xs: "rng m (Included k, Included k) = Inr (map Inr xs)"
    "range_spec (view m) (Included k, Included k) xs"
    using rng_view [OF assms(1,2)] by blast
  have "set xs = {(k, view m k)}"
    using xs(2) assms(3) by (fastforce simp: range_spec_def in_bounds_def)
  moreover have "sorted_wrt (<) (map fst xs)"
    using xs(2) by (simp add: range_spec_def)
  ultimately have "xs = [(k, view m k)]"
    by (intro sorted_alist_unique) auto
  with xs(1) show ?thesis by simp
qed

end

end
