(* ===== verification/Utf8.thy ===== *)
theory Utf8
  imports Prelude
begin

text \<open>
  UTF-8 as the Rust standard library has it: \<open>String::into_bytes\<close> and \<open>str::len\<close>
  (\<open>utf8_encode\<close>, \<open>utf8_len\<close>) and the strict decoder \<open>String::from_utf8\<close> (\<open>utf8_decode\<close>), which
  refuses truncated and overlong sequences, surrogates and values above \<open>0x10FFFF\<close>.
  \<open>utf8_round_trip\<close> says that decoding an encoded string gives it back.
\<close>

section \<open>Definitions\<close>

definition utf8_char :: "nat \<Rightarrow> bytes" where
  "utf8_char c =
     (if c < 0x80 then [c]
      else if c < 0x800 then [0xC0 + c div 64, 0x80 + c mod 64]
      else if c < 0x10000 then
        [0xE0 + c div 4096, 0x80 + c div 64 mod 64, 0x80 + c mod 64]
      else
        [0xF0 + c div 262144, 0x80 + c div 4096 mod 64, 0x80 + c div 64 mod 64, 0x80 + c mod 64])"

definition utf8_encode :: "rstr \<Rightarrow> bytes" where
  "utf8_encode s = concat (map utf8_char s)"

definition utf8_len :: "rstr \<Rightarrow> nat" where
  "utf8_len s = length (utf8_encode s)"

definition is_cont :: "nat \<Rightarrow> bool" where
  "is_cont b \<longleftrightarrow> 0x80 \<le> b \<and> b < 0xC0"

definition cons_char :: "nat \<Rightarrow> rstr option \<Rightarrow> rstr option" where
  "cons_char c r = map_option ((#) c) r"

fun utf8_decode :: "bytes \<Rightarrow> rstr option" where
  "utf8_decode [] = Some []"
| "utf8_decode (b # bs) =
     (if b < 0x80 then cons_char b (utf8_decode bs)
      else if b < 0xC0 then None
      else if b < 0xE0 then
        (case bs of
           b1 # r \<Rightarrow>
             (let c = (b - 0xC0) * 64 + (b1 - 0x80)
              in if is_cont b1 \<and> 0x80 \<le> c then cons_char c (utf8_decode r) else None)
         | _ \<Rightarrow> None)
      else if b < 0xF0 then
        (case bs of
           b1 # b2 # r \<Rightarrow>
             (let c = (b - 0xE0) * 4096 + (b1 - 0x80) * 64 + (b2 - 0x80)
              in if is_cont b1 \<and> is_cont b2 \<and> 0x800 \<le> c \<and> valid_char c
                 then cons_char c (utf8_decode r) else None)
         | _ \<Rightarrow> None)
      else if b < 0xF8 then
        (case bs of
           b1 # b2 # b3 # r \<Rightarrow>
             (let c = (b - 0xF0) * 262144 + (b1 - 0x80) * 4096 + (b2 - 0x80) * 64 + (b3 - 0x80)
              in if is_cont b1 \<and> is_cont b2 \<and> is_cont b3 \<and> 0x10000 \<le> c \<and> valid_char c
                 then cons_char c (utf8_decode r) else None)
         | _ \<Rightarrow> None)
      else None)"

section \<open>Lemmas\<close>

lemma utf8_encode_simps [simp]:
  "utf8_encode [] = []"
  "utf8_encode (c # s) = utf8_char c @ utf8_encode s"
  "utf8_encode (s @ t) = utf8_encode s @ utf8_encode t"
  by (simp_all add: utf8_encode_def)

lemma cons_char_Some [simp]: "cons_char c (Some s) = Some (c # s)"
  by (simp add: cons_char_def)

lemma split64:
  obtains d e where "c = d * 64 + e" "e < (64 :: nat)" "c div 64 = d" "c mod 64 = e"
proof (rule that)
  show "c = c div 64 * 64 + c mod 64" by simp
qed simp_all

lemma utf8_decode_char2:
  assumes "0x80 \<le> c" "c < 0x800"
  shows "utf8_decode (utf8_char c @ bs) = cons_char c (utf8_decode bs)"
proof -
  obtain d e where de: "c = d * 64 + e" "e < 64" "c div 64 = d" "c mod 64 = e"
    by (rule split64)
  have enc: "utf8_char c = [0xC0 + d, 0x80 + e]"
    using assms de(3,4) by (simp add: utf8_char_def)
  have "d < 32" using assms(2) de(1) by linarith
  with assms de(2) show ?thesis
    by (simp add: enc is_cont_def Let_def flip: de(1))
qed

lemma utf8_decode_char3:
  assumes "0x800 \<le> c" "c < 0x10000" "valid_char c"
  shows "utf8_decode (utf8_char c @ bs) = cons_char c (utf8_decode bs)"
proof -
  obtain g f where gf: "c = g * 64 + f" "f < 64" "c div 64 = g" "c mod 64 = f"
    by (rule split64)
  obtain d e where de: "g = d * 64 + e" "e < 64" "g div 64 = d" "g mod 64 = e"
    by (rule split64)
  have "c div 4096 = d"
    using de(3) gf(3) div_mult2_eq [of c 64 64] by simp
  then have enc: "utf8_char c = [0xE0 + d, 0x80 + e, 0x80 + f]"
    using assms(1,2) gf(3,4) de(4) by (simp add: utf8_char_def)
  have c: "c = d * 4096 + e * 64 + f" using gf(1) de(1) by simp
  then have "d < 16" using assms(2) by linarith
  with assms(1,3) de(2) gf(2) show ?thesis
    by (simp add: enc is_cont_def Let_def flip: c)
qed

lemma utf8_decode_char4:
  assumes "0x10000 \<le> c" "valid_char c"
  shows "utf8_decode (utf8_char c @ bs) = cons_char c (utf8_decode bs)"
proof -
  obtain h k where hk: "c = h * 64 + k" "k < 64" "c div 64 = h" "c mod 64 = k"
    by (rule split64)
  obtain g f where gf: "h = g * 64 + f" "f < 64" "h div 64 = g" "h mod 64 = f"
    by (rule split64)
  obtain d e where de: "g = d * 64 + e" "e < 64" "g div 64 = d" "g mod 64 = e"
    by (rule split64)
  have "c div 4096 = g" "c div 262144 = d"
    using hk(3) gf(3) de(3) div_mult2_eq [of c 64 64] div_mult2_eq [of c 4096 64] by simp_all
  then have enc: "utf8_char c = [0xF0 + d, 0x80 + e, 0x80 + f, 0x80 + k]"
    using assms(1) hk(3,4) gf(4) de(4) by (simp add: utf8_char_def)
  have c: "c = d * 262144 + e * 4096 + f * 64 + k" using hk(1) gf(1) de(1) by simp
  have "c < 0x200000" using assms by (auto simp: valid_char_def)
  then have "d < 8" using c by linarith
  with assms de(2) gf(2) hk(2) show ?thesis
    by (simp add: enc is_cont_def Let_def flip: c)
qed

lemma utf8_decode_char:
  assumes "valid_char c"
  shows "utf8_decode (utf8_char c @ bs) = cons_char c (utf8_decode bs)"
proof -
  consider "c < 0x80" | "0x80 \<le> c" "c < 0x800" | "0x800 \<le> c" "c < 0x10000" | "0x10000 \<le> c"
    by linarith
  then show ?thesis
    using assms utf8_decode_char2 utf8_decode_char3 utf8_decode_char4
    by cases (simp_all add: utf8_char_def)
qed

lemma utf8_round_trip: "valid_str s \<Longrightarrow> utf8_decode (utf8_encode s) = Some s"
  by (induction s) (simp_all add: valid_str_def utf8_decode_char)

lemma utf8_len_simps [simp]:
  "utf8_len [] = 0" "utf8_len (c # s) = length (utf8_char c) + utf8_len s"
  "utf8_len (s @ t) = utf8_len s + utf8_len t"
  by (simp_all add: utf8_len_def)

lemma utf8_len_ascii: "\<forall>c \<in> set s. c < 128 \<Longrightarrow> utf8_len s = length s"
  by (induction s) (simp_all add: utf8_char_def)

lemma utf8_encode_ascii: "\<forall>c \<in> set s. c < 128 \<Longrightarrow> utf8_encode s = s"
  by (induction s) (simp_all add: utf8_char_def)

end
