(* ===== verification/RotblCodec.thy ===== *)
theory RotblCodec
  imports MapApi Utf8
begin

text \<open>
  How the store reads its on-disk table. \<open>key_spaces_impl.rs\<close> gives each key type a key space (a
  prefix, an encoding and a decoding), \<open>rotbl_codec.rs\<close> turns keys and ranges of a key space into
  string keys and ranges, \<open>rotbl_seq_mark_impl.rs\<close> converts entries, and
  \<open>db_map_api_ro_impl.rs\<close> implements the reader's interface for the snapshot \<open>DB\<close> on top of them.

  The table itself (crate \<open>rotbl\<close>) and the serialisers (\<open>serde_json\<close>, \<open>bincode\<close>) are not part of
  the repository: a \<open>rotbl\<close> is a record of the two functions the code calls, a \<open>codec\<close> a record of
  the four serialisation functions and of the ordering of stored entries, with the contracts
  \<open>rotbl_ok\<close> (an immutable sorted table) and \<open>codec_ok\<close> (decoding inverts encoding and consumes
  every byte; entries are ordered by sequence number, a tombstone after a value of the same number).

  The locale \<open>map_key\<close> states what the code relies on of a key space; it is proved for both key
  spaces, in particular that the zero-padded encoding of an expiration key keeps the key order.
\<close>

section \<open>Key spaces\<close>

record 'k key_space =
  ks_prefix :: rstr
  ks_encode :: "'k \<Rightarrow> rstr"
  ks_decode :: "rstr \<Rightarrow> 'k res"

definition string_space :: "rstr key_space" where
  "string_space = \<lparr>ks_prefix = str ''kv--'', ks_encode = (\<lambda>k. k), ks_decode = (\<lambda>s. Inr s)\<rparr>"

text \<open>\<open>{:>020}\<close>: decimal, padded with zeros to twenty characters.\<close>

definition pad20 :: "nat \<Rightarrow> rstr" where
  "pad20 n = replicate (20 - length (show_dec n)) 48 @ show_dec n"

definition expire_key_encode :: "expire_key \<Rightarrow> rstr" where
  "expire_key_encode k = pad20 (time_ms k) @ [47] @ pad20 (ek_seq k)"

definition expire_key_decode :: "rstr \<Rightarrow> expire_key res" where
  "expire_key_decode buf =
     (if utf8_len buf \<noteq> 41 then Inl (IoError InvalidData)
      else case split_on 47 buf of
             t # q # rest \<Rightarrow>
               (if rest \<noteq> [] then Inl (IoError InvalidData)
                else if utf8_len t \<noteq> 20 then Inl (IoError InvalidData)
                else if utf8_len q \<noteq> 20 then Inl (IoError InvalidData)
                else case parse_u64 t of
                       None \<Rightarrow> Inl (IoError InvalidData)
                     | Some t' \<Rightarrow>
                         (case parse_u64 q of
                            None \<Rightarrow> Inl (IoError InvalidData)
                          | Some q' \<Rightarrow> Inr (ExpireKey t' q')))
           | _ \<Rightarrow> Inl (IoError InvalidData))"

definition expire_space :: "expire_key key_space" where
  "expire_space =
     \<lparr>ks_prefix = str ''exp-'', ks_encode = expire_key_encode, ks_decode = expire_key_decode\<rparr>"

section \<open>String keys and ranges\<close>

definition encode_key :: "'k key_space \<Rightarrow> 'k \<Rightarrow> rstr" where
  "encode_key K k = ks_prefix K @ [47] @ ks_encode K k"

definition decode_key :: "'k key_space \<Rightarrow> rstr \<Rightarrow> 'k res" where
  "decode_key K s =
     (case strip_prefix (ks_prefix K) s of
        None \<Rightarrow> Inl (IoError InvalidData)
      | Some r \<Rightarrow>
          (case strip_prefix [47] r of
             None \<Rightarrow> Inl (IoError InvalidData)
           | Some key \<Rightarrow> ks_decode K key))"

fun encode_bound :: "'k key_space \<Rightarrow> 'k bound \<Rightarrow> bool \<Rightarrow> rstr bound" where
  "encode_bound K (Included k) left = Included (encode_key K k)"
| "encode_bound K (Excluded k) left = Excluded (encode_key K k)"
| "encode_bound K Unbounded left =
     (if left then Included (ks_prefix K @ [47]) else Excluded (ks_prefix K @ [48]))"

definition encode_range :: "'k key_space \<Rightarrow> 'k bounds \<Rightarrow> rstr bounds" where
  "encode_range K r = (encode_bound K (fst r) True, encode_bound K (snd r) False)"

section \<open>Entries\<close>

datatype seq_marked = SmTombstone (sm_seq: nat) | SmNormal (sm_seq: nat) bytes

record codec =
  json_of_meta :: "kv_meta option \<Rightarrow> rstr res"
  meta_of_json :: "rstr \<Rightarrow> kv_meta option res"
  bincode_encode :: "nat \<times> rstr \<times> bytes \<Rightarrow> bytes res"
  bincode_decode :: "bytes \<Rightarrow> ((nat \<times> rstr \<times> bytes) \<times> nat) res"
  sm_order_key :: "seq_marked \<Rightarrow> seq_tombstone"

definition map_invalid :: "'a res \<Rightarrow> 'a res" where
  "map_invalid r = (case r of Inl e \<Rightarrow> Inl (IoError InvalidData) | Inr x \<Rightarrow> Inr x)"

fun marked_from_seq_marked :: "codec \<Rightarrow> seq_marked \<Rightarrow> bytes marked res" where
  "marked_from_seq_marked C (SmTombstone seq) = Inr (TombStone seq)"
| "marked_from_seq_marked C (SmNormal seq data) =
     rbind (map_invalid (bincode_decode C data)) (\<lambda>((ver, meta_str, value), size).
       if ver \<noteq> 1 then Inl (IoError InvalidData)
       else if size \<noteq> length data then Inl (IoError InvalidData)
       else rbind (map_invalid (meta_of_json C meta_str)) (\<lambda>kv_meta.
              Inr (Normal seq value kv_meta)))"

fun seq_marked_from_marked :: "codec \<Rightarrow> bytes marked \<Rightarrow> seq_marked res" where
  "seq_marked_from_marked C (TombStone seq) = Inr (SmTombstone seq)"
| "seq_marked_from_marked C (Normal seq value meta) =
     rbind (map_invalid (json_of_meta C meta)) (\<lambda>kv_meta_str.
     rbind (map_invalid (bincode_encode C (1, kv_meta_str, value))) (\<lambda>d.
       Inr (SmNormal seq d)))"

text \<open>\<open>marked_impl.rs\<close>: the entries of the expiration index hold strings.\<close>

fun marked_string_from_bytes :: "bytes marked \<Rightarrow> rstr marked res" where
  "marked_string_from_bytes (TombStone s) = Inr (TombStone s)"
| "marked_string_from_bytes (Normal s v m) =
     (case utf8_decode v of None \<Rightarrow> Inl (IoError InvalidData) | Some t \<Rightarrow> Inr (Normal s t m))"

fun marked_bytes_from_string :: "rstr marked \<Rightarrow> bytes marked" where
  "marked_bytes_from_string (TombStone s) = TombStone s"
| "marked_bytes_from_string (Normal s v m) = Normal s (utf8_encode v) m"

definition marked_string_from_seq_marked :: "codec \<Rightarrow> seq_marked \<Rightarrow> rstr marked res" where
  "marked_string_from_seq_marked C v = rbind (marked_from_seq_marked C v) marked_string_from_bytes"

definition seq_marked_from_marked_string :: "codec \<Rightarrow> rstr marked \<Rightarrow> seq_marked res" where
  "seq_marked_from_marked_string C v = seq_marked_from_marked C (marked_bytes_from_string v)"

text \<open>\<open>RotblCodec::encode_key_seq_marked\<close>, for an entry conversion \<open>conv\<close>.\<close>

definition encode_key_seq_marked ::
    "'k key_space \<Rightarrow> ('v marked \<Rightarrow> seq_marked res) \<Rightarrow> 'k \<Rightarrow> 'v marked \<Rightarrow> (rstr \<times> seq_marked) res" where
  "encode_key_seq_marked K conv k m = rbind (conv m) (\<lambda>v. Inr (encode_key K k, v))"

section \<open>The snapshot table\<close>

record rotbl =
  rotbl_get :: "rstr \<Rightarrow> seq_marked option res"
  rotbl_range :: "rstr bounds \<Rightarrow> (rstr \<times> seq_marked) res list"

definition db_get ::
    "'k key_space \<Rightarrow> (seq_marked \<Rightarrow> 'v marked res) \<Rightarrow> rotbl \<Rightarrow> 'k \<Rightarrow> 'v marked res" where
  "db_get K conv db key =
     rbind (rotbl_get db (encode_key K key)) (\<lambda>res.
       case res of None \<Rightarrow> Inr marked_empty | Some seq_marked \<Rightarrow> conv seq_marked)"

definition db_range ::
    "'k key_space \<Rightarrow> (seq_marked \<Rightarrow> 'v marked res) \<Rightarrow> rotbl \<Rightarrow> 'k bounds \<Rightarrow> ('k, 'v) kvres list res" where
  "db_range K conv db r =
     Inr (map (\<lambda>res_item.
            rbind res_item (\<lambda>(str_k, seq_marked).
            rbind (decode_key K str_k) (\<lambda>key.
            rbind (conv seq_marked) (\<lambda>marked. Inr (key, marked)))))
          (rotbl_range db (encode_range K r)))"

section \<open>Contracts of the third-party parts\<close>

definition codec_ok :: "codec \<Rightarrow> bool" where
  "codec_ok C \<longleftrightarrow>
     (\<forall>m. \<exists>js. json_of_meta C m = Inr js \<and> meta_of_json C js = Inr m) \<and>
     (\<forall>x. \<exists>d. bincode_encode C x = Inr d \<and> bincode_decode C d = Inr (x, length d)) \<and>
     (\<forall>s. sm_order_key C (SmTombstone s) = SeqTombstone s True) \<and>
     (\<forall>s d. sm_order_key C (SmNormal s d) = SeqTombstone s False)"

definition rotbl_ok :: "rotbl \<Rightarrow> (rstr, seq_marked) btree \<Rightarrow> bool" where
  "rotbl_ok db t \<longleftrightarrow>
     btree_ok t \<and>
     (\<forall>k. rotbl_get db k = Inr (btree_get t k)) \<and>
     (\<forall>r. range_ok r \<longrightarrow> rotbl_range db r = map Inr (filter (\<lambda>(k, v). in_bounds r k) t))"

text \<open>The table that holds exactly the given entries of both key spaces, encoded.\<close>

definition encoded_table ::
    "codec \<Rightarrow> (expire_key, rstr) table \<Rightarrow> (rstr, bytes) table \<Rightarrow> (rstr \<times> seq_marked) list res" where
  "encoded_table C exps kvs =
     rbind (rmap (\<lambda>(k, m). encode_key_seq_marked expire_space (seq_marked_from_marked_string C) k m) exps)
       (\<lambda>xs. rbind (rmap (\<lambda>(k, m). encode_key_seq_marked string_space (seq_marked_from_marked C) k m) kvs)
       (\<lambda>ys. Inr (xs @ ys)))"

definition expire_key_u64 :: "expire_key \<Rightarrow> bool" where
  "expire_key_u64 k \<longleftrightarrow> time_ms k < 2 ^ 64 \<and> ek_seq k < 2 ^ 64"

fun bound_all :: "('k \<Rightarrow> bool) \<Rightarrow> 'k bound \<Rightarrow> bool" where
  "bound_all P (Included k) \<longleftrightarrow> P k"
| "bound_all P (Excluded k) \<longleftrightarrow> P k"
| "bound_all P Unbounded \<longleftrightarrow> True"

definition bounds_all :: "('k \<Rightarrow> bool) \<Rightarrow> 'k bounds \<Rightarrow> bool" where
  "bounds_all P r \<longleftrightarrow> bound_all P (fst r) \<and> bound_all P (snd r)"

text \<open>A reader that answers from one sorted table, for the ranges that satisfy \<open>rok\<close>.\<close>

definition reads_table ::
    "('k::linorder bounds \<Rightarrow> bool) \<Rightarrow> ('k \<Rightarrow> 'v marked res) \<Rightarrow> ('k bounds \<Rightarrow> ('k, 'v) kvres list res) \<Rightarrow>
     ('k, 'v) table \<Rightarrow> bool" where
  "reads_table rok get rng t \<longleftrightarrow>
     btree_ok t \<and>
     (\<forall>k. get k = Inr (case btree_get t k of Some m \<Rightarrow> m | None \<Rightarrow> marked_empty)) \<and>
     (\<forall>r. rok r \<longrightarrow> rng r = Inr (map Inr (table_range r t)))"

definition expire_range_ok :: "expire_key bounds \<Rightarrow> bool" where
  "expire_range_ok r \<longleftrightarrow> range_ok r \<and> bounds_all expire_key_u64 r"

definition marked_valid_str :: "rstr marked \<Rightarrow> bool" where
  "marked_valid_str m \<longleftrightarrow> (case m of TombStone _ \<Rightarrow> True | Normal _ v _ \<Rightarrow> valid_str v)"

definition expire_table_ok :: "(expire_key, rstr) table \<Rightarrow> bool" where
  "expire_table_ok t \<longleftrightarrow> (\<forall>(k, m) \<in> set t. expire_key_u64 k \<and> marked_valid_str m)"

section \<open>Lemmas\<close>

lemma reads_table_get:
  "reads_table rok get rng t \<Longrightarrow> get k = Inr (case btree_get t k of Some m \<Rightarrow> m | None \<Rightarrow> marked_empty)"
  by (simp add: reads_table_def)

lemma reads_table_range: "reads_table rok get rng t \<Longrightarrow> rok r \<Longrightarrow> rng r = Inr (map Inr (table_range r t))"
  unfolding reads_table_def by blast

lemma reads_table_ok: "reads_table rok get rng t \<Longrightarrow> btree_ok t"
  by (simp add: reads_table_def)

subsection \<open>Order of encoded keys\<close>

lemma append_less_append [simp]: "(p @ x :: rstr) < p @ y \<longleftrightarrow> x < y"
  by (induction p) auto

lemma append_le_append [simp]: "(p @ x :: rstr) \<le> p @ y \<longleftrightarrow> x \<le> y"
  by (induction p) auto

lemma dec_val_Cons: "dec_val (d # ds) = (d - 48) * 10 ^ length ds + dec_val ds"
proof -
  have "foldl (\<lambda>a c. 10 * a + (c - 48)) x ds = x * 10 ^ length ds + foldl (\<lambda>a c. 10 * a + (c - 48)) 0 ds" for x
  proof (induction ds arbitrary: x)
    case (Cons c cs)
    show ?case
      using Cons.IH [of "10 * x + (c - 48)"] Cons.IH [of "c - 48"] by (simp add: algebra_simps)
  qed simp
  from this [of "d - 48"] show ?thesis by (simp add: dec_val_def)
qed

lemma dec_val_less: "list_all is_digit ds \<Longrightarrow> dec_val ds < 10 ^ length ds"
proof (induction ds)
  case (Cons d ds)
  then have "d - 48 \<le> 9" "dec_val ds < 10 ^ length ds" by (auto simp: is_digit_def)
  then have "(d - 48) * 10 ^ length ds + dec_val ds < 9 * 10 ^ length ds + 10 ^ length ds"
    by (intro add_le_less_mono mult_le_mono1) auto
  then show ?case by (simp add: dec_val_Cons)
qed (simp add: dec_val_def)

text \<open>Digit strings of one length are ordered as the numbers they denote.\<close>

lemma digits_less_iff:
  "length xs = length ys \<Longrightarrow> list_all is_digit xs \<Longrightarrow> list_all is_digit ys \<Longrightarrow>
   xs < ys \<longleftrightarrow> dec_val xs < dec_val ys"
proof (induction xs ys rule: list_induct2)
  case (Cons x xs y ys)
  have b: "dec_val xs < 10 ^ length ys" "dec_val ys < 10 ^ length ys"
    using Cons dec_val_less [of xs] dec_val_less [of ys] by auto
  have step: "u * 10 ^ length ys + p < v * 10 ^ length ys + q"
    if "u < v" "p < 10 ^ length ys" for u v p q :: nat
  proof -
    have "u * 10 ^ length ys + p < Suc u * 10 ^ length ys" using that(2) by simp
    also have "\<dots> \<le> v * 10 ^ length ys" using that(1) by (intro mult_le_mono1) simp
    finally show ?thesis by simp
  qed
  have "x = y \<or> x - 48 < y - 48 \<and> x < y \<or> y - 48 < x - 48 \<and> y < x"
    using Cons.prems by (auto simp: is_digit_def)
  then show ?case
    using Cons b step [of "x - 48" "y - 48" "dec_val xs" "dec_val ys"]
      step [of "y - 48" "x - 48" "dec_val ys" "dec_val xs"]
    by (auto simp: dec_val_Cons)
qed (simp add: dec_val_def)

lemma length_show_dec: "n < 10 ^ Suc k \<Longrightarrow> length (show_dec n) \<le> Suc k"
proof (induction k arbitrary: n)
  case (Suc k)
  show ?case
  proof (cases "n < 10")
    case False
    have "n div 10 < 10 ^ Suc k"
      using Suc.prems by (simp add: less_mult_imp_div_less)
    with Suc.IH [of "n div 10"] False show ?thesis
      by (simp add: show_dec.simps [of n])
  qed (simp add: show_dec.simps [of n])
qed (simp add: show_dec.simps)

lemma length_pad20: "n < 2 ^ 64 \<Longrightarrow> length (pad20 n) = 20"
  using length_show_dec [of n 19] by (simp add: pad20_def)

lemma pad20_digits: "list_all is_digit (pad20 n)"
  using show_dec_digits [of n] by (auto simp: pad20_def is_digit_def list_all_iff)

lemma dec_val_zeros: "dec_val (replicate k 48 @ ds) = dec_val ds"
  by (induction k) (simp_all add: dec_val_Cons)

lemma dec_val_pad20 [simp]: "dec_val (pad20 n) = n"
  by (simp add: pad20_def dec_val_zeros)

lemma pad20_less_iff: "m < 2 ^ 64 \<Longrightarrow> n < 2 ^ 64 \<Longrightarrow> pad20 m < pad20 n \<longleftrightarrow> m < n"
  by (simp add: digits_less_iff length_pad20 pad20_digits)

lemma pad20_inj: "pad20 m = pad20 n \<Longrightarrow> m = n"
  by (metis dec_val_pad20)

lemma pad20_no_slash: "47 \<notin> set (pad20 n)"
  using pad20_digits [of n] by (auto simp: list_all_iff is_digit_def)

lemma parse_pad20: "n < 2 ^ 64 \<Longrightarrow> parse_u64 (pad20 n) = Some n"
proof -
  assume n: "n < 2 ^ 64"
  have "pad20 n \<noteq> []" using length_pad20 [OF n] by auto
  then obtain c cs where p: "pad20 n = c # cs" by (meson list.exhaust)
  with pad20_digits [of n] have "c \<noteq> 43" by (auto simp: is_digit_def)
  with p n pad20_digits [of n] dec_val_pad20 [of n] show ?thesis
    by (simp add: parse_u64_def)
qed

lemma utf8_len_digits: "list_all is_digit s \<Longrightarrow> utf8_len s = length s"
  by (rule utf8_len_ascii) (auto simp: list_all_iff is_digit_def)

lemma append_sep_less_iff:
  fixes a b c d :: rstr
  assumes "length a = length b"
  shows "a @ x # c < b @ x # d \<longleftrightarrow> a < b \<or> a = b \<and> c < d"
  using assms by (induction a b rule: list_induct2) auto

subsection \<open>The laws of a key space\<close>

locale map_key =
  fixes K :: "'k::linorder key_space" and kvalid :: "'k \<Rightarrow> bool"
  assumes decode_encode: "kvalid k \<Longrightarrow> ks_decode K (ks_encode K k) = Inr k"
    and encode_less: "kvalid k \<Longrightarrow> kvalid k' \<Longrightarrow> ks_encode K k < ks_encode K k' \<longleftrightarrow> k < k'"
    and encode_inj: "ks_encode K k = ks_encode K k' \<Longrightarrow> k = k'"
begin

lemma decode_encode_key: "kvalid k \<Longrightarrow> decode_key K (encode_key K k) = Inr k"
  using strip_prefix_append [of "[47]"]
  by (simp add: decode_key_def encode_key_def decode_encode)

lemma encode_key_less: "kvalid k \<Longrightarrow> kvalid k' \<Longrightarrow> encode_key K k < encode_key K k' \<longleftrightarrow> k < k'"
  by (simp add: encode_key_def encode_less)

lemma encode_key_eq: "encode_key K k = encode_key K k' \<longleftrightarrow> k = k'"
  by (auto simp: encode_key_def dest: encode_inj)

lemma encode_key_le: "kvalid k \<Longrightarrow> kvalid k' \<Longrightarrow> encode_key K k \<le> encode_key K k' \<longleftrightarrow> k \<le> k'"
  by (auto simp: le_less encode_key_less encode_key_eq)

lemma encode_key_above: "ks_prefix K @ [47] \<le> encode_key K k"
  by (simp add: encode_key_def)

lemma encode_key_below: "encode_key K k < ks_prefix K @ [48]"
  by (simp add: encode_key_def)

lemma in_encode_range:
  assumes "kvalid k" and "bounds_all kvalid r"
  shows "in_bounds (encode_range K r) (encode_key K k) \<longleftrightarrow> in_bounds r k"
proof -
  have "above_start (encode_bound K s True) (encode_key K k) \<longleftrightarrow> above_start s k" if "bound_all kvalid s" for s
    using that assms(1) by (cases s) (simp_all add: encode_key_less encode_key_le encode_key_above)
  moreover have "below_end (encode_bound K s False) (encode_key K k) \<longleftrightarrow> below_end s k" if "bound_all kvalid s" for s
    using that assms(1) by (cases s) (simp_all add: encode_key_less encode_key_le encode_key_below)
  ultimately show ?thesis
    using assms(2) by (simp add: in_bounds_def encode_range_def bounds_all_def)
qed

lemma range_ok_encode:
  assumes "range_ok r" and "bounds_all kvalid r"
  shows "range_ok (encode_range K r)"
  using assms encode_key_below [THEN less_imp_le]
  by (cases "fst r"; cases "snd r"; cases r)
     (auto simp: encode_range_def bounds_all_def encode_key_less encode_key_le encode_key_above
        encode_key_below)

text \<open>An encoded range stays inside the key space.\<close>

lemma encode_range_above:
  "in_bounds (encode_range K r) s \<Longrightarrow> ks_prefix K @ [47] \<le> s"
  by (cases "fst r")
     (auto simp: in_bounds_def encode_range_def intro: order_trans [OF encode_key_above] less_imp_le)

lemma encode_range_below:
  "in_bounds (encode_range K r) s \<Longrightarrow> s < ks_prefix K @ [48]"
  by (cases "snd r")
     (auto simp: in_bounds_def encode_range_def
       intro: less_trans [OF _ encode_key_below] le_less_trans [OF _ encode_key_below])

text \<open>A part of a table that no other key space overlaps is read as the entries it encodes.\<close>

lemma reads_encoded:
  assumes t: "t = pre @ map (\<lambda>(k, m). (encode_key K k, e m)) tab @ post" and db: "rotbl_ok db t"
    and out: "\<And>s v. (s, v) \<in> set pre \<union> set post \<Longrightarrow> \<not> (ks_prefix K @ [47] \<le> s \<and> s < ks_prefix K @ [48])"
    and tab: "btree_ok tab" "\<And>k m. (k, m) \<in> set tab \<Longrightarrow> kvalid k \<and> conv (e m) = Inr m"
  shows "reads_table (\<lambda>r. range_ok r \<and> bounds_all kvalid r) (db_get K conv db) (db_range K conv db) tab"
  unfolding reads_table_def
proof (intro conjI allI impI)
  fix k
  have "map_of pre (encode_key K k) = None" "map_of post (encode_key K k) = None"
    using out [of "encode_key K k"] encode_key_above [of k] encode_key_below [of k]
    by (auto simp: map_of_eq_None_iff) blast+
  moreover have "map_of (map (\<lambda>(k, m). (encode_key K k, e m)) tab) (encode_key K k) = map_option e (map_of tab k)"
    by (induction tab) (auto simp: encode_key_eq)
  ultimately have "btree_get t (encode_key K k) = map_option e (btree_get tab k)"
    by (simp add: t btree_get_def map_add_def split: option.split)
  moreover have "conv (e m) = Inr m" if "btree_get tab k = Some m" for m
    using that tab by (auto simp: btree_get_in_set)
  ultimately show "db_get K conv db k = Inr (case btree_get tab k of Some m \<Rightarrow> m | None \<Rightarrow> marked_empty)"
    using db by (auto simp: db_get_def rotbl_ok_def split: option.split)
next
  fix r assume r: "range_ok r \<and> bounds_all kvalid r"
  let ?in = "\<lambda>(k, v). in_bounds (encode_range K r) k"
  have "filter ?in pre = []" "filter ?in post = []"
    using out encode_range_above [of r] encode_range_below [of r]
    by (fastforce simp: filter_empty_conv)+
  moreover have "filter ?in (map (\<lambda>(k, m). (encode_key K k, e m)) tab) =
      map (\<lambda>(k, m). (encode_key K k, e m)) (table_range r tab)"
    using tab(2) r by (auto simp: filter_map o_def table_range_def in_encode_range
        intro!: arg_cong [of _ _ "map _"] filter_cong)
  ultimately have "filter ?in t = map (\<lambda>(k, m). (encode_key K k, e m)) (table_range r tab)"
    by (simp add: t)
  then have "rotbl_range db (encode_range K r) = map Inr (map (\<lambda>(k, m). (encode_key K k, e m)) (table_range r tab))"
    using db r range_ok_encode [of r] unfolding rotbl_ok_def by metis
  then show "db_range K conv db r = Inr (map Inr (table_range r tab))"
    using tab(2) by (auto simp: db_range_def table_range_def decode_encode_key)
qed (rule tab(1))

end

interpretation string_key: map_key string_space "\<lambda>_. True"
  by unfold_locales (simp_all add: string_space_def)

lemma expire_key_encode_inj: "expire_key_encode k = expire_key_encode k' \<Longrightarrow> k = k'"
proof -
  assume "expire_key_encode k = expire_key_encode k'"
  then have "split_on 47 (expire_key_encode k) = split_on 47 (expire_key_encode k')" by simp
  then have "pad20 (time_ms k) = pad20 (time_ms k')" "pad20 (ek_seq k) = pad20 (ek_seq k')"
    by (simp_all add: expire_key_encode_def split_on_append_sep split_on_no_sep pad20_no_slash)
  then show ?thesis
    by (intro expire_key.expand) (auto dest: pad20_inj)
qed

lemma expire_key_decode_encode:
  assumes "expire_key_u64 k"
  shows "expire_key_decode (expire_key_encode k) = Inr k"
proof -
  have l: "utf8_len (pad20 (time_ms k)) = 20" "utf8_len (pad20 (ek_seq k)) = 20"
    using assms by (auto simp: expire_key_u64_def utf8_len_digits pad20_digits length_pad20)
  then have "utf8_len (expire_key_encode k) = 41"
    by (simp add: expire_key_encode_def utf8_len_simps utf8_char_def)
  moreover have "split_on 47 (expire_key_encode k) = [pad20 (time_ms k), pad20 (ek_seq k)]"
    by (simp add: expire_key_encode_def split_on_append_sep split_on_no_sep pad20_no_slash)
  ultimately show ?thesis
    using l assms by (simp add: expire_key_decode_def parse_pad20 expire_key_u64_def)
qed

lemma expire_key_encode_less:
  assumes "expire_key_u64 k" and "expire_key_u64 k'"
  shows "expire_key_encode k < expire_key_encode k' \<longleftrightarrow> k < k'"
proof -
  have "expire_key_encode k < expire_key_encode k' \<longleftrightarrow>
      pad20 (time_ms k) < pad20 (time_ms k') \<or>
      pad20 (time_ms k) = pad20 (time_ms k') \<and> pad20 (ek_seq k) < pad20 (ek_seq k')"
    using assms by (simp add: expire_key_encode_def append_sep_less_iff length_pad20 expire_key_u64_def)
  also have "\<dots> \<longleftrightarrow> k < k'"
    using assms by (auto simp: pad20_less_iff expire_key_u64_def less_expire_key_def dest: pad20_inj)
  finally show ?thesis .
qed

interpretation expire_key_space: map_key expire_space expire_key_u64
  by unfold_locales
     (auto simp: expire_space_def expire_key_decode_encode expire_key_encode_less dest: expire_key_encode_inj)

subsection \<open>Round trip of entries\<close>

lemma marked_round_trip:
  assumes "codec_ok C"
  shows "rbind (seq_marked_from_marked C m) (marked_from_seq_marked C) = Inr m"
proof (cases m)
  case (Normal s v meta)
  obtain js where js: "json_of_meta C meta = Inr js" "meta_of_json C js = Inr meta"
    using assms unfolding codec_ok_def by blast
  obtain d where d: "bincode_encode C (1, js, v) = Inr d" "bincode_decode C d = Inr ((1, js, v), length d)"
    using assms unfolding codec_ok_def by blast
  show ?thesis using js d Normal by (simp add: map_invalid_def)
qed simp

lemma marked_string_bytes_round_trip:
  "marked_valid_str m \<Longrightarrow> marked_string_from_bytes (marked_bytes_from_string m) = Inr m"
  by (cases m) (simp_all add: marked_valid_str_def utf8_round_trip)

lemma marked_string_round_trip:
  assumes "codec_ok C" and "marked_valid_str m"
  shows "rbind (seq_marked_from_marked_string C m) (marked_string_from_seq_marked C) = Inr m"
proof -
  have "rbind (seq_marked_from_marked_string C m) (marked_string_from_seq_marked C) =
      rbind (rbind (seq_marked_from_marked C (marked_bytes_from_string m)) (marked_from_seq_marked C))
        marked_string_from_bytes"
    by (simp add: seq_marked_from_marked_string_def marked_string_from_seq_marked_def [abs_def] rbind_assoc)
  then show ?thesis
    by (simp add: marked_round_trip [OF assms(1)] marked_string_bytes_round_trip assms(2))
qed

subsection \<open>The snapshot as two sorted tables\<close>

lemma seq_marked_from_marked_total:
  assumes "codec_ok C"
  shows "\<exists>v. seq_marked_from_marked C m = Inr v \<and> marked_from_seq_marked C v = Inr m"
  using marked_round_trip [OF assms, of m] by (auto simp: rbind_Inr_iff)

lemma seq_marked_from_marked_string_total:
  assumes "codec_ok C" and "marked_valid_str m"
  shows "\<exists>v. seq_marked_from_marked_string C m = Inr v \<and> marked_string_from_seq_marked C v = Inr m"
  using marked_string_round_trip [OF assms] by (auto simp: rbind_Inr_iff)

lemma encoded_table_eq:
  assumes "codec_ok C" and "expire_table_ok exps"
  shows "encoded_table C exps kvs =
    Inr (map (\<lambda>(k, m). (encode_key expire_space k, projr (seq_marked_from_marked_string C m))) exps @
         map (\<lambda>(k, m). (encode_key string_space k, projr (seq_marked_from_marked C m))) kvs)"
proof -
  have "rmap (\<lambda>(k, m). encode_key_seq_marked expire_space (seq_marked_from_marked_string C) k m) exps =
      Inr (map (\<lambda>(k, m). (encode_key expire_space k, projr (seq_marked_from_marked_string C m))) exps)"
    using assms(2) seq_marked_from_marked_string_total [OF assms(1)]
    by (intro rmap_Inr) (fastforce simp: encode_key_seq_marked_def expire_table_ok_def)
  moreover have "rmap (\<lambda>(k, m). encode_key_seq_marked string_space (seq_marked_from_marked C) k m) kvs =
      Inr (map (\<lambda>(k, m). (encode_key string_space k, projr (seq_marked_from_marked C m))) kvs)"
  proof (rule rmap_Inr)
    fix x :: "rstr \<times> bytes marked"
    obtain k m where x: "x = (k, m)" by force
    obtain v where "seq_marked_from_marked C m = Inr v"
      using seq_marked_from_marked_total [OF assms(1)] by blast
    then show "(case x of (k, m) \<Rightarrow> encode_key_seq_marked string_space (seq_marked_from_marked C) k m) =
        Inr (case x of (k, m) \<Rightarrow> (encode_key string_space k, projr (seq_marked_from_marked C m)))"
      by (simp add: x encode_key_seq_marked_def)
  qed
  ultimately show ?thesis by (simp add: encoded_table_def)
qed

lemma db_reads:
  assumes C: "codec_ok C" and exps: "btree_ok exps" "expire_table_ok exps" and kvs: "btree_ok kvs"
    and t: "encoded_table C exps kvs = Inr t" and db: "rotbl_ok db t"
  shows "reads_table range_ok
      (db_get string_space (marked_from_seq_marked C) db)
      (db_range string_space (marked_from_seq_marked C) db) kvs"
    and "reads_table expire_range_ok
      (db_get expire_space (marked_string_from_seq_marked C) db)
      (db_range expire_space (marked_string_from_seq_marked C) db) exps"
proof -
  let ?e = "\<lambda>m. projr (seq_marked_from_marked C m)"
  let ?s = "\<lambda>m. projr (seq_marked_from_marked_string C m)"
  let ?exps = "map (\<lambda>(k, m). (encode_key expire_space k, ?s m)) exps"
  let ?kvs = "map (\<lambda>(k, m). (encode_key string_space k, ?e m)) kvs"
  have teq: "t = ?exps @ ?kvs" using t encoded_table_eq [OF C exps(2)] by simp
  have e: "marked_from_seq_marked C (?e m) = Inr m" for m
    using seq_marked_from_marked_total [OF C, of m] by auto
  have s: "marked_string_from_seq_marked C (?s m) = Inr m" if "marked_valid_str m" for m
    using seq_marked_from_marked_string_total [OF C that] by auto
  have "reads_table (\<lambda>r. range_ok r \<and> bounds_all (\<lambda>_. True) r)
      (db_get string_space (marked_from_seq_marked C) db)
      (db_range string_space (marked_from_seq_marked C) db) kvs"
    by (rule string_key.reads_encoded [where pre = ?exps and post = "[]" and e = ?e, OF _ db])
       (use e kvs teq in \<open>auto simp: encode_key_def string_space_def expire_space_def str_def\<close>)
  moreover have "bounds_all (\<lambda>_. True) r" for r :: "rstr bounds"
    by (cases "fst r"; cases "snd r") (simp_all add: bounds_all_def)
  ultimately show "reads_table range_ok
      (db_get string_space (marked_from_seq_marked C) db)
      (db_range string_space (marked_from_seq_marked C) db) kvs"
    by simp
  show "reads_table expire_range_ok
      (db_get expire_space (marked_string_from_seq_marked C) db)
      (db_range expire_space (marked_string_from_seq_marked C) db) exps"
    unfolding expire_range_ok_def
    by (rule expire_key_space.reads_encoded [where pre = "[]" and post = ?kvs and e = ?s, OF _ db])
       (use s exps teq in \<open>auto simp: encode_key_def string_space_def expire_space_def str_def
          expire_table_ok_def\<close>)
qed

end
