(* ===== verification/StoreApi.thy ===== *)
theory StoreApi
  imports RotblCodec
begin

text \<open>
  The system data of the state machine (\<open>src/meta/types/src/sys_data.rs\<close>) and the interface
  between the state machine and its storage. \<open>StateMachineApi\<close> is generic in its map: an
  implementation is the record \<open>map_ops\<close> of its key-value map, its expiration map and its system
  data. The locale \<open>sm_map\<close> states what the state machine relies on: both maps can be read, a
  write changes exactly one entry, a stored value takes the next sequence number, a deletion
  leaves a tombstone and no new number. It is interpreted on a single level and on the leveled
  map where these are defined.
\<close>

section \<open>System data\<close>

record endpoint =
  ep_addr :: rstr
  ep_port :: nat

record node =
  node_name :: rstr
  node_endpoint :: endpoint
  grpc_api_addr :: "rstr option"
  grpc_api_advertise_address :: "rstr option"

type_synonym node_id = nat

record ('lid, 'mem) sys_data =
  last_applied :: "'lid option"
  last_membership :: "'lid option \<times> 'mem"
  nodes :: "(node_id, node) btree"
  sequence :: nat

definition curr_seq :: "('lid, 'mem) sys_data \<Rightarrow> nat" where
  "curr_seq s = sequence s"

definition update_seq :: "('lid, 'mem) sys_data \<Rightarrow> nat \<Rightarrow> ('lid, 'mem) sys_data" where
  "update_seq s n = s\<lparr>sequence := n\<rparr>"

definition next_seq :: "('lid, 'mem) sys_data \<Rightarrow> nat \<times> ('lid, 'mem) sys_data" where
  "next_seq s = (let s' = s\<lparr>sequence := u64_add (sequence s) 1\<rparr> in (sequence s', s'))"

section \<open>What the state machine is generic in\<close>

record ('m, 'lid, 'mem) map_ops =
  mo_kv :: "('m, rstr, bytes) map_api"
  mo_exp :: "('m, expire_key, rstr) map_api"
  mo_sys :: "'m \<Rightarrow> ('lid, 'mem) sys_data"
  mo_set_sys :: "'m \<Rightarrow> ('lid, 'mem) sys_data \<Rightarrow> 'm"

section \<open>The contract\<close>

locale sm_map =
  fixes M :: "('m, 'lid, 'mem) map_ops"
    and inv :: "'m \<Rightarrow> bool"
    and kvv :: "'m \<Rightarrow> rstr \<Rightarrow> bytes marked"
    and expv :: "'m \<Rightarrow> expire_key \<Rightarrow> rstr marked"
  assumes kv_get: "inv m \<Longrightarrow> ma_get (mo_kv M) m k = Inr (kvv m k)"
    and kv_range: "inv m \<Longrightarrow> range_ok r \<Longrightarrow>
      \<exists>xs. ma_range (mo_kv M) m r = Inr (map Inr xs) \<and> range_spec (kvv m) r xs"
    and exp_get: "inv m \<Longrightarrow> ma_get (mo_exp M) m ek = Inr (expv m ek)"
    and exp_range: "inv m \<Longrightarrow> expire_range_ok er \<Longrightarrow>
      \<exists>xs. ma_range (mo_exp M) m er = Inr (map Inr xs) \<and> range_spec (expv m) er xs"
    and seq_bound: "inv m \<Longrightarrow> sequence (mo_sys M m) < 2 ^ 64"
    and kv_set: "inv m \<Longrightarrow> sequence (mo_sys M m) + 1 < 2 ^ 64 \<Longrightarrow>
      \<exists>m'. ma_set (mo_kv M) m k (Some (v, meta)) =
          Inr ((kvv m k, Normal (sequence (mo_sys M m) + 1) v meta), m') \<and> inv m' \<and>
        kvv m' = (kvv m)(k := Normal (sequence (mo_sys M m) + 1) v meta) \<and> expv m' = expv m \<and>
        mo_sys M m' = (mo_sys M m)\<lparr>sequence := sequence (mo_sys M m) + 1\<rparr>"
    and kv_del: "inv m \<Longrightarrow>
      \<exists>m' t. ma_set (mo_kv M) m k None = Inr ((kvv m k, TombStone t), m') \<and> inv m' \<and>
        kvv m' = (kvv m)(k := TombStone t) \<and> expv m' = expv m \<and> mo_sys M m' = mo_sys M m"
    and exp_set: "inv m \<Longrightarrow> sequence (mo_sys M m) \<noteq> 0 \<Longrightarrow> is_not_found (expv m ek) \<Longrightarrow>
      expire_key_u64 ek \<Longrightarrow> valid_str w \<Longrightarrow>
      \<exists>m'. ma_set (mo_exp M) m ek (Some (w, meta)) =
          Inr ((expv m ek, Normal (sequence (mo_sys M m)) w meta), m') \<and> inv m' \<and>
        expv m' = (expv m)(ek := Normal (sequence (mo_sys M m)) w meta) \<and> kvv m' = kvv m \<and>
        mo_sys M m' = mo_sys M m"
    and exp_del: "inv m \<Longrightarrow> expire_key_u64 ek \<Longrightarrow>
      \<exists>m' t. ma_set (mo_exp M) m ek None = Inr ((expv m ek, TombStone t), m') \<and> inv m' \<and>
        expv m' = (expv m)(ek := TombStone t) \<and> kvv m' = kvv m \<and> mo_sys M m' = mo_sys M m"
    and set_sys: "inv m \<Longrightarrow> sequence sd = sequence (mo_sys M m) \<Longrightarrow>
      inv (mo_set_sys M m sd) \<and> mo_sys M (mo_set_sys M m sd) = sd \<and>
      kvv (mo_set_sys M m sd) = kvv m \<and> expv (mo_set_sys M m sd) = expv m"

sublocale sm_map \<subseteq> kvr: map_api_ro "ma_get (mo_kv M)" "ma_range (mo_kv M)" range_ok inv kvv
  by unfold_locales (simp_all add: kv_get kv_range)

sublocale sm_map \<subseteq> expr: map_api_ro "ma_get (mo_exp M)" "ma_range (mo_exp M)" expire_range_ok inv expv
  by unfold_locales (simp_all add: exp_get exp_range)

end
