(* ===== verification/Level.thy ===== *)
theory Level
  imports StoreApi
begin

text \<open>
  A single level of the store (\<open>src/meta/raft-store/src/leveled_store/level.rs\<close>): system data and
  two \<open>BTreeMap\<close>s. \<open>level_ops\<close> is its \<open>MapApi\<close>; a single level, as \<open>MemStateMachine\<close> uses it,
  satisfies the contract \<open>sm_map\<close>.
\<close>

record ('lid, 'mem) level =
  lv_sys_data :: "('lid, 'mem) sys_data"
  lv_kv :: "(rstr, bytes) table"
  lv_expire :: "(expire_key, rstr) table"

text \<open>\<open>Default\<close>; the default membership is third-party data.\<close>

definition sys_data_default :: "'mem \<Rightarrow> ('lid, 'mem) sys_data" where
  "sys_data_default mem0 =
     \<lparr>last_applied = None, last_membership = (None, mem0), nodes = [], sequence = 0\<rparr>"

definition level_default :: "'mem \<Rightarrow> ('lid, 'mem) level" where
  "level_default mem0 = \<lparr>lv_sys_data = sys_data_default mem0, lv_kv = [], lv_expire = []\<rparr>"

definition new_level :: "('lid, 'mem) level \<Rightarrow> ('lid, 'mem) level" where
  "new_level l = \<lparr>lv_sys_data = lv_sys_data l, lv_kv = [], lv_expire = []\<rparr>"

definition replace_kv :: "('lid, 'mem) level \<Rightarrow> (rstr, bytes) table \<Rightarrow> ('lid, 'mem) level" where
  "replace_kv l t = l\<lparr>lv_kv := t\<rparr>"

definition replace_expire :: "('lid, 'mem) level \<Rightarrow> (expire_key, rstr) table \<Rightarrow> ('lid, 'mem) level" where
  "replace_expire l t = l\<lparr>lv_expire := t\<rparr>"

definition level_get_kv :: "('lid, 'mem) level \<Rightarrow> rstr \<Rightarrow> bytes marked res" where
  "level_get_kv l key = Inr (case btree_get (lv_kv l) key of Some m \<Rightarrow> m | None \<Rightarrow> marked_empty)"

definition level_range_kv :: "('lid, 'mem) level \<Rightarrow> rstr bounds \<Rightarrow> (rstr, bytes) kvres list res" where
  "level_range_kv l r = rbind (btree_range (lv_kv l) r) (\<lambda>vec. Inr (map Inr vec))"

definition level_set_kv ::
    "('lid, 'mem) level \<Rightarrow> rstr \<Rightarrow> (bytes \<times> kv_meta option) option \<Rightarrow>
     ((bytes marked \<times> bytes marked) \<times> ('lid, 'mem) level) res" where
  "level_set_kv l key value =
     (let (marked, l) =
        (case value of
           Some (v, meta) \<Rightarrow>
             (case next_seq (lv_sys_data l) of (seq, sd) \<Rightarrow> (Normal seq v meta, l\<lparr>lv_sys_data := sd\<rparr>))
         | None \<Rightarrow> (TombStone (curr_seq (lv_sys_data l)), l))
      in rbind (level_get_kv l key) (\<lambda>prev.
           Inr ((prev, marked), l\<lparr>lv_kv := btree_insert key marked (lv_kv l)\<rparr>)))"

definition level_get_expire :: "('lid, 'mem) level \<Rightarrow> expire_key \<Rightarrow> rstr marked res" where
  "level_get_expire l key =
     Inr (case btree_get (lv_expire l) key of Some m \<Rightarrow> m | None \<Rightarrow> marked_empty)"

definition level_range_expire ::
    "('lid, 'mem) level \<Rightarrow> expire_key bounds \<Rightarrow> (expire_key, rstr) kvres list res" where
  "level_range_expire l r = rbind (btree_range (lv_expire l) r) (\<lambda>vec. Inr (map Inr vec))"

definition level_set_expire ::
    "('lid, 'mem) level \<Rightarrow> expire_key \<Rightarrow> (rstr \<times> kv_meta option) option \<Rightarrow>
     ((rstr marked \<times> rstr marked) \<times> ('lid, 'mem) level) res" where
  "level_set_expire l key value =
     (let seq = curr_seq (lv_sys_data l)
      in rbind (case value of
                  Some (v, meta) \<Rightarrow> marked_from_triple (seq, v, meta)
                | None \<Rightarrow> Inr (TombStone seq)) (\<lambda>marked.
         rbind (level_get_expire l key) (\<lambda>prev.
           Inr ((prev, marked), l\<lparr>lv_expire := btree_insert key marked (lv_expire l)\<rparr>))))"

definition level_ops :: "(('lid, 'mem) level, 'lid, 'mem) map_ops" where
  "level_ops =
     \<lparr>mo_kv = \<lparr>ma_get = level_get_kv, ma_range = level_range_kv, ma_set = level_set_kv\<rparr>,
      mo_exp = \<lparr>ma_get = level_get_expire, ma_range = level_range_expire, ma_set = level_set_expire\<rparr>,
      mo_sys = lv_sys_data,
      mo_set_sys = (\<lambda>l s. l\<lparr>lv_sys_data := s\<rparr>)\<rparr>"

section \<open>Lemmas\<close>

definition table_view :: "('k, 'v) table \<Rightarrow> 'k \<Rightarrow> 'v marked" where
  "table_view t k = (case btree_get t k of Some m \<Rightarrow> m | None \<Rightarrow> marked_empty)"

definition level_kv_view :: "('lid, 'mem) level \<Rightarrow> rstr \<Rightarrow> bytes marked" where
  "level_kv_view l = table_view (lv_kv l)"

definition level_expire_view :: "('lid, 'mem) level \<Rightarrow> expire_key \<Rightarrow> rstr marked" where
  "level_expire_view l = table_view (lv_expire l)"

definition level_inv :: "('lid, 'mem) level \<Rightarrow> bool" where
  "level_inv l \<longleftrightarrow> btree_ok (lv_kv l) \<and> btree_ok (lv_expire l) \<and> sequence (lv_sys_data l) < 2 ^ 64"

lemma level_reads_kv: "btree_ok (lv_kv l) \<Longrightarrow> reads_table range_ok (level_get_kv l) (level_range_kv l) (lv_kv l)"
  by (simp add: reads_table_def level_get_kv_def level_range_kv_def table_range_def)

lemma level_reads_expire:
  "btree_ok (lv_expire l) \<Longrightarrow>
   reads_table expire_range_ok (level_get_expire l) (level_range_expire l) (lv_expire l)"
  by (simp add: reads_table_def level_get_expire_def level_range_expire_def table_range_def expire_range_ok_def)

lemma range_spec_table:
  assumes "btree_ok t"
  shows "range_spec (table_view t) r (table_range r t)"
proof -
  have "sorted_wrt (<) (map fst (table_range r t))"
    using assms btree_ok_filter [of t] by (simp add: table_range_def btree_ok_def)
  moreover have "table_view t k = m" if "(k, m) \<in> set t" for k m
    using that assms by (simp add: table_view_def flip: btree_get_in_set)
  moreover have "(k, table_view t k) \<in> set t" if "is_normal (table_view t k)" for k
    using that assms
    by (auto simp: table_view_def marked_empty_def is_normal_def simp flip: btree_get_in_set split: option.splits)
  ultimately show ?thesis
    by (auto simp: range_spec_def table_range_def)
qed

lemma table_view_insert [simp]: "table_view (btree_insert k m t) = (table_view t)(k := m)"
  by (auto simp: table_view_def fun_eq_iff)

interpretation single_level: sm_map level_ops level_inv level_kv_view level_expire_view
proof unfold_locales
  fix m :: "('lid, 'mem) level" and r :: "rstr bounds" and er :: "expire_key bounds"
  assume "level_inv m"
  then have ok: "btree_ok (lv_kv m)" "btree_ok (lv_expire m)" by (simp_all add: level_inv_def)
  show "\<exists>xs. ma_range (mo_kv level_ops) m r = Inr (map Inr xs) \<and> range_spec (level_kv_view m) r xs" if "range_ok r"
    using reads_table_range [OF level_reads_kv [OF ok(1)] that] range_spec_table [OF ok(1), of r]
    by (auto simp: level_ops_def level_kv_view_def)
  show "\<exists>xs. ma_range (mo_exp level_ops) m er = Inr (map Inr xs) \<and> range_spec (level_expire_view m) er xs"
    if "expire_range_ok er"
    using reads_table_range [OF level_reads_expire [OF ok(2)] that] range_spec_table [OF ok(2), of er]
    by (auto simp: level_ops_def level_expire_view_def)
qed (auto simp: level_ops_def level_inv_def level_get_kv_def level_get_expire_def level_kv_view_def
      level_expire_view_def table_view_def level_set_kv_def level_set_expire_def next_seq_def curr_seq_def
      marked_from_triple_def fun_eq_iff Let_def split: option.splits)

end
