(* ===== verification/LeveledMap.thy ===== *)
theory LeveledMap
  imports Level
begin

text \<open>
  The leveled map (\<open>src/meta/raft-store/src/leveled_store/\<close>: \<open>immutable.rs\<close>, \<open>level_index.rs\<close>,
  \<open>immutable_levels.rs\<close>, \<open>leveled_map/mod.rs\<close>, \<open>leveled_map/map_api_impl.rs\<close> and the type \<open>DB\<close> of
  \<open>src/meta/types/src/snapshot_db.rs\<close>): one writable level on top of frozen levels on top of the
  persisted snapshot.

  \<open>lm_inv\<close> says that the tables of the levels, newest first, are well formed and that the snapshot
  is a sorted table of encoded entries. Under it the leveled map satisfies the contract \<open>sm_map\<close>:
  whatever the split into levels, it behaves as one flat map.
\<close>

section \<open>Third-party functions the store calls\<close>

record env =
  e_kv :: "(rstr, bytes) kvres stream_more"
  e_expire :: "(expire_key, rstr) kvres stream_more"
  e_rotbl :: "(rstr \<times> seq_marked) res stream_more"
  e_codec :: codec

definition env_ok :: "env \<Rightarrow> bool" where
  "env_ok E \<longleftrightarrow> stream_more_ok (e_kv E) \<and> stream_more_ok (e_expire E) \<and> stream_more_ok (e_rotbl E) \<and>
     codec_ok (e_codec E)"

section \<open>The persisted snapshot\<close>

record ('lid, 'mem) snapshot_meta =
  last_log_id :: "'lid option"
  snap_membership :: "'lid option \<times> 'mem"
  snapshot_id :: rstr

record ('lid, 'mem) db =
  db_meta :: "('lid, 'mem) snapshot_meta"
  db_sys_data :: "('lid, 'mem) sys_data"
  db_rotbl :: rotbl

text \<open>\<open>DB::new\<close>; \<open>sys\<close> is the deserialised user data of the table.\<close>

definition DB_new :: "rstr \<Rightarrow> ('lid, 'mem) sys_data \<Rightarrow> rotbl \<Rightarrow> ('lid, 'mem) db" where
  "DB_new sid sys r =
     \<lparr>db_meta = \<lparr>last_log_id = last_applied sys, snap_membership = last_membership sys, snapshot_id = sid\<rparr>,
      db_sys_data = sys, db_rotbl = r\<rparr>"

definition db_get_kv :: "codec \<Rightarrow> ('lid, 'mem) db \<Rightarrow> rstr \<Rightarrow> bytes marked res" where
  "db_get_kv C d = db_get string_space (marked_from_seq_marked C) (db_rotbl d)"

definition db_range_kv :: "codec \<Rightarrow> ('lid, 'mem) db \<Rightarrow> rstr bounds \<Rightarrow> (rstr, bytes) kvres list res" where
  "db_range_kv C d = db_range string_space (marked_from_seq_marked C) (db_rotbl d)"

definition db_get_expire :: "codec \<Rightarrow> ('lid, 'mem) db \<Rightarrow> expire_key \<Rightarrow> rstr marked res" where
  "db_get_expire C d = db_get expire_space (marked_string_from_seq_marked C) (db_rotbl d)"

definition db_range_expire ::
    "codec \<Rightarrow> ('lid, 'mem) db \<Rightarrow> expire_key bounds \<Rightarrow> (expire_key, rstr) kvres list res" where
  "db_range_expire C d = db_range expire_space (marked_string_from_seq_marked C) (db_rotbl d)"

section \<open>Frozen levels\<close>

record level_index =
  li_internal_seq :: nat
  li_uniq :: nat

record ('lid, 'mem) immutable =
  im_index :: level_index
  im_level :: "('lid, 'mem) level"

text \<open>\<open>Immutable::new\<close>; \<open>uniq\<close> is the value of the process-wide counter.\<close>

definition Immutable_new :: "nat \<Rightarrow> ('lid, 'mem) level \<Rightarrow> ('lid, 'mem) immutable" where
  "Immutable_new uniq l =
     \<lparr>im_index = \<lparr>li_internal_seq = curr_seq (lv_sys_data l), li_uniq = uniq\<rparr>, im_level = l\<rparr>"

definition immutable_get_kv :: "('lid, 'mem) immutable \<Rightarrow> rstr \<Rightarrow> bytes marked res" where
  "immutable_get_kv i = level_get_kv (im_level i)"

definition immutable_range_kv :: "('lid, 'mem) immutable \<Rightarrow> rstr bounds \<Rightarrow> (rstr, bytes) kvres list res" where
  "immutable_range_kv i r = rbind (btree_range (lv_kv (im_level i)) r) (\<lambda>it. Inr (map Inr it))"

definition immutable_get_expire :: "('lid, 'mem) immutable \<Rightarrow> expire_key \<Rightarrow> rstr marked res" where
  "immutable_get_expire i = level_get_expire (im_level i)"

definition immutable_range_expire ::
    "('lid, 'mem) immutable \<Rightarrow> expire_key bounds \<Rightarrow> (expire_key, rstr) kvres list res" where
  "immutable_range_expire i r = rbind (btree_range (lv_expire (im_level i)) r) (\<lambda>it. Inr (map Inr it))"

text \<open>\<open>ImmutableLevels\<close>: from oldest to newest.\<close>

type_synonym ('lid, 'mem) immutable_levels = "('lid, 'mem) immutable list"

definition iter_immutable_levels :: "('lid, 'mem) immutable_levels \<Rightarrow> ('lid, 'mem) immutable list" where
  "iter_immutable_levels ls = rev ls"

definition il_newest :: "('lid, 'mem) immutable_levels \<Rightarrow> ('lid, 'mem) immutable option" where
  "il_newest ls = (if ls = [] then None else Some (last ls))"

definition il_push :: "('lid, 'mem) immutable_levels \<Rightarrow> ('lid, 'mem) immutable \<Rightarrow> ('lid, 'mem) immutable_levels" where
  "il_push ls l = ls @ [l]"

definition il_get_kv :: "('lid, 'mem) immutable_levels \<Rightarrow> rstr \<Rightarrow> bytes marked res" where
  "il_get_kv ls key = compacted_get immutable_get_kv immutable_get_kv key (iter_immutable_levels ls) []"

definition il_range_kv ::
    "env \<Rightarrow> ('lid, 'mem) immutable_levels \<Rightarrow> rstr bounds \<Rightarrow> (rstr, bytes) kvres list res" where
  "il_range_kv E ls r =
     compacted_range (e_kv E) level_range_kv immutable_range_kv level_range_kv r
       (None :: ('lid, 'mem) level option) (iter_immutable_levels ls) ([] :: ('lid, 'mem) level list)"

definition il_get_expire :: "('lid, 'mem) immutable_levels \<Rightarrow> expire_key \<Rightarrow> rstr marked res" where
  "il_get_expire ls key =
     compacted_get immutable_get_expire immutable_get_expire key (iter_immutable_levels ls) []"

definition il_range_expire ::
    "env \<Rightarrow> ('lid, 'mem) immutable_levels \<Rightarrow> expire_key bounds \<Rightarrow> (expire_key, rstr) kvres list res" where
  "il_range_expire E ls r =
     compacted_range (e_expire E) level_range_expire immutable_range_expire level_range_expire r
       (None :: ('lid, 'mem) level option) (iter_immutable_levels ls) ([] :: ('lid, 'mem) level list)"

section \<open>The leveled map\<close>

text \<open>
  \<open>current_compactor\<close> is the receiving end of the channel whose sending end a compactor holds; a
  channel is a number.
\<close>

record ('lid, 'mem) leveled_map =
  current_compactor :: "nat option"
  writable :: "('lid, 'mem) level"
  immutable_levels :: "('lid, 'mem) immutable_levels"
  persisted :: "('lid, 'mem) db option"

definition leveled_map_default :: "'mem \<Rightarrow> ('lid, 'mem) leveled_map" where
  "leveled_map_default mem0 =
     \<lparr>current_compactor = None, writable = level_default mem0, immutable_levels = [], persisted = None\<rparr>"

definition leveled_map_clear :: "'mem \<Rightarrow> ('lid, 'mem) leveled_map \<Rightarrow> ('lid, 'mem) leveled_map" where
  "leveled_map_clear mem0 lm =
     lm\<lparr>writable := level_default mem0, immutable_levels := [], persisted := None\<rparr>"

definition immutable_level_index :: "('lid, 'mem) leveled_map \<Rightarrow> level_index option" where
  "immutable_level_index lm = map_option im_index (il_newest (immutable_levels lm))"

definition iter_levels :: "('lid, 'mem) leveled_map \<Rightarrow> ('lid, 'mem) level list" where
  "iter_levels lm = writable lm # map im_level (iter_immutable_levels (immutable_levels lm))"

definition iter_persisted :: "('lid, 'mem) leveled_map \<Rightarrow> ('lid, 'mem) db list" where
  "iter_persisted lm = (case persisted lm of None \<Rightarrow> [] | Some d \<Rightarrow> [d])"

definition freeze_writable :: "nat \<Rightarrow> ('lid, 'mem) leveled_map \<Rightarrow> ('lid, 'mem) leveled_map" where
  "freeze_writable uniq lm =
     lm\<lparr>writable := new_level (writable lm),
        immutable_levels := il_push (immutable_levels lm) (Immutable_new uniq (writable lm))\<rparr>"

definition lm_get_kv :: "env \<Rightarrow> ('lid, 'mem) leveled_map \<Rightarrow> rstr \<Rightarrow> bytes marked res" where
  "lm_get_kv E lm key =
     compacted_get level_get_kv (db_get_kv (e_codec E)) key (iter_levels lm) (iter_persisted lm)"

definition lm_range_kv ::
    "env \<Rightarrow> ('lid, 'mem) leveled_map \<Rightarrow> rstr bounds \<Rightarrow> (rstr, bytes) kvres list res" where
  "lm_range_kv E lm r =
     compacted_range (e_kv E) level_range_kv immutable_range_kv (db_range_kv (e_codec E)) r
       (Some (writable lm)) (iter_immutable_levels (immutable_levels lm)) (iter_persisted lm)"

definition lm_get_expire :: "env \<Rightarrow> ('lid, 'mem) leveled_map \<Rightarrow> expire_key \<Rightarrow> rstr marked res" where
  "lm_get_expire E lm key =
     compacted_get level_get_expire (db_get_expire (e_codec E)) key (iter_levels lm) (iter_persisted lm)"

definition lm_range_expire ::
    "env \<Rightarrow> ('lid, 'mem) leveled_map \<Rightarrow> expire_key bounds \<Rightarrow> (expire_key, rstr) kvres list res" where
  "lm_range_expire E lm r =
     compacted_range (e_expire E) level_range_expire immutable_range_expire (db_range_expire (e_codec E)) r
       (Some (writable lm)) (iter_immutable_levels (immutable_levels lm)) (iter_persisted lm)"

text \<open>\<open>MapApi::set\<close>, generic in the key space.\<close>

definition leveled_set ::
    "(('lid, 'mem) leveled_map \<Rightarrow> 'k \<Rightarrow> 'v marked res) \<Rightarrow>
     (('lid, 'mem) level \<Rightarrow> 'k \<Rightarrow> ('v \<times> kv_meta option) option \<Rightarrow>
        (('v marked \<times> 'v marked) \<times> ('lid, 'mem) level) res) \<Rightarrow>
     ('lid, 'mem) leveled_map \<Rightarrow> 'k \<Rightarrow> ('v \<times> kv_meta option) option \<Rightarrow>
     (('v marked \<times> 'v marked) \<times> ('lid, 'mem) leveled_map) res" where
  "leveled_set get lset lm key value =
     rbind (get lm key) (\<lambda>prev.
       if is_not_found prev \<and> Option.is_none value then Inr ((prev, TombStone 0), lm)
       else rbind (lset (writable lm) key value) (\<lambda>((_, inserted), w).
              Inr ((prev, inserted), lm\<lparr>writable := w\<rparr>)))"

definition lm_ops :: "env \<Rightarrow> (('lid, 'mem) leveled_map, 'lid, 'mem) map_ops" where
  "lm_ops E =
     \<lparr>mo_kv = \<lparr>ma_get = lm_get_kv E, ma_range = lm_range_kv E, ma_set = leveled_set (lm_get_kv E) level_set_kv\<rparr>,
      mo_exp = \<lparr>ma_get = lm_get_expire E, ma_range = lm_range_expire E,
                ma_set = leveled_set (lm_get_expire E) level_set_expire\<rparr>,
      mo_sys = (\<lambda>lm. lv_sys_data (writable lm)),
      mo_set_sys = (\<lambda>lm s. lm\<lparr>writable := (writable lm)\<lparr>lv_sys_data := s\<rparr>\<rparr>)\<rparr>"

section \<open>Invariant\<close>

definition scan_all :: "('k, 'v) kvres list res \<Rightarrow> ('k, 'v) table" where
  "scan_all r = (case rbind r try_collect of Inl _ \<Rightarrow> [] | Inr t \<Rightarrow> t)"

definition db_kv_table :: "codec \<Rightarrow> ('lid, 'mem) db \<Rightarrow> (rstr, bytes) table" where
  "db_kv_table C d = scan_all (db_range_kv C d (Unbounded, Unbounded))"

definition db_expire_table :: "codec \<Rightarrow> ('lid, 'mem) db \<Rightarrow> (expire_key, rstr) table" where
  "db_expire_table C d = scan_all (db_range_expire C d (Unbounded, Unbounded))"

text \<open>The snapshot's table holds the encoded entries of the two key spaces, and nothing else.\<close>

definition db_ok :: "codec \<Rightarrow> ('lid, 'mem) db \<Rightarrow> bool" where
  "db_ok C d \<longleftrightarrow>
     btree_ok (db_kv_table C d) \<and> btree_ok (db_expire_table C d) \<and> expire_table_ok (db_expire_table C d) \<and>
     (\<exists>t. encoded_table C (db_expire_table C d) (db_kv_table C d) = Inr t \<and> rotbl_ok (db_rotbl d) t)"

definition kv_tables :: "env \<Rightarrow> ('lid, 'mem) leveled_map \<Rightarrow> (rstr, bytes) table list" where
  "kv_tables E lm = map lv_kv (iter_levels lm) @ map (db_kv_table (e_codec E)) (iter_persisted lm)"

definition expire_tables :: "env \<Rightarrow> ('lid, 'mem) leveled_map \<Rightarrow> (expire_key, rstr) table list" where
  "expire_tables E lm =
     map lv_expire (iter_levels lm) @ map (db_expire_table (e_codec E)) (iter_persisted lm)"

definition lm_kv_view :: "env \<Rightarrow> ('lid, 'mem) leveled_map \<Rightarrow> rstr \<Rightarrow> bytes marked" where
  "lm_kv_view E lm = tables_get (kv_tables E lm)"

definition lm_expire_view :: "env \<Rightarrow> ('lid, 'mem) leveled_map \<Rightarrow> expire_key \<Rightarrow> rstr marked" where
  "lm_expire_view E lm = tables_get (expire_tables E lm)"

abbreviation lm_seq :: "('lid, 'mem) leveled_map \<Rightarrow> nat" where
  "lm_seq lm \<equiv> sequence (lv_sys_data (writable lm))"

definition lm_inv :: "env \<Rightarrow> ('lid, 'mem) leveled_map \<Rightarrow> bool" where
  "lm_inv E lm \<longleftrightarrow>
     env_ok E \<and> lm_seq lm < 2 ^ 64 \<and>
     tables_ok (lm_seq lm) (kv_tables E lm) \<and> tables_ok (lm_seq lm) (expire_tables E lm) \<and>
     (\<forall>l \<in> set (iter_levels lm). expire_table_ok (lv_expire l)) \<and>
     (\<forall>d \<in> set (iter_persisted lm). db_ok (e_codec E) d)"

section \<open>Lemmas\<close>

subsection \<open>The snapshot\<close>

lemma scan_all_reads:
  "reads_table rok get rng t \<Longrightarrow> rok (Unbounded, Unbounded) \<Longrightarrow> scan_all (rng (Unbounded, Unbounded)) = t"
  by (simp add: scan_all_def reads_table_range res_simps table_range_def in_bounds_def)

lemma db_tables:
  assumes "codec_ok C" and "btree_ok exps" "expire_table_ok exps" and "btree_ok kvs"
    and "encoded_table C exps kvs = Inr t" and "rotbl_ok (db_rotbl d) t"
  shows "db_kv_table C d = kvs" and "db_expire_table C d = exps" and "db_ok C d"
proof -
  note r = db_reads [OF assms]
  show kv: "db_kv_table C d = kvs"
    unfolding db_kv_table_def db_range_kv_def by (rule scan_all_reads [OF r(1)]) simp
  show exp: "db_expire_table C d = exps"
    unfolding db_expire_table_def db_range_expire_def
    by (rule scan_all_reads [OF r(2)]) (simp add: expire_range_ok_def bounds_all_def)
  show "db_ok C d"
    using assms kv exp by (auto simp: db_ok_def)
qed

lemma db_ok_reads:
  assumes "codec_ok C" and "db_ok C d"
  shows "reads_table range_ok (db_get_kv C d) (db_range_kv C d) (db_kv_table C d)"
    and "reads_table expire_range_ok (db_get_expire C d) (db_range_expire C d) (db_expire_table C d)"
proof -
  obtain t where t: "encoded_table C (db_expire_table C d) (db_kv_table C d) = Inr t" "rotbl_ok (db_rotbl d) t"
    using assms(2) by (auto simp: db_ok_def)
  have ok: "btree_ok (db_expire_table C d)" "expire_table_ok (db_expire_table C d)" "btree_ok (db_kv_table C d)"
    using assms(2) by (auto simp: db_ok_def)
  note r = db_reads [OF assms(1) ok t]
  show "reads_table range_ok (db_get_kv C d) (db_range_kv C d) (db_kv_table C d)"
    unfolding db_get_kv_def [abs_def] db_range_kv_def [abs_def] by (rule r(1))
  show "reads_table expire_range_ok (db_get_expire C d) (db_range_expire C d) (db_expire_table C d)"
    unfolding db_get_expire_def [abs_def] db_range_expire_def [abs_def] by (rule r(2))
qed

lemma immutable_range_kv_eq: "immutable_range_kv i = level_range_kv (im_level i)"
  by (simp add: fun_eq_iff immutable_range_kv_def level_range_kv_def)

lemma immutable_range_expire_eq: "immutable_range_expire i = level_range_expire (im_level i)"
  by (simp add: fun_eq_iff immutable_range_expire_def level_range_expire_def)

subsection \<open>Reading\<close>

lemma lm_inv_parts:
  assumes "lm_inv E lm"
  shows "env_ok E" and "codec_ok (e_codec E)" and "tables_ok (lm_seq lm) (kv_tables E lm)"
    and "tables_ok (lm_seq lm) (expire_tables E lm)" and "lm_seq lm < 2 ^ 64"
    and "\<And>l. l \<in> set (iter_levels lm) \<Longrightarrow> btree_ok (lv_kv l) \<and> btree_ok (lv_expire l) \<and> expire_table_ok (lv_expire l)"
    and "\<And>d. d \<in> set (iter_persisted lm) \<Longrightarrow> db_ok (e_codec E) d"
  using assms
  by (auto simp: lm_inv_def env_ok_def kv_tables_def expire_tables_def tables_ok_def intro: table_ok_btree)

lemma lm_get_kv_view:
  assumes "lm_inv E lm"
  shows "lm_get_kv E lm k = Inr (lm_kv_view E lm k)"
  unfolding lm_get_kv_def lm_kv_view_def kv_tables_def
  by (rule compacted_get_tables [where cs = "lm_seq lm"])
     (use lm_inv_parts [OF assms] in \<open>auto simp: kv_tables_def
       intro!: reads_table_get [OF level_reads_kv] reads_table_get [OF db_ok_reads(1)]\<close>)

lemma lm_get_expire_view:
  assumes "lm_inv E lm"
  shows "lm_get_expire E lm k = Inr (lm_expire_view E lm k)"
  unfolding lm_get_expire_def lm_expire_view_def expire_tables_def
  by (rule compacted_get_tables [where cs = "lm_seq lm"])
     (use lm_inv_parts [OF assms] in \<open>auto simp: expire_tables_def
       intro!: reads_table_get [OF level_reads_expire] reads_table_get [OF db_ok_reads(2)]\<close>)

lemma range_spec_of_set:
  assumes "sorted_wrt (<) (map fst xs)"
    and "set xs = {(k, m). in_bounds r k \<and> view k = m \<and> \<not> is_not_found m}"
  shows "range_spec view r xs"
proof -
  have "\<not> is_not_found m" if "is_normal m" for m :: "'b marked"
    using that by (cases m) (simp_all add: is_normal_def)
  then show ?thesis
    using assms by (auto simp: range_spec_def)
qed

lemma lm_range_kv_view:
  assumes "lm_inv E lm" and "range_ok r"
  shows "\<exists>xs. lm_range_kv E lm r = Inr (map Inr xs) \<and> range_spec (lm_kv_view E lm) r xs"
proof -
  note p = lm_inv_parts [OF assms(1)]
  have "\<exists>xs. lm_range_kv E lm r = Inr (map Inr xs) \<and> sorted_wrt (<) (map fst xs) \<and>
      set xs = {(k, m). in_bounds r k \<and> tables_get (kv_tables E lm) k = m \<and> \<not> is_not_found m}"
    unfolding lm_range_kv_def
  proof (rule compacted_range_tables [where tab_t = lv_kv and tab_l = "lv_kv \<circ> im_level"
        and tab_p = "db_kv_table (e_codec E)" and cs = "lm_seq lm"])
    show "stream_more_ok (e_kv E)" using p(1) by (simp add: env_ok_def)
  qed (use p assms(2) in \<open>auto simp: kv_tables_def iter_levels_def immutable_range_kv_eq
      intro!: reads_table_range [OF level_reads_kv] reads_table_range [OF db_ok_reads(1)]\<close>)
  then show ?thesis
    unfolding lm_kv_view_def using range_spec_of_set by blast
qed

lemma lm_range_expire_view:
  assumes "lm_inv E lm" and "expire_range_ok r"
  shows "\<exists>xs. lm_range_expire E lm r = Inr (map Inr xs) \<and> range_spec (lm_expire_view E lm) r xs"
proof -
  note p = lm_inv_parts [OF assms(1)]
  have "\<exists>xs. lm_range_expire E lm r = Inr (map Inr xs) \<and> sorted_wrt (<) (map fst xs) \<and>
      set xs = {(k, m). in_bounds r k \<and> tables_get (expire_tables E lm) k = m \<and> \<not> is_not_found m}"
    unfolding lm_range_expire_def
  proof (rule compacted_range_tables [where tab_t = lv_expire and tab_l = "lv_expire \<circ> im_level"
        and tab_p = "db_expire_table (e_codec E)" and cs = "lm_seq lm"])
    show "stream_more_ok (e_expire E)" using p(1) by (simp add: env_ok_def)
  qed (use p assms(2) in \<open>auto simp: expire_tables_def iter_levels_def immutable_range_expire_eq
      intro!: reads_table_range [OF level_reads_expire] reads_table_range [OF db_ok_reads(2)]\<close>)
  then show ?thesis
    unfolding lm_expire_view_def using range_spec_of_set by blast
qed

subsection \<open>Writing\<close>

lemma set_btree_insert_cases:
  "(a, b) \<in> set (btree_insert k v t) \<Longrightarrow> a = k \<and> b = v \<or> (a, b) \<in> set t"
  by (induction k v t rule: btree_insert.induct) (auto split: if_splits)

lemma btree_insert_no_dup:
  "btree_ok t \<Longrightarrow> (k, b) \<in> set (btree_insert k v t) \<Longrightarrow> b = v"
  by (metis btree_get_in_set btree_get_insert btree_ok_insert fun_upd_same option.inject)

text \<open>Writing into the newest table keeps the tables well formed if the entry is the freshest.\<close>

lemma tables_ok_insert:
  assumes "tables_ok cs (t # ts)" and "cs \<le> cs'" and "1 \<le> internal_seq m" "internal_seq m \<le> cs'"
    and "\<And>u n. u \<in> set ts \<Longrightarrow> (k, n) \<in> set u \<Longrightarrow> order_key n < order_key m \<or> (m = n \<and> is_tombstone m)"
  shows "tables_ok cs' (btree_insert k m t # ts)"
proof -
  have t: "table_ok cs t" "\<forall>u \<in> set ts. newer t u" "tables_ok cs ts"
    using assms(1) by (auto simp: tables_ok_Cons)
  have ok: "btree_ok t" using t(1) by (rule table_ok_btree)
  have "table_ok cs' (btree_insert k m t)"
    using table_ok_mono [OF t(1) assms(2)] assms(3,4)
    by (auto simp: table_ok_def dest!: set_btree_insert_cases)
  moreover have "newer (btree_insert k m t) u" if u: "u \<in> set ts" for u
    unfolding newer_def
  proof (intro allI impI)
    fix a m1 m2 assume a: "(a, m1) \<in> set (btree_insert k m t)" "(a, m2) \<in> set u"
    show "order_key m2 < order_key m1 \<or> (m1 = m2 \<and> is_tombstone m1)"
    proof (cases "a = k")
      case True
      with a btree_insert_no_dup [OF ok] have "m1 = m" by blast
      with assms(5) [OF u] a(2) True show ?thesis by blast
    next
      case False
      with a(1) have "(a, m1) \<in> set t" by (auto dest: set_btree_insert_cases)
      with t(2) u a(2) show ?thesis by (auto simp: newer_def)
    qed
  qed
  ultimately show ?thesis
    using tables_ok_mono [OF t(3) assms(2)] by (simp add: tables_ok_Cons)
qed

lemma tables_get_insert: "tables_get (btree_insert k m t # ts) = (tables_get (t # ts))(k := m)"
  by (auto simp: fun_eq_iff)

lemma order_key_less_seq: "internal_seq n < s \<Longrightarrow> order_key n < order_key (Normal s v meta)"
  by (cases n) (simp_all add: less_seq_tombstone_def SeqTombstone_normal_def SeqTombstone_tombstone_def)

lemma order_key_tombstone:
  "internal_seq n \<le> s \<Longrightarrow> order_key n < order_key (TombStone s) \<or> (TombStone s = n \<and> is_tombstone n)"
  by (cases n) (auto simp: less_seq_tombstone_def SeqTombstone_normal_def SeqTombstone_tombstone_def)

lemma tables_ok_seq:
  "tables_ok cs ts \<Longrightarrow> u \<in> set ts \<Longrightarrow> (k, n) \<in> set u \<Longrightarrow> 1 \<le> internal_seq n \<and> internal_seq n \<le> cs"
  unfolding tables_ok_def using table_ok_seq by blast

text \<open>The three kinds of writes: a value with the next number, a tombstone, a value at an unused key.\<close>

lemma tables_ok_set_value:
  assumes "tables_ok cs (t # ts)"
  shows "tables_ok (cs + 1) (btree_insert k (Normal (cs + 1) v meta) t # ts)"
proof (rule tables_ok_insert [OF assms])
  fix u n assume "u \<in> set ts" "(k, n) \<in> set u"
  then show "order_key n < order_key (Normal (cs + 1) v meta) \<or> Normal (cs + 1) v meta = n \<and> is_tombstone (Normal (cs + 1) v meta)"
    using tables_ok_seq [OF assms, of u k n] order_key_less_seq [of n "cs + 1"] by auto
qed simp_all

lemma tables_ok_set_tombstone:
  assumes "tables_ok cs (t # ts)" and "\<not> is_not_found (tables_get (t # ts) k)"
  shows "tables_ok cs (btree_insert k (TombStone cs) t # ts)"
proof -
  obtain u where "u \<in> set (t # ts)" "(k, tables_get (t # ts) k) \<in> set u"
    using tables_get_eq_Normal [OF assms] by blast
  from tables_ok_seq [OF assms(1) this] have cs: "1 \<le> cs" by simp
  show ?thesis
    by (rule tables_ok_insert [OF assms(1)])
       (use assms(1) cs order_key_tombstone in \<open>auto simp: tables_ok_Cons dest!: tables_ok_seq\<close>)
qed

lemma tables_ok_set_fresh:
  assumes "tables_ok cs (t # ts)" and "is_not_found (tables_get (t # ts) k)" and "1 \<le> cs"
  shows "tables_ok cs (btree_insert k (Normal cs v meta) t # ts)"
proof (rule tables_ok_insert [OF assms(1)])
  fix u n assume "u \<in> set ts" "(k, n) \<in> set u"
  then show "order_key n < order_key (Normal cs v meta) \<or> Normal cs v meta = n \<and> is_tombstone (Normal cs v meta)"
    using tables_get_max [OF assms(1), of u k n] assms(2) by simp
qed (use assms(3) in simp_all)

definition older_kv :: "env \<Rightarrow> ('lid, 'mem) leveled_map \<Rightarrow> (rstr, bytes) table list" where
  "older_kv E lm = tl (kv_tables E lm)"

definition older_expire :: "env \<Rightarrow> ('lid, 'mem) leveled_map \<Rightarrow> (expire_key, rstr) table list" where
  "older_expire E lm = tl (expire_tables E lm)"

lemma kv_tables_Cons: "kv_tables E lm = lv_kv (writable lm) # older_kv E lm"
  by (simp add: older_kv_def kv_tables_def iter_levels_def)

lemma expire_tables_Cons: "expire_tables E lm = lv_expire (writable lm) # older_expire E lm"
  by (simp add: older_expire_def expire_tables_def iter_levels_def)

lemma older_writable [simp]:
  "older_kv E (lm\<lparr>writable := w\<rparr>) = older_kv E lm" "older_expire E (lm\<lparr>writable := w\<rparr>) = older_expire E lm"
  by (simp_all add: older_kv_def older_expire_def kv_tables_def expire_tables_def iter_levels_def iter_persisted_def)

lemma lm_inv_writable:
  assumes "lm_inv E lm" and "sequence (lv_sys_data w) < 2 ^ 64"
    and "tables_ok (sequence (lv_sys_data w)) (lv_kv w # older_kv E lm)"
    and "tables_ok (sequence (lv_sys_data w)) (lv_expire w # older_expire E lm)"
    and "expire_table_ok (lv_expire w)"
  shows "lm_inv E (lm\<lparr>writable := w\<rparr>)"
  using assms by (simp add: lm_inv_def kv_tables_Cons expire_tables_Cons iter_levels_def iter_persisted_def)

lemma expire_table_ok_insert:
  "expire_table_ok t \<Longrightarrow> expire_key_u64 k \<Longrightarrow> marked_valid_str m \<Longrightarrow> expire_table_ok (btree_insert k m t)"
  by (auto simp: expire_table_ok_def dest!: set_btree_insert_cases)

lemmas lm_view_defs = lm_kv_view_def lm_expire_view_def kv_tables_Cons expire_tables_Cons

lemma lm_writable_ok:
  assumes "lm_inv E lm"
  shows "tables_ok (lm_seq lm) (lv_kv (writable lm) # older_kv E lm)"
    and "tables_ok (lm_seq lm) (lv_expire (writable lm) # older_expire E lm)"
    and "expire_table_ok (lv_expire (writable lm))" and "lm_seq lm < 2 ^ 64"
  using lm_inv_parts [OF assms] by (simp_all add: kv_tables_Cons expire_tables_Cons iter_levels_def)

interpretation leveled: sm_map "lm_ops E" "lm_inv E" "lm_kv_view E" "lm_expire_view E"
proof unfold_locales
  fix m :: "('lid, 'mem) leveled_map" and k v meta and r :: "rstr bounds" and er ek w sd
  assume inv: "lm_inv E m"
  note p = lm_writable_ok [OF inv]
  show "ma_get (mo_kv (lm_ops E)) m k = Inr (lm_kv_view E m k)"
    by (simp add: lm_ops_def lm_get_kv_view [OF inv])
  show "ma_get (mo_exp (lm_ops E)) m ek = Inr (lm_expire_view E m ek)"
    by (simp add: lm_ops_def lm_get_expire_view [OF inv])
  show "\<exists>xs. ma_range (mo_kv (lm_ops E)) m r = Inr (map Inr xs) \<and> range_spec (lm_kv_view E m) r xs" if "range_ok r"
    using lm_range_kv_view [OF inv that] by (simp add: lm_ops_def)
  show "\<exists>xs. ma_range (mo_exp (lm_ops E)) m er = Inr (map Inr xs) \<and> range_spec (lm_expire_view E m) er xs"
    if "expire_range_ok er"
    using lm_range_expire_view [OF inv that] by (simp add: lm_ops_def)
  show "sequence (mo_sys (lm_ops E) m) < 2 ^ 64"
    using p(4) by (simp add: lm_ops_def)
  show "\<exists>m'. ma_set (mo_kv (lm_ops E)) m k (Some (v, meta)) =
          Inr ((lm_kv_view E m k, Normal (sequence (mo_sys (lm_ops E) m) + 1) v meta), m') \<and> lm_inv E m' \<and>
        lm_kv_view E m' = (lm_kv_view E m)(k := Normal (sequence (mo_sys (lm_ops E) m) + 1) v meta) \<and>
        lm_expire_view E m' = lm_expire_view E m \<and>
        mo_sys (lm_ops E) m' = (mo_sys (lm_ops E) m)\<lparr>sequence := sequence (mo_sys (lm_ops E) m) + 1\<rparr>"
    if "sequence (mo_sys (lm_ops E) m) + 1 < 2 ^ 64"
    using that tables_ok_set_value [OF p(1), of k v meta] tables_ok_mono [OF p(2), of "lm_seq m + 1"] p(3)
    by (auto simp: lm_ops_def leveled_set_def lm_get_kv_view [OF inv] level_set_kv_def level_get_kv_def
        next_seq_def lm_view_defs tables_get_insert simp del: tables_get.simps
        intro!: lm_inv_writable [OF inv])
  show "\<exists>m' t. ma_set (mo_kv (lm_ops E)) m k None = Inr ((lm_kv_view E m k, TombStone t), m') \<and> lm_inv E m' \<and>
        lm_kv_view E m' = (lm_kv_view E m)(k := TombStone t) \<and> lm_expire_view E m' = lm_expire_view E m \<and>
        mo_sys (lm_ops E) m' = mo_sys (lm_ops E) m"
  proof (cases "is_not_found (lm_kv_view E m k)")
    case True
    then have "lm_kv_view E m k = TombStone 0" by (simp add: is_not_found_iff)
    then show ?thesis using True inv
      by (intro exI [of _ m] exI [of _ 0]) (auto simp: lm_ops_def leveled_set_def lm_get_kv_view)
  next
    case False
    with tables_ok_set_tombstone [OF p(1), of k] p(2,3,4) show ?thesis
      by (auto simp: lm_ops_def leveled_set_def lm_get_kv_view [OF inv] level_set_kv_def level_get_kv_def
          curr_seq_def lm_view_defs tables_get_insert simp del: tables_get.simps
          intro!: lm_inv_writable [OF inv])
  qed
  show "\<exists>m'. ma_set (mo_exp (lm_ops E)) m ek (Some (w, meta)) =
          Inr ((lm_expire_view E m ek, Normal (sequence (mo_sys (lm_ops E) m)) w meta), m') \<and> lm_inv E m' \<and>
        lm_expire_view E m' = (lm_expire_view E m)(ek := Normal (sequence (mo_sys (lm_ops E) m)) w meta) \<and>
        lm_kv_view E m' = lm_kv_view E m \<and> mo_sys (lm_ops E) m' = mo_sys (lm_ops E) m"
    if "sequence (mo_sys (lm_ops E) m) \<noteq> 0" "is_not_found (lm_expire_view E m ek)" "expire_key_u64 ek" "valid_str w"
    using that tables_ok_set_fresh [OF p(2), of ek w meta] p(1,3,4)
    by (auto simp: lm_ops_def leveled_set_def lm_get_expire_view [OF inv] level_set_expire_def
        level_get_expire_def curr_seq_def Let_def marked_from_triple_def lm_view_defs tables_get_insert marked_valid_str_def
        simp del: tables_get.simps intro!: lm_inv_writable [OF inv] expire_table_ok_insert)
  show "\<exists>m' t. ma_set (mo_exp (lm_ops E)) m ek None = Inr ((lm_expire_view E m ek, TombStone t), m') \<and> lm_inv E m' \<and>
        lm_expire_view E m' = (lm_expire_view E m)(ek := TombStone t) \<and> lm_kv_view E m' = lm_kv_view E m \<and>
        mo_sys (lm_ops E) m' = mo_sys (lm_ops E) m" if "expire_key_u64 ek"
  proof (cases "is_not_found (lm_expire_view E m ek)")
    case True
    then have "lm_expire_view E m ek = TombStone 0" by (simp add: is_not_found_iff)
    then show ?thesis using True inv
      by (intro exI [of _ m] exI [of _ 0]) (auto simp: lm_ops_def leveled_set_def lm_get_expire_view)
  next
    case False
    with that tables_ok_set_tombstone [OF p(2), of ek] p(1,3,4) show ?thesis
      by (auto simp: lm_ops_def leveled_set_def lm_get_expire_view [OF inv] level_set_expire_def
          level_get_expire_def curr_seq_def Let_def lm_view_defs tables_get_insert marked_valid_str_def
          simp del: tables_get.simps intro!: lm_inv_writable [OF inv] expire_table_ok_insert)
  qed
  show "lm_inv E (mo_set_sys (lm_ops E) m sd) \<and> mo_sys (lm_ops E) (mo_set_sys (lm_ops E) m sd) = sd \<and>
      lm_kv_view E (mo_set_sys (lm_ops E) m sd) = lm_kv_view E m \<and>
      lm_expire_view E (mo_set_sys (lm_ops E) m sd) = lm_expire_view E m"
    if "sequence sd = sequence (mo_sys (lm_ops E) m)"
    using that p by (auto simp: lm_ops_def lm_view_defs intro!: lm_inv_writable [OF inv])
qed

end
