(* ===== verification/Compaction.thy ===== *)
theory Compaction
  imports LeveledMap
begin

text \<open>
  Compaction of the leveled map (\<open>leveled_map/compacting_data.rs\<close>, \<open>leveled_map/compactor.rs\<close>, the
  second half of \<open>util.rs\<close> and of \<open>leveled_map/mod.rs\<close>). A compactor owns a copy of the frozen levels
  and of the snapshot handle; it merges them into one sorted stream without tombstones, from which
  a new snapshot is built, while the store goes on writing and freezing levels. At the end
  \<open>replace_with_compacted\<close> swaps the compacted levels for the new snapshot.

  The lemmas show that the stream is the encoded form of exactly the live entries
  (\<open>compact_correct\<close>), that merging levels in place keeps every entry, tombstones included
  (\<open>compact_in_place_correct\<close>), and that the swap leaves what a reader sees unchanged however many
  levels were added in the meantime (\<open>replace_with_compacted_correct\<close>).
\<close>

section \<open>Merging encoded entries\<close>

type_synonym rotbl_result = "(rstr \<times> seq_marked) res"

fun rotbl_by_key_seq :: "codec \<Rightarrow> rotbl_result \<Rightarrow> rotbl_result \<Rightarrow> bool res" where
  "rotbl_by_key_seq C (Inr (k1, v1)) (Inr (k2, v2)) =
     Inr ((k1, sm_order_key C v1) \<le> (k2, sm_order_key C v2))"
| "rotbl_by_key_seq C _ _ = Inr True"

definition seq_marked_max :: "seq_marked \<Rightarrow> seq_marked \<Rightarrow> seq_marked" where
  "seq_marked_max a b = (if sm_seq a > sm_seq b then a else b)"

fun rotbl_choose_greater :: "rotbl_result \<Rightarrow> rotbl_result \<Rightarrow> (rotbl_result \<times> rotbl_result) + rotbl_result" where
  "rotbl_choose_greater (Inr (k1, v1)) (Inr (k2, v2)) =
     (if k1 = k2 then Inr (Inr (k1, seq_marked_max v1 v2)) else Inl (Inr (k1, v1), Inr (k2, v2)))"
| "rotbl_choose_greater r1 r2 = Inl (r1, r2)"

fun sm_is_normal :: "seq_marked \<Rightarrow> bool" where
  "sm_is_normal (SmTombstone _) = False"
| "sm_is_normal (SmNormal _ _) = True"

section \<open>The data to compact\<close>

text \<open>\<open>CompactingData::compact_immutable_in_place\<close>; \<open>uniq\<close> is the value of the level counter.\<close>

definition compact_immutable_in_place ::
    "env \<Rightarrow> nat \<Rightarrow> ('lid, 'mem) immutable_levels \<Rightarrow> ('lid, 'mem) immutable_levels res" where
  "compact_immutable_in_place E uniq ls =
     (case il_newest ls of
        None \<Rightarrow> Inr ls
      | Some newest \<Rightarrow>
          let data = new_level (im_level newest)
          in rbind (il_range_expire E ls (Unbounded, Unbounded)) (\<lambda>strm.
             rbind (try_collect strm) (\<lambda>bt.
             let data = replace_expire data (btree_collect bt)
             in rbind (il_range_kv E ls (Unbounded, Unbounded)) (\<lambda>strm.
                rbind (try_collect strm) (\<lambda>bt.
                let data = replace_kv data (btree_collect bt)
                in Inr [Immutable_new uniq data])))))"

definition compact ::
    "env \<Rightarrow> ('lid, 'mem) immutable_levels \<Rightarrow> ('lid, 'mem) db option \<Rightarrow>
     (('lid, 'mem) sys_data \<times> rotbl_result list) res" where
  "compact E ls d =
     (case il_newest ls of
        None \<Rightarrow> Inl (Panic UnwrapNone)
      | Some newest \<Rightarrow>
          let sys_data = lv_sys_data (im_level newest)
          in rbind (il_range_expire E ls (Unbounded, Unbounded)) (\<lambda>strm.
             let expire_strm = map (\<lambda>item. rbind item (\<lambda>(k, v).
                   encode_key_seq_marked expire_space (seq_marked_from_marked_string (e_codec E)) k v)) strm
             in rbind (il_range_kv E ls (Unbounded, Unbounded)) (\<lambda>strm.
                let kv_strm = map (\<lambda>item. rbind item (\<lambda>(k, v).
                      encode_key_seq_marked string_space (seq_marked_from_marked (e_codec E)) k v)) strm
                in rbind (sm_kmerge (e_rotbl E) (rotbl_by_key_seq (e_codec E))
                     ((expire_strm @ kv_strm) #
                      (case d of None \<Rightarrow> [] | Some db \<Rightarrow> [rotbl_range (db_rotbl db) (Unbounded, Unbounded)])))
                   (\<lambda>kmerge.
                     let coalesced = sm_coalesce (e_rotbl E) rotbl_choose_greater kmerge
                     in Inr (sys_data,
                          try_filter_map (\<lambda>(k, v). if sm_is_normal v then Some (k, v) else None) coalesced)))))"

section \<open>Compactors\<close>

record ('lid, 'mem) compactor =
  guard :: nat
  c_immutable_levels :: "('lid, 'mem) immutable_levels"
  c_db :: "('lid, 'mem) db option"
  since :: "level_index option"

definition compactor_compact_immutable_in_place ::
    "env \<Rightarrow> nat \<Rightarrow> ('lid, 'mem) compactor \<Rightarrow> ('lid, 'mem) compactor res" where
  "compactor_compact_immutable_in_place E uniq c =
     rbind (compact_immutable_in_place E uniq (c_immutable_levels c)) (\<lambda>ls.
       Inr (c\<lparr>c_immutable_levels := ls\<rparr>))"

definition compactor_compact ::
    "env \<Rightarrow> ('lid, 'mem) compactor \<Rightarrow> (('lid, 'mem) sys_data \<times> rotbl_result list) res" where
  "compactor_compact E c = compact E (c_immutable_levels c) (c_db c)"

text \<open>\<open>new_compactor\<close>; \<open>chan\<close> is the channel it creates.\<close>

definition new_compactor ::
    "nat \<Rightarrow> ('lid, 'mem) leveled_map \<Rightarrow> ('lid, 'mem) compactor \<times> ('lid, 'mem) leveled_map" where
  "new_compactor chan lm =
     (\<lparr>guard = chan, c_immutable_levels = immutable_levels lm, c_db = persisted lm,
       since = immutable_level_index lm\<rparr>,
      lm\<lparr>current_compactor := Some chan\<rparr>)"

text \<open>\<open>oneshot::Receiver::try_recv\<close>.\<close>

datatype try_recv_result = RecvOk | RecvEmpty | RecvClosed

definition try_acquire_compactor ::
    "(nat \<Rightarrow> try_recv_result) \<Rightarrow> nat \<Rightarrow> ('lid, 'mem) leveled_map \<Rightarrow>
     (('lid, 'mem) compactor option \<times> ('lid, 'mem) leveled_map) res" where
  "try_acquire_compactor try_recv chan lm =
     (let acquire = (case new_compactor chan lm of (c, lm') \<Rightarrow> Inr (Some c, lm'))
      in case current_compactor lm of
           None \<Rightarrow> acquire
         | Some rx \<Rightarrow>
             (case try_recv rx of
                RecvClosed \<Rightarrow> acquire
              | RecvEmpty \<Rightarrow> Inr (None, lm)
              | RecvOk \<Rightarrow> Inl (Panic UnreachableCode)))"

text \<open>
  \<open>acquire_compactor\<close> waits until the previous compactor has been dropped and then makes a new one;
  waiting itself changes nothing.
\<close>

definition acquire_compactor ::
    "nat \<Rightarrow> ('lid, 'mem) leveled_map \<Rightarrow> ('lid, 'mem) compactor \<times> ('lid, 'mem) leveled_map" where
  "acquire_compactor chan lm = new_compactor chan (lm\<lparr>current_compactor := None\<rparr>)"

text \<open>\<open>Vec::get\<close> and \<open>Vec::split_off\<close>.\<close>

definition vec_get :: "'a list \<Rightarrow> nat \<Rightarrow> 'a option" where
  "vec_get xs i = (if i < length xs then Some (xs ! i) else None)"

definition vec_split_off :: "'a list \<Rightarrow> nat \<Rightarrow> 'a list res" where
  "vec_split_off xs i = (if i \<le> length xs then Inr (drop i xs) else Inl (Panic IndexOutOfBounds))"

text \<open>\<open>len - 1\<close> wraps around when there is no level.\<close>

definition replace_with_compacted ::
    "('lid, 'mem) leveled_map \<Rightarrow> ('lid, 'mem) compactor \<Rightarrow> ('lid, 'mem) db \<Rightarrow> ('lid, 'mem) leveled_map res" where
  "replace_with_compacted lm c d =
     (let len = length (c_immutable_levels c);
          corresponding_index =
            map_option im_index (vec_get (c_immutable_levels c) (if len = 0 then u64_max else len - 1))
      in if since c \<noteq> corresponding_index then Inl (Panic AssertFailed)
         else rbind (vec_split_off (immutable_levels lm) len) (\<lambda>newly_added.
                Inr (lm\<lparr>immutable_levels := newly_added, persisted := Some d\<rparr>)))"

section \<open>Lemmas\<close>

subsection \<open>Entries and their encoding\<close>

text \<open>An encoded entry, seen as an entry.\<close>

fun as_marked :: "seq_marked \<Rightarrow> bytes marked" where
  "as_marked (SmTombstone s) = TombStone s"
| "as_marked (SmNormal s d) = Normal s d None"

lemma as_marked_inj: "as_marked v = as_marked w \<Longrightarrow> v = w"
  by (cases v; cases w) simp_all

lemma sm_is_normal_iff: "sm_is_normal v \<longleftrightarrow> is_normal (as_marked v)"
  by (cases v) (simp_all add: is_normal_def)

lemma as_marked_order: "codec_ok C \<Longrightarrow> sm_order_key C v = order_key (as_marked v)"
  by (cases v) (simp_all add: codec_ok_def SeqTombstone_normal_def SeqTombstone_tombstone_def)

lemma seq_marked_max_last:
  "order_key (as_marked a) \<le> order_key (as_marked b) \<Longrightarrow> seq_marked_max a b = b"
  by (cases a; cases b)
     (auto simp: seq_marked_max_def SeqTombstone_normal_def SeqTombstone_tombstone_def)

text \<open>The encodings of an entry, as total functions.\<close>

definition enc_kv :: "codec \<Rightarrow> bytes marked \<Rightarrow> seq_marked" where
  "enc_kv C m = projr (seq_marked_from_marked C m)"

definition enc_exp :: "codec \<Rightarrow> rstr marked \<Rightarrow> seq_marked" where
  "enc_exp C m = projr (seq_marked_from_marked_string C m)"

lemma enc_kv:
  assumes "codec_ok C"
  shows "seq_marked_from_marked C m = Inr (enc_kv C m)" and "marked_from_seq_marked C (enc_kv C m) = Inr m"
  using seq_marked_from_marked_total [OF assms, of m] by (auto simp: enc_kv_def)

lemma enc_exp:
  assumes "codec_ok C" and "marked_valid_str m"
  shows "seq_marked_from_marked_string C m = Inr (enc_exp C m)"
    and "marked_string_from_seq_marked C (enc_exp C m) = Inr m"
  using seq_marked_from_marked_string_total [OF assms] by (auto simp: enc_exp_def)

lemma order_key_enc_kv:
  assumes "codec_ok C"
  shows "order_key (as_marked (enc_kv C m)) = order_key m"
proof (cases m)
  case (Normal s v meta)
  then obtain d where "seq_marked_from_marked C m = Inr (SmNormal s d)"
    using enc_kv(1) [OF assms, of m] by (auto simp: rbind_Inr_iff)
  with Normal show ?thesis by (simp add: enc_kv_def)
qed (simp add: enc_kv_def)

lemma enc_exp_kv: "enc_exp C m = enc_kv C (marked_bytes_from_string m)"
  by (simp add: enc_exp_def enc_kv_def seq_marked_from_marked_string_def)

lemma order_key_enc_exp:
  assumes "codec_ok C"
  shows "order_key (as_marked (enc_exp C m)) = order_key m"
  by (cases m) (simp_all add: enc_exp_kv order_key_enc_kv [OF assms])

lemma is_normal_order_key: "is_normal m \<longleftrightarrow> \<not> st_tombstone (order_key m)"
  by (cases m) (simp_all add: is_normal_def SeqTombstone_normal_def SeqTombstone_tombstone_def)

lemma sm_is_normal_enc:
  assumes "codec_ok C"
  shows "sm_is_normal (enc_kv C m) \<longleftrightarrow> is_normal m" and "sm_is_normal (enc_exp C m') \<longleftrightarrow> is_normal m'"
  by (simp_all add: sm_is_normal_iff is_normal_order_key order_key_enc_kv [OF assms] order_key_enc_exp [OF assms])

lemma key_spaces_disjoint: "encode_key expire_space k < encode_key string_space k'"
  by (simp add: encode_key_def expire_space_def string_space_def str_def)

definition enc_rows :: "codec \<Rightarrow> (expire_key, rstr) table \<Rightarrow> (rstr, bytes) table \<Rightarrow> (rstr \<times> seq_marked) list" where
  "enc_rows C exps kvs =
     map (\<lambda>(k, m). (encode_key expire_space k, enc_exp C m)) exps @
     map (\<lambda>(k, m). (encode_key string_space k, enc_kv C m)) kvs"

lemma encoded_table_rows:
  "codec_ok C \<Longrightarrow> expire_table_ok exps \<Longrightarrow> encoded_table C exps kvs = Inr (enc_rows C exps kvs)"
  by (simp add: encoded_table_eq enc_rows_def enc_exp_def enc_kv_def)

lemma enc_rows_ok:
  assumes "btree_ok exps" "expire_table_ok exps" "btree_ok kvs"
  shows "btree_ok (enc_rows C exps kvs)"
proof -
  have "sorted_wrt (\<lambda>x y. encode_key expire_space (fst x) < encode_key expire_space (fst y)) exps"
    by (rule sorted_wrt_mono_rel [OF _ assms(1) [unfolded btree_ok_def sorted_wrt_map]])
       (use assms(2) in \<open>fastforce simp: expire_table_ok_def intro!: expire_key_space.encode_key_less [THEN iffD2]\<close>)
  moreover have "sorted_wrt (\<lambda>x y. encode_key string_space (fst x) < encode_key string_space (fst y)) kvs"
    by (rule sorted_wrt_mono_rel [OF _ assms(3) [unfolded btree_ok_def sorted_wrt_map]])
       (auto simp: string_key.encode_key_less)
  ultimately show ?thesis
    by (auto simp: btree_ok_def enc_rows_def sorted_wrt_append sorted_wrt_map case_prod_beta key_spaces_disjoint)
qed

subsection \<open>Tables of the levels\<close>

definition il_kv_tables :: "('lid, 'mem) immutable_levels \<Rightarrow> (rstr, bytes) table list" where
  "il_kv_tables ls = map (lv_kv \<circ> im_level) (iter_immutable_levels ls)"

definition il_expire_tables :: "('lid, 'mem) immutable_levels \<Rightarrow> (expire_key, rstr) table list" where
  "il_expire_tables ls = map (lv_expire \<circ> im_level) (iter_immutable_levels ls)"

definition opt_list :: "'a option \<Rightarrow> 'a list" where
  "opt_list x = (case x of None \<Rightarrow> [] | Some a \<Rightarrow> [a])"

text \<open>What a compactor may rely on of the frozen levels and the snapshot it was given.\<close>

definition compactable :: "env \<Rightarrow> nat \<Rightarrow> ('lid, 'mem) immutable_levels \<Rightarrow> ('lid, 'mem) db option \<Rightarrow> bool" where
  "compactable E cs ls d \<longleftrightarrow>
     env_ok E \<and>
     tables_ok cs (il_kv_tables ls @ map (db_kv_table (e_codec E)) (opt_list d)) \<and>
     tables_ok cs (il_expire_tables ls @ map (db_expire_table (e_codec E)) (opt_list d)) \<and>
     (\<forall>i \<in> set ls. expire_table_ok (lv_expire (im_level i))) \<and>
     (\<forall>x \<in> set (opt_list d). db_ok (e_codec E) x)"

definition compact_kv_view :: "env \<Rightarrow> ('lid, 'mem) immutable_levels \<Rightarrow> ('lid, 'mem) db option \<Rightarrow> rstr \<Rightarrow> bytes marked" where
  "compact_kv_view E ls d = tables_get (il_kv_tables ls @ map (db_kv_table (e_codec E)) (opt_list d))"

definition compact_expire_view ::
    "env \<Rightarrow> ('lid, 'mem) immutable_levels \<Rightarrow> ('lid, 'mem) db option \<Rightarrow> expire_key \<Rightarrow> rstr marked" where
  "compact_expire_view E ls d = tables_get (il_expire_tables ls @ map (db_expire_table (e_codec E)) (opt_list d))"

lemma compactable_parts:
  assumes "compactable E cs ls d"
  shows "codec_ok (e_codec E)" "stream_more_ok (e_kv E)" "stream_more_ok (e_expire E)" "stream_more_ok (e_rotbl E)"
    and "tables_ok cs (il_kv_tables ls)" "tables_ok cs (il_expire_tables ls)"
    and "\<And>i. i \<in> set ls \<Longrightarrow> btree_ok (lv_kv (im_level i)) \<and> btree_ok (lv_expire (im_level i)) \<and>
           expire_table_ok (lv_expire (im_level i))"
    and "\<And>x. x \<in> set (opt_list d) \<Longrightarrow> db_ok (e_codec E) x"
  using assms
  by (auto simp: compactable_def env_ok_def tables_ok_def sorted_wrt_append il_kv_tables_def il_expire_tables_def
      iter_immutable_levels_def intro: table_ok_btree)

text \<open>The entries of the frozen levels, merged.\<close>

definition merged_table :: "('k::linorder \<Rightarrow> 'v marked) \<Rightarrow> ('k, 'v) table \<Rightarrow> bool" where
  "merged_table view t \<longleftrightarrow> btree_ok t \<and> set t = {(k, m). view k = m \<and> \<not> is_not_found m}"

lemma il_range_kv_all:
  assumes "compactable E cs ls d"
  shows "\<exists>t. il_range_kv E ls (Unbounded, Unbounded) = Inr (map Inr t) \<and> merged_table (tables_get (il_kv_tables ls)) t"
proof -
  note p = compactable_parts [OF assms]
  have "\<exists>xs. il_range_kv E ls (Unbounded, Unbounded) = Inr (map Inr xs) \<and> sorted_wrt (<) (map fst xs) \<and>
      set xs = {(k, m). in_bounds (Unbounded, Unbounded) k \<and> tables_get (il_kv_tables ls) k = m \<and> \<not> is_not_found m}"
    unfolding il_range_kv_def
    by (rule compacted_range_tables [where tab_t = lv_kv and tab_l = "lv_kv \<circ> im_level" and tab_p = lv_kv and cs = cs])
       (use p in \<open>auto simp: il_kv_tables_def iter_immutable_levels_def immutable_range_kv_eq
          intro!: reads_table_range [OF level_reads_kv]\<close>)
  then show ?thesis by (auto simp: merged_table_def btree_ok_def in_bounds_def)
qed

lemma il_range_expire_all:
  assumes "compactable E cs ls d"
  shows "\<exists>t. il_range_expire E ls (Unbounded, Unbounded) = Inr (map Inr t) \<and>
    merged_table (tables_get (il_expire_tables ls)) t \<and> expire_table_ok t"
proof -
  note p = compactable_parts [OF assms]
  have "\<exists>xs. il_range_expire E ls (Unbounded, Unbounded) = Inr (map Inr xs) \<and> sorted_wrt (<) (map fst xs) \<and>
      set xs = {(k, m). in_bounds (Unbounded, Unbounded) k \<and> tables_get (il_expire_tables ls) k = m \<and> \<not> is_not_found m}"
    unfolding il_range_expire_def
    by (rule compacted_range_tables [where tab_t = lv_expire and tab_l = "lv_expire \<circ> im_level" and tab_p = lv_expire
          and cs = cs])
       (use p in \<open>auto simp: il_expire_tables_def iter_immutable_levels_def immutable_range_expire_eq
          expire_range_ok_def bounds_all_def intro!: reads_table_range [OF level_reads_expire]\<close>)
  then obtain t where t: "il_range_expire E ls (Unbounded, Unbounded) = Inr (map Inr t)"
    "merged_table (tables_get (il_expire_tables ls)) t"
    by (auto simp: merged_table_def btree_ok_def in_bounds_def)
  moreover have "expire_key_u64 k \<and> marked_valid_str m" if km: "(k, m) \<in> set t" for k m
  proof -
    from km t(2) have km': "tables_get (il_expire_tables ls) k = m \<and> \<not> is_not_found m"
      by (simp add: merged_table_def)
    obtain u where "u \<in> set (il_expire_tables ls)" "(k, m) \<in> set u"
      using tables_get_eq_Normal [OF p(6), of k] km' by blast
    then show ?thesis
      using p(7) by (auto simp: il_expire_tables_def iter_immutable_levels_def expire_table_ok_def)
  qed
  ultimately show ?thesis by (auto simp: expire_table_ok_def)
qed

subsection \<open>The compacted stream\<close>

lemma set_last_by_key_as_marked:
  assumes "entry_sorted (map (map_prod id as_marked) zs)"
    and "\<And>s v w. (s, v) \<in> set zs \<Longrightarrow> (s, w) \<in> set zs \<Longrightarrow>
      order_key (as_marked v) = order_key (as_marked w) \<Longrightarrow> v = w"
  shows "set (last_by_key zs) =
    {(s, v). (s, v) \<in> set zs \<and> (\<forall>w. (s, w) \<in> set zs \<longrightarrow> order_key (as_marked w) \<le> order_key (as_marked v))}"
proof -
  have inj: "(s, as_marked v) \<in> set (map (map_prod id as_marked) xs) \<longleftrightarrow> (s, v) \<in> set xs" for s v xs
    by (force dest: as_marked_inj)
  have all: "(\<forall>m. (s, m) \<in> set (map (map_prod id as_marked) zs) \<longrightarrow> P m) \<longleftrightarrow>
      (\<forall>w. (s, w) \<in> set zs \<longrightarrow> P (as_marked w))" for s P
    by force
  have uniq: "m = m'" if "(s, m) \<in> set (map (map_prod id as_marked) zs)"
    "(s, m') \<in> set (map (map_prod id as_marked) zs)" "order_key m = order_key m'" for s m m'
    using that assms(2) by auto blast
  have "set (last_by_key (map (map_prod id as_marked) zs)) =
      {(s, m). (s, m) \<in> set (map (map_prod id as_marked) zs) \<and>
        (\<forall>m'. (s, m') \<in> set (map (map_prod id as_marked) zs) \<longrightarrow> order_key m' \<le> order_key m)}"
    by (rule set_last_by_key [OF assms(1)]) (rule uniq)
  then have *: "(s, as_marked v) \<in> set (map (map_prod id as_marked) (last_by_key zs)) \<longleftrightarrow>
      (s, as_marked v) \<in> set (map (map_prod id as_marked) zs) \<and>
      (\<forall>m'. (s, m') \<in> set (map (map_prod id as_marked) zs) \<longrightarrow> order_key m' \<le> order_key (as_marked v))" for s v
    unfolding last_by_key_map by blast
  have "(s, v) \<in> set (last_by_key zs) \<longleftrightarrow>
      (s, v) \<in> set zs \<and> (\<forall>w. (s, w) \<in> set zs \<longrightarrow> order_key (as_marked w) \<le> order_key (as_marked v))" for s v
    using * [of s v] unfolding inj all .
  then show ?thesis by auto
qed

lemma filter_normal_rows:
  "try_filter_map (\<lambda>(k, v). if sm_is_normal v then Some (k, v) else None) (map Inr zs) =
   map Inr (filter (\<lambda>(k, v). sm_is_normal v) zs)"
  by (induction zs) auto

lemma encode_key_eqs:
  "encode_key expire_space k = encode_key expire_space k' \<longleftrightarrow> k = k'"
  "encode_key string_space s = encode_key string_space s' \<longleftrightarrow> s = s'"
  "encode_key expire_space k \<noteq> encode_key string_space s"
  "encode_key string_space s \<noteq> encode_key expire_space k"
  using key_spaces_disjoint [of k s]
  by (auto simp: expire_key_space.encode_key_eq string_key.encode_key_eq)

lemma rotbl_choose_greater_last:
  "merge_le as_marked (Inr x) (Inr y) \<Longrightarrow>
   rotbl_choose_greater (Inr x) (Inr y) = (if fst x = fst y then Inr (Inr y) else Inl (Inr x, Inr y))"
  by (cases x; cases y) (auto simp: merge_le_Inr intro: seq_marked_max_last)

text \<open>The rows of several pairs of tables, and the row that is kept of each key.\<close>

lemma mem_rows:
  assumes "set zs = set (concat (map (\<lambda>(A, B). enc_rows C A B) ps))"
  shows "(s, v) \<in> set zs \<longleftrightarrow>
      (\<exists>k m. s = encode_key expire_space k \<and> v = enc_exp C m \<and> (\<exists>A \<in> set (map fst ps). (k, m) \<in> set A)) \<or>
      (\<exists>k m. s = encode_key string_space k \<and> v = enc_kv C m \<and> (\<exists>B \<in> set (map snd ps). (k, m) \<in> set B))"
    and "(encode_key expire_space k, v) \<in> set zs \<longleftrightarrow>
      (\<exists>m. v = enc_exp C m \<and> (\<exists>A \<in> set (map fst ps). (k, m) \<in> set A))"
    and "(encode_key string_space k', v) \<in> set zs \<longleftrightarrow>
      (\<exists>m. v = enc_kv C m \<and> (\<exists>B \<in> set (map snd ps). (k', m) \<in> set B))"
proof -
  show *: "(s, v) \<in> set zs \<longleftrightarrow>
      (\<exists>k m. s = encode_key expire_space k \<and> v = enc_exp C m \<and> (\<exists>A \<in> set (map fst ps). (k, m) \<in> set A)) \<or>
      (\<exists>k m. s = encode_key string_space k \<and> v = enc_kv C m \<and> (\<exists>B \<in> set (map snd ps). (k, m) \<in> set B))" for s v
    unfolding assms by (force simp: enc_rows_def)
  show "(encode_key expire_space k, v) \<in> set zs \<longleftrightarrow>
      (\<exists>m. v = enc_exp C m \<and> (\<exists>A \<in> set (map fst ps). (k, m) \<in> set A))"
    unfolding * by (auto simp: encode_key_eqs)
  show "(encode_key string_space k', v) \<in> set zs \<longleftrightarrow>
      (\<exists>m. v = enc_kv C m \<and> (\<exists>B \<in> set (map snd ps). (k', m) \<in> set B))"
    unfolding * by (auto simp: encode_key_eqs)
qed

lemma last_rows:
  assumes C: "codec_ok C" and tx: "tables_ok cs (map fst ps)" and tk: "tables_ok cs (map snd ps)"
    and zs: "set zs = set (concat (map (\<lambda>(A, B). enc_rows C A B) ps))" "entry_sorted (map (map_prod id as_marked) zs)"
  shows "(s, v) \<in> set (last_by_key zs) \<longleftrightarrow>
      (\<exists>k m. s = encode_key expire_space k \<and> v = enc_exp C m \<and> tables_get (map fst ps) k = m \<and> \<not> is_not_found m) \<or>
      (\<exists>k m. s = encode_key string_space k \<and> v = enc_kv C m \<and> tables_get (map snd ps) k = m \<and> \<not> is_not_found m)"
proof -
  note mem = mem_rows [OF zs(1)]
  note ok = order_key_enc_exp [OF C] order_key_enc_kv [OF C]
  have uniq: "v = w" if "(s, v) \<in> set zs" "(s, w) \<in> set zs" "order_key (as_marked v) = order_key (as_marked w)" for s v w
    using that(1) unfolding mem(1)
  proof (elim disjE exE conjE)
    fix k m assume "s = encode_key expire_space k" "v = enc_exp C m" "\<exists>A \<in> set (map fst ps). (k, m) \<in> set A"
    moreover from this that(2) obtain n where "w = enc_exp C n" "\<exists>A \<in> set (map fst ps). (k, n) \<in> set A"
      by (auto simp: mem(2))
    ultimately show "v = w"
      using that(3) tables_same_order_key [OF tx, of _ k m _ n] ok by metis
  next
    fix k m assume "s = encode_key string_space k" "v = enc_kv C m" "\<exists>B \<in> set (map snd ps). (k, m) \<in> set B"
    moreover from this that(2) obtain n where "w = enc_kv C n" "\<exists>B \<in> set (map snd ps). (k, n) \<in> set B"
      by (auto simp: mem(3))
    ultimately show "v = w"
      using that(3) tables_same_order_key [OF tk, of _ k m _ n] ok by metis
  qed
  have last: "set (last_by_key zs) =
      {(s, v). (s, v) \<in> set zs \<and> (\<forall>w. (s, w) \<in> set zs \<longrightarrow> order_key (as_marked w) \<le> order_key (as_marked v))}"
    by (rule set_last_by_key_as_marked [OF zs(2)]) (rule uniq)
  have all: "(\<forall>w. (\<exists>m. w = enc_exp C m \<and> P m) \<longrightarrow> order_key (as_marked w) \<le> x) \<longleftrightarrow> (\<forall>m. P m \<longrightarrow> order_key m \<le> x)"
    "(\<forall>w. (\<exists>m. w = enc_kv C m \<and> Q m) \<longrightarrow> order_key (as_marked w) \<le> x) \<longleftrightarrow> (\<forall>m. Q m \<longrightarrow> order_key m \<le> x)"
    for P Q x
    by (metis ok)+
  have pick: "((\<exists>m. v = enc_exp C m \<and> P m) \<and> (\<forall>m. P m \<longrightarrow> order_key m \<le> order_key (as_marked v))) \<longleftrightarrow>
      (\<exists>m. v = enc_exp C m \<and> P m \<and> (\<forall>m'. P m' \<longrightarrow> order_key m' \<le> order_key m))"
    "((\<exists>m. v = enc_kv C m \<and> Q m) \<and> (\<forall>m. Q m \<longrightarrow> order_key m \<le> order_key (as_marked v))) \<longleftrightarrow>
      (\<exists>m. v = enc_kv C m \<and> Q m \<and> (\<forall>m'. Q m' \<longrightarrow> order_key m' \<le> order_key m))" for v P Q
    by (auto simp: ok)
  have X: "(encode_key expire_space k, v) \<in> set (last_by_key zs) \<longleftrightarrow>
      (\<exists>m. v = enc_exp C m \<and> tables_get (map fst ps) k = m \<and> \<not> is_not_found m)" for k v
    unfolding last tables_get_iff_max [OF tx] mem(2) mem_Collect_eq case_prod_conv all pick ..
  have K: "(encode_key string_space k, v) \<in> set (last_by_key zs) \<longleftrightarrow>
      (\<exists>m. v = enc_kv C m \<and> tables_get (map snd ps) k = m \<and> \<not> is_not_found m)" for k v
    unfolding last tables_get_iff_max [OF tk] mem(3) mem_Collect_eq case_prod_conv all pick ..
  have "(\<exists>k. s = encode_key expire_space k) \<or> (\<exists>k. s = encode_key string_space k)"
    if "(s, v) \<in> set (last_by_key zs)"
    using that unfolding last mem(1) by blast
  then show ?thesis
    using X K by (auto simp: encode_key_eqs)
qed

text \<open>
  Merging encoded streams and dropping the tombstones gives the encoding of the live entries.
\<close>

definition live_table :: "('k::linorder \<Rightarrow> 'v marked) \<Rightarrow> ('k, 'v) table \<Rightarrow> bool" where
  "live_table view t \<longleftrightarrow> btree_ok t \<and> set t = {(k, m). view k = m \<and> is_normal m}"

lemma normal_found: "is_normal m \<Longrightarrow> \<not> is_not_found m"
  by (cases m) (simp_all add: is_normal_def)

lemma merge_rows:
  assumes C: "codec_ok C" and S: "stream_more_ok S"
    and ps: "\<forall>A \<in> set (map fst ps). expire_table_ok A"
    and tx: "tables_ok cs (map fst ps)" and tk: "tables_ok cs (map snd ps)"
    and X: "live_table (tables_get (map fst ps)) X" "expire_table_ok X" and K: "live_table (tables_get (map snd ps)) K"
  shows "\<exists>ys. sm_kmerge S (rotbl_by_key_seq C) (map (\<lambda>(A, B). map Inr (enc_rows C A B)) ps) = Inr ys \<and>
    try_filter_map (\<lambda>(k, v). if sm_is_normal v then Some (k, v) else None)
      (sm_coalesce S rotbl_choose_greater ys) = map Inr (enc_rows C X K)"
proof -
  let ?ts = "map (\<lambda>(A, B). enc_rows C A B) ps"
  have "\<exists>ys zs. sm_kmerge S (rotbl_by_key_seq C) (map (map Inr) ?ts) = Inr ys \<and>
      sm_coalesce S rotbl_choose_greater ys = map Inr (last_by_key zs) \<and> set zs = set (concat ?ts) \<and>
      entry_sorted (map (map_prod id as_marked) zs)"
  proof (rule kmerge_last [OF S])
    show "rotbl_by_key_seq C (Inr x) (Inr y) = Inr (merge_le as_marked (Inr x) (Inr y))" for x y
      by (cases x; cases y) (simp add: merge_le_Inr as_marked_order [OF C])
    fix t assume "t \<in> set ?ts"
    then obtain A B where "t = enc_rows C A B" "(A, B) \<in> set ps" by auto
    with ps tx tk show "btree_ok t"
      by (force simp: tables_ok_def intro!: enc_rows_ok intro: table_ok_btree)
  qed (rule rotbl_choose_greater_last)
  then obtain ys zs where ys: "sm_kmerge S (rotbl_by_key_seq C) (map (map Inr) ?ts) = Inr ys"
    "sm_coalesce S rotbl_choose_greater ys = map Inr (last_by_key zs)"
    and zs: "set zs = set (concat ?ts)" "entry_sorted (map (map_prod id as_marked) zs)"
    by blast
  let ?live = "filter (\<lambda>(k, v). sm_is_normal v) (last_by_key zs)"
  have "(s, v) \<in> set ?live \<longleftrightarrow> (s, v) \<in> set (enc_rows C X K)" for s v
    using X(1) K normal_found
    by (auto simp: last_rows [OF C tx tk zs] enc_rows_def live_table_def sm_is_normal_enc [OF C])
  then have "set ?live = set (enc_rows C X K)" by auto
  moreover have "sorted_wrt (<) (map fst (last_by_key (map (map_prod id as_marked) zs)))"
    by (rule last_by_key_sorted [OF zs(2)])
  then have "sorted_wrt (<) (map fst ?live)"
    by (simp add: last_by_key_map sorted_wrt_map_filter comp_def)
  moreover have "sorted_wrt (<) (map fst (enc_rows C X K))"
    using enc_rows_ok [of X K C] X K by (simp add: live_table_def btree_ok_def)
  ultimately have "?live = enc_rows C X K"
    by (intro sorted_alist_unique)
  then show ?thesis
    using ys filter_normal_rows [of "last_by_key zs"] by (simp add: comp_def case_prod_unfold)
qed

lemma finite_live: "tables_ok cs ts \<Longrightarrow> finite {k. is_normal (tables_get ts k)}"
proof -
  assume ok: "tables_ok cs ts"
  have "{k. is_normal (tables_get ts k)} \<subseteq> (\<Union>t \<in> set ts. fst ` set t)"
  proof
    fix k assume "k \<in> {k. is_normal (tables_get ts k)}"
    then have "\<not> is_not_found (tables_get ts k)" by (simp add: normal_found)
    then show "k \<in> (\<Union>t \<in> set ts. fst ` set t)"
      using tables_get_eq_Normal [OF ok, of k] by force
  qed
  then show ?thesis by (rule finite_subset) simp
qed

lemma live_table_exists:
  assumes "tables_ok cs ts"
  shows "\<exists>t. live_table (tables_get ts) t"
proof
  let ?ks = "sorted_list_of_set {k. is_normal (tables_get ts k)}"
  show "live_table (tables_get ts) (map (\<lambda>k. (k, tables_get ts k)) ?ks)"
    using finite_live [OF assms] by (auto simp: live_table_def btree_ok_def comp_def)
qed

text \<open>A merged table stands for the tables it was merged from.\<close>

lemma merged_get:
  assumes "tables_ok cs ts" and "merged_table (tables_get ts) t"
  shows "tables_get (t # us) = tables_get (ts @ us)"
proof
  fix k
  have ok: "btree_ok t" and mem: "(k, m) \<in> set t \<longleftrightarrow> tables_get ts k = m \<and> \<not> is_not_found m" for m
    using assms(2) by (auto simp: merged_table_def)
  show "tables_get (t # us) k = tables_get (ts @ us) k"
  proof (cases "is_not_found (tables_get ts k)")
    case True
    with mem ok have "btree_get t k = None"
      by (metis btree_get_in_set not_None_eq)
    with True show ?thesis by (simp add: tables_get_append [OF assms(1)])
  next
    case False
    with mem ok have "btree_get t k = Some (tables_get ts k)" by (simp add: btree_get_in_set)
    with False show ?thesis by (simp add: tables_get_append [OF assms(1)])
  qed
qed

lemma merged_tables_ok:
  assumes "tables_ok cs (ts @ us)" and "merged_table (tables_get ts) t"
  shows "tables_ok cs (t # us)"
proof -
  have ts: "tables_ok cs ts" and us: "tables_ok cs us" and nw: "\<forall>a \<in> set ts. \<forall>b \<in> set us. newer a b"
    using assms(1) by (auto simp: tables_ok_def sorted_wrt_append)
  have from_ts: "\<exists>a \<in> set ts. (k, m) \<in> set a" if "(k, m) \<in> set t" for k m
    using that assms(2) tables_get_eq_Normal [OF ts, of k] by (auto simp: merged_table_def)
  have "table_ok cs t"
    using assms(2) from_ts tables_ok_seq [OF ts] by (fastforce simp: table_ok_def merged_table_def)
  moreover have "newer t b" if "b \<in> set us" for b
    using nw that from_ts unfolding newer_def by blast
  ultimately show ?thesis
    using us by (simp add: tables_ok_Cons)
qed

lemma compact_db_rows:
  assumes "codec_ok C" and "db_ok C x"
  shows "rotbl_range (db_rotbl x) (Unbounded, Unbounded) =
    map Inr (enc_rows C (db_expire_table C x) (db_kv_table C x))"
proof -
  obtain t where t: "encoded_table C (db_expire_table C x) (db_kv_table C x) = Inr t" "rotbl_ok (db_rotbl x) t"
    and ok: "expire_table_ok (db_expire_table C x)"
    using assms(2) by (auto simp: db_ok_def)
  have "rotbl_range (db_rotbl x) (Unbounded, Unbounded) = map Inr t"
    using t(2) by (simp add: rotbl_ok_def in_bounds_def)
  then show ?thesis
    using t(1) encoded_table_rows [OF assms(1) ok] by simp
qed

lemma live_table_expire_ok:
  assumes "tables_ok cs ts" and "\<And>t. t \<in> set ts \<Longrightarrow> expire_table_ok t" and "live_table (tables_get ts) X"
  shows "expire_table_ok X"
proof -
  have "expire_key_u64 k \<and> marked_valid_str m" if "(k, m) \<in> set X" for k m
  proof -
    from that assms(3) have "tables_get ts k = m" "\<not> is_not_found m" by (auto simp: live_table_def normal_found)
    then obtain t where "t \<in> set ts" "(k, m) \<in> set t"
      using tables_get_eq_Normal [OF assms(1), of k] by blast
    then show ?thesis using assms(2) [of t] by (auto simp: expire_table_ok_def)
  qed
  then show ?thesis by (auto simp: expire_table_ok_def)
qed

lemma compact_streams:
  assumes "codec_ok C" and "expire_table_ok X"
  shows "map (\<lambda>item. rbind item (\<lambda>(k, v).
       encode_key_seq_marked expire_space (seq_marked_from_marked_string C) k v)) (map Inr X) @
     map (\<lambda>item. rbind item (\<lambda>(k, v).
       encode_key_seq_marked string_space (seq_marked_from_marked C) k v)) (map Inr K) =
     map Inr (enc_rows C X K)"
  using assms
  by (auto simp: enc_rows_def encode_key_seq_marked_def enc_kv(1) enc_exp(1) expire_table_ok_def)

text \<open>The compacted stream encodes exactly the live entries of the levels and the snapshot.\<close>

lemma compact_correct:
  assumes "compactable E cs ls d" and "ls \<noteq> []"
  shows "\<exists>X K. compact E ls d =
      Inr (lv_sys_data (im_level (last ls)), map Inr (enc_rows (e_codec E) X K)) \<and>
    live_table (compact_expire_view E ls d) X \<and> expire_table_ok X \<and> live_table (compact_kv_view E ls d) K"
proof -
  note p = compactable_parts [OF assms(1)]
  let ?C = "e_codec E"
  obtain X1 where X1: "il_range_expire E ls (Unbounded, Unbounded) = Inr (map Inr X1)"
    "merged_table (tables_get (il_expire_tables ls)) X1" "expire_table_ok X1"
    using il_range_expire_all [OF assms(1)] by blast
  obtain K1 where K1: "il_range_kv E ls (Unbounded, Unbounded) = Inr (map Inr K1)"
    "merged_table (tables_get (il_kv_tables ls)) K1"
    using il_range_kv_all [OF assms(1)] by blast
  define ps where "ps = (X1, K1) # map (\<lambda>x. (db_expire_table ?C x, db_kv_table ?C x)) (opt_list d)"
  have fst: "map fst ps = X1 # map (db_expire_table ?C) (opt_list d)"
    and snd: "map snd ps = K1 # map (db_kv_table ?C) (opt_list d)"
    by (simp_all add: ps_def comp_def)
  have tx: "tables_ok cs (map fst ps)" and tk: "tables_ok cs (map snd ps)"
    using assms(1) merged_tables_ok [OF _ X1(2)] merged_tables_ok [OF _ K1(2)]
    by (auto simp: fst snd compactable_def)
  have vx: "tables_get (map fst ps) = compact_expire_view E ls d"
    and vk: "tables_get (map snd ps) = compact_kv_view E ls d"
    by (simp_all add: fst snd merged_get [OF p(6) X1(2)] merged_get [OF p(5) K1(2)]
        compact_expire_view_def compact_kv_view_def del: tables_get.simps)
  have exp_ok: "\<forall>A \<in> set (map fst ps). expire_table_ok A"
    using X1(3) p(8) by (auto simp: ps_def db_ok_def)
  obtain X K where X: "live_table (tables_get (map fst ps)) X" and K: "live_table (tables_get (map snd ps)) K"
    using live_table_exists [OF tx] live_table_exists [OF tk] by blast
  have Xok: "expire_table_ok X"
    by (rule live_table_expire_ok [OF tx _ X]) (use exp_ok in auto)
  obtain ys where ys: "sm_kmerge (e_rotbl E) (rotbl_by_key_seq ?C) (map (\<lambda>(A, B). map Inr (enc_rows ?C A B)) ps) = Inr ys"
    "try_filter_map (\<lambda>(k, v). if sm_is_normal v then Some (k, v) else None)
      (sm_coalesce (e_rotbl E) rotbl_choose_greater ys) = map Inr (enc_rows ?C X K)"
    using merge_rows [OF p(1) p(4) exp_ok tx tk X Xok K] by blast
  have "(case d of None \<Rightarrow> [] | Some db \<Rightarrow> [rotbl_range (db_rotbl db) (Unbounded, Unbounded)]) =
      map (\<lambda>(A, B). map Inr (enc_rows ?C A B)) (tl ps)"
    using p(8) by (cases d) (simp_all add: ps_def opt_list_def compact_db_rows [OF p(1)])
  then have "compact E ls d = Inr (lv_sys_data (im_level (last ls)), map Inr (enc_rows ?C X K))"
    using assms(2) ys compact_streams [OF p(1) X1(3), of K1]
    by (simp add: compact_def il_newest_def X1(1) K1(1) ps_def Let_def)
  then show ?thesis
    using X K Xok unfolding vx vk by blast
qed

subsection \<open>Merging frozen levels in place\<close>

lemma tables_ok_append_right: "tables_ok cs (ts @ us) \<Longrightarrow> tables_ok cs us"
  by (simp add: tables_ok_def sorted_wrt_append)

lemma compact_in_place_correct:
  assumes "compactable E cs ls d"
  shows "\<exists>ls'. compact_immutable_in_place E uniq ls = Inr ls' \<and> length ls' \<le> 1 \<and> compactable E cs ls' d \<and>
    compact_kv_view E ls' d = compact_kv_view E ls d \<and> compact_expire_view E ls' d = compact_expire_view E ls d"
proof (cases "ls = []")
  case True
  then show ?thesis using assms by (auto simp: compact_immutable_in_place_def il_newest_def)
next
  case False
  note p = compactable_parts [OF assms]
  obtain X1 where X1: "il_range_expire E ls (Unbounded, Unbounded) = Inr (map Inr X1)"
    "merged_table (tables_get (il_expire_tables ls)) X1" "expire_table_ok X1"
    using il_range_expire_all [OF assms] by blast
  obtain K1 where K1: "il_range_kv E ls (Unbounded, Unbounded) = Inr (map Inr K1)"
    "merged_table (tables_get (il_kv_tables ls)) K1"
    using il_range_kv_all [OF assms] by blast
  define l where "l = Immutable_new uniq \<lparr>lv_sys_data = lv_sys_data (im_level (last ls)), lv_kv = K1, lv_expire = X1\<rparr>"
  have coll: "btree_collect K1 = K1" "btree_collect X1 = X1"
    using X1(2) K1(2) by (simp_all add: merged_table_def btree_ok_def btree_collect_sorted)
  have "compact_immutable_in_place E uniq ls = Inr [l]"
    using False by (simp add: compact_immutable_in_place_def il_newest_def X1(1) K1(1) res_simps coll l_def
        replace_kv_def replace_expire_def new_level_def)
  moreover have tabs: "il_kv_tables [l] = [K1]" "il_expire_tables [l] = [X1]"
    by (simp_all add: il_kv_tables_def il_expire_tables_def iter_immutable_levels_def l_def Immutable_new_def)
  moreover have "compactable E cs [l] d"
    using assms X1(3) merged_tables_ok [OF _ K1(2)] merged_tables_ok [OF _ X1(2)]
    by (auto simp: compactable_def tabs) (simp add: l_def Immutable_new_def)
  ultimately show ?thesis
    by (auto simp: compact_kv_view_def compact_expire_view_def merged_get [OF p(5) K1(2)] merged_get [OF p(6) X1(2)]
        simp del: tables_get.simps)
qed

subsection \<open>Freezing and replacing levels\<close>

lemma freeze_writable_correct:
  assumes "lm_inv E lm"
  shows "lm_inv E (freeze_writable uniq lm)" and "lm_kv_view E (freeze_writable uniq lm) = lm_kv_view E lm"
    and "lm_expire_view E (freeze_writable uniq lm) = lm_expire_view E lm"
    and "lv_sys_data (writable (freeze_writable uniq lm)) = lv_sys_data (writable lm)"
proof -
  have lv: "iter_levels (freeze_writable uniq lm) = new_level (writable lm) # iter_levels lm"
    by (simp add: freeze_writable_def iter_levels_def iter_immutable_levels_def il_push_def Immutable_new_def)
  have ip: "iter_persisted (freeze_writable uniq lm) = iter_persisted lm"
    by (simp add: freeze_writable_def iter_persisted_def)
  have tabs: "kv_tables E (freeze_writable uniq lm) = [] # kv_tables E lm"
    "expire_tables E (freeze_writable uniq lm) = [] # expire_tables E lm"
    by (simp_all add: kv_tables_def expire_tables_def lv ip new_level_def)
  show sys: "lv_sys_data (writable (freeze_writable uniq lm)) = lv_sys_data (writable lm)"
    by (simp add: freeze_writable_def new_level_def)
  show "lm_inv E (freeze_writable uniq lm)"
    using assms by (simp add: lm_inv_def tabs sys tables_ok_Cons lv ip) (simp add: new_level_def expire_table_ok_def)
  show "lm_kv_view E (freeze_writable uniq lm) = lm_kv_view E lm"
    "lm_expire_view E (freeze_writable uniq lm) = lm_expire_view E lm"
    by (simp_all add: lm_kv_view_def lm_expire_view_def tabs fun_eq_iff)
qed

text \<open>Replacing older tables by the table of their live entries changes no live entry.\<close>

lemma replace_tables:
  assumes "tables_ok cs (ts @ us)" and "live_table (tables_get us) t"
  shows "tables_ok cs (ts @ [t])" and "marked_to_seqv (tables_get (ts @ [t]) k) = marked_to_seqv (tables_get (ts @ us) k)"
    and "\<not> is_not_found (tables_get (ts @ [t]) k) \<Longrightarrow> \<not> is_not_found (tables_get (ts @ us) k)"
proof -
  have ts: "tables_ok cs ts" and us: "tables_ok cs us" and nw: "\<forall>a \<in> set ts. \<forall>b \<in> set us. newer a b"
    using assms(1) by (auto simp: tables_ok_def sorted_wrt_append)
  have t: "btree_ok t" "\<And>k m. (k, m) \<in> set t \<longleftrightarrow> tables_get us k = m \<and> is_normal m"
    using assms(2) by (auto simp: live_table_def)
  have from_us: "\<exists>b \<in> set us. (k, m) \<in> set b" if "(k, m) \<in> set t" for k m
    using that t(2) [of k m] tables_get_eq_Normal [OF us, of k] normal_found [of m] by auto
  have "table_ok cs t"
    using t(1) from_us tables_ok_seq [OF us] by (fastforce simp: table_ok_def)
  moreover have "newer a t" if "a \<in> set ts" for a
    using nw that from_us unfolding newer_def by blast
  ultimately show "tables_ok cs (ts @ [t])"
    using ts by (auto simp: tables_ok_def sorted_wrt_append)
  have "marked_to_seqv (tables_get [t] k) = marked_to_seqv (tables_get us k)"
  proof (cases "is_normal (tables_get us k)")
    case True
    then have "btree_get t k = Some (tables_get us k)" using t by (simp add: btree_get_in_set)
    then show ?thesis by simp
  next
    case False
    then have "btree_get t k = None" using t by (metis btree_get_in_set not_None_eq)
    with False show ?thesis by (cases "tables_get us k") (simp_all add: is_normal_def)
  qed
  then show "marked_to_seqv (tables_get (ts @ [t]) k) = marked_to_seqv (tables_get (ts @ us) k)"
    by (simp add: tables_get_append [OF ts] Let_def del: tables_get.simps)
  have "\<not> is_not_found (tables_get us k)" if "\<not> is_not_found (tables_get [t] k)"
  proof -
    from that obtain m where "btree_get t k = Some m" by (cases "btree_get t k") auto
    then have "tables_get us k = m" "is_normal m" using t by (simp_all add: btree_get_in_set)
    then show ?thesis by (cases m) auto
  qed
  then show "\<not> is_not_found (tables_get (ts @ us) k)" if "\<not> is_not_found (tables_get (ts @ [t]) k)"
    using that by (auto simp: tables_get_append [OF ts] Let_def simp del: tables_get.simps split: if_splits)
qed

text \<open>A compactor was taken from the levels a map still has at its bottom.\<close>

definition compacts :: "('lid, 'mem) compactor \<Rightarrow> ('lid, 'mem) leveled_map \<Rightarrow> bool" where
  "compacts c lm \<longleftrightarrow>
     take (length (c_immutable_levels c)) (immutable_levels lm) = c_immutable_levels c \<and>
     persisted lm = c_db c \<and> since c = map_option im_index (il_newest (c_immutable_levels c))"

definition added_levels :: "('lid, 'mem) compactor \<Rightarrow> ('lid, 'mem) leveled_map \<Rightarrow> ('lid, 'mem) immutable_levels" where
  "added_levels c lm = drop (length (c_immutable_levels c)) (immutable_levels lm)"

lemma compacts_levels: "compacts c lm \<Longrightarrow> immutable_levels lm = c_immutable_levels c @ added_levels c lm"
  unfolding compacts_def added_levels_def by (metis append_take_drop_id)

lemma compacts_tables:
  assumes "compacts c lm"
  shows "kv_tables E lm = (lv_kv (writable lm) # il_kv_tables (added_levels c lm)) @
      (il_kv_tables (c_immutable_levels c) @ map (db_kv_table (e_codec E)) (opt_list (c_db c)))"
    and "expire_tables E lm = (lv_expire (writable lm) # il_expire_tables (added_levels c lm)) @
      (il_expire_tables (c_immutable_levels c) @ map (db_expire_table (e_codec E)) (opt_list (c_db c)))"
  using assms compacts_levels [OF assms]
  by (simp_all add: kv_tables_def expire_tables_def iter_levels_def iter_persisted_def iter_immutable_levels_def
      il_kv_tables_def il_expire_tables_def compacts_def opt_list_def)

lemma compacts_compactable:
  assumes "lm_inv E lm" and "compacts c lm"
  shows "compactable E (lm_seq lm) (c_immutable_levels c) (c_db c)"
proof -
  have "set (c_immutable_levels c) \<subseteq> set (immutable_levels lm)" "opt_list (c_db c) = iter_persisted lm"
    using compacts_levels [OF assms(2)] assms(2) by (auto simp: compacts_def opt_list_def iter_persisted_def)
  moreover note tables_ok_append_right [OF lm_inv_parts(3) [OF assms(1), unfolded compacts_tables(1) [OF assms(2)]]]
    tables_ok_append_right [OF lm_inv_parts(4) [OF assms(1), unfolded compacts_tables(2) [OF assms(2)]]]
  ultimately show ?thesis
    using assms(1) by (auto simp: compactable_def lm_inv_def iter_levels_def iter_immutable_levels_def)
qed

text \<open>
  Swapping the compacted levels for a snapshot that holds the compacted stream: it does not panic,
  keeps the invariant and every live entry, and leaves the levels frozen in the meantime in place.
\<close>

lemma replace_with_compacted_correct:
  assumes inv: "lm_inv E lm" and c: "compacts c lm" and ne: "c_immutable_levels c \<noteq> []"
    and cmp: "compactor_compact E c = Inr (sys, map Inr t)" and d: "rotbl_ok (db_rotbl d) t"
  shows "\<exists>lm'. replace_with_compacted lm c d = Inr lm' \<and> lm_inv E lm' \<and>
    immutable_levels lm' = added_levels c lm \<and> persisted lm' = Some d \<and> writable lm' = writable lm \<and>
    (\<forall>k. marked_to_seqv (lm_kv_view E lm' k) = marked_to_seqv (lm_kv_view E lm k)) \<and>
    (\<forall>k. marked_to_seqv (lm_expire_view E lm' k) = marked_to_seqv (lm_expire_view E lm k)) \<and>
    (\<forall>k. \<not> is_not_found (lm_expire_view E lm' k) \<longrightarrow> \<not> is_not_found (lm_expire_view E lm k))"
proof -
  let ?C = "e_codec E" and ?ls = "c_immutable_levels c" and ?add = "added_levels c lm"
  note ok = compacts_compactable [OF inv c]
  have C: "codec_ok ?C" using lm_inv_parts(2) [OF inv] .
  obtain X K where "t = enc_rows ?C X K" and X: "live_table (compact_expire_view E ?ls (c_db c)) X" "expire_table_ok X"
    and K: "live_table (compact_kv_view E ?ls (c_db c)) K"
    using compact_correct [OF ok ne] cmp by (auto simp: compactor_compact_def)
  then have tabs: "db_kv_table ?C d = K" "db_expire_table ?C d = X" "db_ok ?C d"
    using db_tables [OF C _ X(2) _ encoded_table_rows [OF C X(2)], of K d] d
    by (auto simp: live_table_def)
  define lm' where "lm' = lm\<lparr>immutable_levels := ?add, persisted := Some d\<rparr>"
  have "vec_get ?ls (length ?ls - 1) = Some (last ?ls)"
    using ne by (simp add: vec_get_def last_conv_nth)
  moreover have "length ?ls \<le> length (immutable_levels lm)"
    by (simp add: compacts_levels [OF c])
  ultimately have "replace_with_compacted lm c d = Inr lm'"
    using c ne by (simp add: replace_with_compacted_def compacts_def il_newest_def vec_split_off_def lm'_def
        added_levels_def)
  moreover have kt: "kv_tables E lm' = (lv_kv (writable lm) # il_kv_tables ?add) @ [K]"
    and et: "expire_tables E lm' = (lv_expire (writable lm) # il_expire_tables ?add) @ [X]"
    by (simp_all add: lm'_def kv_tables_def expire_tables_def iter_levels_def iter_persisted_def tabs
        il_kv_tables_def il_expire_tables_def)
  moreover note kv = replace_tables [OF lm_inv_parts(3) [OF inv, unfolded compacts_tables(1) [OF c]]
      K [unfolded compact_kv_view_def]]
  moreover note ex = replace_tables [OF lm_inv_parts(4) [OF inv, unfolded compacts_tables(2) [OF c]]
      X(1) [unfolded compact_expire_view_def]]
  moreover have "lm_inv E lm'"
    unfolding lm_inv_def kt et
    using inv kv(1) ex(1) tabs(3) compacts_levels [OF c]
    by (auto simp: lm_inv_def lm'_def iter_levels_def iter_immutable_levels_def iter_persisted_def)
  ultimately show ?thesis
    using compacts_tables [OF c, of E] by (auto simp: lm_kv_view_def lm_expire_view_def lm'_def simp del: tables_get.simps)
qed

end
