(* ===== verification/CompactionProtocol.thy ===== *)
theory CompactionProtocol
  imports Compaction
begin

text \<open>
  Compaction runs beside the writers: a compactor is acquired under the store's lock, works on its
  own copy, and comes back later to replace what it compacted. A \<open>world\<close> is the leveled map with
  the compactors that have not been dropped; \<open>step\<close> interleaves writes, freezing, acquiring, dropping
  and replacing in any order. The invariant \<open>world_inv\<close> says there is at most one compactor and the
  levels it was given are still at the bottom of the map.
\<close>

record ('lid, 'mem) world =
  w_map :: "('lid, 'mem) leveled_map"
  w_compactors :: "('lid, 'mem) compactor list"

text \<open>A receiver is closed once the compactor that holds the sending end has been dropped.\<close>

definition world_recv :: "('lid, 'mem) world \<Rightarrow> nat \<Rightarrow> try_recv_result" where
  "world_recv w rx = (if list_ex (\<lambda>c. guard c = rx) (w_compactors w) then RecvEmpty else RecvClosed)"

text \<open>The steps that only reorganise the store.\<close>

inductive maintain :: "env \<Rightarrow> ('lid, 'mem) world \<Rightarrow> ('lid, 'mem) world \<Rightarrow> bool" for E where
  freeze: "maintain E w (w\<lparr>w_map := freeze_writable uniq (w_map w)\<rparr>)"
| acquire:
    "try_acquire_compactor (world_recv w) chan (w_map w) = Inr (Some c, lm') \<Longrightarrow>
     maintain E w (w\<lparr>w_map := lm', w_compactors := c # w_compactors w\<rparr>)"
| release: "maintain E w (w\<lparr>w_compactors := remove1 c (w_compactors w)\<rparr>)"
| replace:
    "c \<in> set (w_compactors w) \<Longrightarrow> c_immutable_levels c \<noteq> [] \<Longrightarrow>
     compactor_compact E c = Inr (sys, map Inr t) \<Longrightarrow> rotbl_ok (db_rotbl d) t \<Longrightarrow>
     replace_with_compacted (w_map w) c d = Inr lm' \<Longrightarrow>
     maintain E w (w\<lparr>w_map := lm', w_compactors := remove1 c (w_compactors w)\<rparr>)"

inductive step :: "env \<Rightarrow> ('lid, 'mem) world \<Rightarrow> ('lid, 'mem) world \<Rightarrow> bool" for E where
  write_kv:
    "ma_set (mo_kv (lm_ops E)) (w_map w) k v = Inr (r, lm') \<Longrightarrow> lm_seq (w_map w) + 1 < 2 ^ 64 \<Longrightarrow>
     step E w (w\<lparr>w_map := lm'\<rparr>)"
| write_expire:
    "ma_set (mo_exp (lm_ops E)) (w_map w) ek v = Inr (r, lm') \<Longrightarrow> expire_key_u64 ek \<Longrightarrow>
     v = None \<or> (\<exists>s meta. v = Some (s, meta) \<and> valid_str s \<and> lm_seq (w_map w) \<noteq> 0 \<and>
        is_not_found (lm_expire_view E (w_map w) ek)) \<Longrightarrow>
     step E w (w\<lparr>w_map := lm'\<rparr>)"
| maintenance: "maintain E w w' \<Longrightarrow> step E w w'"

inductive_cases maintainE: "maintain E w w'"
inductive_cases stepE: "step E w w'"

inductive steps :: "env \<Rightarrow> ('lid, 'mem) world \<Rightarrow> ('lid, 'mem) world \<Rightarrow> bool" for E where
  steps_refl: "steps E w w"
| steps_step: "steps E w w' \<Longrightarrow> step E w' w'' \<Longrightarrow> steps E w w''"

definition world_init :: "'mem \<Rightarrow> ('lid, 'mem) world" where
  "world_init mem0 = \<lparr>w_map = leveled_map_default mem0, w_compactors = []\<rparr>"

definition world_inv :: "env \<Rightarrow> ('lid, 'mem) world \<Rightarrow> bool" where
  "world_inv E w \<longleftrightarrow>
     lm_inv E (w_map w) \<and> length (w_compactors w) \<le> 1 \<and>
     (\<forall>c \<in> set (w_compactors w). current_compactor (w_map w) = Some (guard c) \<and> compacts c (w_map w))"

section \<open>Lemmas\<close>

lemma lm_inv_default: "env_ok E \<Longrightarrow> lm_inv E (leveled_map_default mem0)"
  by (simp add: lm_inv_def leveled_map_default_def level_default_def sys_data_default_def kv_tables_def
      expire_tables_def iter_levels_def iter_immutable_levels_def iter_persisted_def tables_ok_Cons expire_table_ok_def)

lemma world_inv_init: "env_ok E \<Longrightarrow> world_inv E (world_init mem0)"
  by (simp add: world_inv_def world_init_def lm_inv_default)

text \<open>Writes go into the writable level only.\<close>

lemma leveled_set_frame:
  "leveled_set get lset lm k v = Inr (r, lm') \<Longrightarrow>
   current_compactor lm' = current_compactor lm \<and> immutable_levels lm' = immutable_levels lm \<and>
   persisted lm' = persisted lm"
  by (auto simp: leveled_set_def rbind_Inr_iff split: if_splits)

lemma compacts_frame:
  "compacts c lm \<Longrightarrow> immutable_levels lm' = immutable_levels lm @ ls \<Longrightarrow> persisted lm' = persisted lm \<Longrightarrow>
   compacts c lm'"
proof -
  assume c: "compacts c lm" and ls: "immutable_levels lm' = immutable_levels lm @ ls" "persisted lm' = persisted lm"
  have "length (c_immutable_levels c) \<le> length (immutable_levels lm)"
    by (simp add: compacts_levels [OF c])
  with c ls show "compacts c lm'" by (simp add: compacts_def)
qed

lemma write_kv_inv:
  assumes "lm_inv E lm" and "lm_seq lm + 1 < 2 ^ 64" and "ma_set (mo_kv (lm_ops E)) lm k v = Inr (r, lm')"
  shows "lm_inv E lm'"
proof (cases v)
  case None
  with leveled.kv_del [OF assms(1), of k] assms(3) show ?thesis by auto
next
  case (Some p)
  then obtain x meta where "v = Some (x, meta)" by (cases p) simp
  with leveled.kv_set [OF assms(1), of k x meta] assms(2,3) show ?thesis by (auto simp: lm_ops_def)
qed

lemma write_expire_inv:
  assumes "lm_inv E lm" and "expire_key_u64 ek" and "ma_set (mo_exp (lm_ops E)) lm ek v = Inr (r, lm')"
    and "v = None \<or> (\<exists>s meta. v = Some (s, meta) \<and> valid_str s \<and> lm_seq lm \<noteq> 0 \<and>
        is_not_found (lm_expire_view E lm ek))"
  shows "lm_inv E lm'"
  using assms(4)
proof (elim disjE exE conjE)
  assume "v = None"
  with leveled.exp_del [OF assms(1,2)] assms(3) show ?thesis by auto
next
  fix s meta assume "v = Some (s, meta)" "valid_str s" "lm_seq lm \<noteq> 0" "is_not_found (lm_expire_view E lm ek)"
  with leveled.exp_set [OF assms(1), of ek s meta] assms(2,3) show ?thesis by (auto simp: lm_ops_def)
qed

lemma world_inv_write:
  assumes "world_inv E w" and "leveled_set get lset (w_map w) k v = Inr (r, lm')" and "lm_inv E lm'"
  shows "world_inv E (w\<lparr>w_map := lm'\<rparr>)"
  using assms leveled_set_frame [OF assms(2)] compacts_frame [where lm = "w_map w" and lm' = lm' and ls = "[]"]
  by (simp add: world_inv_def)

text \<open>A compactor is handed out only when no other one is alive.\<close>

lemma acquire_alone:
  assumes "world_inv E w" and "try_acquire_compactor (world_recv w) chan (w_map w) = Inr (Some c, lm')"
  shows "w_compactors w = [] \<and> (c, lm') = new_compactor chan (w_map w)"
proof -
  have "w_compactors w = []"
  proof (rule ccontr)
    assume "w_compactors w \<noteq> []"
    then obtain c' where c': "c' \<in> set (w_compactors w)"
      by (cases "w_compactors w") auto
    with assms(1) have "current_compactor (w_map w) = Some (guard c')" by (simp add: world_inv_def)
    moreover from c' have "world_recv w (guard c') = RecvEmpty" by (auto simp: world_recv_def list_ex_iff)
    ultimately show False using assms(2) by (simp add: try_acquire_compactor_def)
  qed
  then show ?thesis
    using assms(2) by (auto simp: try_acquire_compactor_def Let_def split: option.splits try_recv_result.splits prod.splits)
qed

lemma lm_inv_current_compactor: "lm_inv E (lm\<lparr>current_compactor := x\<rparr>) \<longleftrightarrow> lm_inv E lm"
  by (simp add: lm_inv_def kv_tables_def expire_tables_def iter_levels_def iter_persisted_def)

lemma new_compactor_compacts: "new_compactor chan lm = (c, lm') \<Longrightarrow> compacts c lm'"
  by (auto simp: new_compactor_def compacts_def immutable_level_index_def)

lemma world_inv_maintain: "maintain E w w' \<Longrightarrow> world_inv E w \<Longrightarrow> world_inv E w'"
proof (induction rule: maintain.induct)
  case (freeze w uniq)
  have "compacts c (freeze_writable uniq (w_map w))" if "compacts c (w_map w)" for c
    by (rule compacts_frame [OF that]) (auto simp: freeze_writable_def il_push_def)
  moreover have "current_compactor (freeze_writable uniq (w_map w)) = current_compactor (w_map w)"
    by (simp add: freeze_writable_def)
  ultimately show ?case
    using freeze freeze_writable_correct(1) by (auto simp: world_inv_def)
next
  case (acquire w chan c lm')
  note a = acquire_alone [OF acquire.prems acquire.hyps]
  then have "lm_inv E lm'" "current_compactor lm' = Some (guard c)"
    using acquire.prems by (auto simp: new_compactor_def world_inv_def lm_inv_current_compactor)
  with a new_compactor_compacts [of chan "w_map w" c lm'] show ?case
    by (simp add: world_inv_def)
next
  case (release w c)
  have "set (remove1 c (w_compactors w)) \<subseteq> set (w_compactors w)"
    "length (remove1 c (w_compactors w)) \<le> length (w_compactors w)"
    by (simp_all add: set_remove1_subset length_remove1)
  with release show ?case
    unfolding world_inv_def by (simp add: subset_iff)
next
  case (replace c w sys t d lm')
  have inv: "lm_inv E (w_map w)" and c: "compacts c (w_map w)" and len: "length (w_compactors w) \<le> 1"
    using replace.prems replace.hyps(1) by (simp_all add: world_inv_def)
  have "w_compactors w = [c]"
    using len replace.hyps(1) by (cases "w_compactors w") auto
  moreover have "lm_inv E lm'"
    using replace_with_compacted_correct [OF inv c replace.hyps(2,3,4)] replace.hyps(5) by auto
  ultimately show ?case by (simp add: world_inv_def)
qed

lemma world_inv_step: "step E w w' \<Longrightarrow> world_inv E w \<Longrightarrow> world_inv E w'"
proof (induction rule: step.induct)
  case (write_kv w k v r lm')
  have inv: "lm_inv E (w_map w)" using write_kv.prems by (simp add: world_inv_def)
  have set: "leveled_set (lm_get_kv E) level_set_kv (w_map w) k v = Inr (r, lm')"
    using write_kv.hyps(1) by (simp add: lm_ops_def)
  show ?case
    by (rule world_inv_write [OF write_kv.prems set write_kv_inv [OF inv write_kv.hyps(2,1)]])
next
  case (write_expire w ek v r lm')
  have inv: "lm_inv E (w_map w)" using write_expire.prems by (simp add: world_inv_def)
  have set: "leveled_set (lm_get_expire E) level_set_expire (w_map w) ek v = Inr (r, lm')"
    using write_expire.hyps(1) by (simp add: lm_ops_def)
  show ?case
    by (rule world_inv_write [OF write_expire.prems set write_expire_inv [OF inv write_expire.hyps(2,1,3)]])
next
  case (maintenance w w')
  then show ?case by (simp add: world_inv_maintain)
qed

lemma world_inv_steps: "steps E w w' \<Longrightarrow> world_inv E w \<Longrightarrow> world_inv E w'"
  by (induction rule: steps.induct) (simp_all add: world_inv_step)

end
