(* ===== verification/PrefixBound.thy ===== *)
theory PrefixBound
  imports RotblCodec
begin

text \<open>
  \<open>prefix_right_bound\<close> of \<open>src/meta/raft-store/src/utils.rs\<close>: the exclusive right end of the range of
  strings with a given prefix, and why listing by prefix may read that range, or read on from the
  prefix until a key without it when there is no such end.
\<close>

section \<open>Definitions\<close>

text \<open>The loop of \<open>prefix_right_bound\<close>, over the characters from the last to the first.\<close>

fun right_bound_loop :: "nat list \<Rightarrow> rstr option" where
  "right_bound_loop [] = None"
| "right_bound_loop (c # rest) =
     (if c \<noteq> 0x10FFFF
      then (if valid_char (c + 1) then Some (rev ((c + 1) # rest)) else None)
      else right_bound_loop rest)"

definition prefix_right_bound :: "rstr \<Rightarrow> rstr option" where
  "prefix_right_bound p = right_bound_loop (rev p)"

section \<open>Lemmas\<close>

lemma right_bound_shape:
  "right_bound_loop cs = Some r \<Longrightarrow>
   \<exists>n c rest. cs = replicate n 0x10FFFF @ c # rest \<and> c \<noteq> 0x10FFFF \<and> valid_char (c + 1) \<and> r = rev rest @ [c + 1]"
proof (induction cs rule: right_bound_loop.induct)
  case (2 c rest)
  show ?case
  proof (cases "c = 0x10FFFF")
    case True
    with 2 obtain n c' rest' where "rest = replicate n 0x10FFFF @ c' # rest'" "c' \<noteq> 0x10FFFF"
      "valid_char (c' + 1)" "r = rev rest' @ [c' + 1]" by auto
    with True show ?thesis by (intro exI [of _ "Suc n"] exI [of _ c'] exI [of _ rest']) simp
  next
    case False
    with 2 show ?thesis by (intro exI [of _ 0] exI [of _ c] exI [of _ rest]) (simp split: if_splits)
  qed
qed simp

lemma prefix_right_bound_shape:
  assumes "prefix_right_bound p = Some r"
  obtains q c n where "p = q @ c # replicate n 0x10FFFF" "valid_char (c + 1)" "r = q @ [c + 1]"
proof -
  obtain n c rest where *: "rev p = replicate n 0x10FFFF @ c # rest" "valid_char (c + 1)" "r = rev rest @ [c + 1]"
    using right_bound_shape [OF assms [unfolded prefix_right_bound_def]] by blast
  then have "p = rev rest @ c # replicate n 0x10FFFF" by (simp add: rev_swap)
  with * that show thesis by blast
qed

lemma valid_char_le: "valid_char c \<Longrightarrow> c \<le> 0x10FFFF"
  by (auto simp: valid_char_def)

lemma max_chars_prefix:
  assumes "replicate n 0x10FFFF \<le> s" and "valid_str s"
  shows "prefix (replicate n 0x10FFFF) s"
  using assms
proof (induction n arbitrary: s)
  case (Suc n)
  then obtain x xs where s: "s = x # xs" by (cases s) auto
  have "x \<le> 0x10FFFF" using Suc.prems(2) by (simp add: s valid_str_def valid_char_le)
  with Suc.prems(1) have "x = 0x10FFFF" "replicate n 0x10FFFF \<le> xs" by (auto simp: s)
  with Suc.IH [of xs] Suc.prems(2) show ?case by (simp add: s valid_str_def)
qed simp

lemma append_le_cases:
  "(q @ x :: rstr) \<le> s \<Longrightarrow> s < q @ y \<Longrightarrow> \<exists>t. s = q @ t \<and> x \<le> t \<and> t < y"
proof (induction q arbitrary: s)
  case (Cons a q)
  then obtain b s' where s: "s = b # s'" by (cases s) auto
  with Cons.prems have "b = a" "q @ x \<le> s'" "s' < q @ y" by auto
  with Cons.IH [of s'] s show ?case by auto
qed simp

text \<open>The range from the prefix to the bound holds exactly the strings with the prefix.\<close>

lemma prefix_range_exact:
  assumes "prefix_right_bound p = Some r" and "valid_str s"
  shows "p \<le> s \<and> s < r \<longleftrightarrow> prefix p s"
proof -
  obtain q c n where p: "p = q @ c # replicate n 0x10FFFF" and r: "r = q @ [c + 1]"
    using prefix_right_bound_shape [OF assms(1)] by blast
  show ?thesis
  proof
    assume "p \<le> s \<and> s < r"
    then obtain t where t: "s = q @ t" "c # replicate n 0x10FFFF \<le> t" "t < [c + 1]"
      unfolding p r using append_le_cases by blast
    then obtain x xs where "t = x # xs" by (cases t) auto
    with t have t': "t = c # xs" "replicate n 0x10FFFF \<le> xs" by auto
    moreover have "valid_str xs" using assms(2) t(1) t' by (simp add: valid_str_def)
    ultimately show "prefix p s" using t(1) max_chars_prefix by (simp add: p)
  next
    assume "prefix p s"
    then obtain t where "s = p @ t" by (auto simp: prefix_def)
    then have "s = q @ c # replicate n 0x10FFFF @ t" by (simp add: p)
    moreover have "c # replicate n 0x10FFFF @ t < [c + 1]" by simp
    moreover have "p \<le> p @ t" using append_le_append [of p "[]" t] by simp
    ultimately show "p \<le> s \<and> s < r" by (simp add: p r)
  qed
qed

lemma prefix_right_bound_less: "prefix_right_bound p = Some r \<Longrightarrow> p < r"
  by (erule prefix_right_bound_shape) simp

text \<open>The strings with a prefix are an initial segment of the strings from the prefix on.\<close>

lemma prefix_convex: "(p :: rstr) \<le> x \<Longrightarrow> x \<le> y \<Longrightarrow> prefix p y \<Longrightarrow> prefix p x"
proof (induction p arbitrary: x y)
  case (Cons a p)
  then obtain y' where y: "y = a # y'" "prefix p y'" by (cases y) auto
  with Cons.prems obtain x' where x: "x = a # x'" "p \<le> x'" "x' \<le> y'" by (cases x) auto
  with y Cons.IH show ?case by auto
qed simp

lemma takeWhile_prefix:
  fixes p :: rstr
  assumes "sorted_wrt (<) (map fst xs)" and "\<And>k m. (k, m) \<in> set xs \<Longrightarrow> p \<le> k"
  shows "takeWhile (\<lambda>(k, m). prefix p k) xs = filter (\<lambda>(k, m). prefix p k) xs"
  using assms
proof (induction xs)
  case (Cons x xs)
  obtain k m where x: "x = (k, m)" by force
  show ?case
  proof (cases "prefix p k")
    case True
    moreover have "takeWhile (\<lambda>(k, m). prefix p k) xs = filter (\<lambda>(k, m). prefix p k) xs"
      using Cons.prems by (intro Cons.IH) auto
    ultimately show ?thesis by (simp add: x)
  next
    case False
    have "\<not> prefix p k'" if "(k', m') \<in> set xs" for k' m'
    proof
      assume "prefix p k'"
      moreover have "\<forall>y \<in> set xs. k < fst y" using Cons.prems(1) by (simp add: x)
      with that have "k \<le> k'" by force
      moreover have "p \<le> k" using Cons.prems(2) [of k m] x by simp
      ultimately show False using False prefix_convex by blast
    qed
    then have "filter (\<lambda>(k, m). prefix p k) xs = []" by (auto simp: filter_empty_conv)
    with False x show ?thesis by simp
  qed
qed simp

end
