(* ===== verification/TxnTypes.thy ===== *)
theory TxnTypes
  imports StoreApi
begin

text \<open>
  Requests and replies: the messages of \<open>src/meta/types/proto/meta.proto\<close> and \<open>request.proto\<close>, their
  constructors in \<open>src/meta/types/src/proto_ext/txn_ext.rs\<close> and \<open>seq_v_ext.rs\<close>, the commands of
  \<open>cmd/mod.rs\<close>, the log entries and the reply of an applied entry (\<open>applied_state.rs\<close>).

  \<open>be_sem\<close> is the meaning a boolean expression has by its description in the schema: the builders
  \<open>and\<close>, \<open>or\<close>, \<open>and_many\<close> and \<open>or_many\<close> are shown to have it.
\<close>

section \<open>Values on the wire\<close>

record pb_kv_meta =
  pkm_expire_at :: "nat option"

record pb_seqv =
  ps_seq :: nat
  ps_data :: bytes
  ps_meta :: "pb_kv_meta option"

definition kv_meta_to_pb :: "kv_meta \<Rightarrow> pb_kv_meta" where
  "kv_meta_to_pb m = \<lparr>pkm_expire_at = map_option (\<lambda>x. x div 1000) (get_expire_at_ms m)\<rparr>"

definition kv_meta_from_pb :: "pb_kv_meta \<Rightarrow> kv_meta" where
  "kv_meta_from_pb m = \<lparr>km_expire_at = pkm_expire_at m\<rparr>"

definition seqv_to_pb :: "bytes seqv \<Rightarrow> pb_seqv" where
  "seqv_to_pb v = \<lparr>ps_seq = sv_seq v, ps_data = sv_data v, ps_meta = map_option kv_meta_to_pb (sv_meta v)\<rparr>"

definition seqv_from_pb :: "pb_seqv \<Rightarrow> bytes seqv" where
  "seqv_from_pb v =
     \<lparr>sv_seq = ps_seq v, sv_meta = map_option kv_meta_from_pb (ps_meta v), sv_data = ps_data v\<rparr>"

text \<open>Items of a stream of keys and values, and watch requests and events (\<open>stream_item_ext.rs\<close>, \<open>watch_ext.rs\<close>).\<close>

record stream_item =
  si_key :: rstr
  si_value :: "pb_seqv option"

definition StreamItem_from_opt :: "rstr \<times> bytes seqv option \<Rightarrow> stream_item" where
  "StreamItem_from_opt kv = \<lparr>si_key = fst kv, si_value = map_option seqv_to_pb (snd kv)\<rparr>"

definition StreamItem_from :: "rstr \<times> bytes seqv \<Rightarrow> stream_item" where
  "StreamItem_from kv = \<lparr>si_key = fst kv, si_value = Some (seqv_to_pb (snd kv))\<rparr>"

record watch_request =
  wr_key :: rstr
  wr_key_end :: "rstr option"
  wr_filter_type :: int
  wr_initial_flush :: bool

definition WatchRequest_new :: "rstr \<Rightarrow> rstr option \<Rightarrow> watch_request" where
  "WatchRequest_new key key_end =
     \<lparr>wr_key = key, wr_key_end = key_end, wr_filter_type = 0, wr_initial_flush = False\<rparr>"

text \<open>The error is the message \<open>empty range\<close>.\<close>

definition build_key_range :: "rstr \<Rightarrow> rstr option \<Rightarrow> unit + rstr bounds" where
  "build_key_range key key_end =
     (case key_end of
        Some e \<Rightarrow> (if e \<le> key then Inl () else Inr (Included key, Excluded e))
      | None \<Rightarrow> Inr (Included key, Included key))"

definition watch_key_range :: "watch_request \<Rightarrow> unit + rstr bounds" where
  "watch_key_range w = build_key_range (wr_key w) (wr_key_end w)"

record watch_event =
  we_key :: rstr
  we_current :: "pb_seqv option"
  we_prev :: "pb_seqv option"

definition WatchResponse_new3 :: "rstr \<Rightarrow> bytes seqv option \<Rightarrow> bytes seqv option \<Rightarrow> watch_event option" where
  "WatchResponse_new3 key prev cur =
     Some \<lparr>we_key = key, we_current = map_option seqv_to_pb cur, we_prev = map_option seqv_to_pb prev\<rparr>"

section \<open>Conditions\<close>

datatype condition_result = CondEq | CondGt | CondGe | CondLt | CondLe | CondNe

fun condition_result_to_i32 :: "condition_result \<Rightarrow> int" where
  "condition_result_to_i32 CondEq = 0"
| "condition_result_to_i32 CondGt = 1"
| "condition_result_to_i32 CondGe = 2"
| "condition_result_to_i32 CondLt = 3"
| "condition_result_to_i32 CondLe = 4"
| "condition_result_to_i32 CondNe = 5"

definition condition_result_from_i32 :: "int \<Rightarrow> condition_result option" where
  "condition_result_from_i32 i =
     (if i = 0 then Some CondEq else if i = 1 then Some CondGt else if i = 2 then Some CondGe
      else if i = 3 then Some CondLt else if i = 4 then Some CondLe else if i = 5 then Some CondNe else None)"

datatype txn_target = TargetValue bytes | TargetSeq nat | TargetKeysWithPrefix nat

record txn_condition =
  tc_key :: rstr
  tc_expected :: int
  tc_target :: "txn_target option"

definition cond_match_seq :: "rstr \<Rightarrow> condition_result \<Rightarrow> nat \<Rightarrow> txn_condition" where
  "cond_match_seq key opr seq =
     \<lparr>tc_key = key, tc_expected = condition_result_to_i32 opr, tc_target = Some (TargetSeq seq)\<rparr>"

definition cond_eq_seq :: "rstr \<Rightarrow> nat \<Rightarrow> txn_condition" where
  "cond_eq_seq key seq = cond_match_seq key CondEq seq"

definition cond_match_value :: "rstr \<Rightarrow> condition_result \<Rightarrow> bytes \<Rightarrow> txn_condition" where
  "cond_match_value key opr v =
     \<lparr>tc_key = key, tc_expected = condition_result_to_i32 opr, tc_target = Some (TargetValue v)\<rparr>"

definition cond_eq_value :: "rstr \<Rightarrow> bytes \<Rightarrow> txn_condition" where
  "cond_eq_value key v = cond_match_value key CondEq v"

definition cond_match_keys_with_prefix :: "rstr \<Rightarrow> condition_result \<Rightarrow> nat \<Rightarrow> txn_condition" where
  "cond_match_keys_with_prefix p opr n =
     \<lparr>tc_key = p, tc_expected = condition_result_to_i32 opr, tc_target = Some (TargetKeysWithPrefix n)\<rparr>"

definition cond_keys_with_prefix :: "rstr \<Rightarrow> nat \<Rightarrow> txn_condition" where
  "cond_keys_with_prefix p n = cond_match_keys_with_prefix p CondEq n"

section \<open>Boolean expressions\<close>

datatype combining_operator = OpAnd | OpOr

definition combining_operator_to_i32 :: "combining_operator \<Rightarrow> int" where
  "combining_operator_to_i32 opr = (case opr of OpAnd \<Rightarrow> 0 | OpOr \<Rightarrow> 1)"

datatype boolean_expression =
  BooleanExpression (be_operator: int) (be_sub_expressions: "boolean_expression list")
    (be_conditions: "txn_condition list")

text \<open>The accessor of an enumeration field: a number that is not in the schema reads as the first one.\<close>

definition be_combining :: "boolean_expression \<Rightarrow> combining_operator" where
  "be_combining e = (if be_operator e = 1 then OpOr else OpAnd)"

definition from_conditions :: "combining_operator \<Rightarrow> txn_condition list \<Rightarrow> boolean_expression" where
  "from_conditions opr cs = BooleanExpression (combining_operator_to_i32 opr) [] cs"

definition from_conditions_and :: "txn_condition list \<Rightarrow> boolean_expression" where
  "from_conditions_and cs = from_conditions OpAnd cs"

definition from_conditions_or :: "txn_condition list \<Rightarrow> boolean_expression" where
  "from_conditions_or cs = from_conditions OpOr cs"

definition merge_conditions ::
    "boolean_expression \<Rightarrow> combining_operator \<Rightarrow> txn_condition list \<Rightarrow> boolean_expression" where
  "merge_conditions e opr cs =
     (if be_operator e = combining_operator_to_i32 opr
      then BooleanExpression (be_operator e) (be_sub_expressions e) (be_conditions e @ cs)
      else BooleanExpression (combining_operator_to_i32 opr) [e] cs)"

definition merge_expressions ::
    "boolean_expression \<Rightarrow> combining_operator \<Rightarrow> boolean_expression list \<Rightarrow> boolean_expression" where
  "merge_expressions e opr others =
     (if be_operator e = combining_operator_to_i32 opr
      then BooleanExpression (be_operator e) (be_sub_expressions e @ others) (be_conditions e)
      else BooleanExpression (combining_operator_to_i32 opr) (e # others) [])"

datatype expression_or_condition = EcExpression boolean_expression | EcCondition txn_condition

definition merge_expr ::
    "boolean_expression \<Rightarrow> combining_operator \<Rightarrow> expression_or_condition \<Rightarrow> boolean_expression" where
  "merge_expr e opr x =
     (case x of
        EcExpression ex \<Rightarrow> merge_expressions e opr [ex]
      | EcCondition c \<Rightarrow> merge_conditions e opr [c])"

definition be_and :: "boolean_expression \<Rightarrow> expression_or_condition \<Rightarrow> boolean_expression" where
  "be_and e x = merge_expr e OpAnd x"

definition be_or :: "boolean_expression \<Rightarrow> expression_or_condition \<Rightarrow> boolean_expression" where
  "be_or e x = merge_expr e OpOr x"

definition and_many :: "boolean_expression \<Rightarrow> boolean_expression list \<Rightarrow> boolean_expression" where
  "and_many e others = merge_expressions e OpAnd others"

definition or_many :: "boolean_expression \<Rightarrow> boolean_expression list \<Rightarrow> boolean_expression" where
  "or_many e others = merge_expressions e OpOr others"

definition cond_and :: "txn_condition \<Rightarrow> txn_condition \<Rightarrow> boolean_expression" where
  "cond_and a b = from_conditions_and [a, b]"

definition cond_or :: "txn_condition \<Rightarrow> txn_condition \<Rightarrow> boolean_expression" where
  "cond_or a b = from_conditions_or [a, b]"

section \<open>Operations\<close>

record txn_put_request =
  pr_key :: rstr
  pr_value :: bytes
  pr_prev_value :: bool
  pr_expire_at :: "nat option"
  pr_ttl_ms :: "nat option"

record txn_delete_request =
  dr_key :: rstr
  dr_prev_value :: bool
  dr_match_seq :: "nat option"

text \<open>\<open>TxnOp\<close>: its only field, the request, is optional.\<close>

datatype txn_op_request =
    ReqGet rstr
  | ReqPut txn_put_request
  | ReqDelete txn_delete_request
  | ReqDeleteByPrefix rstr

type_synonym txn_op = "txn_op_request option"

definition TxnOp_put :: "rstr \<Rightarrow> bytes \<Rightarrow> txn_op" where
  "TxnOp_put key v =
     Some (ReqPut \<lparr>pr_key = key, pr_value = v, pr_prev_value = True, pr_expire_at = None, pr_ttl_ms = None\<rparr>)"

definition TxnOp_put_with_ttl :: "rstr \<Rightarrow> bytes \<Rightarrow> nat option \<Rightarrow> txn_op" where
  "TxnOp_put_with_ttl key v ttl =
     Some (ReqPut \<lparr>pr_key = key, pr_value = v, pr_prev_value = True, pr_expire_at = None, pr_ttl_ms = ttl\<rparr>)"

definition TxnOp_with_ttl :: "txn_op \<Rightarrow> nat option \<Rightarrow> txn_op" where
  "TxnOp_with_ttl opn ttl =
     (case opn of Some (ReqPut p) \<Rightarrow> Some (ReqPut (p\<lparr>pr_ttl_ms := ttl\<rparr>)) | _ \<Rightarrow> opn)"

definition TxnOp_delete_exact :: "rstr \<Rightarrow> nat option \<Rightarrow> txn_op" where
  "TxnOp_delete_exact key seq = Some (ReqDelete \<lparr>dr_key = key, dr_prev_value = True, dr_match_seq = seq\<rparr>)"

definition TxnOp_delete :: "rstr \<Rightarrow> txn_op" where
  "TxnOp_delete key = TxnOp_delete_exact key None"

definition TxnOp_get :: "rstr \<Rightarrow> txn_op" where
  "TxnOp_get key = Some (ReqGet key)"

record txn_get_response =
  gresp_key :: rstr
  gresp_value :: "pb_seqv option"

record txn_put_response =
  presp_key :: rstr
  presp_prev_value :: "pb_seqv option"

record txn_delete_response =
  dresp_key :: rstr
  dresp_success :: bool
  dresp_prev_value :: "pb_seqv option"

record txn_delete_by_prefix_response =
  bresp_prefix :: rstr
  bresp_count :: nat

datatype txn_op_response =
    RespGet txn_get_response
  | RespPut txn_put_response
  | RespDelete txn_delete_response
  | RespDeleteByPrefix txn_delete_by_prefix_response

definition TxnOpResponse_get :: "rstr \<Rightarrow> bytes seqv option \<Rightarrow> txn_op_response" where
  "TxnOpResponse_get key v = RespGet \<lparr>gresp_key = key, gresp_value = map_option seqv_to_pb v\<rparr>"

definition TxnOpResponse_put :: "rstr \<Rightarrow> pb_seqv option \<Rightarrow> txn_op_response" where
  "TxnOpResponse_put key prev = RespPut \<lparr>presp_key = key, presp_prev_value = prev\<rparr>"

definition TxnOpResponse_delete :: "rstr \<Rightarrow> bool \<Rightarrow> pb_seqv option \<Rightarrow> txn_op_response" where
  "TxnOpResponse_delete key ok prev =
     RespDelete \<lparr>dresp_key = key, dresp_success = ok, dresp_prev_value = prev\<rparr>"

definition try_as_get :: "txn_op_response option \<Rightarrow> txn_get_response option" where
  "try_as_get r = (case r of Some (RespGet x) \<Rightarrow> Some x | _ \<Rightarrow> None)"

section \<open>Transactions\<close>

record conditional_operation =
  co_predicate :: "boolean_expression option"
  co_operations :: "txn_op list"

record txn_request =
  tr_operations :: "conditional_operation list"
  tr_condition :: "txn_condition list"
  tr_if_then :: "txn_op list"
  tr_else_then :: "txn_op list"

definition TxnRequest_new :: "txn_condition list \<Rightarrow> txn_op list \<Rightarrow> txn_request" where
  "TxnRequest_new cs ops = \<lparr>tr_operations = [], tr_condition = cs, tr_if_then = ops, tr_else_then = []\<rparr>"

definition TxnRequest_unconditional :: "txn_op list \<Rightarrow> txn_request" where
  "TxnRequest_unconditional ops = \<lparr>tr_operations = [], tr_condition = [], tr_if_then = ops, tr_else_then = []\<rparr>"

definition with_else :: "txn_request \<Rightarrow> txn_op list \<Rightarrow> txn_request" where
  "with_else t ops = t\<lparr>tr_else_then := ops\<rparr>"

definition push_branch :: "txn_request \<Rightarrow> boolean_expression option \<Rightarrow> txn_op list \<Rightarrow> txn_request" where
  "push_branch t e ops =
     t\<lparr>tr_operations := tr_operations t @ [\<lparr>co_predicate = e, co_operations = ops\<rparr>]\<rparr>"

definition push_if_then :: "txn_request \<Rightarrow> txn_condition list \<Rightarrow> txn_op list \<Rightarrow> txn_request res" where
  "push_if_then t cs ops =
     (if tr_condition t \<noteq> [] then Inl (Panic AssertFailed)
      else if tr_if_then t \<noteq> [] then Inl (Panic AssertFailed)
      else Inr (t\<lparr>tr_condition := tr_condition t @ cs, tr_if_then := tr_if_then t @ ops\<rparr>))"

record txn_reply =
  rep_success :: bool
  rep_responses :: "txn_op_response option list"
  rep_error :: rstr
  rep_execution_path :: rstr

definition TxnReply_new :: "rstr \<Rightarrow> txn_reply" where
  "TxnReply_new path =
     \<lparr>rep_success = (path \<noteq> str ''else''), rep_responses = [], rep_error = [], rep_execution_path = path\<rparr>"

text \<open>\<open>executed_branch_index\<close>: an error carries the path itself.\<close>

definition executed_branch_index :: "txn_reply \<Rightarrow> rstr + nat option" where
  "executed_branch_index r =
     (case strip_prefix (str ''operation:'') (rep_execution_path r) of
        Some index \<Rightarrow>
          (case parse_u64 index of Some i \<Rightarrow> Inr (Some i) | None \<Rightarrow> Inl (rep_execution_path r))
      | None \<Rightarrow> Inr None)"

section \<open>Commands and log entries\<close>

datatype cmd =
    AddNode node_id node bool
  | RemoveNode node_id
  | CmdUpsertKV upsert_kv
  | Transaction txn_request

record raft_txid =
  tx_client :: rstr
  tx_serial :: nat

record log_entry =
  le_txid :: "raft_txid option"
  le_time_ms :: "nat option"
  le_cmd :: cmd

definition LogEntry_new :: "cmd \<Rightarrow> log_entry" where
  "LogEntry_new c = \<lparr>le_txid = None, le_time_ms = None, le_cmd = c\<rparr>"

datatype 'mem entry_payload = Blank | NormalEntry log_entry | MembershipEntry 'mem

record ('lid, 'mem) entry =
  en_log_id :: 'lid
  en_payload :: "'mem entry_payload"

datatype applied_state =
    StateNode "node option" "node option"
  | StateKV "bytes change"
  | StateTxnReply txn_reply
  | StateNone

fun applied_changed :: "applied_state \<Rightarrow> bool" where
  "applied_changed (StateNode prev result) \<longleftrightarrow> prev \<noteq> result"
| "applied_changed (StateKV ch) \<longleftrightarrow> is_changed ch"
| "applied_changed StateNone \<longleftrightarrow> False"
| "applied_changed (StateTxnReply txn) \<longleftrightarrow> rep_success txn"

fun prev_is_none :: "applied_state \<Rightarrow> bool" where
  "prev_is_none (StateNode prev _) \<longleftrightarrow> Option.is_none prev"
| "prev_is_none (StateKV ch) \<longleftrightarrow> Option.is_none (ch_prev ch)"
| "prev_is_none StateNone \<longleftrightarrow> True"
| "prev_is_none (StateTxnReply txn) \<longleftrightarrow> True"

fun result_is_none :: "applied_state \<Rightarrow> bool" where
  "result_is_none (StateNode _ result) \<longleftrightarrow> Option.is_none result"
| "result_is_none (StateKV ch) \<longleftrightarrow> Option.is_none (ch_result ch)"
| "result_is_none StateNone \<longleftrightarrow> True"
| "result_is_none (StateTxnReply txn) \<longleftrightarrow> \<not> rep_success txn"

section \<open>Meaning of boolean expressions\<close>

fun be_sem :: "(txn_condition \<Rightarrow> bool) \<Rightarrow> boolean_expression \<Rightarrow> bool" where
  "be_sem holds (BooleanExpression opr subs cs) =
     (if opr = 1 then list_ex (be_sem holds) subs \<or> list_ex holds cs
      else list_all (be_sem holds) subs \<and> list_all holds cs)"

section \<open>Lemmas\<close>

lemma condition_result_round_trip: "condition_result_from_i32 (condition_result_to_i32 c) = Some c"
  by (cases c) (simp_all add: condition_result_from_i32_def)

lemma merge_conditions_sem:
  "be_sem holds (merge_conditions e OpAnd cs) \<longleftrightarrow> be_sem holds e \<and> list_all holds cs"
  "be_sem holds (merge_conditions e OpOr cs) \<longleftrightarrow> be_sem holds e \<or> list_ex holds cs"
  by (cases e; auto simp: merge_conditions_def combining_operator_to_i32_def)+

lemma merge_expressions_sem:
  "be_sem holds (merge_expressions e OpAnd es) \<longleftrightarrow> be_sem holds e \<and> list_all (be_sem holds) es"
  "be_sem holds (merge_expressions e OpOr es) \<longleftrightarrow> be_sem holds e \<or> list_ex (be_sem holds) es"
  by (cases e; auto simp: merge_expressions_def combining_operator_to_i32_def)+

end
