(* ===== verification/StateMachine.thy ===== *)
theory StateMachine
  imports CompactionProtocol PrefixBound TxnTypes
begin

text \<open>
  The state machine around a map: \<open>state_machine_api.rs\<close>, \<open>state_machine_api_ext.rs\<close>,
  \<open>sm_v003/sm_v003.rs\<close>, \<open>sm_v003/sm_v003_kv_api.rs\<close> and \<open>mem_state_machine.rs\<close> of
  \<open>src/meta/raft-store/src\<close>. The trait \<open>StateMachineApi\<close> is the record \<open>sm\<close>: the map, the expiration
  cursor and the subscriber, whose received events are kept in order. \<open>SMV003\<close> is \<open>sm\<close> over the
  leveled map (\<open>lm_ops\<close>), \<open>MemStateMachine\<close> is \<open>sm\<close> over a single level (\<open>level_ops\<close>) without a
  subscriber; the extension methods are written once, for any \<open>map_ops\<close>.
\<close>

section \<open>State\<close>

type_synonym event = "rstr \<times> bytes seqv option \<times> bytes seqv option"

record 'm sm =
  sm_map :: 'm
  expire_cursor :: expire_key
  subscriber :: "event list option"

type_synonym ('lid, 'mem) smv003 = "('lid, 'mem) leveled_map sm"

type_synonym ('lid, 'mem) mem_state_machine = "('lid, 'mem) level sm"

definition mem_state_machine_default :: "'mem \<Rightarrow> ('lid, 'mem) mem_state_machine" where
  "mem_state_machine_default mem0 =
     \<lparr>sm_map = level_default mem0, expire_cursor = ExpireKey 0 0, subscriber = None\<rparr>"

definition smv003_default :: "'mem \<Rightarrow> ('lid, 'mem) smv003" where
  "smv003_default mem0 =
     \<lparr>sm_map = leveled_map_default mem0, expire_cursor = ExpireKey 0 0, subscriber = None\<rparr>"

section \<open>Extension methods\<close>

definition upsert_kv_primary_index ::
    "('m, 'lid, 'mem) map_ops \<Rightarrow> 'm sm \<Rightarrow> upsert_kv \<Rightarrow> cmd_context \<Rightarrow>
     ((bytes marked \<times> bytes marked) \<times> 'm sm) res" where
  "upsert_kv_primary_index M s up cmd_ctx =
     (let kv_meta = map_option (\<lambda>m. to_kv_meta m cmd_ctx) (uk_value_meta up)
      in rbind (ma_get (mo_kv M) (sm_map s) (uk_key up)) (\<lambda>prev.
           case match_seq (uk_seq up) (marked_seq prev) of
             Inl _ \<Rightarrow> Inr ((prev, prev), s)
           | Inr _ \<Rightarrow>
               rbind (case uk_value up of
                        Update v \<Rightarrow> ma_set (mo_kv M) (sm_map s) (uk_key up) (Some (v, kv_meta))
                      | Delete \<Rightarrow> ma_set (mo_kv M) (sm_map s) (uk_key up) None
                      | AsIs \<Rightarrow> update_meta (mo_kv M) (sm_map s) (uk_key up) kv_meta) (\<lambda>((prev, result), m).
               if opt_expires_at_ms kv_meta < time_ms (expire_cursor s)
               then rbind (ma_set (mo_kv M) m (uk_key up) None) (\<lambda>((_, r), m).
                      Inr ((prev, r), s\<lparr>sm_map := m\<rparr>))
               else Inr ((prev, result), s\<lparr>sm_map := m\<rparr>))))"

definition list_kv ::
    "('m, 'lid, 'mem) map_ops \<Rightarrow> 'm sm \<Rightarrow> rstr \<Rightarrow> (rstr \<times> bytes seqv) res list res" where
  "list_kv M s p =
     rbind (case prefix_right_bound p of
              Some right \<Rightarrow> ma_range (mo_kv M) (sm_map s) (Included p, Excluded right)
            | None \<Rightarrow> ma_range (mo_kv M) (sm_map s) (Included p, Unbounded)) (\<lambda>strm.
       Inr (try_filter_map marked_to_kv (try_take_while (\<lambda>(k, _). starts_with k p) strm)))"

definition range_kv ::
    "('m, 'lid, 'mem) map_ops \<Rightarrow> 'm sm \<Rightarrow> rstr bounds \<Rightarrow> (rstr \<times> bytes seqv) res list res" where
  "range_kv M s rng =
     rbind (ma_range (mo_kv M) (sm_map s) rng) (\<lambda>strm. Inr (try_filter_map marked_to_kv strm))"

definition update_expire_index ::
    "('m, 'lid, 'mem) map_ops \<Rightarrow> 'm sm \<Rightarrow> rstr \<Rightarrow> bytes marked \<Rightarrow> bytes marked \<Rightarrow> 'm sm res" where
  "update_expire_index M s key removed added =
     (if removed = added then Inr s
      else
        rbind (case marked_expires_at_ms_opt removed of
                 Some exp_ms \<Rightarrow>
                   rbind (ma_set (mo_exp M) (sm_map s) (ExpireKey exp_ms (st_seq (order_key removed))) None)
                     (\<lambda>(_, m). Inr m)
               | None \<Rightarrow> Inr (sm_map s)) (\<lambda>m.
        rbind (case marked_expires_at_ms_opt added of
                 Some exp_ms \<Rightarrow>
                   rbind (ma_set (mo_exp M) m (ExpireKey exp_ms (st_seq (order_key added))) (Some (key, None)))
                     (\<lambda>(_, m). Inr m)
               | None \<Rightarrow> Inr m) (\<lambda>m.
        Inr (s\<lparr>sm_map := m\<rparr>))))"

text \<open>The closure of \<open>list_expire_index\<close> that keeps only records that are not deleted.\<close>

fun expire_entry :: "expire_key \<times> rstr marked \<Rightarrow> (expire_key \<times> rstr) option" where
  "expire_entry (k, m) = map_option (\<lambda>(v, _). (k, v)) (unpack_marked m)"

definition list_expire_index ::
    "('m, 'lid, 'mem) map_ops \<Rightarrow> 'm sm \<Rightarrow> nat \<Rightarrow> (expire_key \<times> rstr) res list res" where
  "list_expire_index M s curr_time_ms =
     (let start = expire_cursor s; endk = ExpireKey curr_time_ms 0
      in if endk \<le> start then Inr []
         else rbind (ma_range (mo_exp M) (sm_map s) (Included start, Excluded endk)) (\<lambda>strm.
                Inr (try_filter_map expire_entry strm)))"

definition update_expire_cursor :: "'m sm \<Rightarrow> nat \<Rightarrow> 'm sm" where
  "update_expire_cursor s log_time_ms =
     (if log_time_ms < time_ms (expire_cursor s) then s
      else s\<lparr>expire_cursor := ExpireKey log_time_ms 0\<rparr>)"

definition get_maybe_expired_kv ::
    "('m, 'lid, 'mem) map_ops \<Rightarrow> 'm sm \<Rightarrow> rstr \<Rightarrow> bytes seqv option res" where
  "get_maybe_expired_kv M s key =
     rbind (ma_get (mo_kv M) (sm_map s) key) (\<lambda>got. Inr (marked_to_seqv got))"

section \<open>The read-only key-value API\<close>

text \<open>\<open>now\<close> is the local wall-clock time in milliseconds.\<close>

definition non_expired :: "bytes seqv option \<Rightarrow> nat \<Rightarrow> bytes seqv option" where
  "non_expired v now = (if is_expired (opt_meta v) now then None else v)"

definition get_kv_stream ::
    "('m, 'lid, 'mem) map_ops \<Rightarrow> 'm sm \<Rightarrow> nat \<Rightarrow> rstr list \<Rightarrow> stream_item res list res" where
  "get_kv_stream M s now keys =
     rmap (\<lambda>k. rbind (get_maybe_expired_kv M s k) (\<lambda>got.
       let v = non_expired got now in Inr (Inr (StreamItem_from_opt (k, v))))) keys"

definition api_list_kv ::
    "('m, 'lid, 'mem) map_ops \<Rightarrow> 'm sm \<Rightarrow> nat \<Rightarrow> rstr \<Rightarrow> stream_item res list res" where
  "api_list_kv M s now p =
     rbind (list_kv M s p) (\<lambda>strm.
       Inr (try_filter_map (\<lambda>(k, v). if is_expired (sv_meta v) now then None else Some (StreamItem_from (k, v))) strm))"

text \<open>
  \<open>SMV003::send_range\<close>: the stream handed to the event sender, if there is one.
\<close>

definition send_range ::
    "('m, 'lid, 'mem) map_ops \<Rightarrow> 'm sm \<Rightarrow> rstr bounds \<Rightarrow> (rstr \<times> bytes seqv) res list option res" where
  "send_range M s rng =
     (case subscriber s of
        None \<Rightarrow> Inr None
      | Some sender \<Rightarrow> rbind (range_kv M s rng) (\<lambda>strm. Inr (Some strm)))"

section \<open>Installing and replacing data\<close>

definition install_snapshot_v003 ::
    "'mem \<Rightarrow> ('lid::linorder, 'mem) smv003 \<Rightarrow> ('lid, 'mem) db \<Rightarrow> ('lid, 'mem) smv003" where
  "install_snapshot_v003 mem0 s d =
     (let sys_data = db_sys_data d;
          my_last_applied = last_applied (lv_sys_data (writable (sm_map s)))
      in if my_last_applied \<noteq> None \<and> last_applied sys_data \<le> my_last_applied then s
         else let lm = leveled_map_clear mem0 (sm_map s);
                  lm = lm\<lparr>writable := (writable lm)\<lparr>lv_sys_data := sys_data\<rparr>\<rparr>
              in s\<lparr>sm_map := lm\<lparr>persisted := Some d\<rparr>\<rparr>)"

definition smv003_replace ::
    "('lid::linorder, 'mem) smv003 \<Rightarrow> ('lid, 'mem) leveled_map \<Rightarrow> ('lid, 'mem) smv003 res" where
  "smv003_replace s level =
     (let applied = last_applied (lv_sys_data (writable (sm_map s)));
          new_applied = last_applied (lv_sys_data (writable level))
      in if \<not> applied \<le> new_applied then Inl (Panic AssertFailed)
         else Inr (s\<lparr>sm_map := level, expire_cursor := ExpireKey 0 0\<rparr>))"

end
