(* ===== verification/Applier.thy ===== *)
theory Applier
  imports StateMachine
begin

text \<open>
  The applier (\<open>src/meta/raft-store/src/applier.rs\<close>), which applies committed log entries to a state
  machine, and the key-value API of the in-memory implementation (\<open>mem_meta.rs\<close>). It is generic in
  the map, as the code is. Every operation returns the applier after it, or the failure.
\<close>

record 'm applier =
  ap_sm :: "'m sm"
  ap_cmd_ctx :: cmd_context
  ap_changes :: "event list"

definition Applier_new :: "'m sm \<Rightarrow> 'm applier" where
  "Applier_new s = \<lparr>ap_sm = s, ap_cmd_ctx = CmdContext_from_millis 0, ap_changes = []\<rparr>"

definition push_change ::
    "'m applier \<Rightarrow> rstr \<Rightarrow> bytes seqv option \<Rightarrow> bytes seqv option \<Rightarrow> 'm applier" where
  "push_change a key prev result =
     (if prev = result then a else a\<lparr>ap_changes := ap_changes a @ [(key, prev, result)]\<rparr>)"

section \<open>Single commands\<close>

definition applier_upsert_kv ::
    "('m, 'lid, 'mem) map_ops \<Rightarrow> 'm applier \<Rightarrow> upsert_kv \<Rightarrow>
     ((bytes seqv option \<times> bytes seqv option) \<times> 'm applier) res" where
  "applier_upsert_kv M a up =
     rbind (upsert_kv_primary_index M (ap_sm a) up (ap_cmd_ctx a)) (\<lambda>((prev, result), s).
     rbind (update_expire_index M s (uk_key up) prev result) (\<lambda>s.
     let a = a\<lparr>ap_sm := s\<rparr>;
         prev = marked_to_seqv prev;
         result = marked_to_seqv result
     in Inr ((prev, result), push_change a (uk_key up) prev result)))"

definition apply_upsert_kv ::
    "('m, 'lid, 'mem) map_ops \<Rightarrow> 'm applier \<Rightarrow> upsert_kv \<Rightarrow> (applied_state \<times> 'm applier) res" where
  "apply_upsert_kv M a up =
     rbind (applier_upsert_kv M a up) (\<lambda>((prev, result), a). Inr (StateKV (Change_new prev result), a))"

definition with_sys ::
    "('m, 'lid, 'mem) map_ops \<Rightarrow> 'm applier \<Rightarrow> (('lid, 'mem) sys_data \<Rightarrow> ('lid, 'mem) sys_data) \<Rightarrow> 'm applier" where
  "with_sys M a f =
     a\<lparr>ap_sm := (ap_sm a)\<lparr>sm_map := mo_set_sys M (sm_map (ap_sm a)) (f (mo_sys M (sm_map (ap_sm a))))\<rparr>\<rparr>"

definition apply_add_node ::
    "('m, 'lid, 'mem) map_ops \<Rightarrow> 'm applier \<Rightarrow> node_id \<Rightarrow> node \<Rightarrow> bool \<Rightarrow> applied_state \<times> 'm applier" where
  "apply_add_node M a node_id node overriding =
     (let prev = btree_get (nodes (mo_sys M (sm_map (ap_sm a)))) node_id;
          insert = with_sys M a (\<lambda>s. s\<lparr>nodes := btree_insert node_id node (nodes s)\<rparr>)
      in if prev = None then (StateNode prev (Some node), insert)
         else if overriding then (StateNode prev (Some node), insert)
         else (StateNode prev prev, a))"

definition apply_remove_node ::
    "('m, 'lid, 'mem) map_ops \<Rightarrow> 'm applier \<Rightarrow> node_id \<Rightarrow> applied_state \<times> 'm applier" where
  "apply_remove_node M a node_id =
     (let prev = btree_get (nodes (mo_sys M (sm_map (ap_sm a)))) node_id
      in (StateNode prev None, with_sys M a (\<lambda>s. s\<lparr>nodes := btree_remove node_id (nodes s)\<rparr>)))"

section \<open>Transactions\<close>

definition eval_compare :: "'a::linorder \<Rightarrow> condition_result \<Rightarrow> 'a \<Rightarrow> bool" where
  "eval_compare l opr r =
     (case opr of
        CondEq \<Rightarrow> l = r
      | CondGt \<Rightarrow> l > r
      | CondLt \<Rightarrow> l < r
      | CondNe \<Rightarrow> l \<noteq> r
      | CondGe \<Rightarrow> l \<ge> r
      | CondLe \<Rightarrow> l \<le> r)"

definition eval_one_condition ::
    "('m, 'lid, 'mem) map_ops \<Rightarrow> 'm applier \<Rightarrow> txn_condition \<Rightarrow> bool res" where
  "eval_one_condition M a cond =
     rbind (get_maybe_expired_kv M (ap_sm a) (tc_key cond)) (\<lambda>seqv.
       case condition_result_from_i32 (tc_expected cond) of
         None \<Rightarrow> Inr False
       | Some opr \<Rightarrow>
           (case tc_target cond of
              None \<Rightarrow> Inr False
            | Some (TargetSeq against_seq) \<Rightarrow> Inr (eval_compare (opt_seq seqv) opr against_seq)
            | Some (TargetValue against_value) \<Rightarrow>
                (case opt_value seqv of
                   Some stored \<Rightarrow> Inr (eval_compare stored opr against_value)
                 | None \<Rightarrow> Inr False)
            | Some (TargetKeysWithPrefix against_n) \<Rightarrow>
                rbind (list_kv M (ap_sm a) (tc_key cond)) (\<lambda>strm.
                let strm = take (u64_add against_n 1) strm
                in rbind (try_collect strm) (\<lambda>items.
                     Inr (eval_compare (length items) opr against_n)))))"

fun eval_txn_conditions ::
    "('m, 'lid, 'mem) map_ops \<Rightarrow> 'm applier \<Rightarrow> txn_condition list \<Rightarrow> bool res" where
  "eval_txn_conditions M a [] = Inr True"
| "eval_txn_conditions M a (cond # conds) =
     rbind (eval_one_condition M a cond) (\<lambda>b. if \<not> b then Inr False else eval_txn_conditions M a conds)"

text \<open>The loop that leaves at the first condition that holds.\<close>

fun eval_any_condition ::
    "('m, 'lid, 'mem) map_ops \<Rightarrow> 'm applier \<Rightarrow> txn_condition list \<Rightarrow> bool res" where
  "eval_any_condition M a [] = Inr False"
| "eval_any_condition M a (cond # conds) =
     rbind (eval_one_condition M a cond) (\<lambda>b. if b then Inr True else eval_any_condition M a conds)"

text \<open>
  \<open>eval_bool_expression\<close>: each loop returns early or falls through to the end of the function, which
  returns true for both operators.
\<close>

fun eval_bool_expression ::
      "('m, 'lid, 'mem) map_ops \<Rightarrow> 'm applier \<Rightarrow> boolean_expression \<Rightarrow> bool res"
  and eval_all_expressions ::
      "('m, 'lid, 'mem) map_ops \<Rightarrow> 'm applier \<Rightarrow> boolean_expression list \<Rightarrow> bool res"
  and eval_any_expression ::
      "('m, 'lid, 'mem) map_ops \<Rightarrow> 'm applier \<Rightarrow> boolean_expression list \<Rightarrow> bool res" where
  "eval_bool_expression M a (BooleanExpression opr subs conds) =
     (case be_combining (BooleanExpression opr subs conds) of
        OpAnd \<Rightarrow>
          rbind (eval_all_expressions M a subs) (\<lambda>b.
            if \<not> b then Inr False
            else rbind (eval_txn_conditions M a conds) (\<lambda>b. if \<not> b then Inr False else Inr True))
      | OpOr \<Rightarrow>
          rbind (eval_any_expression M a subs) (\<lambda>b.
            if b then Inr True
            else rbind (eval_any_condition M a conds) (\<lambda>b. if b then Inr True else Inr True)))"
| "eval_all_expressions M a [] = Inr True"
| "eval_all_expressions M a (e # es) =
     rbind (eval_bool_expression M a e) (\<lambda>b. if \<not> b then Inr False else eval_all_expressions M a es)"
| "eval_any_expression M a [] = Inr False"
| "eval_any_expression M a (e # es) =
     rbind (eval_bool_expression M a e) (\<lambda>b. if b then Inr True else eval_any_expression M a es)"

definition push_response :: "txn_reply \<Rightarrow> txn_op_response \<Rightarrow> txn_reply" where
  "push_response resp r = resp\<lparr>rep_responses := rep_responses resp @ [Some r]\<rparr>"

definition txn_execute_get ::
    "('m, 'lid, 'mem) map_ops \<Rightarrow> 'm applier \<Rightarrow> rstr \<Rightarrow> txn_reply \<Rightarrow> txn_reply res" where
  "txn_execute_get M a key resp =
     rbind (get_maybe_expired_kv M (ap_sm a) key) (\<lambda>sv. Inr (push_response resp (TxnOpResponse_get key sv)))"

definition txn_execute_put ::
    "('m, 'lid, 'mem) map_ops \<Rightarrow> 'm applier \<Rightarrow> txn_put_request \<Rightarrow> txn_reply \<Rightarrow> (txn_reply \<times> 'm applier) res" where
  "txn_execute_put M a put resp =
     (let upsert = with_meta_spec (UpsertKV_update (pr_key put) (pr_value put))
            (MetaSpec_new (pr_expire_at put) (map_option Interval_from_millis (pr_ttl_ms put)))
      in rbind (applier_upsert_kv M a upsert) (\<lambda>((prev, _), a).
           Inr (push_response resp (TxnOpResponse_put (pr_key put) (map_option seqv_to_pb prev)), a)))"

definition txn_execute_delete ::
    "('m, 'lid, 'mem) map_ops \<Rightarrow> 'm applier \<Rightarrow> txn_delete_request \<Rightarrow> txn_reply \<Rightarrow> (txn_reply \<times> 'm applier) res" where
  "txn_execute_delete M a del resp =
     (let upsert = UpsertKV_delete (dr_key del);
          upsert = (case dr_match_seq del of Some seq \<Rightarrow> with_match_seq upsert (Exact seq) | None \<Rightarrow> upsert)
      in rbind (applier_upsert_kv M a upsert) (\<lambda>((prev, result), a).
           let is_deleted = (prev \<noteq> None \<and> result = None)
           in Inr (push_response resp (TxnOpResponse_delete (dr_key del) is_deleted (map_option seqv_to_pb prev)), a)))"

text \<open>The loop of \<open>txn_execute_delete_by_prefix\<close> over the listed keys; \<open>count\<close> is a \<open>u32\<close>.\<close>

fun delete_loop ::
    "('m, 'lid, 'mem) map_ops \<Rightarrow> 'm applier \<Rightarrow> nat \<Rightarrow> (rstr \<times> bytes seqv) res list \<Rightarrow> (nat \<times> 'm applier) res" where
  "delete_loop M a cnt [] = Inr (cnt, a)"
| "delete_loop M a cnt (item # strm) =
     rbind item (\<lambda>(key, _).
     rbind (applier_upsert_kv M a (UpsertKV_delete key)) (\<lambda>((prev, result), a).
     let a = push_change a key prev result
     in delete_loop M a ((cnt + 1) mod 2 ^ 32) strm))"

definition txn_execute_delete_by_prefix ::
    "('m, 'lid, 'mem) map_ops \<Rightarrow> 'm applier \<Rightarrow> rstr \<Rightarrow> txn_reply \<Rightarrow> (txn_reply \<times> 'm applier) res" where
  "txn_execute_delete_by_prefix M a p resp =
     rbind (list_kv M (ap_sm a) p) (\<lambda>strm.
     rbind (delete_loop M a 0 strm) (\<lambda>(cnt, a).
       Inr (push_response resp (RespDeleteByPrefix \<lparr>bresp_prefix = p, bresp_count = cnt\<rparr>), a)))"

definition txn_execute_operation ::
    "('m, 'lid, 'mem) map_ops \<Rightarrow> 'm applier \<Rightarrow> txn_op \<Rightarrow> txn_reply \<Rightarrow> (txn_reply \<times> 'm applier) res" where
  "txn_execute_operation M a opn resp =
     (case opn of
        Some (ReqGet key) \<Rightarrow> rbind (txn_execute_get M a key resp) (\<lambda>resp. Inr (resp, a))
      | Some (ReqPut put) \<Rightarrow> txn_execute_put M a put resp
      | Some (ReqDelete del) \<Rightarrow> txn_execute_delete M a del resp
      | Some (ReqDeleteByPrefix p) \<Rightarrow> txn_execute_delete_by_prefix M a p resp
      | None \<Rightarrow> Inr (resp, a))"

definition txn_execute_operations ::
    "('m, 'lid, 'mem) map_ops \<Rightarrow> 'm applier \<Rightarrow> txn_op list \<Rightarrow> txn_reply \<Rightarrow> (txn_reply \<times> 'm applier) res" where
  "txn_execute_operations M a ops resp =
     rfold (\<lambda>(resp, a) opn. txn_execute_operation M a opn resp) (resp, a) ops"

text \<open>The first loop of \<open>apply_txn\<close>: the index and operations of the first branch whose predicate holds.\<close>

fun find_branch ::
    "('m, 'lid, 'mem) map_ops \<Rightarrow> 'm applier \<Rightarrow> nat \<Rightarrow> conditional_operation list \<Rightarrow> (nat \<times> txn_op list) option res" where
  "find_branch M a i [] = Inr None"
| "find_branch M a i (c # cs) =
     rbind (case co_predicate c of Some p \<Rightarrow> eval_bool_expression M a p | None \<Rightarrow> Inr True) (\<lambda>success.
       if success then Inr (Some (i, co_operations c)) else find_branch M a (i + 1) cs)"

definition apply_txn ::
    "('m, 'lid, 'mem) map_ops \<Rightarrow> 'm applier \<Rightarrow> txn_request \<Rightarrow> (applied_state \<times> 'm applier) res" where
  "apply_txn M a req =
     rbind (find_branch M a 0 (tr_operations req)) (\<lambda>branch.
       case branch of
         Some (i, ops) \<Rightarrow>
           rbind (txn_execute_operations M a ops (TxnReply_new (str ''operation:'' @ show_dec i))) (\<lambda>(resp, a).
             Inr (StateTxnReply resp, a))
       | None \<Rightarrow>
           rbind (eval_txn_conditions M a (tr_condition req)) (\<lambda>success.
             let (ops, path) = (if success then (tr_if_then req, str ''then'') else (tr_else_then req, str ''else''))
             in rbind (txn_execute_operations M a ops (TxnReply_new path)) (\<lambda>(resp, a).
                  Inr (StateTxnReply resp, a))))"

section \<open>Expiration\<close>

text \<open>The first loop of \<open>clean_expired_kvs\<close>: it stops at the first key that is not expired.\<close>

fun collect_expired :: "nat \<Rightarrow> (expire_key \<times> rstr) res list \<Rightarrow> (expire_key \<times> rstr) list res" where
  "collect_expired t [] = Inr []"
| "collect_expired t (item # strm) =
     rbind item (\<lambda>(expire_key, key).
       if \<not> expire_key_is_expired expire_key t then Inr []
       else rbind (collect_expired t strm) (\<lambda>rest. Inr ((expire_key, key) # rest)))"

fun clean_loop :: "('m, 'lid, 'mem) map_ops \<Rightarrow> 'm applier \<Rightarrow> (expire_key \<times> rstr) list \<Rightarrow> 'm applier res" where
  "clean_loop M a [] = Inr a"
| "clean_loop M a ((expire_key, key) # rest) =
     rbind (get_maybe_expired_kv M (ap_sm a) key) (\<lambda>curr.
       case curr of
         Some seq_v \<Rightarrow>
           (if ek_seq expire_key \<noteq> sv_seq seq_v then Inl (Panic AssertFailed)
            else rbind (applier_upsert_kv M a (UpsertKV_delete key)) (\<lambda>(_, a). clean_loop M a rest))
       | None \<Rightarrow> Inl (Panic UnreachableCode))"

definition clean_expired_kvs :: "('m, 'lid, 'mem) map_ops \<Rightarrow> 'm applier \<Rightarrow> nat \<Rightarrow> 'm applier res" where
  "clean_expired_kvs M a log_time_ms =
     (if log_time_ms = 0 then Inr a
      else rbind (list_expire_index M (ap_sm a) log_time_ms) (\<lambda>strm.
           rbind (collect_expired log_time_ms strm) (\<lambda>to_clean.
           rbind (clean_loop M a to_clean) (\<lambda>a.
             Inr (a\<lparr>ap_sm := update_expire_cursor (ap_sm a) log_time_ms\<rparr>)))))"

section \<open>Log entries\<close>

definition get_log_time :: "('lid, 'mem) entry \<Rightarrow> nat" where
  "get_log_time entry =
     (case en_payload entry of
        NormalEntry data \<Rightarrow> (case le_time_ms data of None \<Rightarrow> 0 | Some ms \<Rightarrow> ms)
      | _ \<Rightarrow> 0)"

definition apply_cmd :: "('m, 'lid, 'mem) map_ops \<Rightarrow> 'm applier \<Rightarrow> cmd \<Rightarrow> (applied_state \<times> 'm applier) res" where
  "apply_cmd M a c =
     (case c of
        AddNode node_id node overriding \<Rightarrow> Inr (apply_add_node M a node_id node overriding)
      | RemoveNode node_id \<Rightarrow> Inr (apply_remove_node M a node_id)
      | CmdUpsertKV up \<Rightarrow> apply_upsert_kv M a up
      | Transaction txn \<Rightarrow> apply_txn M a txn)"

definition send_changes :: "'m applier \<Rightarrow> 'm applier" where
  "send_changes a =
     (case subscriber (ap_sm a) of
        None \<Rightarrow> a
      | Some sent \<Rightarrow> a\<lparr>ap_sm := (ap_sm a)\<lparr>subscriber := Some (sent @ ap_changes a)\<rparr>, ap_changes := []\<rparr>)"

definition apply_entry ::
    "('m, 'lid, 'mem) map_ops \<Rightarrow> 'm applier \<Rightarrow> ('lid, 'mem) entry \<Rightarrow> (applied_state \<times> 'm applier) res" where
  "apply_entry M a entry =
     (let log_id = en_log_id entry; log_time_ms = get_log_time entry;
          a = a\<lparr>ap_cmd_ctx := CmdContext_from_millis log_time_ms\<rparr>
      in rbind (clean_expired_kvs M a log_time_ms) (\<lambda>a.
         let a = with_sys M a (\<lambda>s. s\<lparr>last_applied := Some log_id\<rparr>)
         in rbind (case en_payload entry of
                     Blank \<Rightarrow> Inr (StateNone, a)
                   | NormalEntry data \<Rightarrow>
                       (if le_txid data \<noteq> None then Inl (Panic AssertFailed) else apply_cmd M a (le_cmd data))
                   | MembershipEntry mem \<Rightarrow>
                       Inr (StateNone, with_sys M a (\<lambda>s. s\<lparr>last_membership := (Some log_id, mem)\<rparr>)))
              (\<lambda>(applied_state, a). Inr (applied_state, send_changes a))))"

text \<open>\<open>SMV003::apply_entries\<close>.\<close>

definition apply_entries ::
    "('m, 'lid, 'mem) map_ops \<Rightarrow> 'm sm \<Rightarrow> ('lid, 'mem) entry list \<Rightarrow> (applied_state list \<times> 'm sm) res" where
  "apply_entries M s entries =
     rbind (rfold (\<lambda>(out, a) ent. rbind (apply_entry M a ent) (\<lambda>(r, a). Inr (out @ [r], a)))
              ([], Applier_new s) entries)
       (\<lambda>(out, a). Inr (out, ap_sm a))"

section \<open>The in-memory key-value API\<close>

text \<open>\<open>now\<close> is the wall-clock time.\<close>

definition mem_init_applier :: "nat \<Rightarrow> ('lid, 'mem) level applier \<Rightarrow> ('lid, 'mem) level applier res" where
  "mem_init_applier now a =
     clean_expired_kvs level_ops (a\<lparr>ap_cmd_ctx := CmdContext_from_millis now\<rparr>) now"

definition mem_upsert_kv ::
    "('lid, 'mem) mem_state_machine \<Rightarrow> nat \<Rightarrow> upsert_kv \<Rightarrow> (bytes change \<times> ('lid, 'mem) mem_state_machine) res" where
  "mem_upsert_kv s now up =
     rbind (mem_init_applier now (Applier_new s)) (\<lambda>a.
     rbind (applier_upsert_kv level_ops a up) (\<lambda>((prev, result), a).
       Inr (Change_new prev result, ap_sm a)))"

definition mem_transaction ::
    "('lid, 'mem) mem_state_machine \<Rightarrow> nat \<Rightarrow> txn_request \<Rightarrow> (txn_reply \<times> ('lid, 'mem) mem_state_machine) res" where
  "mem_transaction s now txn =
     rbind (mem_init_applier now (Applier_new s)) (\<lambda>a.
     rbind (apply_txn level_ops a txn) (\<lambda>(st, a).
       case st of StateTxnReply r \<Rightarrow> Inr (r, ap_sm a) | _ \<Rightarrow> Inl (Panic UnreachableCode)))"

definition mem_get_kv_stream ::
    "('lid, 'mem) mem_state_machine \<Rightarrow> nat \<Rightarrow> rstr list \<Rightarrow> stream_item res list res" where
  "mem_get_kv_stream s now keys = get_kv_stream level_ops s now keys"

definition mem_list_kv :: "('lid, 'mem) mem_state_machine \<Rightarrow> nat \<Rightarrow> rstr \<Rightarrow> stream_item res list res" where
  "mem_list_kv s now p = api_list_kv level_ops s now p"

end
