(* ===== verification/FlatSpec.thy ===== *)
theory FlatSpec
  imports Applier
begin

text \<open>
  What the state machine promises, as a reference machine: a single sorted map of the live entries,
  the system data and the time up to which expired entries have been removed. There are no levels, no
  tombstones and no expiration index. The refinement theorem shows that applying a log entry to the
  state machine of the repository returns what this machine returns and leaves a state that stands
  for this machine's state.
\<close>

section \<open>State and single operations\<close>

record ('lid, 'mem) flat =
  f_kv :: "(rstr, bytes seqv) btree"
  f_sys :: "('lid, 'mem) sys_data"
  f_cursor :: nat

definition sv_expires :: "bytes seqv \<Rightarrow> nat option" where
  "sv_expires v = meta_expires_at_ms_opt (sv_meta v)"

text \<open>Writing takes the next sequence number; an entry that has already expired is removed at once.\<close>

definition flat_put ::
    "('lid, 'mem) flat \<Rightarrow> rstr \<Rightarrow> bytes \<Rightarrow> kv_meta option \<Rightarrow> bytes seqv option \<times> ('lid, 'mem) flat" where
  "flat_put f key v meta =
     (let s = sequence (f_sys f) + 1; g = f\<lparr>f_sys := (f_sys f)\<lparr>sequence := s\<rparr>\<rparr>
      in if opt_expires_at_ms meta < f_cursor f then (None, g\<lparr>f_kv := btree_remove key (f_kv f)\<rparr>)
         else (Some (SeqV_with_meta s meta v), g\<lparr>f_kv := btree_insert key (SeqV_with_meta s meta v) (f_kv f)\<rparr>))"

definition flat_upsert ::
    "('lid, 'mem) flat \<Rightarrow> cmd_context \<Rightarrow> upsert_kv \<Rightarrow>
     (bytes seqv option \<times> bytes seqv option) \<times> ('lid, 'mem) flat" where
  "flat_upsert f ctx up =
     (let key = uk_key up; prev = btree_get (f_kv f) key;
          meta = map_option (\<lambda>m. to_kv_meta m ctx) (uk_value_meta up)
      in if \<not> seq_matches (uk_seq up) (opt_seq prev) then ((prev, prev), f)
         else case uk_value up of
                Update v \<Rightarrow> (case flat_put f key v meta of (r, g) \<Rightarrow> ((prev, r), g))
              | Delete \<Rightarrow> ((prev, None), f\<lparr>f_kv := btree_remove key (f_kv f)\<rparr>)
              | AsIs \<Rightarrow>
                  (case prev of
                     None \<Rightarrow> ((None, None), f)
                   | Some sv \<Rightarrow> (case flat_put f key (sv_data sv) meta of (r, g) \<Rightarrow> ((prev, r), g))))"

definition change_events :: "rstr \<Rightarrow> bytes seqv option \<Rightarrow> bytes seqv option \<Rightarrow> event list" where
  "change_events key prev result = (if prev = result then [] else [(key, prev, result)])"

definition flat_list :: "('lid, 'mem) flat \<Rightarrow> rstr \<Rightarrow> (rstr \<times> bytes seqv) list" where
  "flat_list f p = filter (\<lambda>(k, v). prefix p k) (f_kv f)"

section \<open>Transactions\<close>

definition flat_cond :: "('lid, 'mem) flat \<Rightarrow> txn_condition \<Rightarrow> bool" where
  "flat_cond f c =
     (case condition_result_from_i32 (tc_expected c) of
        None \<Rightarrow> False
      | Some opr \<Rightarrow>
          (case tc_target c of
             None \<Rightarrow> False
           | Some (TargetSeq n) \<Rightarrow> eval_compare (opt_seq (btree_get (f_kv f) (tc_key c))) opr n
           | Some (TargetValue v) \<Rightarrow>
               (case btree_get (f_kv f) (tc_key c) of None \<Rightarrow> False | Some sv \<Rightarrow> eval_compare (sv_data sv) opr v)
           | Some (TargetKeysWithPrefix n) \<Rightarrow> eval_compare (length (flat_list f (tc_key c))) opr n))"

text \<open>
  How the state machine decides a boolean expression: a conjunction as described by its schema, a
  disjunction always in favour. See \<open>be_sem\<close> for the meaning the schema gives.
\<close>

fun flat_expr :: "(txn_condition \<Rightarrow> bool) \<Rightarrow> boolean_expression \<Rightarrow> bool" where
  "flat_expr holds (BooleanExpression opr subs cs) \<longleftrightarrow>
     opr = 1 \<or> list_all (flat_expr holds) subs \<and> list_all holds cs"

text \<open>Responses, events and the state after an operation.\<close>

definition flat_op ::
    "cmd_context \<Rightarrow> txn_op \<Rightarrow> ('lid, 'mem) flat \<Rightarrow> txn_op_response list \<times> event list \<times> ('lid, 'mem) flat" where
  "flat_op ctx opn f =
     (case opn of
        None \<Rightarrow> ([], [], f)
      | Some (ReqGet key) \<Rightarrow> ([TxnOpResponse_get key (btree_get (f_kv f) key)], [], f)
      | Some (ReqPut put) \<Rightarrow>
          (case flat_upsert f ctx (with_meta_spec (UpsertKV_update (pr_key put) (pr_value put))
                  (MetaSpec_new (pr_expire_at put) (map_option Interval_from_millis (pr_ttl_ms put)))) of
             ((prev, result), g) \<Rightarrow>
               ([TxnOpResponse_put (pr_key put) (map_option seqv_to_pb prev)],
                change_events (pr_key put) prev result, g))
      | Some (ReqDelete del) \<Rightarrow>
          (case flat_upsert f ctx
                  (case dr_match_seq del of
                     Some s \<Rightarrow> with_match_seq (UpsertKV_delete (dr_key del)) (Exact s)
                   | None \<Rightarrow> UpsertKV_delete (dr_key del)) of
             ((prev, result), g) \<Rightarrow>
               ([TxnOpResponse_delete (dr_key del) (prev \<noteq> None \<and> result = None) (map_option seqv_to_pb prev)],
                change_events (dr_key del) prev result, g))
      | Some (ReqDeleteByPrefix p) \<Rightarrow>
          ([RespDeleteByPrefix \<lparr>bresp_prefix = p, bresp_count = length (flat_list f p) mod 2 ^ 32\<rparr>],
           concat (map (\<lambda>(k, v). [(k, Some v, None), (k, Some v, None)]) (flat_list f p)),
           f\<lparr>f_kv := filter (\<lambda>(k, v). \<not> prefix p k) (f_kv f)\<rparr>))"

fun flat_ops ::
    "cmd_context \<Rightarrow> txn_op list \<Rightarrow> ('lid, 'mem) flat \<Rightarrow> txn_op_response list \<times> event list \<times> ('lid, 'mem) flat" where
  "flat_ops ctx [] f = ([], [], f)"
| "flat_ops ctx (opn # ops) f =
     (case flat_op ctx opn f of (rs, evs, g) \<Rightarrow>
      case flat_ops ctx ops g of (rs', evs', h) \<Rightarrow> (rs @ rs', evs @ evs', h))"

text \<open>The branch a transaction takes: its name in the reply and its operations.\<close>

fun flat_branch :: "(txn_condition \<Rightarrow> bool) \<Rightarrow> nat \<Rightarrow> conditional_operation list \<Rightarrow> (nat \<times> txn_op list) option" where
  "flat_branch holds i [] = None"
| "flat_branch holds i (c # cs) =
     (if (case co_predicate c of None \<Rightarrow> True | Some e \<Rightarrow> flat_expr holds e) then Some (i, co_operations c)
      else flat_branch holds (i + 1) cs)"

definition flat_choose :: "(txn_condition \<Rightarrow> bool) \<Rightarrow> txn_request \<Rightarrow> rstr \<times> txn_op list" where
  "flat_choose holds req =
     (case flat_branch holds 0 (tr_operations req) of
        Some (i, ops) \<Rightarrow> (str ''operation:'' @ show_dec i, ops)
      | None \<Rightarrow>
          if list_all holds (tr_condition req) then (str ''then'', tr_if_then req)
          else (str ''else'', tr_else_then req))"

definition flat_txn ::
    "cmd_context \<Rightarrow> txn_request \<Rightarrow> ('lid, 'mem) flat \<Rightarrow> txn_reply \<times> event list \<times> ('lid, 'mem) flat" where
  "flat_txn ctx req f =
     (case flat_choose (flat_cond f) req of (path, ops) \<Rightarrow>
      case flat_ops ctx ops f of (rs, evs, g) \<Rightarrow>
        ((TxnReply_new path)\<lparr>rep_responses := map Some rs\<rparr>, evs, g))"

section \<open>Expiration\<close>

definition expired_before :: "nat \<Rightarrow> bytes seqv \<Rightarrow> bool" where
  "expired_before t v \<longleftrightarrow> (case sv_expires v of None \<Rightarrow> False | Some e \<Rightarrow> e < t)"

text \<open>The expired entries, in order of expiration time and sequence number.\<close>

definition flat_expired :: "('lid, 'mem) flat \<Rightarrow> nat \<Rightarrow> (expire_key \<times> rstr) list" where
  "flat_expired f t =
     sort_key fst (map (\<lambda>(k, v). (ExpireKey (the (sv_expires v)) (sv_seq v), k))
       (filter (\<lambda>(k, v). expired_before t v) (f_kv f)))"

definition flat_clean :: "nat \<Rightarrow> ('lid, 'mem) flat \<Rightarrow> event list \<times> ('lid, 'mem) flat" where
  "flat_clean t f =
     (if t = 0 then ([], f)
      else (map (\<lambda>(ek, k). (k, btree_get (f_kv f) k, None)) (flat_expired f t),
            f\<lparr>f_kv := filter (\<lambda>(k, v). \<not> expired_before t v) (f_kv f), f_cursor := max (f_cursor f) t\<rparr>))"

section \<open>Log entries\<close>

definition flat_cmd ::
    "cmd_context \<Rightarrow> cmd \<Rightarrow> ('lid, 'mem) flat \<Rightarrow> applied_state \<times> event list \<times> ('lid, 'mem) flat" where
  "flat_cmd ctx c f =
     (case c of
        AddNode i n overriding \<Rightarrow>
          (let prev = btree_get (nodes (f_sys f)) i
           in if prev = None \<or> overriding
              then (StateNode prev (Some n), [], f\<lparr>f_sys := (f_sys f)\<lparr>nodes := btree_insert i n (nodes (f_sys f))\<rparr>\<rparr>)
              else (StateNode prev prev, [], f))
      | RemoveNode i \<Rightarrow>
          (StateNode (btree_get (nodes (f_sys f)) i) None, [],
           f\<lparr>f_sys := (f_sys f)\<lparr>nodes := btree_remove i (nodes (f_sys f))\<rparr>\<rparr>)
      | CmdUpsertKV up \<Rightarrow>
          (case flat_upsert f ctx up of
             ((prev, result), g) \<Rightarrow> (StateKV (Change_new prev result), change_events (uk_key up) prev result, g))
      | Transaction txn \<Rightarrow> (case flat_txn ctx txn f of (r, evs, g) \<Rightarrow> (StateTxnReply r, evs, g)))"

definition flat_payload ::
    "('lid, 'mem) entry \<Rightarrow> ('lid, 'mem) flat \<Rightarrow> applied_state \<times> event list \<times> ('lid, 'mem) flat" where
  "flat_payload entry f =
     (case en_payload entry of
        Blank \<Rightarrow> (StateNone, [], f)
      | NormalEntry data \<Rightarrow> flat_cmd (CmdContext_from_millis (get_log_time entry)) (le_cmd data) f
      | MembershipEntry mem \<Rightarrow>
          (StateNone, [], f\<lparr>f_sys := (f_sys f)\<lparr>last_membership := (Some (en_log_id entry), mem)\<rparr>\<rparr>))"

text \<open>Expired entries go first, then the entry is recorded as applied, then its payload is applied.\<close>

definition flat_apply ::
    "('lid, 'mem) entry \<Rightarrow> ('lid, 'mem) flat \<Rightarrow> applied_state \<times> event list \<times> ('lid, 'mem) flat" where
  "flat_apply entry f =
     (case flat_clean (get_log_time entry) f of (evs, f) \<Rightarrow>
      case flat_payload entry (f\<lparr>f_sys := (f_sys f)\<lparr>last_applied := Some (en_log_id entry)\<rparr>\<rparr>) of
        (st, evs', g) \<Rightarrow> (st, evs @ evs', g))"

fun flat_run ::
    "('lid, 'mem) entry list \<Rightarrow> ('lid, 'mem) flat \<Rightarrow> applied_state list \<times> event list \<times> ('lid, 'mem) flat" where
  "flat_run [] f = ([], [], f)"
| "flat_run (entry # entries) f =
     (case flat_apply entry f of (st, evs, g) \<Rightarrow>
      case flat_run entries g of (sts, evs', h) \<Rightarrow> (st # sts, evs @ evs', h))"

section \<open>Well-formedness\<close>

definition flat_inv :: "('lid, 'mem) flat \<Rightarrow> bool" where
  "flat_inv f \<longleftrightarrow>
     btree_ok (f_kv f) \<and> f_cursor f < 2 ^ 64 \<and>
     (\<forall>(k, v) \<in> set (f_kv f). valid_str k \<and> 1 \<le> sv_seq v \<and> sv_seq v \<le> sequence (f_sys f) \<and>
        (\<forall>e. sv_expires v = Some e \<longrightarrow> f_cursor f \<le> e)) \<and>
     distinct (map (\<lambda>(k, v). sv_seq v) (f_kv f))"

text \<open>Requests as they arrive: keys are strings, times are 64-bit numbers, and retry ids are not used.\<close>

definition op_ok :: "txn_op \<Rightarrow> bool" where
  "op_ok opn \<longleftrightarrow>
     (case opn of
        Some (ReqPut put) \<Rightarrow> valid_str (pr_key put)
      | Some (ReqDelete del) \<Rightarrow> valid_str (dr_key del)
      | Some (ReqDeleteByPrefix p) \<Rightarrow> valid_str p
      | _ \<Rightarrow> True)"

definition cond_ok :: "txn_condition \<Rightarrow> bool" where
  "cond_ok c \<longleftrightarrow> valid_str (tc_key c) \<and>
     (case tc_target c of Some (TargetKeysWithPrefix n) \<Rightarrow> n + 1 < 2 ^ 64 | _ \<Rightarrow> True)"

fun expr_ok :: "boolean_expression \<Rightarrow> bool" where
  "expr_ok (BooleanExpression opr subs cs) \<longleftrightarrow> list_all expr_ok subs \<and> list_all cond_ok cs"

definition txn_ok :: "txn_request \<Rightarrow> bool" where
  "txn_ok req \<longleftrightarrow>
     list_all (\<lambda>c. (case co_predicate c of None \<Rightarrow> True | Some e \<Rightarrow> expr_ok e) \<and> list_all op_ok (co_operations c))
       (tr_operations req) \<and>
     list_all cond_ok (tr_condition req) \<and> list_all op_ok (tr_if_then req) \<and> list_all op_ok (tr_else_then req)"

definition cmd_ok :: "cmd \<Rightarrow> bool" where
  "cmd_ok c \<longleftrightarrow> (case c of CmdUpsertKV up \<Rightarrow> valid_str (uk_key up) | Transaction txn \<Rightarrow> txn_ok txn | _ \<Rightarrow> True)"

definition entry_ok :: "('lid, 'mem) entry \<Rightarrow> bool" where
  "entry_ok entry \<longleftrightarrow>
     get_log_time entry < 2 ^ 64 \<and>
     (case en_payload entry of NormalEntry data \<Rightarrow> le_txid data = None \<and> cmd_ok (le_cmd data) | _ \<Rightarrow> True)"

text \<open>An upper bound of the sequence numbers an entry uses.\<close>

definition op_seqs :: "txn_op \<Rightarrow> nat" where
  "op_seqs opn = (case opn of Some (ReqPut _) \<Rightarrow> 1 | _ \<Rightarrow> 0)"

definition upsert_seqs :: "upsert_kv \<Rightarrow> nat" where
  "upsert_seqs up = (case uk_value up of Delete \<Rightarrow> 0 | _ \<Rightarrow> 1)"

definition ops_seqs :: "txn_op list \<Rightarrow> nat" where
  "ops_seqs ops = sum_list (map op_seqs ops)"

definition cmd_seqs :: "cmd \<Rightarrow> nat" where
  "cmd_seqs c =
     (case c of
        CmdUpsertKV up \<Rightarrow> upsert_seqs up
      | Transaction txn \<Rightarrow>
          sum_list (map (\<lambda>c. ops_seqs (co_operations c)) (tr_operations txn)) +
          ops_seqs (tr_if_then txn) + ops_seqs (tr_else_then txn)
      | _ \<Rightarrow> 0)"

definition entry_seqs :: "('lid, 'mem) entry \<Rightarrow> nat" where
  "entry_seqs entry = (case en_payload entry of NormalEntry data \<Rightarrow> cmd_seqs (le_cmd data) | _ \<Rightarrow> 0)"

end
