(* ===== verification/FlatProps.thy ===== *)
theory FlatProps
  imports FlatSpec
begin

text \<open>
  Lemmas about the reference machine: every operation keeps \<open>flat_inv\<close>, uses no more sequence numbers
  than counted, and changes the entries it names only.
\<close>

section \<open>The invariant, by lookups\<close>

lemma flat_inv_iff:
  "flat_inv f \<longleftrightarrow>
     btree_ok (f_kv f) \<and> f_cursor f < 2 ^ 64 \<and>
     (\<forall>k v. btree_get (f_kv f) k = Some v \<longrightarrow> valid_str k \<and> 1 \<le> sv_seq v \<and> sv_seq v \<le> sequence (f_sys f) \<and>
        (\<forall>e. sv_expires v = Some e \<longrightarrow> f_cursor f \<le> e)) \<and>
     (\<forall>k k' v v'. btree_get (f_kv f) k = Some v \<longrightarrow> btree_get (f_kv f) k' = Some v' \<longrightarrow> sv_seq v = sv_seq v' \<longrightarrow> k = k')"
proof (cases "btree_ok (f_kv f)")
  case True
  have "distinct (f_kv f)" using btree_ok_distinct [OF True] by (simp add: distinct_map)
  then have "distinct (map (\<lambda>(k, v). sv_seq v) (f_kv f)) \<longleftrightarrow> inj_on (\<lambda>(k, v). sv_seq v) (set (f_kv f))"
    by (simp add: distinct_map)
  also have "\<dots> \<longleftrightarrow> (\<forall>k k' v v'. (k, v) \<in> set (f_kv f) \<longrightarrow> (k', v') \<in> set (f_kv f) \<longrightarrow> sv_seq v = sv_seq v' \<longrightarrow> k = k')"
  proof
    assume "inj_on (\<lambda>(k, v). sv_seq v) (set (f_kv f))"
    then show "\<forall>k k' v v'. (k, v) \<in> set (f_kv f) \<longrightarrow> (k', v') \<in> set (f_kv f) \<longrightarrow> sv_seq v = sv_seq v' \<longrightarrow> k = k'"
      unfolding inj_on_def by fast
  next
    assume *: "\<forall>k k' v v'. (k, v) \<in> set (f_kv f) \<longrightarrow> (k', v') \<in> set (f_kv f) \<longrightarrow> sv_seq v = sv_seq v' \<longrightarrow> k = k'"
    show "inj_on (\<lambda>(k, v). sv_seq v) (set (f_kv f))"
    proof (rule inj_onI, clarify)
      fix k v k' v' assume kv: "(k, v) \<in> set (f_kv f)" "(k', v') \<in> set (f_kv f)" "sv_seq v = sv_seq v'"
      then have "k = k'" using * by blast
      moreover from this kv(1,2) have "v = v'" using True by (metis btree_get_in_set option.inject)
      ultimately show "k = k' \<and> v = v'" by simp
    qed
  qed
  finally show ?thesis
    using True by (auto simp: flat_inv_def btree_get_in_set)
qed (simp add: flat_inv_def)

lemma flat_invD:
  assumes "flat_inv f"
  shows "btree_ok (f_kv f)" and "f_cursor f < 2 ^ 64"
    and "btree_get (f_kv f) k = Some v \<Longrightarrow> valid_str k \<and> 1 \<le> sv_seq v \<and> sv_seq v \<le> sequence (f_sys f)"
    and "btree_get (f_kv f) k = Some v \<Longrightarrow> sv_expires v = Some e \<Longrightarrow> f_cursor f \<le> e"
    and "btree_get (f_kv f) k = Some v \<Longrightarrow> btree_get (f_kv f) k' = Some v' \<Longrightarrow> sv_seq v = sv_seq v' \<Longrightarrow> k = k'"
  using assms by (auto simp: flat_inv_iff)

section \<open>Single writes\<close>

lemma opt_expires_not_less:
  "\<not> opt_expires_at_ms meta < c \<Longrightarrow> meta_expires_at_ms_opt meta = Some e \<Longrightarrow> c \<le> e"
  by (auto simp: opt_expires_at_ms_eq)

lemma flat_put_spec:
  assumes "flat_put f key v meta = (r, g)"
  shows "btree_get (f_kv g) k = (if k = key then r else btree_get (f_kv f) k)"
    and "f_cursor g = f_cursor f" and "f_sys g = (f_sys f)\<lparr>sequence := sequence (f_sys f) + 1\<rparr>"
    and "r = Some sv \<Longrightarrow> sv_seq sv = sequence (f_sys f) + 1 \<and> (\<forall>e. sv_expires sv = Some e \<longrightarrow> f_cursor f \<le> e)"
    and "btree_ok (f_kv f) \<Longrightarrow> btree_ok (f_kv g)"
proof -
  let ?sv = "SeqV_with_meta (sequence (f_sys f) + 1) meta v"
  have *: "btree_get (f_kv g) k = (if k = key then r else btree_get (f_kv f) k) \<and>
      f_cursor g = f_cursor f \<and> f_sys g = (f_sys f)\<lparr>sequence := sequence (f_sys f) + 1\<rparr> \<and>
      (r = Some sv \<longrightarrow> sv_seq sv = sequence (f_sys f) + 1 \<and> (\<forall>e. sv_expires sv = Some e \<longrightarrow> f_cursor f \<le> e)) \<and>
      (btree_ok (f_kv f) \<longrightarrow> btree_ok (f_kv g))"
  proof (cases "opt_expires_at_ms meta < f_cursor f")
    case True
    with assms show ?thesis by (auto simp: flat_put_def Let_def)
  next
    case False
    have "\<forall>e. sv_expires ?sv = Some e \<longrightarrow> f_cursor f \<le> e"
      using opt_expires_not_less [OF False] by (simp add: sv_expires_def SeqV_with_meta_def)
    moreover have "sv_seq ?sv = sequence (f_sys f) + 1" by (simp add: SeqV_with_meta_def)
    ultimately show ?thesis using assms False by (auto simp: flat_put_def Let_def)
  qed
  show "btree_get (f_kv g) k = (if k = key then r else btree_get (f_kv f) k)" using * by blast
  show "f_cursor g = f_cursor f" using * by blast
  show "f_sys g = (f_sys f)\<lparr>sequence := sequence (f_sys f) + 1\<rparr>" using * by blast
  show "sv_seq sv = sequence (f_sys f) + 1 \<and> (\<forall>e. sv_expires sv = Some e \<longrightarrow> f_cursor f \<le> e)" if "r = Some sv"
    using * that by blast
  show "btree_ok (f_kv g)" if "btree_ok (f_kv f)" using * that by blast
qed

lemma flat_upsert_cases:
  assumes "flat_upsert f ctx up = ((p, r), g)"
  shows "p = btree_get (f_kv f) (uk_key up) \<and>
    (g = f \<and> r = p \<or>
     uk_value up = Delete \<and> r = None \<and> g = f\<lparr>f_kv := btree_remove (uk_key up) (f_kv f)\<rparr> \<or>
     uk_value up \<noteq> Delete \<and>
       (\<exists>v. flat_put f (uk_key up) v (map_option (\<lambda>m. to_kv_meta m ctx) (uk_value_meta up)) = (r, g)))"
proof (cases "seq_matches (uk_seq up) (opt_seq (btree_get (f_kv f) (uk_key up)))")
  case False
  with assms show ?thesis by (auto simp: flat_upsert_def Let_def)
next
  case True
  then show ?thesis
    using assms
    by (cases "uk_value up"; cases "btree_get (f_kv f) (uk_key up)")
       (auto simp: flat_upsert_def Let_def split: prod.splits)
qed

lemma flat_upsert_frame:
  assumes "flat_upsert f ctx up = ((p, r), g)"
  shows "p = btree_get (f_kv f) (uk_key up)"
    and "btree_get (f_kv g) k = (if k = uk_key up then r else btree_get (f_kv f) k)"
    and "f_cursor g = f_cursor f" and "sequence (f_sys f) \<le> sequence (f_sys g)"
    and "sequence (f_sys g) \<le> sequence (f_sys f) + upsert_seqs up"
    and "btree_ok (f_kv f) \<Longrightarrow> btree_ok (f_kv g)"
proof -
  from flat_upsert_cases [OF assms] show "p = btree_get (f_kv f) (uk_key up)" by simp
  from flat_upsert_cases [OF assms]
  show "btree_get (f_kv g) k = (if k = uk_key up then r else btree_get (f_kv f) k)"
    by (elim conjE disjE exE) (simp_all add: flat_put_spec(1))
  from flat_upsert_cases [OF assms] show "f_cursor g = f_cursor f"
    by (elim conjE disjE exE) (simp_all add: flat_put_spec(2))
  from flat_upsert_cases [OF assms] show "sequence (f_sys f) \<le> sequence (f_sys g)"
    by (elim conjE disjE exE) (simp_all add: flat_put_spec(3))
  from flat_upsert_cases [OF assms] show "sequence (f_sys g) \<le> sequence (f_sys f) + upsert_seqs up"
    by (elim conjE disjE exE) (auto simp: flat_put_spec(3) upsert_seqs_def split: operation.splits)
  from flat_upsert_cases [OF assms] show "btree_ok (f_kv g)" if "btree_ok (f_kv f)"
    using that by (elim conjE disjE exE) (simp_all add: flat_put_spec(5))
qed

lemma flat_upsert_sys:
  assumes "flat_upsert f ctx up = ((p, r), g)"
  shows "f_sys g = (f_sys f)\<lparr>sequence := sequence (f_sys g)\<rparr>"
  using flat_upsert_cases [OF assms]
proof (elim conjE disjE exE)
  fix v assume "flat_put f (uk_key up) v (map_option (\<lambda>m. to_kv_meta m ctx) (uk_value_meta up)) = (r, g)"
  from flat_put_spec(3) [OF this] show ?thesis by simp
qed simp_all

text \<open>A result that differs from what was there is a new entry with the next sequence number.\<close>

lemma flat_upsert_new:
  assumes "flat_upsert f ctx up = ((p, Some sv), g)" and "Some sv \<noteq> p"
  shows "sv_seq sv = sequence (f_sys f) + 1" and "sequence (f_sys g) = sequence (f_sys f) + 1"
    and "sv_expires sv = Some e \<Longrightarrow> f_cursor f \<le> e"
proof -
  obtain v where put: "flat_put f (uk_key up) v (map_option (\<lambda>m. to_kv_meta m ctx) (uk_value_meta up)) = (Some sv, g)"
    using flat_upsert_cases [OF assms(1)] assms(2) by auto
  show "sv_seq sv = sequence (f_sys f) + 1" "sequence (f_sys g) = sequence (f_sys f) + 1"
    "sv_expires sv = Some e \<Longrightarrow> f_cursor f \<le> e"
    using flat_put_spec(3,4) [OF put] by auto
qed

lemma flat_upsert_inv:
  assumes "flat_inv f" and "valid_str (uk_key up)" and "flat_upsert f ctx up = ((p, r), g)"
  shows "flat_inv g"
proof -
  note u = flat_upsert_frame [OF assms(3)] and i = flat_invD [OF assms(1)]
  have new: "sv_seq v = sequence (f_sys f) + 1 \<and> sequence (f_sys g) = sequence (f_sys f) + 1 \<and>
      (\<forall>e. sv_expires v = Some e \<longrightarrow> f_cursor f \<le> e)" if "r = Some v" "r \<noteq> p" for v
    using flat_upsert_new [of f ctx up p v g] assms(3) that by auto
  have old: "sv_seq v \<le> sequence (f_sys f)" if "btree_get (f_kv f) k = Some v" for k v
    using i(3) [OF that] by simp
  have ent: "valid_str k \<and> 1 \<le> sv_seq v \<and> sv_seq v \<le> sequence (f_sys g) \<and> (\<forall>e. sv_expires v = Some e \<longrightarrow> f_cursor g \<le> e)"
    if g: "btree_get (f_kv g) k = Some v" for k v
  proof (cases "k = uk_key up \<and> r \<noteq> p")
    case True
    with g u(2) [of k] have "r = Some v" by simp
    with True u(3) new [of v] assms(2) show ?thesis by auto
  next
    case False
    with g u(1) u(2) [of k] have "btree_get (f_kv f) k = Some v" by (auto split: if_splits)
    with i(3,4) [of k v] u(3,4) show ?thesis by fastforce
  qed
  have uniq: "k = k'" if g: "btree_get (f_kv g) k = Some v" "btree_get (f_kv g) k' = Some v'" "sv_seq v = sv_seq v'"
    for k k' v v'
  proof (cases "r = p \<or> k \<noteq> uk_key up \<and> k' \<noteq> uk_key up")
    case True
    then have "btree_get (f_kv f) k = Some v" "btree_get (f_kv f) k' = Some v'"
      using g(1,2) u(1) u(2) [of k] u(2) [of k'] by (auto split: if_splits)
    with i(5) g(3) show ?thesis by blast
  next
    case False
    show ?thesis
    proof (rule ccontr)
      assume "k \<noteq> k'"
      from False consider "k = uk_key up" "r \<noteq> p" | "k' = uk_key up" "r \<noteq> p" by blast
      then show False
      proof cases
        case 1
        with g \<open>k \<noteq> k'\<close> u(2) [of k] u(2) [of k'] new [of v] old [of k' v'] show False by simp
      next
        case 2
        with g \<open>k \<noteq> k'\<close> u(2) [of k] u(2) [of k'] new [of v'] old [of k v] show False by simp
      qed
    qed
  qed
  show ?thesis
    unfolding flat_inv_iff using u(3,6) i(1,2) ent uniq by auto
qed

section \<open>Removing entries\<close>

lemma btree_get_filter:
  assumes "btree_ok t"
  shows "btree_get (filter (\<lambda>(k, v). P k v) t) k =
    (case btree_get t k of Some v \<Rightarrow> if P k v then Some v else None | None \<Rightarrow> None)"
proof -
  have ok: "btree_ok (filter (\<lambda>(k, v). P k v) t)" by (rule btree_ok_filter [OF assms])
  show ?thesis
  proof (cases "btree_get (filter (\<lambda>(k, v). P k v) t) k")
    case (Some v)
    then have "btree_get t k = Some v" "P k v" by (auto simp: btree_get_in_set ok assms)
    with Some show ?thesis by simp
  next
    case None
    then have "(k, v) \<notin> set (filter (\<lambda>(k, v). P k v) t)" for v
      by (metis btree_get_in_set ok option.distinct(1))
    with None show ?thesis by (auto simp: btree_get_in_set [OF assms] split: option.split)
  qed
qed

lemma flat_inv_filter:
  assumes "flat_inv f"
  shows "flat_inv (f\<lparr>f_kv := filter (\<lambda>(k, v). P k v) (f_kv f)\<rparr>)"
proof -
  note ok = flat_invD(1) [OF assms]
  have sub: "btree_get (filter (\<lambda>(k, v). P k v) (f_kv f)) k = Some v \<Longrightarrow> btree_get (f_kv f) k = Some v" for k v
    by (auto simp: btree_get_filter [OF ok] split: option.splits if_splits)
  show ?thesis
    using assms unfolding flat_inv_iff by (auto dest!: sub simp: btree_ok_filter)
qed

text \<open>Raising the cursor after the expired entries have been removed.\<close>

lemma flat_clean_inv:
  assumes "flat_inv f" and "t < 2 ^ 64"
  shows "flat_inv (snd (flat_clean t f))"
proof (cases "t = 0")
  case False
  let ?g = "f\<lparr>f_kv := filter (\<lambda>(k, v). \<not> expired_before t v) (f_kv f)\<rparr>"
  have g: "flat_inv ?g" using flat_inv_filter [OF assms(1), of "\<lambda>k v. \<not> expired_before t v"] .
  have "t \<le> e" if "btree_get (f_kv ?g) k = Some v" "sv_expires v = Some e" for k v e
    using that by (auto simp: btree_get_filter [OF flat_invD(1) [OF assms(1)]] expired_before_def
        split: option.splits if_splits)
  with g assms(2) have "flat_inv (?g\<lparr>f_cursor := max (f_cursor f) t\<rparr>)"
    by (simp add: flat_inv_iff)
  with False show ?thesis by (simp add: flat_clean_def)
qed (simp add: flat_clean_def assms)

section \<open>The expired entries in order\<close>

lemma set_flat_expired:
  assumes "btree_ok (f_kv f)"
  shows "(ek, k) \<in> set (flat_expired f t) \<longleftrightarrow>
    (\<exists>v. btree_get (f_kv f) k = Some v \<and> sv_expires v = Some (time_ms ek) \<and> sv_seq v = ek_seq ek \<and> time_ms ek < t)"
  by (cases ek) (force simp: flat_expired_def expired_before_def btree_get_in_set [OF assms] split: option.splits)

lemma flat_expired_keys:
  "mset (map snd (flat_expired f t)) = mset (map fst (filter (\<lambda>(k, v). expired_before t v) (f_kv f)))"
proof -
  have "mset (map snd (flat_expired f t)) =
      image_mset snd (mset (map (\<lambda>(k, v). (ExpireKey (the (sv_expires v)) (sv_seq v), k))
        (filter (\<lambda>(k, v). expired_before t v) (f_kv f))))"
    unfolding flat_expired_def mset_map [of snd] mset_sort ..
  then show ?thesis
    unfolding mset_map by (simp add: image_mset.compositionality comp_def case_prod_beta)
qed

lemma flat_expired_distinct_keys:
  assumes "btree_ok (f_kv f)"
  shows "distinct (map snd (flat_expired f t))"
proof -
  have "distinct (map fst (filter (\<lambda>(k, v). expired_before t v) (f_kv f)))"
    using btree_ok_distinct [OF btree_ok_filter [OF assms]] .
  then show ?thesis
    using flat_expired_keys [of f t] mset_eq_imp_distinct_iff by blast
qed

lemma flat_expired_sorted:
  assumes "flat_inv f"
  shows "sorted_wrt (<) (map fst (flat_expired f t))"
proof -
  note i = flat_invD [OF assms]
  have "distinct (map fst (flat_expired f t))"
  proof (rule distinct_map [THEN iffD2], intro conjI inj_onI)
    show "distinct (flat_expired f t)"
      using flat_expired_distinct_keys [OF i(1)] by (simp add: distinct_map)
    fix x y assume xy: "x \<in> set (flat_expired f t)" "y \<in> set (flat_expired f t)" "fst x = fst y"
    obtain ek k k' where k: "x = (ek, k)" "y = (ek, k')" using xy(3) by (cases x; cases y) simp
    with xy(1,2) have "k = k'"
      using i(5) [of k _ k'] by (auto simp: set_flat_expired [OF i(1)])
    with k show "x = y" by simp
  qed
  moreover have "sorted (map fst (flat_expired f t))"
    by (simp add: flat_expired_def)
  ultimately show ?thesis by (simp add: strict_sorted_iff)
qed

section \<open>Replaying events\<close>

text \<open>What a subscriber knows after a sequence of events.\<close>

definition replay :: "event list \<Rightarrow> (rstr \<Rightarrow> bytes seqv option) \<Rightarrow> rstr \<Rightarrow> bytes seqv option" where
  "replay evs m = foldl (\<lambda>m (k, p, r). m(k := r)) m evs"

lemma replay_append: "replay (evs @ evs') m = replay evs' (replay evs m)"
  by (simp add: replay_def)

lemma replay_upsert:
  assumes "flat_upsert f ctx up = ((p, r), g)"
  shows "replay (change_events (uk_key up) p r) (btree_get (f_kv f)) = btree_get (f_kv g)"
  using flat_upsert_frame(1,2) [OF assms] by (auto simp: replay_def change_events_def fun_eq_iff)

lemma replay_removals:
  "\<forall>(k, p, r) \<in> set evs. r = None \<Longrightarrow> replay evs m k = (if k \<in> fst ` set evs then None else m k)"
  by (induction evs arbitrary: m) (auto simp: replay_def)

lemma replay_filter:
  assumes ok: "btree_ok (f_kv f)" and none: "\<forall>(k, p, r) \<in> set evs. r = None"
    and keys: "\<And>k. k \<in> fst ` set evs \<longleftrightarrow> (\<exists>v. btree_get (f_kv f) k = Some v \<and> \<not> P k v)"
  shows "replay evs (btree_get (f_kv f)) = btree_get (filter (\<lambda>(k, v). P k v) (f_kv f))"
proof
  fix k
  show "replay evs (btree_get (f_kv f)) k = btree_get (filter (\<lambda>(k, v). P k v) (f_kv f)) k"
    unfolding replay_removals [OF none] btree_get_filter [OF ok] keys by (auto split: option.split)
qed

lemma replay_clean:
  assumes ok: "btree_ok (f_kv f)" and clean: "flat_clean t f = (evs, g)"
  shows "replay evs (btree_get (f_kv f)) = btree_get (f_kv g)"
proof (cases "t = 0")
  case False
  have "fst ` set evs = snd ` set (flat_expired f t)" using clean False by (force simp: flat_clean_def)
  moreover have "k \<in> snd ` set (flat_expired f t) \<longleftrightarrow> (\<exists>v. btree_get (f_kv f) k = Some v \<and> expired_before t v)" for k
  proof -
    have "k \<in> snd ` set (flat_expired f t) \<longleftrightarrow> (\<exists>ek. (ek, k) \<in> set (flat_expired f t))" by force
    also have "\<dots> \<longleftrightarrow> (\<exists>v. btree_get (f_kv f) k = Some v \<and> expired_before t v)"
      by (auto simp: set_flat_expired [OF ok] expired_before_def split: option.splits) (metis expire_key.sel)
    finally show ?thesis .
  qed
  ultimately have "replay evs (btree_get (f_kv f)) = btree_get (filter (\<lambda>(k, v). \<not> expired_before t v) (f_kv f))"
    using clean False by (intro replay_filter [OF ok]) (auto simp: flat_clean_def)
  with clean False show ?thesis by (auto simp: flat_clean_def)
qed (use clean in \<open>auto simp: flat_clean_def replay_def\<close>)

lemma replay_op:
  assumes ok: "btree_ok (f_kv f)" and op: "flat_op ctx opn f = (rs, evs, g)"
  shows "replay evs (btree_get (f_kv f)) = btree_get (f_kv g) \<and> btree_ok (f_kv g)"
proof (cases opn)
  case (Some req)
  have ups: "replay (change_events k p r) (btree_get (f_kv f)) = btree_get (f_kv g') \<and> btree_ok (f_kv g')"
    if "flat_upsert f ctx up = ((p, r), g')" "uk_key up = k" for up k p r g'
    using that replay_upsert flat_upsert_frame(6) ok by blast
  show ?thesis
  proof (cases req)
    case (ReqPut put)
    with op Some ups show ?thesis
      by (auto simp: flat_op_def with_meta_spec_def UpsertKV_update_def split: prod.splits)
  next
    case (ReqDelete del)
    have "uk_key (case dr_match_seq del of Some s \<Rightarrow> with_match_seq (UpsertKV_delete (dr_key del)) (Exact s)
        | None \<Rightarrow> UpsertKV_delete (dr_key del)) = dr_key del"
      by (auto simp: with_match_seq_def UpsertKV_delete_def split: option.split)
    with op Some ReqDelete ups show ?thesis by (auto simp: flat_op_def split: prod.splits)
  next
    case (ReqDeleteByPrefix p)
    with op Some have evs: "evs = concat (map (\<lambda>(k, v). [(k, Some v, None), (k, Some v, None)]) (flat_list f p))"
      and g: "f_kv g = filter (\<lambda>(k, v). \<not> prefix p k) (f_kv f)"
      by (auto simp: flat_op_def)
    have "k \<in> fst ` set evs \<longleftrightarrow> (\<exists>v. btree_get (f_kv f) k = Some v \<and> \<not> \<not> prefix p k)" for k
      by (force simp: evs flat_list_def btree_get_in_set [OF ok])
    then have "replay evs (btree_get (f_kv f)) = btree_get (f_kv g)"
      unfolding g by (intro replay_filter [OF ok]) (auto simp: evs)
    with g btree_ok_filter [OF ok] show ?thesis by simp
  qed (use op ok Some in \<open>auto simp: flat_op_def replay_def\<close>)
qed (use op ok in \<open>auto simp: flat_op_def replay_def\<close>)

lemma replay_ops:
  "btree_ok (f_kv f) \<Longrightarrow> flat_ops ctx ops f = (rs, evs, g) \<Longrightarrow>
   replay evs (btree_get (f_kv f)) = btree_get (f_kv g) \<and> btree_ok (f_kv g)"
proof (induction ops arbitrary: f rs evs)
  case (Cons opn ops)
  obtain rs1 evs1 h where op: "flat_op ctx opn f = (rs1, evs1, h)" by (metis prod.exhaust)
  obtain rs2 evs2 where ops: "flat_ops ctx ops h = (rs2, evs2, g)" "evs = evs1 @ evs2"
    using Cons.prems(2) op by (auto split: prod.splits)
  from replay_op [OF Cons.prems(1) op] Cons.IH [OF _ ops(1)] ops(2) show ?case by (simp add: replay_append)
qed (simp add: replay_def)

lemma replay_cmd:
  assumes ok: "btree_ok (f_kv f)" and cmd: "flat_cmd ctx c f = (st, evs, g)"
  shows "replay evs (btree_get (f_kv f)) = btree_get (f_kv g) \<and> btree_ok (f_kv g)"
proof (cases c)
  case (CmdUpsertKV up)
  with cmd ok show ?thesis
    by (auto simp: flat_cmd_def replay_upsert dest: flat_upsert_frame(6) split: prod.splits)
next
  case (Transaction txn)
  with cmd replay_ops [OF ok] show ?thesis by (auto simp: flat_cmd_def flat_txn_def split: prod.splits)
qed (use assms in \<open>auto simp: flat_cmd_def Let_def replay_def split: if_splits\<close>)

lemma replay_apply:
  assumes ok: "btree_ok (f_kv f)" and app: "flat_apply entry f = (st, evs, g)"
  shows "replay evs (btree_get (f_kv f)) = btree_get (f_kv g) \<and> btree_ok (f_kv g)"
proof -
  let ?F = "\<lambda>h. h\<lparr>f_sys := (f_sys h)\<lparr>last_applied := Some (en_log_id entry)\<rparr>\<rparr>"
  obtain evs1 h evs2 where clean: "flat_clean (get_log_time entry) f = (evs1, h)" "evs = evs1 @ evs2"
    and pay: "flat_payload entry (?F h) = (st, evs2, g)"
    using app by (auto simp: flat_apply_def split: prod.splits)
  have "btree_ok (f_kv (?F h))"
    using clean(1) ok by (auto simp: flat_clean_def btree_ok_filter split: if_splits)
  then have "replay evs2 (btree_get (f_kv (?F h))) = btree_get (f_kv g) \<and> btree_ok (f_kv g)"
    using pay replay_cmd [of "?F h"] by (cases "en_payload entry") (auto simp: flat_payload_def replay_def)
  with replay_clean [OF ok clean(1)] clean(2) show ?thesis by (simp add: replay_append)
qed

lemma replay_run:
  "btree_ok (f_kv f) \<Longrightarrow> flat_run entries f = (sts, evs, g) \<Longrightarrow> replay evs (btree_get (f_kv f)) = btree_get (f_kv g)"
proof (induction entries arbitrary: f sts evs)
  case (Cons entry entries)
  obtain st evs1 h where app: "flat_apply entry f = (st, evs1, h)" by (metis prod.exhaust)
  obtain sts2 evs2 where run: "flat_run entries h = (sts2, evs2, g)" "evs = evs1 @ evs2"
    using Cons.prems(2) app by (auto split: prod.splits)
  from replay_apply [OF Cons.prems(1) app] Cons.IH [OF _ run(1)] run(2) show ?case by (simp add: replay_append)
qed (simp add: replay_def)

end
