(* ===== verification/Refinement.thy ===== *)
theory Refinement
  imports FlatProps
begin

text \<open>
  The state machine implements the reference machine. \<open>sm_sim\<close> relates a state machine over any map
  to a state of the reference machine: same live entries, same system data, same cursor, and an
  expiration index that holds exactly one entry for every live entry with an expiration time. The
  lemmas are proved once, for any map that satisfies the contract \<open>sm_map\<close>.
\<close>

definition flat_index :: "('lid, 'mem) flat \<Rightarrow> expire_key \<Rightarrow> rstr \<Rightarrow> bool" where
  "flat_index f ek k \<longleftrightarrow>
     (\<exists>v. btree_get (f_kv f) k = Some v \<and> sv_seq v = ek_seq ek \<and> sv_expires v = Some (time_ms ek))"

text \<open>The expiration record of an entry.\<close>

definition ek_of :: "bytes seqv option \<Rightarrow> expire_key option" where
  "ek_of w = (case w of None \<Rightarrow> None | Some v \<Rightarrow> map_option (\<lambda>e. ExpireKey e (sv_seq v)) (sv_expires v))"

definition sm_sim ::
    "('m, 'lid, 'mem) map_ops \<Rightarrow> ('m \<Rightarrow> bool) \<Rightarrow> ('m \<Rightarrow> rstr \<Rightarrow> bytes marked) \<Rightarrow>
     ('m \<Rightarrow> expire_key \<Rightarrow> rstr marked) \<Rightarrow> 'm sm \<Rightarrow> ('lid, 'mem) flat \<Rightarrow> bool" where
  "sm_sim M iv kvv expv s f \<longleftrightarrow>
     iv (sm_map s) \<and> flat_inv f \<and> f_sys f = mo_sys M (sm_map s) \<and> expire_cursor s = ExpireKey (f_cursor f) 0 \<and>
     (\<forall>k. marked_to_seqv (kvv (sm_map s) k) = btree_get (f_kv f) k) \<and>
     (\<forall>ek k. marked_value (expv (sm_map s) ek) = Some k \<longleftrightarrow> flat_index f ek k) \<and>
     (\<forall>ek. \<not> is_not_found (expv (sm_map s) ek) \<longrightarrow> ek_seq ek \<le> sequence (f_sys f))"

section \<open>Entries as the reference machine sees them\<close>

lemma marked_seq_opt: "marked_seq m = opt_seq (marked_to_seqv m)"
  by (cases m) (simp_all add: opt_seq_def SeqV_with_meta_def)

lemma match_seq_spec: "match_seq c n = Inr () \<longleftrightarrow> seq_matches c n"
  by (cases c) (simp_all add: seq_matches_def)

lemma marked_expires_seqv:
  "marked_expires_at_ms_opt m = (case marked_to_seqv m of None \<Rightarrow> None | Some v \<Rightarrow> sv_expires v)"
  by (cases m) (simp_all add: marked_expires_at_ms_opt_def sv_expires_def meta_expires_at_ms_opt_def SeqV_with_meta_def)

lemma order_key_seqv: "marked_to_seqv m = Some v \<Longrightarrow> st_seq (order_key m) = sv_seq v"
  by (cases m) (auto simp: SeqTombstone_normal_def SeqV_with_meta_def)

lemma meta_expires_u64: "meta_expires_at_ms_opt meta = Some e \<Longrightarrow> e < 2 ^ 64"
  by (auto simp: meta_expires_at_ms_opt_def get_expire_at_ms_def u64_mul_def split: option.splits)

lemma sv_expires_u64: "sv_expires v = Some e \<Longrightarrow> e < 2 ^ 64"
  by (auto simp: sv_expires_def dest: meta_expires_u64)

lemma marked_eq_seqv: "marked_to_seqv a = Some v \<Longrightarrow> marked_to_seqv b = Some v \<Longrightarrow> a = b"
  by (cases a; cases b) (auto simp: SeqV_with_meta_def)

lemma sm_map_updates: "sm_map (s\<lparr>sm_map := m\<rparr>) = m" "s\<lparr>sm_map := m, sm_map := m'\<rparr> = s\<lparr>sm_map := m'\<rparr>"
  by simp_all

section \<open>Reading\<close>

context sm_map
begin

abbreviation sim :: "'m sm \<Rightarrow> ('lid, 'mem) flat \<Rightarrow> bool" where
  "sim \<equiv> sm_sim M inv kvv expv"

lemma simD:
  assumes "sim s f"
  shows "inv (sm_map s)" and "flat_inv f" and "mo_sys M (sm_map s) = f_sys f"
    and "expire_cursor s = ExpireKey (f_cursor f) 0"
    and "marked_to_seqv (kvv (sm_map s) k) = btree_get (f_kv f) k"
    and "marked_value (expv (sm_map s) ek) = Some k \<longleftrightarrow> flat_index f ek k"
    and "\<not> is_not_found (expv (sm_map s) ek) \<Longrightarrow> ek_seq ek \<le> sequence (f_sys f)"
  using assms by (auto simp: sm_sim_def)

lemma get_sim:
  assumes "sim s f"
  shows "get_maybe_expired_kv M s k = Inr (btree_get (f_kv f) k)"
  using simD(1,5) [OF assms] by (simp add: get_maybe_expired_kv_def kv_get)

lemma range_sim:
  assumes "sim s f" and "range_ok r"
  shows "\<exists>xs. ma_range (mo_kv M) (sm_map s) r = Inr (map Inr xs) \<and> range_spec (kvv (sm_map s)) r xs \<and>
    List.map_filter marked_to_kv xs = filter (\<lambda>(k, v). in_bounds r k) (f_kv f)"
proof -
  obtain xs where xs: "ma_range (mo_kv M) (sm_map s) r = Inr (map Inr xs)" "range_spec (kvv (sm_map s)) r xs"
    "live_spec (kvv (sm_map s)) (in_bounds r) (List.map_filter marked_to_kv xs)"
    using kvr.rng_live [OF simD(1) [OF assms(1)] assms(2)] by blast
  have ok: "btree_ok (f_kv f)" using flat_invD(1) [OF simD(2) [OF assms(1)]] .
  have "List.map_filter marked_to_kv xs = filter (\<lambda>(k, v). in_bounds r k) (f_kv f)"
  proof (rule sorted_alist_unique)
    show "sorted_wrt (<) (map fst (filter (\<lambda>(k, v). in_bounds r k) (f_kv f)))"
      using btree_ok_filter [OF ok] by (simp add: btree_ok_def)
  qed (use xs(3) simD(5) [OF assms(1)] in \<open>auto simp: live_spec_def btree_get_in_set [OF ok]\<close>)
  with xs(1,2) show ?thesis by blast
qed

lemma range_kv_sim:
  assumes "sim s f" and "range_ok r"
  shows "range_kv M s r = Inr (map Inr (filter (\<lambda>(k, v). in_bounds r k) (f_kv f)))"
  using range_sim [OF assms] by (auto simp: range_kv_def res_simps)

lemma map_filter_prefix:
  "List.map_filter marked_to_kv (filter (\<lambda>(k, m). P k) xs) = filter (\<lambda>(k, v). P k) (List.map_filter marked_to_kv xs)"
proof (induction xs)
  case (Cons x xs)
  then show ?case by (cases x; cases "snd x") (auto simp: List.map_filter_simps)
qed (simp add: List.map_filter_simps)

lemma list_kv_sim:
  assumes "sim s f"
  shows "list_kv M s p = Inr (map Inr (flat_list f p))"
proof -
  define r where "r = (case prefix_right_bound p of Some right \<Rightarrow> (Included p, Excluded right) | None \<Rightarrow> (Included p, Unbounded))"
  have rok: "range_ok r"
    by (auto simp: r_def dest: prefix_right_bound_less split: option.split)
  obtain xs where xs: "ma_range (mo_kv M) (sm_map s) r = Inr (map Inr xs)" "range_spec (kvv (sm_map s)) r xs"
    "List.map_filter marked_to_kv xs = filter (\<lambda>(k, v). in_bounds r k) (f_kv f)"
    using range_sim [OF assms rok] by blast
  have "p \<le> k" if "in_bounds r k" for k
    using that by (auto simp: r_def in_bounds_def split: option.splits)
  then have tw: "takeWhile (\<lambda>(k, m). prefix p k) xs = filter (\<lambda>(k, m). prefix p k) xs"
    by (intro takeWhile_prefix) (use xs(2) in \<open>auto simp: range_spec_def\<close>)
  have "in_bounds r k" if "prefix p k" "valid_str k" for k
    using that prefix_range_exact [of p _ k] append_le_append [of p "[]"]
    by (auto simp: r_def in_bounds_def prefix_def split: option.split)
  moreover have "valid_str k" if "(k, v) \<in> set (f_kv f)" for k v
    using flat_invD(1,3) [OF simD(2) [OF assms]] that by (auto simp: btree_get_in_set)
  ultimately have "filter (\<lambda>(k, v). prefix p k) (filter (\<lambda>(k, v). in_bounds r k) (f_kv f)) = flat_list f p"
    by (auto simp: flat_list_def intro!: filter_cong)
  then have "List.map_filter marked_to_kv (takeWhile (\<lambda>(k, m). prefix p k) xs) = flat_list f p"
    unfolding tw map_filter_prefix xs(3) .
  moreover have "list_kv M s p = rbind (ma_range (mo_kv M) (sm_map s) r) (\<lambda>strm.
      Inr (try_filter_map marked_to_kv (try_take_while (\<lambda>(k, _). starts_with k p) strm)))"
    by (simp add: list_kv_def r_def split: option.split)
  ultimately show ?thesis
    using xs(1) by (simp add: res_simps starts_with_prefix)
qed

end

section \<open>Writing\<close>

context sm_map
begin

text \<open>A write of the primary index that may be undone at once because the entry has expired.\<close>

lemma put_sim:
  assumes inv: "inv m" and room: "sequence (mo_sys M m) + 1 < 2 ^ 64" and c: "f_cursor f = c"
    and sys: "mo_sys M m = f_sys f" and put: "flat_put f key v meta = (r, g)"
  shows "\<exists>x m'. rbind (ma_set (mo_kv M) m key (Some (v, meta))) (\<lambda>((prev, result), m).
        if opt_expires_at_ms meta < c
        then rbind (ma_set (mo_kv M) m key None) (\<lambda>((_, r), m). Inr ((prev, r), s\<lparr>sm_map := m\<rparr>))
        else Inr ((prev, result), s\<lparr>sm_map := m\<rparr>)) = Inr ((kvv m key, x), s\<lparr>sm_map := m'\<rparr>) \<and>
      inv m' \<and> kvv m' = (kvv m)(key := x) \<and> expv m' = expv m \<and> mo_sys M m' = f_sys g \<and> marked_to_seqv x = r"
proof -
  let ?n = "sequence (mo_sys M m) + 1"
  obtain m1 where m1: "ma_set (mo_kv M) m key (Some (v, meta)) = Inr ((kvv m key, Normal ?n v meta), m1)"
    "inv m1" "kvv m1 = (kvv m)(key := Normal ?n v meta)" "expv m1 = expv m"
    "mo_sys M m1 = (mo_sys M m)\<lparr>sequence := ?n\<rparr>"
    using kv_set [OF inv room, of key v meta] by blast
  show ?thesis
  proof (cases "opt_expires_at_ms meta < c")
    case True
    obtain m2 t where m2: "ma_set (mo_kv M) m1 key None = Inr ((kvv m1 key, TombStone t), m2)"
      "inv m2" "kvv m2 = (kvv m1)(key := TombStone t)" "expv m2 = expv m1" "mo_sys M m2 = mo_sys M m1"
      using kv_del [OF m1(2), of key] by blast
    show ?thesis
      using True m1 m2 put c sys
      by (intro exI [of _ "TombStone t"] exI [of _ m2]) (auto simp: flat_put_def Let_def)
  next
    case False
    then show ?thesis
      using m1 put c sys
      by (intro exI [of _ "Normal ?n v meta"] exI [of _ m1]) (auto simp: flat_put_def Let_def)
  qed
qed

lemma del_sim:
  assumes inv: "inv m"
  shows "\<exists>x m'. rbind (ma_set (mo_kv M) m key None) (\<lambda>((prev, result), m).
        if b then rbind (ma_set (mo_kv M) m key None) (\<lambda>((_, r), m). Inr ((prev, r), s\<lparr>sm_map := m\<rparr>))
        else Inr ((prev, result), s\<lparr>sm_map := m\<rparr>)) = Inr ((kvv m key, x), s\<lparr>sm_map := m'\<rparr>) \<and>
      inv m' \<and> kvv m' = (kvv m)(key := x) \<and> expv m' = expv m \<and> mo_sys M m' = mo_sys M m \<and> marked_to_seqv x = None"
proof -
  obtain m1 t1 where m1: "ma_set (mo_kv M) m key None = Inr ((kvv m key, TombStone t1), m1)"
    "inv m1" "kvv m1 = (kvv m)(key := TombStone t1)" "expv m1 = expv m" "mo_sys M m1 = mo_sys M m"
    using kv_del [OF inv, of key] by blast
  obtain m2 t2 where m2: "ma_set (mo_kv M) m1 key None = Inr ((kvv m1 key, TombStone t2), m2)"
    "inv m2" "kvv m2 = (kvv m1)(key := TombStone t2)" "expv m2 = expv m1" "mo_sys M m2 = mo_sys M m1"
    using kv_del [OF m1(2), of key] by blast
  show ?thesis
  proof (cases b)
    case True
    with m1 m2 show ?thesis by (intro exI [of _ "TombStone t2"] exI [of _ m2]) auto
  next
    case False
    with m1 show ?thesis by (intro exI [of _ "TombStone t1"] exI [of _ m1]) auto
  qed
qed

text \<open>What follows a successful comparison of sequence numbers.\<close>

lemma upsert_primary_step:
  assumes "sim s f" and "seq_matches (uk_seq up) (opt_seq (btree_get (f_kv f) (uk_key up)))"
    and "meta = map_option (\<lambda>m. to_kv_meta m ctx) (uk_value_meta up)"
  shows "upsert_kv_primary_index M s up ctx =
    rbind (case uk_value up of
             Update v \<Rightarrow> ma_set (mo_kv M) (sm_map s) (uk_key up) (Some (v, meta))
           | Delete \<Rightarrow> ma_set (mo_kv M) (sm_map s) (uk_key up) None
           | AsIs \<Rightarrow> update_meta (mo_kv M) (sm_map s) (uk_key up) meta) (\<lambda>((prev, result), m).
      if opt_expires_at_ms meta < f_cursor f
      then rbind (ma_set (mo_kv M) m (uk_key up) None) (\<lambda>((_, r), m). Inr ((prev, r), s\<lparr>sm_map := m\<rparr>))
      else Inr ((prev, result), s\<lparr>sm_map := m\<rparr>))"
proof -
  note d = simD [OF assms(1)]
  have "match_seq (uk_seq up) (marked_seq (kvv (sm_map s) (uk_key up))) = Inr ()"
    using assms(2) by (simp add: match_seq_spec marked_seq_opt d(5))
  then show ?thesis
    unfolding assms(3) by (simp add: upsert_kv_primary_index_def kv_get d(1,4) Let_def)
qed

lemma as_is_sim:
  assumes inv: "inv m" and room: "sequence (mo_sys M m) + 1 < 2 ^ 64" and sys: "mo_sys M m = f_sys f"
    and prev: "marked_to_seqv (kvv m key) = btree_get (f_kv f) key"
    and r: "(case btree_get (f_kv f) key of None \<Rightarrow> (None, f) | Some sv \<Rightarrow> flat_put f key (sv_data sv) meta) = (r, g)"
  shows "\<exists>x m'. rbind (update_meta (mo_kv M) m key meta) (\<lambda>((prev, result), m).
        if opt_expires_at_ms meta < f_cursor f
        then rbind (ma_set (mo_kv M) m key None) (\<lambda>((_, r), m). Inr ((prev, r), s\<lparr>sm_map := m\<rparr>))
        else Inr ((prev, result), s\<lparr>sm_map := m\<rparr>)) = Inr ((kvv m key, x), s\<lparr>sm_map := m'\<rparr>) \<and>
      inv m' \<and> kvv m' = (kvv m)(key := x) \<and> expv m' = expv m \<and> mo_sys M m' = f_sys g \<and> marked_to_seqv x = r"
proof (cases "kvv m key")
  case (TombStone t)
  with prev r have fg: "r = None" "g = f" by auto
  have upd: "update_meta (mo_kv M) m key meta = Inr ((TombStone t, TombStone t), m)"
    by (simp add: update_meta_def kv_get inv TombStone)
  obtain m1 t1 where m1: "ma_set (mo_kv M) m key None = Inr ((kvv m key, TombStone t1), m1)"
    "inv m1" "kvv m1 = (kvv m)(key := TombStone t1)" "expv m1 = expv m" "mo_sys M m1 = mo_sys M m"
    using kv_del [OF inv, of key] by blast
  show ?thesis
  proof (cases "opt_expires_at_ms meta < f_cursor f")
    case True
    with upd m1 fg TombStone sys show ?thesis by (intro exI [of _ "TombStone t1"] exI [of _ m1]) simp
  next
    case False
    with upd fg TombStone sys inv show ?thesis by (intro exI [of _ "TombStone t"] exI [of _ m]) auto
  qed
next
  case (Normal n v meta0)
  with prev have "btree_get (f_kv f) key = Some \<lparr>sv_seq = n, sv_meta = meta0, sv_data = v\<rparr>"
    by (simp add: SeqV_with_meta_def)
  with r have put: "flat_put f key v meta = (r, g)" by simp
  have "update_meta (mo_kv M) m key meta = ma_set (mo_kv M) m key (Some (v, meta))"
    by (simp add: update_meta_def kv_get inv Normal)
  with put_sim [OF inv room refl sys put, of s] show ?thesis by simp
qed

lemma upsert_primary_sim:
  assumes sim: "sim s f" and room: "sequence (f_sys f) + upsert_seqs up < 2 ^ 64"
    and up: "flat_upsert f ctx up = ((p, r), g)"
  shows "\<exists>x m'. upsert_kv_primary_index M s up ctx = Inr ((kvv (sm_map s) (uk_key up), x), s\<lparr>sm_map := m'\<rparr>) \<and>
    inv m' \<and> kvv m' = (kvv (sm_map s))(uk_key up := x) \<and> expv m' = expv (sm_map s) \<and>
    mo_sys M m' = f_sys g \<and> marked_to_seqv x = r"
proof -
  let ?m = "sm_map s" and ?key = "uk_key up"
  let ?meta = "map_option (\<lambda>m. to_kv_meta m ctx) (uk_value_meta up)"
  note d = simD [OF sim]
  show ?thesis
  proof (cases "seq_matches (uk_seq up) (opt_seq (btree_get (f_kv f) ?key))")
    case False
    then have "match_seq (uk_seq up) (marked_seq (kvv ?m ?key)) \<noteq> Inr ()"
      by (simp add: match_seq_spec marked_seq_opt d(5))
    then obtain e where "match_seq (uk_seq up) (marked_seq (kvv ?m ?key)) = Inl e"
      by (cases "match_seq (uk_seq up) (marked_seq (kvv ?m ?key))") auto
    with False up d(1,3,5) show ?thesis
      by (intro exI [of _ "kvv ?m ?key"] exI [of _ ?m])
         (auto simp: upsert_kv_primary_index_def kv_get flat_upsert_def Let_def)
  next
    case True
    note step = upsert_primary_step [OF sim True refl]
    show ?thesis
    proof (cases "uk_value up")
      case (Update v)
      with up True have "flat_put f ?key v ?meta = (r, g)"
        by (auto simp: flat_upsert_def Let_def split: prod.splits)
      from put_sim [OF d(1) _ refl d(3) this, of s] room Update show ?thesis
        unfolding step by (simp add: upsert_seqs_def d(3))
    next
      case Delete
      with up True have "r = None" "f_sys g = f_sys f" by (auto simp: flat_upsert_def Let_def)
      with del_sim [OF d(1), of ?key "opt_expires_at_ms ?meta < f_cursor f" s] Delete show ?thesis
        unfolding step by (simp add: d(3))
    next
      case AsIs
      with up True have "(case btree_get (f_kv f) ?key of None \<Rightarrow> (None, f)
          | Some sv \<Rightarrow> flat_put f ?key (sv_data sv) ?meta) = (r, g)"
        by (auto simp: flat_upsert_def Let_def split: prod.splits option.splits)
      from as_is_sim [OF d(1) _ d(3) d(5) this, of s] room AsIs show ?thesis
        unfolding step by (simp add: upsert_seqs_def d(3))
    qed
  qed
qed

end

section \<open>The expiration index\<close>

lemma flat_index_ek: "flat_index f ek k \<longleftrightarrow> ek_of (btree_get (f_kv f) k) = Some ek"
  by (cases ek) (auto simp: flat_index_def ek_of_def split: option.splits)

lemma ek_of_Some: "ek_of w = Some ek \<longleftrightarrow> (\<exists>v. w = Some v \<and> sv_expires v = Some (time_ms ek) \<and> sv_seq v = ek_seq ek)"
  by (cases ek) (auto simp: ek_of_def split: option.splits)

lemma case_marked_ek:
  "(case marked_expires_at_ms_opt x of Some e \<Rightarrow> h (ExpireKey e (st_seq (order_key x))) | None \<Rightarrow> d) =
   (case ek_of (marked_to_seqv x) of Some ek \<Rightarrow> h ek | None \<Rightarrow> d)"
proof (cases "marked_to_seqv x")
  case None
  then show ?thesis unfolding marked_expires_seqv ek_of_def None by simp
next
  case (Some v)
  with order_key_seqv [OF Some] show ?thesis
    by (cases "sv_expires v") (simp_all add: marked_expires_seqv ek_of_def)
qed

text \<open>The records of the entry before and after an upsert.\<close>

lemma ek_prev:
  assumes "flat_inv f" and "flat_upsert f ctx up = ((p, r), g)" and "ek_of p = Some ek"
  shows "time_ms ek < 2 ^ 64" and "ek_seq ek \<le> sequence (f_sys f)"
proof -
  from assms(3) obtain v where "p = Some v" "sv_expires v = Some (time_ms ek)" "sv_seq v = ek_seq ek"
    by (auto simp: ek_of_Some)
  with flat_invD(3) [OF assms(1), of "uk_key up" v] flat_upsert_frame(1) [OF assms(2)] sv_expires_u64 [of v "time_ms ek"]
  show "time_ms ek < 2 ^ 64" "ek_seq ek \<le> sequence (f_sys f)" by simp_all
qed

lemma ek_result:
  assumes "flat_upsert f ctx up = ((p, r), g)" and "r \<noteq> p \<or> r = None" and "ek_of r = Some ek"
  shows "time_ms ek < 2 ^ 64" and "ek_seq ek = sequence (f_sys f) + 1" and "sequence (f_sys g) = sequence (f_sys f) + 1"
proof -
  from assms(3) obtain v where v: "r = Some v" "sv_expires v = Some (time_ms ek)" "sv_seq v = ek_seq ek"
    by (auto simp: ek_of_Some)
  with assms(1,2) have "flat_upsert f ctx up = ((p, Some v), g)" "Some v \<noteq> p" by simp_all
  from flat_upsert_new(1,2) [OF this] v sv_expires_u64 [OF v(2)]
  show "time_ms ek < 2 ^ 64" "ek_seq ek = sequence (f_sys f) + 1" "sequence (f_sys g) = sequence (f_sys f) + 1"
    by simp_all
qed

context sm_map
begin

lemma exp_remove:
  assumes "inv m" and "\<And>ek. w = Some ek \<Longrightarrow> expire_key_u64 ek"
  shows "\<exists>m'. (case w of None \<Rightarrow> Inr m | Some ek \<Rightarrow> rbind (ma_set (mo_exp M) m ek None) (\<lambda>(_, m). Inr m)) = Inr m' \<and>
    inv m' \<and> kvv m' = kvv m \<and> mo_sys M m' = mo_sys M m \<and>
    (\<forall>ek. marked_value (expv m' ek) = (if w = Some ek then None else marked_value (expv m ek))) \<and>
    (\<forall>ek. \<not> is_not_found (expv m' ek) \<longrightarrow> w = Some ek \<or> \<not> is_not_found (expv m ek))"
proof (cases w)
  case (Some ek)
  obtain m' t where "ma_set (mo_exp M) m ek None = Inr ((expv m ek, TombStone t), m')" "inv m'"
    "expv m' = (expv m)(ek := TombStone t)" "kvv m' = kvv m" "mo_sys M m' = mo_sys M m"
    using exp_del [OF assms(1) assms(2) [OF Some]] by blast
  with Some show ?thesis by (intro exI [of _ m']) auto
qed (use assms(1) in auto)

lemma exp_add:
  assumes "inv m" and "valid_str key" and "\<And>ek. w = Some ek \<Longrightarrow> expire_key_u64 ek \<and> is_not_found (expv m ek)"
    and "w \<noteq> None \<Longrightarrow> sequence (mo_sys M m) \<noteq> 0"
  shows "\<exists>m'. (case w of None \<Rightarrow> Inr m
      | Some ek \<Rightarrow> rbind (ma_set (mo_exp M) m ek (Some (key, None))) (\<lambda>(_, m). Inr m)) = Inr m' \<and>
    inv m' \<and> kvv m' = kvv m \<and> mo_sys M m' = mo_sys M m \<and>
    (\<forall>ek. marked_value (expv m' ek) = (if w = Some ek then Some key else marked_value (expv m ek))) \<and>
    (\<forall>ek. \<not> is_not_found (expv m' ek) \<longrightarrow> w = Some ek \<or> \<not> is_not_found (expv m ek))"
proof (cases w)
  case (Some ek)
  with assms(3,4) have "expire_key_u64 ek" "is_not_found (expv m ek)" "sequence (mo_sys M m) \<noteq> 0" by simp_all
  from exp_set [OF assms(1) this(3,2,1) assms(2), of None] obtain m' where
    "ma_set (mo_exp M) m ek (Some (key, None)) = Inr ((expv m ek, Normal (sequence (mo_sys M m)) key None), m')"
    "inv m'" "expv m' = (expv m)(ek := Normal (sequence (mo_sys M m)) key None)" "kvv m' = kvv m"
    "mo_sys M m' = mo_sys M m"
    by blast
  with Some show ?thesis by (intro exI [of _ m']) auto
qed (use assms(1) in auto)

lemma update_expire_index_eq:
  "update_expire_index M s key removed added =
     (if removed = added then Inr s
      else rbind (case ek_of (marked_to_seqv removed) of None \<Rightarrow> Inr (sm_map s)
               | Some ek \<Rightarrow> rbind (ma_set (mo_exp M) (sm_map s) ek None) (\<lambda>(_, m). Inr m)) (\<lambda>m.
           rbind (case ek_of (marked_to_seqv added) of None \<Rightarrow> Inr m
               | Some ek \<Rightarrow> rbind (ma_set (mo_exp M) m ek (Some (key, None))) (\<lambda>(_, m). Inr m)) (\<lambda>m.
           Inr (s\<lparr>sm_map := m\<rparr>))))"
proof -
  let ?rem = "\<lambda>ek. rbind (ma_set (mo_exp M) (sm_map s) ek None) (\<lambda>(_, m). Inr m)"
  let ?add = "\<lambda>m ek. rbind (ma_set (mo_exp M) m ek (Some (key, None))) (\<lambda>(_, m). Inr m)"
  have 1: "(case marked_expires_at_ms_opt removed of Some e \<Rightarrow> ?rem (ExpireKey e (st_seq (order_key removed))) | None \<Rightarrow> Inr (sm_map s)) =
      (case ek_of (marked_to_seqv removed) of None \<Rightarrow> Inr (sm_map s) | Some ek \<Rightarrow> ?rem ek)"
    by (rule case_marked_ek)
  have 2: "(case marked_expires_at_ms_opt added of Some e \<Rightarrow> ?add m (ExpireKey e (st_seq (order_key added))) | None \<Rightarrow> Inr m) =
      (case ek_of (marked_to_seqv added) of None \<Rightarrow> Inr m | Some ek \<Rightarrow> ?add m ek)" for m
    by (rule case_marked_ek)
  show ?thesis unfolding update_expire_index_def 1 2 ..
qed

text \<open>The index after an entry changed: the old record is gone, the new one is there.\<close>

lemma index_step:
  assumes f: "flat_inv f" and up: "flat_upsert f ctx up = ((p, r), g)" and new: "r \<noteq> p \<or> r = None"
    and old: "\<And>ek k. marked_value (ix ek) = Some k \<longleftrightarrow> flat_index f ek k"
    and ix': "\<And>ek. marked_value (ix' ek) =
      (if ek_of r = Some ek then Some (uk_key up) else if ek_of p = Some ek then None else marked_value (ix ek))"
  shows "marked_value (ix' ek) = Some k \<longleftrightarrow> flat_index g ek k"
proof -
  note u = flat_upsert_frame [OF up] and i = flat_invD [OF f]
  have idx: "flat_index g ek k \<longleftrightarrow> (if k = uk_key up then ek_of r = Some ek else flat_index f ek k)"
    by (simp add: flat_index_ek u(2))
  have fresh: "\<not> flat_index f ek k" if "ek_of r = Some ek"
    using ek_result(2) [OF up new that] i(3) by (fastforce simp: flat_index_def)
  have here: "flat_index f ek (uk_key up) \<longleftrightarrow> ek_of p = Some ek" by (simp add: flat_index_ek u(1))
  have uniq: "k = uk_key up" if *: "ek_of p = Some ek" "flat_index f ek k"
  proof -
    obtain v w where "btree_get (f_kv f) (uk_key up) = Some v" "btree_get (f_kv f) k = Some w" "sv_seq v = sv_seq w"
      using * u(1) unfolding ek_of_Some flat_index_def by metis
    then show ?thesis by (metis i(5))
  qed
  consider "ek_of r = Some ek" | "ek_of r \<noteq> Some ek" "ek_of p = Some ek" | "ek_of r \<noteq> Some ek" "ek_of p \<noteq> Some ek"
    by blast
  then show ?thesis
  proof cases
    case 1
    with fresh show ?thesis unfolding ix' idx by auto
  next
    case 2
    with uniq show ?thesis unfolding ix' idx by auto
  next
    case 3
    with here old [of ek k] show ?thesis unfolding ix' idx by auto
  qed
qed

lemma change_index:
  assumes sim: "sim s f" and up: "flat_upsert f ctx up = ((p, r), g)" and vk: "valid_str (uk_key up)"
    and new: "r \<noteq> p \<or> r = None"
    and m1: "inv m1" "expv m1 = expv (sm_map s)" "mo_sys M m1 = f_sys g"
  shows "\<exists>m3. rbind (case ek_of p of None \<Rightarrow> Inr m1
               | Some ek \<Rightarrow> rbind (ma_set (mo_exp M) m1 ek None) (\<lambda>(_, m). Inr m)) (\<lambda>m.
           rbind (case ek_of r of None \<Rightarrow> Inr m
               | Some ek \<Rightarrow> rbind (ma_set (mo_exp M) m ek (Some (uk_key up, None))) (\<lambda>(_, m). Inr m)) (\<lambda>m.
           Inr (s'\<lparr>sm_map := m\<rparr>))) = Inr (s'\<lparr>sm_map := m3\<rparr>) \<and> inv m3 \<and> kvv m3 = kvv m1 \<and> mo_sys M m3 = f_sys g \<and>
    (\<forall>ek k. marked_value (expv m3 ek) = Some k \<longleftrightarrow> flat_index g ek k) \<and>
    (\<forall>ek. \<not> is_not_found (expv m3 ek) \<longrightarrow> ek_seq ek \<le> sequence (f_sys g))"
proof -
  note d = simD [OF sim] and u = flat_upsert_frame [OF up]
  note prev = ek_prev [OF d(2) up] and res = ek_result [OF up new]
  have sq: "sequence (f_sys g) < 2 ^ 64" using seq_bound [OF m1(1)] m1(3) by simp
  have "ek_of p = Some ek \<Longrightarrow> expire_key_u64 ek" for ek
    using prev [of ek] sq u(4) by (simp add: expire_key_u64_def)
  then obtain m2 where m2: "(case ek_of p of None \<Rightarrow> Inr m1
      | Some ek \<Rightarrow> rbind (ma_set (mo_exp M) m1 ek None) (\<lambda>(_, m). Inr m)) = Inr m2"
    "inv m2" "kvv m2 = kvv m1" "mo_sys M m2 = mo_sys M m1"
    "\<And>ek. marked_value (expv m2 ek) = (if ek_of p = Some ek then None else marked_value (expv m1 ek))"
    "\<And>ek. \<not> is_not_found (expv m2 ek) \<Longrightarrow> ek_of p = Some ek \<or> \<not> is_not_found (expv m1 ek)"
    using exp_remove [OF m1(1), of "ek_of p"] by blast
  have found: "ek_seq ek \<le> sequence (f_sys f)" if "\<not> is_not_found (expv m2 ek)" for ek
    using m2(6) [OF that] prev(2) [of ek] d(7) [of ek] m1(2) by auto
  have r1: "expire_key_u64 ek \<and> is_not_found (expv m2 ek)" if "ek_of r = Some ek" for ek
    using res [OF that] found [of ek] sq by (auto simp: expire_key_u64_def)
  have r2: "sequence (mo_sys M m2) \<noteq> 0" if "ek_of r \<noteq> None"
    using that res m2(4) m1(3) by auto
  obtain m3 where m3: "(case ek_of r of None \<Rightarrow> Inr m2
      | Some ek \<Rightarrow> rbind (ma_set (mo_exp M) m2 ek (Some (uk_key up, None))) (\<lambda>(_, m). Inr m)) = Inr m3"
    "inv m3" "kvv m3 = kvv m2" "mo_sys M m3 = mo_sys M m2"
    "\<And>ek. marked_value (expv m3 ek) = (if ek_of r = Some ek then Some (uk_key up) else marked_value (expv m2 ek))"
    "\<And>ek. \<not> is_not_found (expv m3 ek) \<Longrightarrow> ek_of r = Some ek \<or> \<not> is_not_found (expv m2 ek)"
    using exp_add [OF m2(2) vk r1 r2] by blast
  have "marked_value (expv m3 ek) = Some k \<longleftrightarrow> flat_index g ek k" for ek k
    by (rule index_step [OF d(2) up new d(6)]) (simp add: m3(5) m2(5) m1(2))
  moreover have "ek_seq ek \<le> sequence (f_sys g)" if "\<not> is_not_found (expv m3 ek)" for ek
    using m3(6) [OF that] found [of ek] res(2,3) [of ek] u(4) by auto
  ultimately show ?thesis
    using m2(1,3,4) m3(1-4) m1(3) by (intro exI [of _ m3]) simp
qed

lemma update_expire_index_sim:
  assumes sim: "sim s f" and up: "flat_upsert f ctx up = ((p, r), g)" and vk: "valid_str (uk_key up)"
    and m1: "inv m1" "kvv m1 = (kvv (sm_map s))(uk_key up := x)" "expv m1 = expv (sm_map s)" "mo_sys M m1 = f_sys g"
    and x: "marked_to_seqv x = r"
  shows "\<exists>m2. update_expire_index M (s\<lparr>sm_map := m1\<rparr>) (uk_key up) (kvv (sm_map s) (uk_key up)) x =
      Inr (s\<lparr>sm_map := m2\<rparr>) \<and> sim (s\<lparr>sm_map := m2\<rparr>) g"
proof -
  let ?key = "uk_key up" and ?pm = "kvv (sm_map s) (uk_key up)"
  note d = simD [OF sim] and u = flat_upsert_frame [OF up]
  note gi = flat_upsert_inv [OF d(2) vk up]
  have p: "marked_to_seqv ?pm = p" by (simp add: d(5) u(1))
  have kv: "marked_to_seqv (kvv m1 k) = btree_get (f_kv g) k" for k
    by (simp add: m1(2) u(2) x d(5))
  show ?thesis
  proof (cases "?pm = x")
    case True
    with p x have "r = p" by simp
    then have "flat_index g ek k \<longleftrightarrow> flat_index f ek k" for ek k by (simp add: flat_index_ek u(1,2))
    moreover have "ek_seq ek \<le> sequence (f_sys g)" if "\<not> is_not_found (expv m1 ek)" for ek
      using d(7) [of ek] that m1(3) u(4) by simp
    ultimately have "sim (s\<lparr>sm_map := m1\<rparr>) g"
      using m1(1,3,4) gi kv d(4,6) u(3) by (simp add: sm_sim_def)
    with True show ?thesis by (intro exI [of _ m1]) (simp add: update_expire_index_eq)
  next
    case False
    have "r \<noteq> p \<or> r = None"
      using False p x by (metis marked_eq_seqv not_None_eq)
    from change_index [OF sim up vk this m1(1,3,4), of s]
    obtain m3 where m3: "update_expire_index M (s\<lparr>sm_map := m1\<rparr>) ?key ?pm x = Inr (s\<lparr>sm_map := m3\<rparr>)"
      "inv m3" "kvv m3 = kvv m1" "mo_sys M m3 = f_sys g"
      "\<And>ek k. marked_value (expv m3 ek) = Some k \<longleftrightarrow> flat_index g ek k"
      "\<And>ek. \<not> is_not_found (expv m3 ek) \<Longrightarrow> ek_seq ek \<le> sequence (f_sys g)"
      unfolding update_expire_index_eq p x if_not_P [OF False] sm_map_updates by blast
    from m3(2-6) have "sim (s\<lparr>sm_map := m3\<rparr>) g"
      using gi kv d(4) u(3) by (simp add: sm_sim_def)
    with m3(1) show ?thesis by blast
  qed
qed

text \<open>The upsert of the applier is the upsert of the reference machine.\<close>

lemma upsert_sim:
  assumes sim: "sim (ap_sm a) f" and vk: "valid_str (uk_key up)"
    and room: "sequence (f_sys f) + upsert_seqs up < 2 ^ 64"
    and up: "flat_upsert f (ap_cmd_ctx a) up = ((p, r), g)"
  shows "\<exists>m. applier_upsert_kv M a up = Inr ((p, r), a\<lparr>ap_sm := (ap_sm a)\<lparr>sm_map := m\<rparr>,
      ap_changes := ap_changes a @ change_events (uk_key up) p r\<rparr>) \<and> sim ((ap_sm a)\<lparr>sm_map := m\<rparr>) g"
proof -
  let ?s = "ap_sm a"
  obtain x m1 where m1: "upsert_kv_primary_index M ?s up (ap_cmd_ctx a) =
      Inr ((kvv (sm_map ?s) (uk_key up), x), ?s\<lparr>sm_map := m1\<rparr>)"
    "inv m1" "kvv m1 = (kvv (sm_map ?s))(uk_key up := x)" "expv m1 = expv (sm_map ?s)" "mo_sys M m1 = f_sys g"
    and x: "marked_to_seqv x = r"
    using upsert_primary_sim [OF sim room up] by blast
  obtain m2 where "update_expire_index M (?s\<lparr>sm_map := m1\<rparr>) (uk_key up) (kvv (sm_map ?s) (uk_key up)) x =
      Inr (?s\<lparr>sm_map := m2\<rparr>)" "sim (?s\<lparr>sm_map := m2\<rparr>) g"
    using update_expire_index_sim [OF sim up vk m1(2-5) x] by blast
  with m1(1) x simD(5) [OF sim, of "uk_key up"] flat_upsert_frame(1) [OF up] show ?thesis
    by (intro exI [of _ m2]) (auto simp: applier_upsert_kv_def push_change_def change_events_def Let_def)
qed

end

end
