(* ===== verification/TxnRefinement.thy ===== *)
theory TxnRefinement
  imports Refinement
begin

text \<open>
  Transactions of the applier are transactions of the reference machine: conditions, boolean
  expressions, the choice of the branch, and the operations of the branch with their responses and
  change events.
\<close>

text \<open>The applier after steps that changed its map and recorded events.\<close>

definition advance :: "'m applier \<Rightarrow> 'm \<Rightarrow> event list \<Rightarrow> 'm applier" where
  "advance a m evs = a\<lparr>ap_sm := (ap_sm a)\<lparr>sm_map := m\<rparr>, ap_changes := ap_changes a @ evs\<rparr>"

definition add_responses :: "txn_reply \<Rightarrow> txn_op_response list \<Rightarrow> txn_reply" where
  "add_responses resp rs = resp\<lparr>rep_responses := rep_responses resp @ map Some rs\<rparr>"

lemma advance_simps [simp]:
  "ap_sm (advance a m evs) = (ap_sm a)\<lparr>sm_map := m\<rparr>"
  "ap_cmd_ctx (advance a m evs) = ap_cmd_ctx a"
  "ap_changes (advance a m evs) = ap_changes a @ evs"
  "advance (advance a m evs) m' evs' = advance a m' (evs @ evs')"
  by (simp_all add: advance_def)

lemma advance_self: "advance a (sm_map (ap_sm a)) [] = a"
  by (simp add: advance_def)

lemma push_change_advance: "push_change (advance a m evs) k p r = advance a m (evs @ change_events k p r)"
  by (simp add: push_change_def change_events_def advance_def)

lemma add_responses_simps [simp]:
  "add_responses resp [] = resp"
  "push_response resp r = add_responses resp [r]"
  "add_responses (add_responses resp rs) rs' = add_responses resp (rs @ rs')"
  by (simp_all add: add_responses_def push_response_def)

section \<open>Conditions\<close>

lemma compare_taken: "eval_compare (min l (Suc n)) opr n = eval_compare l opr n"
  by (cases opr) (auto simp: eval_compare_def min_def)

lemma eval_expressions:
  assumes "\<forall>e \<in> set es. eval_bool_expression M a e = Inr (P e)"
  shows "eval_all_expressions M a es = Inr (list_all P es)" and "eval_any_expression M a es = Inr (list_ex P es)"
  using assms by (induction es) auto

context sm_map
begin

lemma eval_one_condition_sim:
  assumes sim: "sim (ap_sm a) f" and ok: "cond_ok c"
  shows "eval_one_condition M a c = Inr (flat_cond f c)"
proof -
  have "u64_add n 1 = n + 1" if "tc_target c = Some (TargetKeysWithPrefix n)" for n
    using ok that by (simp add: cond_ok_def u64_add_def)
  then show ?thesis
    by (auto simp: eval_one_condition_def flat_cond_def get_sim [OF sim] list_kv_sim [OF sim] res_simps take_map
        compare_taken Let_def opt_value_def split: option.split txn_target.split)
qed

lemma eval_txn_conditions_sim:
  assumes "sim (ap_sm a) f" and "list_all cond_ok cs"
  shows "eval_txn_conditions M a cs = Inr (list_all (flat_cond f) cs)"
  using assms(2) by (induction cs) (auto simp: eval_one_condition_sim [OF assms(1)])

lemma eval_any_condition_sim:
  assumes "sim (ap_sm a) f" and "list_all cond_ok cs"
  shows "eval_any_condition M a cs = Inr (list_ex (flat_cond f) cs)"
  using assms(2) by (induction cs) (auto simp: eval_one_condition_sim [OF assms(1)])

lemma eval_bool_expression_sim:
  assumes "sim (ap_sm a) f"
  shows "expr_ok e \<Longrightarrow> eval_bool_expression M a e = Inr (flat_expr (flat_cond f) e)"
proof (induction e)
  case (BooleanExpression opr subs conds)
  have "\<forall>e \<in> set subs. eval_bool_expression M a e = Inr (flat_expr (flat_cond f) e)"
    using BooleanExpression by (simp add: list_all_iff)
  from eval_expressions [OF this] BooleanExpression.prems show ?case
    by (simp add: be_combining_def eval_txn_conditions_sim [OF assms] eval_any_condition_sim [OF assms])
qed

lemma find_branch_sim:
  assumes "sim (ap_sm a) f" and "list_all (\<lambda>c. case co_predicate c of None \<Rightarrow> True | Some e \<Rightarrow> expr_ok e) cs"
  shows "find_branch M a i cs = Inr (flat_branch (flat_cond f) i cs)"
  using assms(2)
  by (induction cs arbitrary: i) (auto simp: eval_bool_expression_sim [OF assms(1)] split: option.splits)

end

section \<open>Operations\<close>

lemma flat_delete:
  assumes "flat_inv f" and "btree_get (f_kv f) k = Some v"
  shows "flat_upsert f ctx (UpsertKV_delete k) = ((Some v, None), f\<lparr>f_kv := btree_remove k (f_kv f)\<rparr>)"
  using flat_invD(3) [OF assms] assms(2)
  by (simp add: flat_upsert_def UpsertKV_delete_def seq_matches_def opt_seq_def Let_def)

lemma delete_seqs [simp]: "upsert_seqs (UpsertKV_delete k) = 0" "uk_key (UpsertKV_delete k) = k"
  by (simp_all add: upsert_seqs_def UpsertKV_delete_def)

text \<open>Removing listed keys one after the other.\<close>

lemma filter_removed:
  "filter (\<lambda>(a, b). a \<notin> S) (btree_remove k t) = filter (\<lambda>(a, b). a \<noteq> k \<and> a \<notin> S) t"
  by (auto simp: btree_remove_def intro!: filter_cong)

context sm_map
begin

lemma delete_one:
  assumes sim: "sim (ap_sm a) f" and get: "btree_get (f_kv f) k = Some v"
  shows "\<exists>m. applier_upsert_kv M a (UpsertKV_delete k) = Inr ((Some v, None), advance a m [(k, Some v, None)]) \<and>
    sim ((ap_sm a)\<lparr>sm_map := m\<rparr>) (f\<lparr>f_kv := btree_remove k (f_kv f)\<rparr>)"
proof -
  have "sequence (f_sys f) < 2 ^ 64" using seq_bound simD(1,3) [OF sim] by metis
  moreover have "valid_str k" using flat_invD(3) [OF simD(2) [OF sim] get] by simp
  ultimately show ?thesis
    using upsert_sim [OF sim _ _ flat_delete [OF simD(2) [OF sim] get]] by (simp add: advance_def change_events_def)
qed

lemma delete_loop_sim:
  assumes "sim (ap_sm a) f" and "distinct (map fst xs)" and "\<forall>(k, v) \<in> set xs. btree_get (f_kv f) k = Some v"
    and "n < 2 ^ 32"
  shows "\<exists>m. delete_loop M a n (map Inr xs) = Inr ((n + length xs) mod 2 ^ 32,
      advance a m (concat (map (\<lambda>(k, v). [(k, Some v, None), (k, Some v, None)]) xs))) \<and>
    sim ((ap_sm a)\<lparr>sm_map := m\<rparr>) (f\<lparr>f_kv := filter (\<lambda>(k, v). k \<notin> set (map fst xs)) (f_kv f)\<rparr>)"
  using assms
proof (induction xs arbitrary: a f n)
  case Nil
  then show ?case by (intro exI [of _ "sm_map (ap_sm a)"]) (simp add: advance_self)
next
  case (Cons x xs)
  obtain k v where x: "x = (k, v)" by (cases x)
  let ?f = "f\<lparr>f_kv := btree_remove k (f_kv f)\<rparr>"
  obtain m where m: "applier_upsert_kv M a (UpsertKV_delete k) = Inr ((Some v, None), advance a m [(k, Some v, None)])"
    "sim ((ap_sm a)\<lparr>sm_map := m\<rparr>) ?f"
    using delete_one [OF Cons.prems(1), of k v] Cons.prems(3) x by auto
  let ?a = "advance a m [(k, Some v, None), (k, Some v, None)]"
  have "\<forall>(k, v) \<in> set xs. btree_get (f_kv ?f) k = Some v"
    using Cons.prems(2,3) x by (force simp: image_iff)
  from Cons.IH [of ?a ?f "(n + 1) mod 2 ^ 32", OF _ _ this] m(2) Cons.prems(2)
  obtain m' where m': "delete_loop M ?a ((n + 1) mod 2 ^ 32) (map Inr xs) =
      Inr (((n + 1) mod 2 ^ 32 + length xs) mod 2 ^ 32,
        advance ?a m' (concat (map (\<lambda>(k, v). [(k, Some v, None), (k, Some v, None)]) xs)))"
    "sim ((ap_sm a)\<lparr>sm_map := m'\<rparr>) (?f\<lparr>f_kv := filter (\<lambda>(k, v). k \<notin> set (map fst xs)) (f_kv ?f)\<rparr>)"
    by auto
  have "((n + 1) mod 2 ^ 32 + length xs) mod 2 ^ 32 = (n + length (x # xs)) mod 2 ^ 32"
    by (simp add: mod_add_left_eq)
  with m(1) m' show ?case
    unfolding x by (intro exI [of _ m'])
      (simp add: push_change_advance change_events_def Let_def filter_removed)
qed

lemma delete_by_prefix_sim:
  assumes sim: "sim (ap_sm a) f"
  shows "\<exists>m. txn_execute_delete_by_prefix M a p resp = Inr (add_responses resp
        [RespDeleteByPrefix \<lparr>bresp_prefix = p, bresp_count = length (flat_list f p) mod 2 ^ 32\<rparr>],
      advance a m (concat (map (\<lambda>(k, v). [(k, Some v, None), (k, Some v, None)]) (flat_list f p)))) \<and>
    sim ((ap_sm a)\<lparr>sm_map := m\<rparr>) (f\<lparr>f_kv := filter (\<lambda>(k, v). \<not> prefix p k) (f_kv f)\<rparr>)"
proof -
  note ok = flat_invD(1) [OF simD(2) [OF sim]]
  have "distinct (map fst (flat_list f p))"
    unfolding flat_list_def by (rule btree_ok_distinct [OF btree_ok_filter [OF ok]])
  moreover have "\<forall>(k, v) \<in> set (flat_list f p). btree_get (f_kv f) k = Some v"
    by (auto simp: flat_list_def btree_get_in_set [OF ok])
  moreover have "filter (\<lambda>(k, v). k \<notin> set (map fst (flat_list f p))) (f_kv f) = filter (\<lambda>(k, v). \<not> prefix p k) (f_kv f)"
    by (rule filter_cong) (force simp: flat_list_def)+
  ultimately show ?thesis
    using delete_loop_sim [OF sim, of "flat_list f p" 0]
    by (auto simp: txn_execute_delete_by_prefix_def list_kv_sim [OF sim])
qed

text \<open>An operation that is one upsert.\<close>

lemma upsert_op_sim:
  assumes sim: "sim (ap_sm a) f" and vk: "valid_str (uk_key up)" and room: "sequence (f_sys f) + upsert_seqs up < 2 ^ 64"
    and op: "(case flat_upsert f (ap_cmd_ctx a) up of ((p, r), g) \<Rightarrow> ([resp_of p r], change_events (uk_key up) p r, g)) = (rs, evs, g)"
  shows "\<exists>m. rbind (applier_upsert_kv M a up) (\<lambda>((p, r), a). Inr (push_response resp (resp_of p r), a)) =
      Inr (add_responses resp rs, advance a m evs) \<and> sim ((ap_sm a)\<lparr>sm_map := m\<rparr>) g"
proof -
  obtain p r where u: "flat_upsert f (ap_cmd_ctx a) up = ((p, r), g)" and
    res: "rs = [resp_of p r]" "evs = change_events (uk_key up) p r"
    using op by (auto split: prod.splits)
  obtain m where "applier_upsert_kv M a up = Inr ((p, r), advance a m evs)" "sim ((ap_sm a)\<lparr>sm_map := m\<rparr>) g"
    using upsert_sim [OF sim vk room u] res(2) unfolding advance_def by blast
  with res(1) show ?thesis by (intro exI [of _ m]) simp
qed

lemma operation_sim:
  assumes sim: "sim (ap_sm a) f" and ok: "op_ok opn" and room: "sequence (f_sys f) + op_seqs opn < 2 ^ 64"
    and op: "flat_op (ap_cmd_ctx a) opn f = (rs, evs, g)"
  shows "\<exists>m. txn_execute_operation M a opn resp = Inr (add_responses resp rs, advance a m evs) \<and>
    sim ((ap_sm a)\<lparr>sm_map := m\<rparr>) g"
proof -
  have same: ?thesis if "txn_execute_operation M a opn resp = Inr (add_responses resp rs, a)" "evs = []" "g = f"
    using that sim by (intro exI [of _ "sm_map (ap_sm a)"]) (simp add: advance_self)
  consider "opn = None" | k where "opn = Some (ReqGet k)" | put where "opn = Some (ReqPut put)"
    | del where "opn = Some (ReqDelete del)" | p where "opn = Some (ReqDeleteByPrefix p)"
    by (metis option.exhaust txn_op_request.exhaust)
  then show ?thesis
  proof cases
    case 1
    with op show ?thesis by (intro same) (simp_all add: txn_execute_operation_def flat_op_def)
  next
    case 2
    with op show ?thesis
      by (intro same) (auto simp: txn_execute_operation_def flat_op_def txn_execute_get_def get_sim [OF sim])
  next
    case (3 put)
    let ?up = "with_meta_spec (UpsertKV_update (pr_key put) (pr_value put))
      (MetaSpec_new (pr_expire_at put) (map_option Interval_from_millis (pr_ttl_ms put)))"
    have up: "uk_key ?up = pr_key put" "upsert_seqs ?up = 1"
      by (simp_all add: with_meta_spec_def UpsertKV_update_def upsert_seqs_def)
    have "valid_str (uk_key ?up)" "sequence (f_sys f) + upsert_seqs ?up < 2 ^ 64"
      using ok room by (simp_all add: 3 up op_ok_def op_seqs_def)
    moreover have "(case flat_upsert f (ap_cmd_ctx a) ?up of ((p, r), g) \<Rightarrow>
        ([TxnOpResponse_put (pr_key put) (map_option seqv_to_pb p)], change_events (uk_key ?up) p r, g)) = (rs, evs, g)"
      using op by (simp add: 3 flat_op_def up)
    ultimately have "\<exists>m. txn_execute_put M a put resp = Inr (add_responses resp rs, advance a m evs) \<and>
        sim ((ap_sm a)\<lparr>sm_map := m\<rparr>) g"
      unfolding txn_execute_put_def Let_def
      by (rule upsert_op_sim [OF sim, where resp_of = "\<lambda>p r. TxnOpResponse_put (pr_key put) (map_option seqv_to_pb p)"])
    then show ?thesis by (simp add: 3 txn_execute_operation_def)
  next
    case (4 del)
    let ?up = "case dr_match_seq del of Some seq \<Rightarrow> with_match_seq (UpsertKV_delete (dr_key del)) (Exact seq)
      | None \<Rightarrow> UpsertKV_delete (dr_key del)"
    have up: "uk_key ?up = dr_key del" "upsert_seqs ?up = 0"
      by (auto simp: with_match_seq_def UpsertKV_delete_def upsert_seqs_def split: option.split)
    have "valid_str (uk_key ?up)" "sequence (f_sys f) + upsert_seqs ?up < 2 ^ 64"
      using ok room unfolding up by (simp_all add: 4 op_ok_def op_seqs_def)
    moreover have "(case flat_upsert f (ap_cmd_ctx a) ?up of ((p, r), g) \<Rightarrow>
        ([TxnOpResponse_delete (dr_key del) (p \<noteq> None \<and> r = None) (map_option seqv_to_pb p)],
         change_events (uk_key ?up) p r, g)) = (rs, evs, g)"
      using op unfolding up by (simp add: 4 flat_op_def)
    ultimately have "\<exists>m. txn_execute_delete M a del resp = Inr (add_responses resp rs, advance a m evs) \<and>
        sim ((ap_sm a)\<lparr>sm_map := m\<rparr>) g"
      unfolding txn_execute_delete_def Let_def
      by (rule upsert_op_sim [OF sim, where resp_of = "\<lambda>p r. TxnOpResponse_delete (dr_key del) (p \<noteq> None \<and> r = None) (map_option seqv_to_pb p)"])
    then show ?thesis by (simp add: 4 txn_execute_operation_def)
  next
    case (5 p)
    with delete_by_prefix_sim [OF sim, of p resp] op show ?thesis
      by (auto simp: txn_execute_operation_def flat_op_def)
  qed
qed

end

section \<open>Whole transactions\<close>

lemma put_request_seqs: "upsert_seqs (with_meta_spec (UpsertKV_update k v) spec) = 1"
  by (simp add: with_meta_spec_def UpsertKV_update_def upsert_seqs_def)

lemma flat_op_seqs:
  assumes "flat_op ctx opn f = (rs, evs, g)"
  shows "sequence (f_sys f) \<le> sequence (f_sys g) \<and> sequence (f_sys g) \<le> sequence (f_sys f) + op_seqs opn"
proof (cases opn)
  case (Some r)
  have up: "sequence (f_sys f) \<le> sequence (f_sys (snd (flat_upsert f ctx up))) \<and>
      sequence (f_sys (snd (flat_upsert f ctx up))) \<le> sequence (f_sys f) + upsert_seqs up" for up
    using flat_upsert_frame(4,5) [of f ctx up] by (metis prod.collapse)
  show ?thesis
  proof (cases r)
    case (ReqPut put)
    let ?up = "with_meta_spec (UpsertKV_update (pr_key put) (pr_value put))
      (MetaSpec_new (pr_expire_at put) (map_option Interval_from_millis (pr_ttl_ms put)))"
    from assms have "g = snd (flat_upsert f ctx ?up)"
      by (simp add: flat_op_def Some ReqPut case_prod_beta')
    with up [of ?up] show ?thesis by (simp add: Some ReqPut op_seqs_def put_request_seqs)
  next
    case (ReqDelete del)
    let ?up = "case dr_match_seq del of Some seq \<Rightarrow> with_match_seq (UpsertKV_delete (dr_key del)) (Exact seq)
      | None \<Rightarrow> UpsertKV_delete (dr_key del)"
    from assms have "g = snd (flat_upsert f ctx ?up)"
      by (simp add: flat_op_def Some ReqDelete case_prod_beta')
    moreover have "upsert_seqs ?up = 0"
      by (simp add: with_match_seq_def UpsertKV_delete_def upsert_seqs_def split: option.split)
    ultimately show ?thesis using up [of ?up] by (simp add: Some ReqDelete op_seqs_def)
  qed (use assms in \<open>auto simp: flat_op_def Some op_seqs_def\<close>)
qed (use assms in \<open>auto simp: flat_op_def op_seqs_def\<close>)

lemma flat_choose_seqs:
  assumes "flat_choose holds req = (path, ops)"
  shows "ops_seqs ops \<le> cmd_seqs (Transaction req)" and "txn_ok req \<Longrightarrow> list_all op_ok ops"
proof -
  have *: "flat_branch holds i cs = Some (j, ops) \<Longrightarrow> \<exists>c \<in> set cs. co_operations c = ops" for i cs j
    by (induction cs arbitrary: i) (auto split: if_splits)
  from assms consider (branch) c where "c \<in> set (tr_operations req)" "co_operations c = ops"
    | (if_then) "ops = tr_if_then req" | (else_then) "ops = tr_else_then req"
    by (auto simp: flat_choose_def dest: * split: option.splits if_splits prod.splits)
  then have "ops_seqs ops \<le> cmd_seqs (Transaction req) \<and> (txn_ok req \<longrightarrow> list_all op_ok ops)"
  proof cases
    case branch
    then have "ops_seqs ops \<in> set (map (\<lambda>c. ops_seqs (co_operations c)) (tr_operations req))" by auto
    from member_le_sum_list [OF this] have "ops_seqs ops \<le> cmd_seqs (Transaction req)" by (simp add: cmd_seqs_def)
    with branch show ?thesis by (auto simp: txn_ok_def list_all_iff)
  qed (auto simp: cmd_seqs_def txn_ok_def)
  then show "ops_seqs ops \<le> cmd_seqs (Transaction req)" "txn_ok req \<Longrightarrow> list_all op_ok ops" by auto
qed

context sm_map
begin

lemma operations_sim:
  assumes "sim (ap_sm a) f" and "list_all op_ok ops" and "sequence (f_sys f) + ops_seqs ops < 2 ^ 64"
    and "flat_ops (ap_cmd_ctx a) ops f = (rs, evs, g)"
  shows "\<exists>m. txn_execute_operations M a ops resp = Inr (add_responses resp rs, advance a m evs) \<and>
    sim ((ap_sm a)\<lparr>sm_map := m\<rparr>) g"
  using assms
proof (induction ops arbitrary: a f rs evs resp)
  case Nil
  then show ?case
    by (intro exI [of _ "sm_map (ap_sm a)"]) (auto simp: txn_execute_operations_def advance_self)
next
  case (Cons opn ops)
  obtain rs1 evs1 h where op: "flat_op (ap_cmd_ctx a) opn f = (rs1, evs1, h)" by (metis prod.exhaust)
  obtain rs2 evs2 where ops: "flat_ops (ap_cmd_ctx a) ops h = (rs2, evs2, g)" "rs = rs1 @ rs2" "evs = evs1 @ evs2"
    using Cons.prems(4) op by (auto split: prod.splits)
  have seqs: "sequence (f_sys f) + op_seqs opn < 2 ^ 64" "sequence (f_sys h) + ops_seqs ops < 2 ^ 64"
    using Cons.prems(3) flat_op_seqs [OF op] by (simp_all add: ops_seqs_def)
  obtain m where m: "txn_execute_operation M a opn resp = Inr (add_responses resp rs1, advance a m evs1)"
    "sim ((ap_sm a)\<lparr>sm_map := m\<rparr>) h"
    using operation_sim [OF Cons.prems(1) _ seqs(1) op] Cons.prems(2) by auto
  obtain m' where "txn_execute_operations M (advance a m evs1) ops (add_responses resp rs1) =
      Inr (add_responses (add_responses resp rs1) rs2, advance (advance a m evs1) m' evs2)"
    "sim ((ap_sm a)\<lparr>sm_map := m'\<rparr>) g"
    using Cons.IH [of "advance a m evs1" h rs2 evs2 "add_responses resp rs1"] m(2) Cons.prems(2) seqs(2) ops(1) by auto
  with m(1) ops(2,3) show ?case
    by (intro exI [of _ m']) (simp add: txn_execute_operations_def)
qed

lemma apply_txn_sim:
  assumes sim: "sim (ap_sm a) f" and ok: "txn_ok req" and room: "sequence (f_sys f) + cmd_seqs (Transaction req) < 2 ^ 64"
    and txn: "flat_txn (ap_cmd_ctx a) req f = (r, evs, g)"
  shows "\<exists>m. apply_txn M a req = Inr (StateTxnReply r, advance a m evs) \<and> sim ((ap_sm a)\<lparr>sm_map := m\<rparr>) g"
proof -
  obtain path ops where choose: "flat_choose (flat_cond f) req = (path, ops)" by (metis prod.exhaust)
  obtain rs where ops: "flat_ops (ap_cmd_ctx a) ops f = (rs, evs, g)" and r: "r = add_responses (TxnReply_new path) rs"
    using txn choose by (auto simp: flat_txn_def add_responses_def TxnReply_new_def split: prod.splits)
  have fb: "find_branch M a 0 (tr_operations req) = Inr (flat_branch (flat_cond f) 0 (tr_operations req))"
    by (rule find_branch_sim [OF sim]) (use ok in \<open>auto simp: txn_ok_def list_all_iff\<close>)
  have tc: "eval_txn_conditions M a (tr_condition req) = Inr (list_all (flat_cond f) (tr_condition req))"
    by (rule eval_txn_conditions_sim [OF sim]) (use ok in \<open>simp add: txn_ok_def\<close>)
  have "apply_txn M a req = rbind (txn_execute_operations M a ops (TxnReply_new path)) (\<lambda>(resp, a). Inr (StateTxnReply resp, a))"
    using choose by (auto simp: apply_txn_def fb tc flat_choose_def split: option.splits prod.splits if_splits)
  moreover obtain m where "txn_execute_operations M a ops (TxnReply_new path) = Inr (r, advance a m evs)"
    "sim ((ap_sm a)\<lparr>sm_map := m\<rparr>) g"
    using operations_sim [OF sim _ _ ops] flat_choose_seqs [OF choose] ok room r by fastforce
  ultimately show ?thesis by auto
qed

end

end
