(* ===== verification/ApplyRefinement.thy ===== *)
theory ApplyRefinement
  imports TxnRefinement
begin

text \<open>
  Applying log entries refines the reference machine: the removal of expired entries, the commands,
  single entries and batches of entries. The theorems at the end instantiate the refinement for the
  two state machines of the repository.
\<close>

section \<open>Removing expired entries\<close>

lemma collect_expired_all:
  assumes "\<forall>(ek, k) \<in> set xs. time_ms ek < t"
  shows "collect_expired t (map Inr xs) = Inr xs"
  using assms by (induction xs) (auto simp: expire_key_is_expired_def)

lemma expire_entry_Some: "expire_entry (ek, m) = Some y \<longleftrightarrow> (\<exists>k. y = (ek, k) \<and> marked_value m = Some k)"
  by (cases m) auto

lemma fst_expire_entry: "expire_entry x = Some y \<Longrightarrow> fst y = fst x"
  by (cases x) (auto simp: expire_entry_Some simp del: expire_entry.simps)

lemma set_expire_entries:
  assumes "range_spec view r xs"
  shows "(ek, k) \<in> set (List.map_filter expire_entry xs) \<longleftrightarrow> in_bounds r ek \<and> marked_value (view ek) = Some k"
proof -
  have "(ek, k) \<in> set (List.map_filter expire_entry xs) \<longleftrightarrow> (\<exists>x \<in> set xs. expire_entry x = Some (ek, k))"
    by (induction xs) (auto simp: List.map_filter_simps split: option.splits)
  also have "\<dots> \<longleftrightarrow> (\<exists>m. (ek, m) \<in> set xs \<and> marked_value m = Some k)"
    by (auto simp: expire_entry_Some Bex_def simp del: expire_entry.simps)
  also have "\<dots> \<longleftrightarrow> in_bounds r ek \<and> marked_value (view ek) = Some k"
    using assms by (cases "view ek") (fastforce simp: range_spec_def)+
  finally show ?thesis .
qed

lemma no_expired_before_cursor:
  assumes "flat_inv f" and "t \<le> f_cursor f"
  shows "flat_expired f t = []"
proof -
  have "\<not> expired_before t v" if "(k, v) \<in> set (f_kv f)" for k v
  proof (cases "sv_expires v")
    case (Some e)
    have "btree_get (f_kv f) k = Some v" using that flat_invD(1) [OF assms(1)] by (simp add: btree_get_in_set)
    from flat_invD(4) [OF assms(1) this Some] assms(2) Some show ?thesis by (simp add: expired_before_def)
  qed (simp add: expired_before_def)
  then have "filter (\<lambda>(k, v). expired_before t v) (f_kv f) = []"
    by (auto simp: filter_empty_conv)
  then show ?thesis by (simp add: flat_expired_def)
qed

context sm_map
begin

lemma list_expire_index_sim:
  assumes sim: "sim s f" and t: "t < 2 ^ 64"
  shows "list_expire_index M s t = Inr (map Inr (flat_expired f t))"
proof (cases "t \<le> f_cursor f")
  case True
  with no_expired_before_cursor [OF simD(2) [OF sim] True] simD(4) [OF sim] show ?thesis
    by (simp add: list_expire_index_def)
next
  case False
  note d = simD [OF sim] and i = flat_invD [OF simD(2) [OF sim]]
  let ?r = "(Included (ExpireKey (f_cursor f) 0), Excluded (ExpireKey t 0))"
  have "expire_range_ok ?r"
    using False t i(2) by (simp add: expire_range_ok_def bounds_all_def expire_key_u64_def)
  then obtain xs where xs: "ma_range (mo_exp M) (sm_map s) ?r = Inr (map Inr xs)" "range_spec (expv (sm_map s)) ?r xs"
    using exp_range [OF d(1)] by blast
  have bounds: "in_bounds ?r ek \<longleftrightarrow> f_cursor f \<le> time_ms ek \<and> time_ms ek < t" for ek
    by (cases ek) (auto simp: in_bounds_def)
  have "List.map_filter expire_entry xs = flat_expired f t"
  proof (rule sorted_alist_unique)
    show "sorted_wrt (<) (map fst (List.map_filter expire_entry xs))"
      by (rule sorted_map_filter [where h = fst, OF fst_expire_entry]) (use xs(2) in \<open>auto simp: range_spec_def\<close>)
    show "sorted_wrt (<) (map fst (flat_expired f t))" by (rule flat_expired_sorted [OF d(2)])
    have "(ek, k) \<in> set (List.map_filter expire_entry xs) \<longleftrightarrow> (ek, k) \<in> set (flat_expired f t)" for ek k
      unfolding set_expire_entries [OF xs(2)] bounds d(6) flat_index_def set_flat_expired [OF i(1)]
      using i(4) by blast
    then show "set (List.map_filter expire_entry xs) = set (flat_expired f t)" by auto
  qed
  with xs(1) False d(4) show ?thesis
    by (simp add: list_expire_index_def res_simps)
qed

lemma clean_loop_sim:
  assumes "sim (ap_sm a) f" and "distinct (map snd xs)"
    and "\<forall>(ek, k) \<in> set xs. \<exists>v. btree_get (f_kv f) k = Some v \<and> sv_seq v = ek_seq ek"
  shows "\<exists>m. clean_loop M a xs = Inr (advance a m (map (\<lambda>(ek, k). (k, btree_get (f_kv f) k, None)) xs)) \<and>
    sim ((ap_sm a)\<lparr>sm_map := m\<rparr>) (f\<lparr>f_kv := filter (\<lambda>(k, v). k \<notin> set (map snd xs)) (f_kv f)\<rparr>)"
  using assms
proof (induction xs arbitrary: a f)
  case Nil
  then show ?case by (intro exI [of _ "sm_map (ap_sm a)"]) (simp add: advance_self)
next
  case (Cons x xs)
  obtain ek k where x: "x = (ek, k)" by (cases x)
  with Cons.prems(3) obtain v where v: "btree_get (f_kv f) k = Some v" "sv_seq v = ek_seq ek" by auto
  let ?f = "f\<lparr>f_kv := btree_remove k (f_kv f)\<rparr>"
  obtain m where m: "applier_upsert_kv M a (UpsertKV_delete k) = Inr ((Some v, None), advance a m [(k, Some v, None)])"
    "sim ((ap_sm a)\<lparr>sm_map := m\<rparr>) ?f"
    using delete_one [OF Cons.prems(1) v(1)] by blast
  let ?a = "advance a m [(k, Some v, None)]"
  have k: "k \<notin> set (map snd xs)" using Cons.prems(2) x by simp
  then have same: "btree_get (f_kv ?f) k' = btree_get (f_kv f) k'" if "(ek', k') \<in> set xs" for ek' k'
    using that by force
  have "\<forall>(ek, k) \<in> set xs. \<exists>v. btree_get (f_kv ?f) k = Some v \<and> sv_seq v = ek_seq ek"
    using Cons.prems(3) same by fastforce
  with Cons.IH [of ?a ?f] m(2) Cons.prems(2)
  obtain m' where m': "clean_loop M ?a xs = Inr (advance ?a m' (map (\<lambda>(ek, k). (k, btree_get (f_kv ?f) k, None)) xs))"
    "sim ((ap_sm a)\<lparr>sm_map := m'\<rparr>) (?f\<lparr>f_kv := filter (\<lambda>(k, v). k \<notin> set (map snd xs)) (f_kv ?f)\<rparr>)"
    by auto
  have "map (\<lambda>(ek, k). (k, btree_get (f_kv ?f) k, None)) xs = map (\<lambda>(ek, k). (k, btree_get (f_kv f) k, None)) xs"
    using same by (intro map_cong) auto
  note m' = m' [unfolded this]
  from m(1) m' v get_sim [OF Cons.prems(1), of k] show ?case
    unfolding x by (intro exI [of _ m']) (simp add: filter_removed)
qed

end

text \<open>The applier after steps that recorded events, for the subscriber and the command context.\<close>

definition follows :: "'m applier \<Rightarrow> event list \<Rightarrow> 'm applier \<Rightarrow> bool" where
  "follows a evs b \<longleftrightarrow>
     ap_cmd_ctx b = ap_cmd_ctx a \<and> ap_changes b = ap_changes a @ evs \<and> subscriber (ap_sm b) = subscriber (ap_sm a)"

lemma follows_advance: "follows a evs (advance a m evs)"
  by (simp add: follows_def)

lemma follows_trans: "follows a evs b \<Longrightarrow> follows b evs' c \<Longrightarrow> follows a (evs @ evs') c"
  by (simp add: follows_def)

lemma filter_not_expired:
  assumes "btree_ok (f_kv f)"
  shows "filter (\<lambda>(k, v). k \<notin> set (map snd (flat_expired f t))) (f_kv f) = filter (\<lambda>(k, v). \<not> expired_before t v) (f_kv f)"
proof (rule filter_cong [OF refl])
  fix x assume x: "x \<in> set (f_kv f)"
  obtain k v where kv: "x = (k, v)" by (cases x)
  have v: "btree_get (f_kv f) k = Some v" using x kv assms by (simp add: btree_get_in_set)
  have "k \<in> set (map snd (flat_expired f t)) \<longleftrightarrow> (\<exists>ek. (ek, k) \<in> set (flat_expired f t))" by force
  also have "\<dots> \<longleftrightarrow> (\<exists>ek. sv_expires v = Some (time_ms ek) \<and> sv_seq v = ek_seq ek \<and> time_ms ek < t)"
    by (simp add: set_flat_expired [OF assms] v)
  also have "\<dots> \<longleftrightarrow> expired_before t v"
    by (auto simp: expired_before_def intro: exI [of _ "ExpireKey (the (sv_expires v)) (sv_seq v)"] split: option.splits)
  finally have "k \<in> set (map snd (flat_expired f t)) \<longleftrightarrow> expired_before t v" .
  then show "(case x of (k, v) \<Rightarrow> k \<notin> set (map snd (flat_expired f t))) = (case x of (k, v) \<Rightarrow> \<not> expired_before t v)"
    by (simp add: kv)
qed

context sm_map
begin

lemma raise_cursor_sim:
  assumes "sim s f" and "flat_inv (f\<lparr>f_cursor := max (f_cursor f) t\<rparr>)"
  shows "sim (update_expire_cursor s t) (f\<lparr>f_cursor := max (f_cursor f) t\<rparr>)"
  using assms by (auto simp: sm_sim_def update_expire_cursor_def flat_index_def max_def)

lemma clean_expired_sim:
  assumes sim: "sim (ap_sm a) f" and t: "t < 2 ^ 64" and clean: "flat_clean t f = (evs, g)"
  shows "\<exists>b. clean_expired_kvs M a t = Inr b \<and> sim (ap_sm b) g \<and> follows a evs b"
proof (cases "t = 0")
  case True
  with assms show ?thesis by (auto simp: clean_expired_kvs_def flat_clean_def follows_def)
next
  case False
  note i = flat_invD [OF simD(2) [OF sim]]
  let ?xs = "flat_expired f t"
  let ?h = "f\<lparr>f_kv := filter (\<lambda>(k, v). \<not> expired_before t v) (f_kv f)\<rparr>"
  have evs: "evs = map (\<lambda>(ek, k). (k, btree_get (f_kv f) k, None)) ?xs" and g: "g = ?h\<lparr>f_cursor := max (f_cursor ?h) t\<rparr>"
    using clean False by (simp_all add: flat_clean_def)
  have ex: "\<forall>(ek, k) \<in> set ?xs. \<exists>v. btree_get (f_kv f) k = Some v \<and> sv_seq v = ek_seq ek"
    "\<forall>(ek, k) \<in> set ?xs. time_ms ek < t"
    by (auto simp: set_flat_expired [OF i(1)])
  obtain m where m: "clean_loop M a ?xs = Inr (advance a m evs)" "sim ((ap_sm a)\<lparr>sm_map := m\<rparr>) ?h"
    using clean_loop_sim [OF sim flat_expired_distinct_keys [OF i(1)] ex(1)]
    unfolding evs filter_not_expired [OF i(1)] by blast
  have "flat_inv g" using flat_clean_inv [OF simD(2) [OF sim] t] clean by simp
  then have "sim (update_expire_cursor ((ap_sm a)\<lparr>sm_map := m\<rparr>) t) g"
    using raise_cursor_sim [OF m(2)] unfolding g by blast
  with m(1) False show ?thesis
    by (intro exI [of _ "(advance a m evs)\<lparr>ap_sm := update_expire_cursor ((ap_sm a)\<lparr>sm_map := m\<rparr>) t\<rparr>"])
       (simp add: clean_expired_kvs_def list_expire_index_sim [OF sim t] collect_expired_all [OF ex(2)] follows_def
         update_expire_cursor_def)
qed

section \<open>Commands\<close>

lemma with_sys_sim:
  assumes "sim (ap_sm a) f" and "\<And>sd. sequence (F sd) = sequence sd"
  shows "\<exists>m. with_sys M a F = advance a m [] \<and> sim ((ap_sm a)\<lparr>sm_map := m\<rparr>) (f\<lparr>f_sys := F (f_sys f)\<rparr>)"
proof -
  note d = simD [OF assms(1)]
  let ?m = "mo_set_sys M (sm_map (ap_sm a)) (F (f_sys f))"
  have m: "inv ?m" "mo_sys M ?m = F (f_sys f)" "kvv ?m = kvv (sm_map (ap_sm a))" "expv ?m = expv (sm_map (ap_sm a))"
    using set_sys [OF d(1), of "F (f_sys f)"] assms(2) d(3) by auto
  have "flat_inv (f\<lparr>f_sys := F (f_sys f)\<rparr>)" using d(2) by (simp add: flat_inv_def assms(2))
  with m d have "sim ((ap_sm a)\<lparr>sm_map := ?m\<rparr>) (f\<lparr>f_sys := F (f_sys f)\<rparr>)"
    by (simp add: sm_sim_def flat_index_def assms(2))
  then show ?thesis
    by (intro exI [of _ ?m]) (simp add: with_sys_def advance_def d(3))
qed

lemma apply_cmd_sim:
  assumes sim: "sim (ap_sm a) f" and ok: "cmd_ok c" and room: "sequence (f_sys f) + cmd_seqs c < 2 ^ 64"
    and cmd: "flat_cmd (ap_cmd_ctx a) c f = (st, evs, g)"
  shows "\<exists>m. apply_cmd M a c = Inr (st, advance a m evs) \<and> sim ((ap_sm a)\<lparr>sm_map := m\<rparr>) g"
proof -
  note sys = simD(3) [OF sim]
  have same: "\<exists>m. a = advance a m [] \<and> sim ((ap_sm a)\<lparr>sm_map := m\<rparr>) f"
    using sim by (intro exI [of _ "sm_map (ap_sm a)"]) (simp add: advance_self)
  show ?thesis
  proof (cases c)
    case (AddNode i n overriding)
    with with_sys_sim [OF sim, of "\<lambda>s. s\<lparr>nodes := btree_insert i n (nodes s)\<rparr>"] cmd same show ?thesis
      by (auto simp: apply_cmd_def apply_add_node_def flat_cmd_def Let_def sys split: if_splits)
  next
    case (RemoveNode i)
    with with_sys_sim [OF sim, of "\<lambda>s. s\<lparr>nodes := btree_remove i (nodes s)\<rparr>"] cmd show ?thesis
      by (auto simp: apply_cmd_def apply_remove_node_def flat_cmd_def Let_def sys)
  next
    case (CmdUpsertKV up)
    obtain p r where u: "flat_upsert f (ap_cmd_ctx a) up = ((p, r), g)" "st = StateKV (Change_new p r)"
      "evs = change_events (uk_key up) p r"
      using cmd CmdUpsertKV by (auto simp: flat_cmd_def split: prod.splits)
    from upsert_sim [OF sim _ _ u(1)] ok room CmdUpsertKV u(2,3) show ?thesis
      by (auto simp: apply_cmd_def apply_upsert_kv_def cmd_ok_def cmd_seqs_def advance_def)
  next
    case (Transaction txn)
    obtain r where t: "flat_txn (ap_cmd_ctx a) txn f = (r, evs, g)" "st = StateTxnReply r"
      using cmd Transaction by (auto simp: flat_cmd_def split: prod.splits)
    from apply_txn_sim [OF sim _ _ t(1)] ok room Transaction t(2) show ?thesis
      by (auto simp: apply_cmd_def cmd_ok_def)
  qed
qed

end

section \<open>Log entries\<close>

text \<open>Where the events of an entry go.\<close>

definition delivered :: "'m applier \<Rightarrow> event list \<Rightarrow> 'm applier \<Rightarrow> bool" where
  "delivered a evs b \<longleftrightarrow>
     (case subscriber (ap_sm a) of
        None \<Rightarrow> subscriber (ap_sm b) = None \<and> ap_changes b = ap_changes a @ evs
      | Some sent \<Rightarrow> subscriber (ap_sm b) = Some (sent @ ap_changes a @ evs) \<and> ap_changes b = [])"

text \<open>The second half of \<open>apply_entry\<close>.\<close>

definition apply_payload ::
    "('m, 'lid, 'mem) map_ops \<Rightarrow> 'm applier \<Rightarrow> ('lid, 'mem) entry \<Rightarrow> (applied_state \<times> 'm applier) res" where
  "apply_payload M a entry =
     (case en_payload entry of
        Blank \<Rightarrow> Inr (StateNone, a)
      | NormalEntry data \<Rightarrow>
          (if le_txid data \<noteq> None then Inl (Panic AssertFailed) else apply_cmd M a (le_cmd data))
      | MembershipEntry mem \<Rightarrow>
          Inr (StateNone, with_sys M a (\<lambda>s. s\<lparr>last_membership := (Some (en_log_id entry), mem)\<rparr>)))"

lemma apply_entry_payload:
  "apply_entry M a entry =
     rbind (clean_expired_kvs M (a\<lparr>ap_cmd_ctx := CmdContext_from_millis (get_log_time entry)\<rparr>) (get_log_time entry)) (\<lambda>a.
     rbind (apply_payload M (with_sys M a (\<lambda>s. s\<lparr>last_applied := Some (en_log_id entry)\<rparr>)) entry) (\<lambda>(st, a).
       Inr (st, send_changes a)))"
  by (simp add: apply_entry_def apply_payload_def Let_def)

context sm_map
begin

lemma sim_subscriber: "sim (s\<lparr>subscriber := w\<rparr>) f = sim s f"
  by (simp add: sm_sim_def)

lemma send_changes_sim:
  assumes "sim (ap_sm b) g" and "follows (a\<lparr>ap_cmd_ctx := ctx\<rparr>) evs b"
  shows "sim (ap_sm (send_changes b)) g \<and> delivered a evs (send_changes b)"
  using assms by (auto simp: send_changes_def delivered_def follows_def sim_subscriber split: option.splits)

lemma payload_sim:
  assumes sim: "sim (ap_sm a) f" and ok: "entry_ok entry" and room: "sequence (f_sys f) + entry_seqs entry < 2 ^ 64"
    and ctx: "ap_cmd_ctx a = CmdContext_from_millis (get_log_time entry)"
    and res: "flat_payload entry f = (st, evs, g)"
  shows "\<exists>m. apply_payload M a entry = Inr (st, advance a m evs) \<and> sim ((ap_sm a)\<lparr>sm_map := m\<rparr>) g"
proof (cases "en_payload entry")
  case Blank
  with res sim show ?thesis
    by (intro exI [of _ "sm_map (ap_sm a)"]) (auto simp: advance_self apply_payload_def flat_payload_def)
next
  case (NormalEntry data)
  with ok room res ctx have "cmd_ok (le_cmd data)" "le_txid data = None"
    "sequence (f_sys f) + cmd_seqs (le_cmd data) < 2 ^ 64" "flat_cmd (ap_cmd_ctx a) (le_cmd data) f = (st, evs, g)"
    by (auto simp: entry_ok_def entry_seqs_def flat_payload_def)
  with apply_cmd_sim [OF sim] NormalEntry show ?thesis by (simp add: apply_payload_def)
next
  case (MembershipEntry mem)
  with with_sys_sim [OF sim, of "\<lambda>s. s\<lparr>last_membership := (Some (en_log_id entry), mem)\<rparr>"] res
  show ?thesis by (auto simp: apply_payload_def flat_payload_def)
qed

lemma apply_entry_sim:
  assumes sim: "sim (ap_sm a) f" and ok: "entry_ok entry" and room: "sequence (f_sys f) + entry_seqs entry < 2 ^ 64"
    and app: "flat_apply entry f = (st, evs, g)"
  shows "\<exists>b. apply_entry M a entry = Inr (st, b) \<and> sim (ap_sm b) g \<and> delivered a evs b"
proof -
  let ?t = "get_log_time entry"
  let ?a = "a\<lparr>ap_cmd_ctx := CmdContext_from_millis ?t\<rparr>"
  let ?F = "\<lambda>s. s\<lparr>last_applied := Some (en_log_id entry)\<rparr>"
  obtain evs1 evs2 h where clean: "flat_clean ?t f = (evs1, h)" "evs = evs1 @ evs2"
    and pay: "flat_payload entry (h\<lparr>f_sys := ?F (f_sys h)\<rparr>) = (st, evs2, g)"
    using app by (auto simp: flat_apply_def split: prod.splits)
  have t: "?t < 2 ^ 64" using ok by (simp add: entry_ok_def)
  obtain b where b: "clean_expired_kvs M ?a ?t = Inr b" "sim (ap_sm b) h" "follows ?a evs1 b"
    using clean_expired_sim [of ?a f, OF _ t clean(1)] sim by auto
  obtain m where m: "with_sys M b ?F = advance b m []" "sim ((ap_sm b)\<lparr>sm_map := m\<rparr>) (h\<lparr>f_sys := ?F (f_sys h)\<rparr>)"
    using with_sys_sim [OF b(2), of ?F] by auto
  have "f_sys h = f_sys f" using clean(1) by (auto simp: flat_clean_def split: if_splits)
  with room have room': "sequence (f_sys (h\<lparr>f_sys := ?F (f_sys h)\<rparr>)) + entry_seqs entry < 2 ^ 64" by simp
  have ctx: "ap_cmd_ctx (advance b m []) = CmdContext_from_millis ?t" using b(3) by (simp add: follows_def)
  obtain m' where m': "apply_payload M (advance b m []) entry = Inr (st, advance b m' evs2)"
    "sim ((ap_sm b)\<lparr>sm_map := m'\<rparr>) g"
    using payload_sim [of "advance b m []", OF _ ok room' ctx pay] m(2) by auto
  have "follows ?a evs (advance b m' evs2)"
    using follows_trans [OF b(3) follows_advance] clean(2) by simp
  from send_changes_sim [OF _ this] m'(2) m'(1) b(1) m(1) show ?thesis
    by (auto simp: apply_entry_payload Let_def)
qed

end

section \<open>Batches of entries\<close>

lemma flat_ops_seqs:
  "flat_ops ctx ops f = (rs, evs, g) \<Longrightarrow>
   sequence (f_sys f) \<le> sequence (f_sys g) \<and> sequence (f_sys g) \<le> sequence (f_sys f) + ops_seqs ops"
proof (induction ops arbitrary: f rs evs)
  case (Cons opn ops)
  obtain rs1 evs1 h where op: "flat_op ctx opn f = (rs1, evs1, h)" by (metis prod.exhaust)
  obtain rs2 evs2 where ops: "flat_ops ctx ops h = (rs2, evs2, g)"
    using Cons.prems op by (auto split: prod.splits)
  from Cons.IH [OF ops] flat_op_seqs [OF op] show ?case by (simp add: ops_seqs_def)
qed (simp add: ops_seqs_def)

lemma flat_cmd_seqs:
  assumes "flat_cmd ctx c f = (st, evs, g)"
  shows "sequence (f_sys f) \<le> sequence (f_sys g) \<and> sequence (f_sys g) \<le> sequence (f_sys f) + cmd_seqs c"
proof (cases c)
  case (CmdUpsertKV up)
  with assms obtain p r where "flat_upsert f ctx up = ((p, r), g)"
    by (auto simp: flat_cmd_def split: prod.splits)
  with flat_upsert_frame(4,5) CmdUpsertKV show ?thesis by (fastforce simp: cmd_seqs_def)
next
  case (Transaction txn)
  obtain path ops where choose: "flat_choose (flat_cond f) txn = (path, ops)" by (metis prod.exhaust)
  with assms Transaction obtain rs where "flat_ops ctx ops f = (rs, evs, g)"
    by (auto simp: flat_cmd_def flat_txn_def split: prod.splits)
  from flat_ops_seqs [OF this] flat_choose_seqs(1) [OF choose] Transaction show ?thesis by simp
qed (use assms in \<open>auto simp: flat_cmd_def Let_def split: if_splits\<close>)

lemma flat_apply_seqs:
  assumes "flat_apply entry f = (st, evs, g)"
  shows "sequence (f_sys f) \<le> sequence (f_sys g) \<and> sequence (f_sys g) \<le> sequence (f_sys f) + entry_seqs entry"
proof -
  let ?F = "\<lambda>s. s\<lparr>last_applied := Some (en_log_id entry)\<rparr>"
  obtain evs1 evs2 h where clean: "flat_clean (get_log_time entry) f = (evs1, h)"
    and pay: "flat_payload entry (h\<lparr>f_sys := ?F (f_sys h)\<rparr>) = (st, evs2, g)"
    using assms by (auto simp: flat_apply_def split: prod.splits)
  have "f_sys h = f_sys f" using clean by (auto simp: flat_clean_def split: if_splits)
  with pay show ?thesis
  proof (cases "en_payload entry")
    case (NormalEntry data)
    with pay flat_cmd_seqs [of _ "le_cmd data" "h\<lparr>f_sys := ?F (f_sys h)\<rparr>"] \<open>f_sys h = f_sys f\<close> show ?thesis
      by (fastforce simp: flat_payload_def entry_seqs_def)
  qed (auto simp: flat_payload_def entry_seqs_def)
qed

definition run_ok :: "('lid, 'mem) entry list \<Rightarrow> ('lid, 'mem) flat \<Rightarrow> bool" where
  "run_ok entries f \<longleftrightarrow>
     list_all entry_ok entries \<and> sequence (f_sys f) + sum_list (map entry_seqs entries) < 2 ^ 64"

lemma delivered_trans: "delivered a evs b \<Longrightarrow> delivered b evs' c \<Longrightarrow> delivered a (evs @ evs') c"
  by (auto simp: delivered_def split: option.splits)

context sm_map
begin

lemma apply_loop_sim:
  assumes "sim (ap_sm a) f" and "run_ok entries f" and "flat_run entries f = (sts, evs, g)"
  shows "\<exists>b. rfold (\<lambda>(out, a) ent. rbind (apply_entry M a ent) (\<lambda>(r, a). Inr (out @ [r], a))) (out, a) entries =
      Inr (out @ sts, b) \<and> sim (ap_sm b) g \<and> (entries = [] \<and> b = a \<or> delivered a evs b)"
  using assms
proof (induction entries arbitrary: a f sts evs out)
  case (Cons entry entries)
  obtain st evs1 h where app: "flat_apply entry f = (st, evs1, h)" by (metis prod.exhaust)
  obtain sts2 evs2 where run: "flat_run entries h = (sts2, evs2, g)" "sts = st # sts2" "evs = evs1 @ evs2"
    using Cons.prems(3) app by (auto split: prod.splits)
  have ok: "entry_ok entry" "sequence (f_sys f) + entry_seqs entry < 2 ^ 64" "run_ok entries h"
    using Cons.prems(2) flat_apply_seqs [OF app] by (auto simp: run_ok_def)
  obtain b where b: "apply_entry M a entry = Inr (st, b)" "sim (ap_sm b) h" "delivered a evs1 b"
    using apply_entry_sim [OF Cons.prems(1) ok(1,2) app] by blast
  obtain c where c: "rfold (\<lambda>(out, a) ent. rbind (apply_entry M a ent) (\<lambda>(r, a). Inr (out @ [r], a))) (out @ [st], b) entries =
      Inr ((out @ [st]) @ sts2, c)" "sim (ap_sm c) g" "entries = [] \<and> c = b \<or> delivered b evs2 c"
    using Cons.IH [OF b(2) ok(3) run(1), of "out @ [st]"] by blast
  have "delivered a evs c"
    using c(3)
  proof
    assume "entries = [] \<and> c = b"
    with b(3) run show ?thesis by simp
  next
    assume "delivered b evs2 c"
    with delivered_trans [OF b(3)] run(3) show ?thesis by simp
  qed
  with b(1) c(1,2) run(2) show ?case by (intro exI [of _ c]) simp
qed simp

lemma apply_entries_sim:
  assumes "sim s f" and "run_ok entries f" and "flat_run entries f = (sts, evs, g)"
  shows "\<exists>s'. apply_entries M s entries = Inr (sts, s') \<and> sim s' g \<and>
    subscriber s' = map_option (\<lambda>sent. sent @ evs) (subscriber s)"
proof -
  have "sim (ap_sm (Applier_new s)) f" using assms(1) by (simp add: Applier_new_def)
  from apply_loop_sim [OF this assms(2,3), of "[]"] obtain b where
    b: "rfold (\<lambda>(out, a) ent. rbind (apply_entry M a ent) (\<lambda>(r, a). Inr (out @ [r], a))) ([], Applier_new s) entries =
      Inr (sts, b)" "sim (ap_sm b) g" "entries = [] \<and> b = Applier_new s \<or> delivered (Applier_new s) evs b"
    by auto
  have "subscriber (ap_sm b) = map_option (\<lambda>sent. sent @ evs) (subscriber s)"
    using b(3) assms(3) by (cases "subscriber s") (auto simp: delivered_def Applier_new_def)
  with b(1,2) show ?thesis by (auto simp: apply_entries_def)
qed

end

end
