(* ===== verification/Replica.thy ===== *)
theory Replica
  imports ApplyRefinement
begin

text \<open>
  A replica: an \<open>SMV003\<close> that applies the log while its store is frozen, compacted and replaced. The
  log it has applied and its replies are recorded beside it. Whatever maintenance is interleaved with
  the log, a replica stands for the reference machine that ran the same log.
\<close>

section \<open>Steps\<close>

record ('lid, 'mem) replica =
  rp_sm :: "('lid, 'mem) smv003"
  rp_compactors :: "('lid, 'mem) compactor list"
  rp_log :: "('lid, 'mem) entry list"
  rp_replies :: "applied_state list"

definition flat_init :: "'mem \<Rightarrow> ('lid, 'mem) flat" where
  "flat_init mem0 = \<lparr>f_kv = [], f_sys = sys_data_default mem0, f_cursor = 0\<rparr>"

definition replica_init :: "'mem \<Rightarrow> event list option \<Rightarrow> ('lid, 'mem) replica" where
  "replica_init mem0 sub =
     \<lparr>rp_sm = (smv003_default mem0)\<lparr>subscriber := sub\<rparr>, rp_compactors = [], rp_log = [], rp_replies = []\<rparr>"

definition replica_world :: "('lid, 'mem) replica \<Rightarrow> ('lid, 'mem) world" where
  "replica_world r = \<lparr>w_map = sm_map (rp_sm r), w_compactors = rp_compactors r\<rparr>"

inductive replica_step :: "env \<Rightarrow> ('lid, 'mem) replica \<Rightarrow> ('lid, 'mem) replica \<Rightarrow> bool" for E where
  apply_log:
    "apply_entries (lm_ops E) (rp_sm r) entries = Inr (replies, s) \<Longrightarrow> list_all entry_ok entries \<Longrightarrow>
     sequence (lv_sys_data (writable (sm_map (rp_sm r)))) + sum_list (map entry_seqs entries) < 2 ^ 64 \<Longrightarrow>
     replica_step E r (r\<lparr>rp_sm := s, rp_log := rp_log r @ entries, rp_replies := rp_replies r @ replies\<rparr>)"
| reorganise:
    "maintain E (replica_world r) w \<Longrightarrow>
     replica_step E r (r\<lparr>rp_sm := (rp_sm r)\<lparr>sm_map := w_map w\<rparr>, rp_compactors := w_compactors w\<rparr>)"

inductive_cases replica_stepE: "replica_step E r r'"

inductive replica_steps :: "env \<Rightarrow> ('lid, 'mem) replica \<Rightarrow> ('lid, 'mem) replica \<Rightarrow> bool" for E where
  replica_refl: "replica_steps E r r"
| replica_more: "replica_steps E r r' \<Longrightarrow> replica_step E r' r'' \<Longrightarrow> replica_steps E r r''"

section \<open>Writes leave the frozen levels alone\<close>

definition lm_framed ::
    "env \<Rightarrow> ('lid, 'mem) immutable_levels \<times> ('lid, 'mem) db option \<times> nat option \<Rightarrow> ('lid, 'mem) leveled_map \<Rightarrow> bool" where
  "lm_framed E fr m \<longleftrightarrow> lm_inv E m \<and> (immutable_levels m, persisted m, current_compactor m) = fr"

lemma lm_framed_set:
  assumes "lm_framed E fr m"
  shows "ma_set (mo_kv (lm_ops E)) m k v = Inr (x, m') \<Longrightarrow> lm_inv E m' \<Longrightarrow> lm_framed E fr m'"
    and "ma_set (mo_exp (lm_ops E)) m ek w = Inr (y, m') \<Longrightarrow> lm_inv E m' \<Longrightarrow> lm_framed E fr m'"
  using assms by (auto simp: lm_framed_def lm_ops_def dest: leveled_set_frame)

interpretation framed: sm_map "lm_ops E" "lm_framed E fr" "lm_kv_view E" "lm_expire_view E"
proof
  fix m :: "('a, 'b) leveled_map" and k v meta ek er r w sd
  assume fr: "lm_framed E fr m"
  then have inv: "lm_inv E m" by (simp add: lm_framed_def)
  note set = lm_framed_set [OF fr]
  show "ma_get (mo_kv (lm_ops E)) m k = Inr (lm_kv_view E m k)" by (rule leveled.kv_get [OF inv])
  show "range_ok r \<Longrightarrow> \<exists>xs. ma_range (mo_kv (lm_ops E)) m r = Inr (map Inr xs) \<and> range_spec (lm_kv_view E m) r xs"
    by (rule leveled.kv_range [OF inv])
  show "ma_get (mo_exp (lm_ops E)) m ek = Inr (lm_expire_view E m ek)" by (rule leveled.exp_get [OF inv])
  show "expire_range_ok er \<Longrightarrow>
      \<exists>xs. ma_range (mo_exp (lm_ops E)) m er = Inr (map Inr xs) \<and> range_spec (lm_expire_view E m) er xs"
    by (rule leveled.exp_range [OF inv])
  show "sequence (mo_sys (lm_ops E) m) < 2 ^ 64" by (rule leveled.seq_bound [OF inv])
  show "sequence (mo_sys (lm_ops E) m) + 1 < 2 ^ 64 \<Longrightarrow>
      \<exists>m'. ma_set (mo_kv (lm_ops E)) m k (Some (v, meta)) =
          Inr ((lm_kv_view E m k, Normal (sequence (mo_sys (lm_ops E) m) + 1) v meta), m') \<and> lm_framed E fr m' \<and>
        lm_kv_view E m' = (lm_kv_view E m)(k := Normal (sequence (mo_sys (lm_ops E) m) + 1) v meta) \<and>
        lm_expire_view E m' = lm_expire_view E m \<and>
        mo_sys (lm_ops E) m' = (mo_sys (lm_ops E) m)\<lparr>sequence := sequence (mo_sys (lm_ops E) m) + 1\<rparr>"
    using leveled.kv_set [OF inv, of k v meta] set(1) by blast
  show "\<exists>m' t. ma_set (mo_kv (lm_ops E)) m k None = Inr ((lm_kv_view E m k, TombStone t), m') \<and> lm_framed E fr m' \<and>
        lm_kv_view E m' = (lm_kv_view E m)(k := TombStone t) \<and> lm_expire_view E m' = lm_expire_view E m \<and>
        mo_sys (lm_ops E) m' = mo_sys (lm_ops E) m"
    using leveled.kv_del [OF inv, of k] set(1) by blast
  show "sequence (mo_sys (lm_ops E) m) \<noteq> 0 \<Longrightarrow> is_not_found (lm_expire_view E m ek) \<Longrightarrow>
      expire_key_u64 ek \<Longrightarrow> valid_str w \<Longrightarrow>
      \<exists>m'. ma_set (mo_exp (lm_ops E)) m ek (Some (w, meta)) =
          Inr ((lm_expire_view E m ek, Normal (sequence (mo_sys (lm_ops E) m)) w meta), m') \<and> lm_framed E fr m' \<and>
        lm_expire_view E m' = (lm_expire_view E m)(ek := Normal (sequence (mo_sys (lm_ops E) m)) w meta) \<and>
        lm_kv_view E m' = lm_kv_view E m \<and> mo_sys (lm_ops E) m' = mo_sys (lm_ops E) m"
    using leveled.exp_set [OF inv, of ek w meta] set(2) by blast
  show "expire_key_u64 ek \<Longrightarrow>
      \<exists>m' t. ma_set (mo_exp (lm_ops E)) m ek None = Inr ((lm_expire_view E m ek, TombStone t), m') \<and> lm_framed E fr m' \<and>
        lm_expire_view E m' = (lm_expire_view E m)(ek := TombStone t) \<and> lm_kv_view E m' = lm_kv_view E m \<and>
        mo_sys (lm_ops E) m' = mo_sys (lm_ops E) m"
    using leveled.exp_del [OF inv, of ek] set(2) by blast
  show "sequence sd = sequence (mo_sys (lm_ops E) m) \<Longrightarrow>
      lm_framed E fr (mo_set_sys (lm_ops E) m sd) \<and> mo_sys (lm_ops E) (mo_set_sys (lm_ops E) m sd) = sd \<and>
      lm_kv_view E (mo_set_sys (lm_ops E) m sd) = lm_kv_view E m \<and>
      lm_expire_view E (mo_set_sys (lm_ops E) m sd) = lm_expire_view E m"
    using leveled.set_sys [OF inv, of sd] fr by (auto simp: lm_framed_def lm_ops_def)
qed

lemma sim_framed:
  "sm_sim (lm_ops E) (lm_framed E fr) (lm_kv_view E) (lm_expire_view E) s f \<longleftrightarrow>
     sm_sim (lm_ops E) (lm_inv E) (lm_kv_view E) (lm_expire_view E) s f \<and>
     (immutable_levels (sm_map s), persisted (sm_map s), current_compactor (sm_map s)) = fr"
  by (auto simp: sm_sim_def lm_framed_def)

section \<open>The invariant\<close>

lemma flat_init_inv: "flat_inv (flat_init mem0)"
  by (simp add: flat_inv_def flat_init_def btree_ok_def)

lemma smv003_default_sim:
  assumes "env_ok E"
  shows "sm_sim (lm_ops E) (lm_inv E) (lm_kv_view E) (lm_expire_view E)
    ((smv003_default mem0)\<lparr>subscriber := sub\<rparr>) (flat_init mem0)"
  using lm_inv_default [OF assms, of mem0] flat_init_inv [of mem0]
  by (simp add: sm_sim_def smv003_default_def flat_init_def flat_index_def lm_ops_def leveled_map_default_def
      level_default_def lm_kv_view_def lm_expire_view_def kv_tables_def expire_tables_def iter_levels_def
      iter_immutable_levels_def iter_persisted_def)

lemma flat_run_append:
  "flat_run (xs @ ys) f = (case flat_run xs f of (sts, evs, g) \<Rightarrow>
     case flat_run ys g of (sts', evs', h) \<Rightarrow> (sts @ sts', evs @ evs', h))"
  by (induction xs arbitrary: f) (auto split: prod.splits)

text \<open>Reorganising the store changes nothing the state machine reads.\<close>

lemma maintain_sim:
  assumes "maintain E w w'" and "world_inv E w"
    and "sm_sim (lm_ops E) (lm_inv E) (lm_kv_view E) (lm_expire_view E) (s\<lparr>sm_map := w_map w\<rparr>) f"
  shows "sm_sim (lm_ops E) (lm_inv E) (lm_kv_view E) (lm_expire_view E) (s\<lparr>sm_map := w_map w'\<rparr>) f"
  using assms
proof (induction rule: maintain.induct)
  case (freeze w uniq)
  then have "lm_inv E (w_map w)" by (simp add: world_inv_def)
  from freeze_writable_correct [OF this, of uniq] freeze.prems(2) show ?case
    by (auto simp: sm_sim_def lm_ops_def)
next
  case (acquire w chan c lm')
  note a = acquire_alone [OF acquire.prems(1) acquire.hyps]
  then have lm': "lm' = (w_map w)\<lparr>current_compactor := Some chan\<rparr>" by (simp add: new_compactor_def)
  have "lm_kv_view E lm' = lm_kv_view E (w_map w)" "lm_expire_view E lm' = lm_expire_view E (w_map w)"
    by (simp_all add: lm' lm_kv_view_def lm_expire_view_def kv_tables_def expire_tables_def iter_levels_def iter_persisted_def)
  with acquire.prems(2) show ?case
    by (auto simp: sm_sim_def lm' lm_ops_def lm_inv_current_compactor)
next
  case (replace c w sys t d lm')
  have inv: "lm_inv E (w_map w)" and c: "compacts c (w_map w)"
    using replace.prems(1) replace.hyps(1) by (simp_all add: world_inv_def)
  have lm': "lm_inv E lm'" "writable lm' = writable (w_map w)"
    "\<And>k. marked_to_seqv (lm_kv_view E lm' k) = marked_to_seqv (lm_kv_view E (w_map w) k)"
    "\<And>k. marked_to_seqv (lm_expire_view E lm' k) = marked_to_seqv (lm_expire_view E (w_map w) k)"
    "\<And>k. \<not> is_not_found (lm_expire_view E lm' k) \<Longrightarrow> \<not> is_not_found (lm_expire_view E (w_map w) k)"
    using replace_with_compacted_correct [OF inv c replace.hyps(2,3,4)] replace.hyps(5) by auto
  have "marked_value (lm_expire_view E lm' k) = marked_value (lm_expire_view E (w_map w) k)" for k
    using lm'(4) [of k] by (metis opt_value_marked)
  with lm' replace.prems(2) show ?case by (auto simp: sm_sim_def lm_ops_def)
qed simp

definition replica_inv :: "env \<Rightarrow> 'mem \<Rightarrow> event list option \<Rightarrow> ('lid, 'mem) replica \<Rightarrow> bool" where
  "replica_inv E mem0 sub r \<longleftrightarrow>
     world_inv E (replica_world r) \<and>
     (\<exists>evs f. flat_run (rp_log r) (flat_init mem0) = (rp_replies r, evs, f) \<and>
        sm_sim (lm_ops E) (lm_inv E) (lm_kv_view E) (lm_expire_view E) (rp_sm r) f \<and>
        subscriber (rp_sm r) = map_option (\<lambda>sent. sent @ evs) sub)"

lemma replica_inv_init: "env_ok E \<Longrightarrow> replica_inv E mem0 sub (replica_init mem0 sub)"
  using smv003_default_sim [of E sub mem0] world_inv_init [of E mem0]
  by (cases sub) (simp_all add: replica_inv_def replica_init_def replica_world_def world_init_def smv003_default_def)

lemma replica_inv_apply:
  assumes inv: "replica_inv E mem0 sub r" and app: "apply_entries (lm_ops E) (rp_sm r) entries = Inr (replies, s)"
    and ok: "list_all entry_ok entries"
    and room: "sequence (lv_sys_data (writable (sm_map (rp_sm r)))) + sum_list (map entry_seqs entries) < 2 ^ 64"
  shows "replica_inv E mem0 sub (r\<lparr>rp_sm := s, rp_log := rp_log r @ entries, rp_replies := rp_replies r @ replies\<rparr>)"
proof -
  let ?m = "sm_map (rp_sm r)"
  let ?fr = "(immutable_levels ?m, persisted ?m, current_compactor ?m)"
  obtain evs f where run: "flat_run (rp_log r) (flat_init mem0) = (rp_replies r, evs, f)"
    and sim: "sm_sim (lm_ops E) (lm_inv E) (lm_kv_view E) (lm_expire_view E) (rp_sm r) f"
    and sub: "subscriber (rp_sm r) = map_option (\<lambda>sent. sent @ evs) sub"
    using inv by (auto simp: replica_inv_def)
  then have fsim: "sm_sim (lm_ops E) (lm_framed E ?fr) (lm_kv_view E) (lm_expire_view E) (rp_sm r) f"
    by (simp add: sim_framed)
  have "f_sys f = lv_sys_data (writable ?m)" using sim by (simp add: sm_sim_def lm_ops_def)
  with ok room have "run_ok entries f" by (simp add: run_ok_def)
  moreover obtain sts evs' g where run': "flat_run entries f = (sts, evs', g)" by (metis prod.exhaust)
  ultimately have res: "replies = sts" "sm_sim (lm_ops E) (lm_framed E ?fr) (lm_kv_view E) (lm_expire_view E) s g"
      "subscriber s = map_option (\<lambda>sent. sent @ evs') (subscriber (rp_sm r))"
    using framed.apply_entries_sim [OF fsim, of entries] app by auto
  then have sim': "sm_sim (lm_ops E) (lm_inv E) (lm_kv_view E) (lm_expire_view E) s g"
    and fr: "(immutable_levels (sm_map s), persisted (sm_map s), current_compactor (sm_map s)) = ?fr"
    by (simp_all add: sim_framed)
  have "world_inv E \<lparr>w_map = sm_map s, w_compactors = rp_compactors r\<rparr>"
    using inv sim' fr by (auto simp: replica_inv_def world_inv_def replica_world_def sm_sim_def compacts_def)
  with run run' res(1,3) sim' sub show ?thesis
    by (cases sub) (simp_all add: replica_inv_def replica_world_def flat_run_append)
qed

lemma replica_inv_step: "replica_step E r r' \<Longrightarrow> replica_inv E mem0 sub r \<Longrightarrow> replica_inv E mem0 sub r'"
proof (induction rule: replica_step.induct)
  case (apply_log r entries replies s)
  then show ?case by (intro replica_inv_apply)
next
  case (reorganise r w)
  have "world_inv E w" using world_inv_maintain reorganise by (auto simp: replica_inv_def)
  then have "world_inv E \<lparr>w_map = w_map w, w_compactors = w_compactors w\<rparr>" by (simp add: world_inv_def)
  moreover obtain evs f where "flat_run (rp_log r) (flat_init mem0) = (rp_replies r, evs, f)"
    and "sm_sim (lm_ops E) (lm_inv E) (lm_kv_view E) (lm_expire_view E) (rp_sm r) f"
    and "subscriber (rp_sm r) = map_option (\<lambda>sent. sent @ evs) sub"
    using reorganise.prems by (auto simp: replica_inv_def)
  moreover from this have "sm_sim (lm_ops E) (lm_inv E) (lm_kv_view E) (lm_expire_view E) ((rp_sm r)\<lparr>sm_map := w_map w\<rparr>) f"
    using maintain_sim [OF reorganise.hyps, of "rp_sm r" f] reorganise.prems
    by (simp add: replica_inv_def replica_world_def)
  ultimately show ?case by (simp add: replica_inv_def replica_world_def)
qed

lemma replica_inv_steps: "replica_steps E r r' \<Longrightarrow> replica_inv E mem0 sub r \<Longrightarrow> replica_inv E mem0 sub r'"
  by (induction rule: replica_steps.induct) (simp_all add: replica_inv_step)

section \<open>What a replica returns\<close>

lemma replica_sim:
  assumes "env_ok E" and "replica_steps E (replica_init mem0 sub) r"
  obtains evs f where "flat_run (rp_log r) (flat_init mem0) = (rp_replies r, evs, f)"
    and "sm_sim (lm_ops E) (lm_inv E) (lm_kv_view E) (lm_expire_view E) (rp_sm r) f"
    and "subscriber (rp_sm r) = map_option (\<lambda>sent. sent @ evs) sub"
  using replica_inv_steps [OF assms(2) replica_inv_init [OF assms(1)]] that by (auto simp: replica_inv_def)

text \<open>The cursor is at least the time of every entry applied.\<close>

lemma flat_cmd_cursor: "flat_cmd ctx c f = (st, evs, g) \<Longrightarrow> f_cursor g = f_cursor f"
proof (cases c)
  case (CmdUpsertKV up)
  assume "flat_cmd ctx c f = (st, evs, g)"
  with CmdUpsertKV obtain p r where "flat_upsert f ctx up = ((p, r), g)" by (auto simp: flat_cmd_def split: prod.splits)
  then show ?thesis by (rule flat_upsert_frame(3))
next
  case (Transaction txn)
  have op: "flat_op ctx opn f = (rs, evs, g) \<Longrightarrow> f_cursor g = f_cursor f" for opn f rs evs and g :: "('a, 'b) flat"
    by (auto simp: flat_op_def dest: flat_upsert_frame(3) split: option.splits txn_op_request.splits prod.splits)
  have ops: "flat_ops ctx ops f = (rs, evs, g) \<Longrightarrow> f_cursor g = f_cursor f" for ops f rs evs and g :: "('a, 'b) flat"
    by (induction ops arbitrary: f rs evs) (auto dest: op split: prod.splits)
  assume "flat_cmd ctx c f = (st, evs, g)"
  with Transaction ops show ?thesis by (auto simp: flat_cmd_def flat_txn_def split: prod.splits)
qed (auto simp: flat_cmd_def Let_def split: if_splits)

lemma flat_apply_cursor:
  assumes "flat_apply entry f = (st, evs, g)"
  shows "f_cursor g = max (f_cursor f) (get_log_time entry)"
proof -
  obtain evs1 h where clean: "flat_clean (get_log_time entry) f = (evs1, h)" by (metis prod.exhaust)
  then have "f_cursor h = max (f_cursor f) (get_log_time entry)" by (auto simp: flat_clean_def split: if_splits)
  moreover have "f_cursor g = f_cursor h"
    using assms clean
    by (cases "en_payload entry") (auto simp: flat_apply_def flat_payload_def dest: flat_cmd_cursor split: prod.splits)
  ultimately show ?thesis by simp
qed

lemma flat_run_cursor:
  "flat_run entries f = (sts, evs, g) \<Longrightarrow> f_cursor f \<le> f_cursor g \<and> (\<forall>e \<in> set entries. get_log_time e \<le> f_cursor g)"
proof (induction entries arbitrary: f sts evs)
  case (Cons entry entries)
  obtain st evs1 h where app: "flat_apply entry f = (st, evs1, h)" by (metis prod.exhaust)
  obtain sts2 evs2 where "flat_run entries h = (sts2, evs2, g)" using Cons.prems app by (auto split: prod.splits)
  from Cons.IH [OF this] flat_apply_cursor [OF app] show ?case by auto
qed simp

end
