(* ===== verification/ReferenceEnv.thy ===== *)
theory ReferenceEnv
  imports LeveledMap
begin

text \<open>
  An instance of the code the store only calls: an encoding of metadata and of snapshot rows, and a
  table file kept in memory. It satisfies the contracts \<open>codec_ok\<close>, \<open>rotbl_ok\<close> and
  \<open>env_ok\<close>, so these can be met, and concrete runs of the store can be evaluated against it.
\<close>

fun meta_code :: "kv_meta option \<Rightarrow> rstr" where
  "meta_code None = []"
| "meta_code (Some m) = (case km_expire_at m of None \<Rightarrow> [0] | Some e \<Rightarrow> [1, e])"

fun meta_uncode :: "rstr \<Rightarrow> kv_meta option" where
  "meta_uncode [] = None"
| "meta_uncode [_] = Some \<lparr>km_expire_at = None\<rparr>"
| "meta_uncode (_ # e # _) = Some \<lparr>km_expire_at = Some e\<rparr>"

definition codec_ref :: codec where
  "codec_ref =
     \<lparr>json_of_meta = (\<lambda>m. Inr (meta_code m)),
      meta_of_json = (\<lambda>s. Inr (meta_uncode s)),
      bincode_encode = (\<lambda>(ver, s, d). Inr (ver # length s # s @ d)),
      bincode_decode = (\<lambda>b. case b of ver # n # xs \<Rightarrow> Inr ((ver, take n xs, drop n xs), length b)
                                   | _ \<Rightarrow> Inl (IoError InvalidData)),
      sm_order_key = (\<lambda>m. case m of SmTombstone s \<Rightarrow> SeqTombstone s True | SmNormal s _ \<Rightarrow> SeqTombstone s False)\<rparr>"

definition env_ref :: env where
  "env_ref = \<lparr>e_kv = stream_more_ref, e_expire = stream_more_ref, e_rotbl = stream_more_ref, e_codec = codec_ref\<rparr>"

definition rotbl_ref :: "(rstr, seq_marked) btree \<Rightarrow> rotbl" where
  "rotbl_ref t =
     \<lparr>rotbl_get = (\<lambda>k. Inr (btree_get t k)), rotbl_range = (\<lambda>r. map Inr (filter (\<lambda>(k, v). in_bounds r k) t))\<rparr>"

lemma meta_uncode_code: "meta_uncode (meta_code m) = m"
  by (cases m) (auto split: option.split)

lemma codec_ref_ok: "codec_ok codec_ref"
  by (auto simp: codec_ok_def codec_ref_def meta_uncode_code)

lemma env_ref_ok: "env_ok env_ref"
  by (simp add: env_ok_def env_ref_def stream_more_ref_ok codec_ref_ok)

lemma rotbl_ref_ok: "btree_ok t \<Longrightarrow> rotbl_ok (rotbl_ref t) t"
  by (simp add: rotbl_ok_def rotbl_ref_def)

end
