(* ===== verification/SampleRun.thy ===== *)
theory SampleRun
  imports Replica ReferenceEnv
begin

text \<open>
  A sample log and replicas that applied it, on which the properties of the state machine are
  evaluated: a value that expires, a value that is frozen before the log goes on, a transaction.
\<close>

definition log_at :: "nat \<Rightarrow> nat \<Rightarrow> cmd \<Rightarrow> (nat, unit) entry" where
  "log_at i t c = \<lparr>en_log_id = i, en_payload = NormalEntry \<lparr>le_txid = None, le_time_ms = Some t, le_cmd = c\<rparr>\<rparr>"

definition sample_log :: "(nat, unit) entry list" where
  "sample_log =
     [log_at 1 1000 (CmdUpsertKV (with_meta_spec (UpsertKV_update (str ''a'') [1]) (MetaSpec_new_expire 5))),
      log_at 2 2000 (CmdUpsertKV (UpsertKV_update (str ''ab'') [2]))]"

definition sample_flat :: "(nat, unit) flat" where
  "sample_flat =
     \<lparr>f_kv = [(str ''a'', SeqV_with_meta 1 (Some (KVMeta_new (Some 5))) [1]), (str ''ab'', SeqV_with_meta 2 None [2])],
      f_sys = (sys_data_default ())\<lparr>last_applied := Some 2, sequence := 2\<rparr>, f_cursor = 2000\<rparr>"

text \<open>Evaluation of the reference machine on concrete entries.\<close>

lemmas flat_eval = flat_apply_def flat_payload_def flat_cmd_def log_at_def flat_clean_def
  get_log_time_def flat_init_def sys_data_default_def flat_upsert_def flat_put_def UpsertKV_update_def
  with_meta_spec_def seq_matches_def MetaSpec_new_expire_def to_kv_meta_def KVMeta_new_def change_events_def Let_def
  flat_expired_def expired_before_def sv_expires_def SeqV_with_meta_def meta_expires_at_ms_opt_def
  opt_expires_at_ms_eq get_expire_at_ms_def u64_mul_def u64_max_def str_def btree_get_def

lemma sample_run: "flat_run sample_log (flat_init ()) =
    ([StateKV (Change_new None (Some (SeqV_with_meta 1 (Some (KVMeta_new (Some 5))) [1]))),
      StateKV (Change_new None (Some (SeqV_with_meta 2 None [2])))],
     [(str ''a'', None, Some (SeqV_with_meta 1 (Some (KVMeta_new (Some 5))) [1])),
      (str ''ab'', None, Some (SeqV_with_meta 2 None [2]))],
     sample_flat)"
  by (simp add: flat_eval sample_log_def sample_flat_def) (simp add: numeral_2_eq_2)

lemma sample_ok: "run_ok sample_log (flat_init ())"
  by (simp add: run_ok_def sample_log_def log_at_def entry_ok_def get_log_time_def cmd_ok_def with_meta_spec_def
      UpsertKV_update_def entry_seqs_def cmd_seqs_def upsert_seqs_def flat_init_def sys_data_default_def str_def
      valid_str_def valid_char_def)

text \<open>The store is frozen after the log.\<close>

lemma sample_replica:
  obtains r where "replica_steps env_ref (replica_init () sub) r" and "rp_log r = sample_log"
    and "immutable_levels (sm_map (rp_sm r)) \<noteq> []"
proof -
  let ?r0 = "replica_init () sub :: (nat, unit) replica"
  have sim: "sm_sim (lm_ops env_ref) (lm_inv env_ref) (lm_kv_view env_ref) (lm_expire_view env_ref) (rp_sm ?r0) (flat_init ())"
    using smv003_default_sim [OF env_ref_ok] by (simp add: replica_init_def)
  obtain sts s where s: "apply_entries (lm_ops env_ref) (rp_sm ?r0) sample_log = Inr (sts, s)"
    using leveled.apply_entries_sim [OF sim sample_ok sample_run] by blast
  let ?r1 = "?r0\<lparr>rp_sm := s, rp_log := rp_log ?r0 @ sample_log, rp_replies := rp_replies ?r0 @ sts\<rparr>"
  have sys: "lv_sys_data (writable (sm_map (rp_sm ?r0))) = sys_data_default ()"
    by (simp add: replica_init_def smv003_default_def leveled_map_default_def level_default_def)
  have "replica_step env_ref ?r0 ?r1"
    using sample_ok by (intro apply_log [OF s]) (simp_all add: sys run_ok_def flat_init_def)
  moreover have "replica_step env_ref ?r1 (?r1\<lparr>rp_sm := (rp_sm ?r1)\<lparr>sm_map :=
      w_map ((replica_world ?r1)\<lparr>w_map := freeze_writable 0 (w_map (replica_world ?r1))\<rparr>)\<rparr>,
      rp_compactors := w_compactors ((replica_world ?r1)\<lparr>w_map := freeze_writable 0 (w_map (replica_world ?r1))\<rparr>)\<rparr>)"
    (is "replica_step env_ref _ ?r2")
    by (rule reorganise [OF freeze])
  ultimately have "replica_steps env_ref ?r0 ?r2" by (blast intro: replica_refl replica_more)
  moreover have "rp_log ?r2 = sample_log" by (simp add: replica_init_def)
  moreover have "immutable_levels (sm_map (rp_sm ?r2)) \<noteq> []"
    by (simp add: freeze_writable_def il_push_def replica_world_def)
  ultimately show ?thesis by (rule that)
qed

end
