(* ===== verification/MachineProps.thy ===== *)
theory MachineProps
  imports SampleRun
begin

text \<open>
  Properties of the replicated state machine as a whole: what a replica returns, that replicas agree,
  and what holds of every state a replica reaches.
\<close>

section \<open>Replicas and the reference machine\<close>

text \<open>
  C1. A replica that started empty and applied a log, with freezing, compaction and replacement of
  its store interleaved in any way, has given the replies the reference machine gives for this log,
  and every key, every prefix listing and the system data read as in the reference machine.
\<close>

theorem replica_refines_reference:
  assumes "env_ok E" and "replica_steps E (replica_init mem0 sub) r"
  shows "\<exists>evs f. flat_run (rp_log r) (flat_init mem0) = (rp_replies r, evs, f) \<and>
    (\<forall>k. get_maybe_expired_kv (lm_ops E) (rp_sm r) k = Inr (btree_get (f_kv f) k)) \<and>
    (\<forall>p. list_kv (lm_ops E) (rp_sm r) p = Inr (map Inr (flat_list f p))) \<and>
    lv_sys_data (writable (sm_map (rp_sm r))) = f_sys f"
proof -
  obtain evs f where run: "flat_run (rp_log r) (flat_init mem0) = (rp_replies r, evs, f)"
    and sim: "sm_sim (lm_ops E) (lm_inv E) (lm_kv_view E) (lm_expire_view E) (rp_sm r) f"
    by (rule replica_sim [OF assms])
  have "lv_sys_data (writable (sm_map (rp_sm r))) = f_sys f"
    using leveled.simD(3) [OF sim] by (simp add: lm_ops_def)
  with run leveled.get_sim [OF sim] leveled.list_kv_sim [OF sim] show ?thesis by blast
qed

theorem replica_refines_reference_witness:
  "\<exists>r. replica_steps env_ref (replica_init () None) r \<and> rp_log r = sample_log \<and>
     get_maybe_expired_kv (lm_ops env_ref) (rp_sm r) (str ''ab'') = Inr (Some (SeqV_with_meta 2 None [2])) \<and>
     list_kv (lm_ops env_ref) (rp_sm r) (str ''ab'') = Inr [Inr (str ''ab'', SeqV_with_meta 2 None [2])]"
proof -
  obtain r where r: "replica_steps env_ref (replica_init () None) r" "rp_log r = sample_log"
    by (rule sample_replica)
  from replica_refines_reference [OF env_ref_ok r(1)] r show ?thesis
    by (intro exI [of _ r]) (auto simp: sample_run sample_flat_def flat_list_def str_def btree_get_def)
qed

text \<open>
  C2. Replicas agree: two replicas that applied the same log have given the same replies and return
  the same entry for every key, the same listing for every prefix and the same system data, however
  their stores were frozen and compacted.
\<close>

theorem replicas_agree:
  assumes "env_ok E" and "replica_steps E (replica_init mem0 sub) r"
    and "env_ok E'" and "replica_steps E' (replica_init mem0 sub') r'" and "rp_log r = rp_log r'"
  shows "rp_replies r = rp_replies r' \<and>
    (\<forall>k. get_maybe_expired_kv (lm_ops E) (rp_sm r) k = get_maybe_expired_kv (lm_ops E') (rp_sm r') k) \<and>
    (\<forall>p. list_kv (lm_ops E) (rp_sm r) p = list_kv (lm_ops E') (rp_sm r') p) \<and>
    lv_sys_data (writable (sm_map (rp_sm r))) = lv_sys_data (writable (sm_map (rp_sm r')))"
proof -
  obtain evs f where run: "flat_run (rp_log r) (flat_init mem0) = (rp_replies r, evs, f)"
    and sim: "sm_sim (lm_ops E) (lm_inv E) (lm_kv_view E) (lm_expire_view E) (rp_sm r) f"
    by (rule replica_sim [OF assms(1,2)])
  obtain evs' f' where run': "flat_run (rp_log r') (flat_init mem0) = (rp_replies r', evs', f')"
    and sim': "sm_sim (lm_ops E') (lm_inv E') (lm_kv_view E') (lm_expire_view E') (rp_sm r') f'"
    by (rule replica_sim [OF assms(3,4)])
  have ff: "rp_replies r = rp_replies r'" "f = f'" using run run' assms(5) by simp_all
  have "lv_sys_data (writable (sm_map (rp_sm r))) = f_sys f" "lv_sys_data (writable (sm_map (rp_sm r'))) = f_sys f'"
    using leveled.simD(3) [OF sim] leveled.simD(3) [OF sim'] by (simp_all add: lm_ops_def)
  with ff leveled.get_sim [OF sim] leveled.get_sim [OF sim'] leveled.list_kv_sim [OF sim] leveled.list_kv_sim [OF sim']
  show ?thesis by simp
qed

theorem replicas_agree_witness:
  "\<exists>(r :: (nat, unit) replica) r'. replica_steps env_ref (replica_init () None) r \<and>
     replica_steps env_ref (replica_init () (Some [])) r' \<and> rp_log r = sample_log \<and> rp_log r' = sample_log \<and>
     rp_replies r = rp_replies r' \<and>
     get_maybe_expired_kv (lm_ops env_ref) (rp_sm r) (str ''a'') = get_maybe_expired_kv (lm_ops env_ref) (rp_sm r') (str ''a'')"
proof -
  obtain r where r: "replica_steps env_ref (replica_init () None) r" "rp_log r = sample_log"
    by (rule sample_replica)
  obtain r' where r': "replica_steps env_ref (replica_init () (Some [])) r'" "rp_log r' = sample_log"
    by (rule sample_replica)
  from replicas_agree [OF env_ref_ok r(1) env_ref_ok r'(1)] r r' show ?thesis by (metis (no_types))
qed

text \<open>
  C3. Applying well-formed entries to a replica never fails: no I/O error, assertion, unreachable
  code or broken expiration index is met, as long as sequence numbers do not run out.
\<close>

theorem replica_apply_total:
  assumes "env_ok E" and "replica_steps E (replica_init mem0 sub) r" and "list_all entry_ok entries"
    and "sequence (lv_sys_data (writable (sm_map (rp_sm r)))) + sum_list (map entry_seqs entries) < 2 ^ 64"
  shows "\<exists>replies s. apply_entries (lm_ops E) (rp_sm r) entries = Inr (replies, s) \<and> length replies = length entries"
proof -
  obtain evs f where sim: "sm_sim (lm_ops E) (lm_inv E) (lm_kv_view E) (lm_expire_view E) (rp_sm r) f"
    by (rule replica_sim [OF assms(1,2)])
  have "lv_sys_data (writable (sm_map (rp_sm r))) = f_sys f"
    using leveled.simD(3) [OF sim] by (simp add: lm_ops_def)
  with assms(3,4) have ok: "run_ok entries f" by (simp add: run_ok_def)
  obtain sts evs' g where run: "flat_run entries f = (sts, evs', g)" by (metis prod.exhaust)
  have "length sts = length entries"
    using run by (induction entries arbitrary: f sts evs') (auto split: prod.splits)
  with leveled.apply_entries_sim [OF sim ok run] show ?thesis by blast
qed

theorem replica_apply_total_witness:
  "\<exists>replies s. apply_entries (lm_ops env_ref) (rp_sm (replica_init () None :: (nat, unit) replica)) sample_log =
     Inr (replies, s) \<and> length replies = length sample_log"
proof -
  have "list_all entry_ok sample_log"
    "sequence (lv_sys_data (writable (sm_map (rp_sm (replica_init () None :: (nat, unit) replica))))) +
       sum_list (map entry_seqs sample_log) < 2 ^ 64"
    using sample_ok
    by (simp_all add: run_ok_def replica_init_def smv003_default_def leveled_map_default_def level_default_def flat_init_def)
  from replica_apply_total [OF env_ref_ok replica_refl this] show ?thesis .
qed

section \<open>States a replica reaches\<close>

text \<open>
  C4. No expired entry survives: an entry a replica returns never expires before the time of a log
  entry the replica has applied.
\<close>

theorem replica_no_expired:
  assumes "env_ok E" and "replica_steps E (replica_init mem0 sub) r" and "en \<in> set (rp_log r)"
    and "get_maybe_expired_kv (lm_ops E) (rp_sm r) k = Inr (Some v)" and "meta_expires_at_ms_opt (sv_meta v) = Some e"
  shows "get_log_time en \<le> e"
proof -
  obtain evs f where run: "flat_run (rp_log r) (flat_init mem0) = (rp_replies r, evs, f)"
    and sim: "sm_sim (lm_ops E) (lm_inv E) (lm_kv_view E) (lm_expire_view E) (rp_sm r) f"
    by (rule replica_sim [OF assms(1,2)])
  have "btree_get (f_kv f) k = Some v" using leveled.get_sim [OF sim, of k] assms(4) by simp
  moreover have "sv_expires v = Some e" using assms(5) by (simp add: sv_expires_def)
  ultimately have "f_cursor f \<le> e" using flat_invD(4) [OF leveled.simD(2) [OF sim]] by blast
  with flat_run_cursor [OF run] assms(3) show ?thesis by fastforce
qed

theorem replica_no_expired_witness:
  "\<exists>r v. replica_steps env_ref (replica_init () None) r \<and> log_at 2 2000 (CmdUpsertKV (UpsertKV_update (str ''ab'') [2])) \<in> set (rp_log r) \<and>
     get_maybe_expired_kv (lm_ops env_ref) (rp_sm r) (str ''a'') = Inr (Some v) \<and>
     meta_expires_at_ms_opt (sv_meta v) = Some 5000 \<and> (2000::nat) \<le> 5000"
proof -
  obtain r where r: "replica_steps env_ref (replica_init () None) r" "rp_log r = sample_log"
    by (rule sample_replica)
  let ?v = "SeqV_with_meta 1 (Some (KVMeta_new (Some 5))) [1]"
  let ?en = "log_at 2 2000 (CmdUpsertKV (UpsertKV_update (str ''ab'') [2]))"
  obtain evs f where run: "flat_run (rp_log r) (flat_init ()) = (rp_replies r, evs, f)"
    and sim: "sm_sim (lm_ops env_ref) (lm_inv env_ref) (lm_kv_view env_ref) (lm_expire_view env_ref) (rp_sm r) f"
    by (rule replica_sim [OF env_ref_ok r(1)])
  have get: "get_maybe_expired_kv (lm_ops env_ref) (rp_sm r) (str ''a'') = Inr (Some ?v)"
    using leveled.get_sim [OF sim] run r(2) by (auto simp: sample_run sample_flat_def str_def btree_get_def)
  have en: "?en \<in> set (rp_log r)" using r(2) by (simp add: sample_log_def)
  have e: "meta_expires_at_ms_opt (sv_meta ?v) = Some 5000"
    by (simp add: meta_expires_at_ms_opt_def SeqV_with_meta_def KVMeta_new_def get_expire_at_ms_def u64_mul_def)
  have "(2000::nat) \<le> 5000"
    using replica_no_expired [OF env_ref_ok r(1) en get e] by (simp add: get_log_time_def log_at_def)
  with r get en e show ?thesis by blast
qed

text \<open>
  C5. Sequence numbers identify entries: every entry a replica returns has a sequence number between
  one and the replica's current one, and two keys never share one.
\<close>

theorem replica_sequence_numbers:
  assumes "env_ok E" and "replica_steps E (replica_init mem0 sub) r"
    and "get_maybe_expired_kv (lm_ops E) (rp_sm r) k = Inr (Some v)"
  shows "1 \<le> sv_seq v \<and> sv_seq v \<le> sequence (lv_sys_data (writable (sm_map (rp_sm r)))) \<and>
    (\<forall>k' v'. get_maybe_expired_kv (lm_ops E) (rp_sm r) k' = Inr (Some v') \<longrightarrow> sv_seq v' = sv_seq v \<longrightarrow> k' = k)"
proof -
  obtain evs f where sim: "sm_sim (lm_ops E) (lm_inv E) (lm_kv_view E) (lm_expire_view E) (rp_sm r) f"
    by (rule replica_sim [OF assms(1,2)])
  note i = flat_invD [OF leveled.simD(2) [OF sim]]
  have "lv_sys_data (writable (sm_map (rp_sm r))) = f_sys f"
    using leveled.simD(3) [OF sim] by (simp add: lm_ops_def)
  with i(3) [of k v] i(5) assms(3) show ?thesis by (auto simp: leveled.get_sim [OF sim])
qed

theorem replica_sequence_numbers_witness:
  "\<exists>(r :: (nat, unit) replica) v. replica_steps env_ref (replica_init () None) r \<and>
     get_maybe_expired_kv (lm_ops env_ref) (rp_sm r) (str ''ab'') = Inr (Some v) \<and> sv_seq v = 2 \<and>
     sv_seq v \<le> sequence (lv_sys_data (writable (sm_map (rp_sm r))))"
proof -
  obtain r where r: "replica_steps env_ref (replica_init () None) r" "rp_log r = sample_log"
    by (rule sample_replica)
  obtain evs f where run: "flat_run (rp_log r) (flat_init ()) = (rp_replies r, evs, f)"
    and sim: "sm_sim (lm_ops env_ref) (lm_inv env_ref) (lm_kv_view env_ref) (lm_expire_view env_ref) (rp_sm r) f"
    by (rule replica_sim [OF env_ref_ok r(1)])
  have get: "get_maybe_expired_kv (lm_ops env_ref) (rp_sm r) (str ''ab'') = Inr (Some (SeqV_with_meta 2 None [2]))"
    using leveled.get_sim [OF sim] run r(2) by (auto simp: sample_run sample_flat_def str_def btree_get_def)
  have "sv_seq (SeqV_with_meta 2 None [2 :: nat]) \<le> sequence (lv_sys_data (writable (sm_map (rp_sm r))))"
    using replica_sequence_numbers [OF env_ref_ok r(1) get] by (elim conjE)
  moreover have "sv_seq (SeqV_with_meta 2 None [2 :: nat]) = 2" by (simp add: SeqV_with_meta_def)
  ultimately show ?thesis using r(1) get by blast
qed

text \<open>
  C6. The expiration index of a replica is exact: the keys it lists as expired at a time are, in
  order of expiration time and sequence number, exactly the keys whose entry expires before it.
\<close>

theorem replica_expire_index_exact:
  assumes "env_ok E" and "replica_steps E (replica_init mem0 sub) r" and "t < 2 ^ 64"
  shows "\<exists>xs. list_expire_index (lm_ops E) (rp_sm r) t = Inr (map Inr xs) \<and> sorted_wrt (<) (map fst xs) \<and>
    (\<forall>ek k. (ek, k) \<in> set xs \<longleftrightarrow> time_ms ek < t \<and>
      (\<exists>v. get_maybe_expired_kv (lm_ops E) (rp_sm r) k = Inr (Some v) \<and> sv_seq v = ek_seq ek \<and>
        meta_expires_at_ms_opt (sv_meta v) = Some (time_ms ek)))"
proof -
  obtain evs f where sim: "sm_sim (lm_ops E) (lm_inv E) (lm_kv_view E) (lm_expire_view E) (rp_sm r) f"
    by (rule replica_sim [OF assms(1,2)])
  note f = leveled.simD(2) [OF sim]
  show ?thesis
    using leveled.list_expire_index_sim [OF sim assms(3)] flat_expired_sorted [OF f, of t]
    by (intro exI [of _ "flat_expired f t"])
       (auto simp: set_flat_expired [OF flat_invD(1) [OF f]] leveled.get_sim [OF sim] sv_expires_def)
qed

theorem replica_expire_index_exact_witness:
  "\<exists>(r :: (nat, unit) replica) xs. replica_steps env_ref (replica_init () None) r \<and>
     list_expire_index (lm_ops env_ref) (rp_sm r) 6000 = Inr (map Inr xs) \<and> (ExpireKey 5000 1, str ''a'') \<in> set xs"
proof -
  obtain r where r: "replica_steps env_ref (replica_init () None) r" "rp_log r = sample_log"
    by (rule sample_replica)
  obtain evs f where run: "flat_run (rp_log r) (flat_init ()) = (rp_replies r, evs, f)"
    and sim: "sm_sim (lm_ops env_ref) (lm_inv env_ref) (lm_kv_view env_ref) (lm_expire_view env_ref) (rp_sm r) f"
    by (rule replica_sim [OF env_ref_ok r(1)])
  let ?v = "SeqV_with_meta 1 (Some (KVMeta_new (Some 5))) [1]"
  have "get_maybe_expired_kv (lm_ops env_ref) (rp_sm r) (str ''a'') = Inr (Some ?v)"
    using leveled.get_sim [OF sim] run r(2) by (auto simp: sample_run sample_flat_def str_def btree_get_def)
  moreover have "meta_expires_at_ms_opt (sv_meta ?v) = Some (time_ms (ExpireKey 5000 1))" "sv_seq ?v = ek_seq (ExpireKey 5000 1)"
    by (simp_all add: meta_expires_at_ms_opt_def SeqV_with_meta_def KVMeta_new_def get_expire_at_ms_def u64_mul_def)
  moreover obtain xs where xs: "list_expire_index (lm_ops env_ref) (rp_sm r) 6000 = Inr (map Inr xs)"
    "\<And>ek k. (ek, k) \<in> set xs \<longleftrightarrow> time_ms ek < 6000 \<and>
      (\<exists>v. get_maybe_expired_kv (lm_ops env_ref) (rp_sm r) k = Inr (Some v) \<and> sv_seq v = ek_seq ek \<and>
        meta_expires_at_ms_opt (sv_meta v) = Some (time_ms ek))"
    using replica_expire_index_exact [OF env_ref_ok r(1), of 6000] by auto
  moreover have "time_ms (ExpireKey 5000 1) < 6000" by simp
  ultimately have "(ExpireKey 5000 1, str ''a'') \<in> set xs" by blast
  with xs(1) r(1) show ?thesis by blast
qed

text \<open>
  C7. Change events are complete: replaying the events a subscriber received since the replica
  started gives exactly the entries the replica returns.
\<close>

theorem replica_events_replay:
  assumes "env_ok E" and "replica_steps E (replica_init mem0 (Some [])) r"
  shows "\<exists>evs. subscriber (rp_sm r) = Some evs \<and>
    (\<forall>k. get_maybe_expired_kv (lm_ops E) (rp_sm r) k = Inr (replay evs (\<lambda>_. None) k))"
proof -
  obtain evs f where run: "flat_run (rp_log r) (flat_init mem0) = (rp_replies r, evs, f)"
    and sim: "sm_sim (lm_ops E) (lm_inv E) (lm_kv_view E) (lm_expire_view E) (rp_sm r) f"
    and sub: "subscriber (rp_sm r) = map_option (\<lambda>sent. sent @ evs) (Some [])"
    by (rule replica_sim [OF assms])
  have "(btree_get [] :: rstr \<Rightarrow> bytes seqv option) = (\<lambda>_. None)" by (simp add: fun_eq_iff)
  then have "replay evs (\<lambda>_. None) = btree_get (f_kv f)"
    using replay_run [OF flat_invD(1) [OF flat_init_inv] run] by (simp add: flat_init_def)
  with leveled.get_sim [OF sim] sub show ?thesis by simp
qed

theorem replica_events_replay_witness:
  "\<exists>(r :: (nat, unit) replica) evs. replica_steps env_ref (replica_init () (Some [])) r \<and> rp_log r = sample_log \<and>
     subscriber (rp_sm r) = Some evs \<and>
     get_maybe_expired_kv (lm_ops env_ref) (rp_sm r) (str ''ab'') = Inr (replay evs (\<lambda>_. None) (str ''ab''))"
proof -
  obtain r where r: "replica_steps env_ref (replica_init () (Some [])) r" "rp_log r = sample_log"
    by (rule sample_replica)
  from replica_events_replay [OF env_ref_ok r(1)] r show ?thesis by blast
qed

end
