(* ===== verification/TxnProps.thy ===== *)
theory TxnProps
  imports SampleRun
begin

text \<open>
  Properties of single commands on a replica: conditional writes, transactions, deletion by prefix,
  cluster nodes, and the errors of the applier.
\<close>

section \<open>Definitions\<close>

text \<open>Expressions without the operator \<open>OR\<close>.\<close>

fun and_only :: "boolean_expression \<Rightarrow> bool" where
  "and_only (BooleanExpression opr subs cs) \<longleftrightarrow> opr \<noteq> 1 \<and> list_all and_only subs"


definition sample_node :: node where
  "sample_node =
     \<lparr>node_name = str ''n'', node_endpoint = \<lparr>ep_addr = str ''localhost'', ep_port = 28004\<rparr>,
      grpc_api_addr = None, grpc_api_advertise_address = None\<rparr>"

section \<open>Helper lemmas\<close>


text \<open>A replica and an applier on it, at the time of a log entry.\<close>

lemma replica_applier:
  assumes "env_ok E" and "replica_steps E (replica_init mem0 sub) r" and "ap_sm a = rp_sm r"
  obtains f where "sm_sim (lm_ops E) (lm_inv E) (lm_kv_view E) (lm_expire_view E) (ap_sm a) f"
    and "lv_sys_data (writable (sm_map (rp_sm r))) = f_sys f"
proof -
  obtain evs f where sim: "sm_sim (lm_ops E) (lm_inv E) (lm_kv_view E) (lm_expire_view E) (rp_sm r) f"
    by (rule replica_sim [OF assms(1,2)])
  with assms(3) leveled.simD(3) [OF sim] that show ?thesis by (simp add: lm_ops_def)
qed

section \<open>Conditional writes\<close>



section \<open>Transactions\<close>





text \<open>
  Conjunctions are evaluated as the schema describes them: on an expression without the operator
  \<open>OR\<close>, the applier returns the meaning of the expression, each condition being true when the
  applier finds it true.
\<close>

theorem conjunction_evaluated:
  assumes "env_ok E" and "replica_steps E (replica_init mem0 sub) r" and "ap_sm a = rp_sm r"
    and "expr_ok e" and "and_only e"
  shows "eval_bool_expression (lm_ops E) a e =
    Inr (be_sem (\<lambda>c. eval_one_condition (lm_ops E) a c = Inr True) e)"
proof -
  obtain f where sim: "sm_sim (lm_ops E) (lm_inv E) (lm_kv_view E) (lm_expire_view E) (ap_sm a) f"
    by (rule replica_applier [OF assms(1-3)])
  let ?holds = "\<lambda>c. eval_one_condition (lm_ops E) a c = Inr True"
  have "flat_expr (flat_cond f) e = be_sem ?holds e"
    using assms(4,5)
  proof (induction e)
    case (BooleanExpression opr subs cs)
    have "list_all (flat_cond f) cs = list_all ?holds cs"
      using BooleanExpression.prems(1) leveled.eval_one_condition_sim [OF sim] by (auto simp: list_all_iff)
    moreover have "list_all (flat_expr (flat_cond f)) subs = list_all (be_sem ?holds) subs"
      using BooleanExpression by (auto simp: list_all_iff)
    ultimately show ?case using BooleanExpression.prems(2) by simp
  qed
  with leveled.eval_bool_expression_sim [OF sim assms(4)] show ?thesis by simp
qed

theorem conjunction_evaluated_witness:
  "\<exists>(r :: (nat, unit) replica). replica_steps env_ref (replica_init () None) r \<and>
     eval_bool_expression (lm_ops env_ref) (Applier_new (rp_sm r)) (from_conditions_and [cond_eq_seq (str ''a'') 1]) =
       Inr (be_sem (\<lambda>c. eval_one_condition (lm_ops env_ref) (Applier_new (rp_sm r)) c = Inr True)
         (from_conditions_and [cond_eq_seq (str ''a'') 1]))"
proof -
  obtain r where r: "replica_steps env_ref (replica_init () None :: (nat, unit) replica) r" "rp_log r = sample_log"
    by (rule sample_replica)
  have "expr_ok (from_conditions_and [cond_eq_seq (str ''a'') 1])" "and_only (from_conditions_and [cond_eq_seq (str ''a'') 1])"
    by (simp_all add: from_conditions_and_def from_conditions_def cond_eq_seq_def cond_match_seq_def cond_ok_def str_def
        valid_str_def valid_char_def combining_operator_to_i32_def)
  from conjunction_evaluated [OF env_ref_ok r(1) _ this, of "Applier_new (rp_sm r)"] r(1) show ?thesis
    by (auto simp: Applier_new_def)
qed

text \<open>
  C17. A disjunction is true even when none of its conditions is: after both loops of the \<open>OR\<close> case
  the function falls through to the final \<open>Ok(true)\<close>, while the schema gives the expression the
  meaning that some condition holds.
\<close>

theorem disjunction_always_true:
  assumes "\<forall>c \<in> set cs. eval_one_condition M a c = Inr False"
  shows "eval_bool_expression M a (from_conditions_or cs) = Inr True \<and>
    \<not> be_sem (\<lambda>c. eval_one_condition M a c = Inr True) (from_conditions_or cs)"
proof -
  have "eval_any_condition M a cs = Inr False" using assms by (induction cs) auto
  moreover have "\<not> list_ex (\<lambda>c. eval_one_condition M a c = Inr True) cs" using assms by (auto simp: list_ex_iff)
  ultimately show ?thesis
    by (simp add: from_conditions_or_def from_conditions_def be_combining_def combining_operator_to_i32_def)
qed

theorem disjunction_always_true_witness:
  "eval_one_condition level_ops (Applier_new (mem_state_machine_default () :: (nat, unit) mem_state_machine))
     (cond_eq_seq (str ''a'') 1) = Inr False \<and>
   eval_bool_expression level_ops (Applier_new (mem_state_machine_default () :: (nat, unit) mem_state_machine))
     (from_conditions_or [cond_eq_seq (str ''a'') 1]) = Inr True"
proof -
  let ?a = "Applier_new (mem_state_machine_default () :: (nat, unit) mem_state_machine)"
  have "eval_one_condition level_ops ?a (cond_eq_seq (str ''a'') 1) = Inr False"
    by (simp add: eval_one_condition_def cond_eq_seq_def cond_match_seq_def get_maybe_expired_kv_def level_ops_def
        level_get_kv_def Applier_new_def mem_state_machine_default_def level_default_def condition_result_from_i32_def
        eval_compare_def)
  with disjunction_always_true [of "[cond_eq_seq (str ''a'') 1]" level_ops ?a] show ?thesis by simp
qed

text \<open>
  C18. Deleting by prefix removes exactly the keys with the prefix: nothing is listed under it
  afterwards, every other key reads as before, and the response counts the keys. Each removal is
  queued twice as a change event, once by \<open>upsert_kv\<close> and once by the loop itself.
\<close>

theorem delete_by_prefix_exact:
  assumes "env_ok E" and "replica_steps E (replica_init mem0 sub) r" and "ap_sm a = rp_sm r"
    and "list_kv (lm_ops E) (rp_sm r) p = Inr (map Inr xs)"
  shows "\<exists>a'. txn_execute_delete_by_prefix (lm_ops E) a p resp =
      Inr (resp\<lparr>rep_responses := rep_responses resp @
        [Some (RespDeleteByPrefix \<lparr>bresp_prefix = p, bresp_count = length xs mod 2 ^ 32\<rparr>)]\<rparr>, a') \<and>
    list_kv (lm_ops E) (ap_sm a') p = Inr [] \<and>
    (\<forall>k. \<not> prefix p k \<longrightarrow> get_maybe_expired_kv (lm_ops E) (ap_sm a') k = get_maybe_expired_kv (lm_ops E) (rp_sm r) k) \<and>
    ap_changes a' = ap_changes a @ concat (map (\<lambda>(k, v). [(k, Some v, None), (k, Some v, None)]) xs)"
proof -
  obtain f where sim: "sm_sim (lm_ops E) (lm_inv E) (lm_kv_view E) (lm_expire_view E) (ap_sm a) f"
    by (rule replica_applier [OF assms(1-3)])
  have "map (Inr :: _ \<Rightarrow> (rstr \<times> bytes seqv) res) xs = map Inr (flat_list f p)"
    using leveled.list_kv_sim [OF sim, of p] assms(3,4) by simp
  then have xs: "xs = flat_list f p" by (metis inj_map_eq_map inj_Inr)
  let ?g = "f\<lparr>f_kv := filter (\<lambda>(k, v). \<not> prefix p k) (f_kv f)\<rparr>"
  obtain m where m: "txn_execute_delete_by_prefix (lm_ops E) a p resp = Inr (add_responses resp
        [RespDeleteByPrefix \<lparr>bresp_prefix = p, bresp_count = length (flat_list f p) mod 2 ^ 32\<rparr>],
      advance a m (concat (map (\<lambda>(k, v). [(k, Some v, None), (k, Some v, None)]) (flat_list f p))))"
    and sim': "sm_sim (lm_ops E) (lm_inv E) (lm_kv_view E) (lm_expire_view E) ((ap_sm a)\<lparr>sm_map := m\<rparr>) ?g"
    using leveled.delete_by_prefix_sim [OF sim] by blast
  note ok = flat_invD(1) [OF leveled.simD(2) [OF sim]]
  have "flat_list ?g p = []" by (auto simp: flat_list_def filter_empty_conv)
  moreover have "btree_get (f_kv ?g) k = btree_get (f_kv f) k" if "\<not> prefix p k" for k
    using that by (simp add: btree_get_filter [OF ok] split: option.split)
  ultimately show ?thesis
    using m leveled.list_kv_sim [OF sim', of p] leveled.get_sim [OF sim'] leveled.get_sim [OF sim] assms(3)
    by (auto simp: xs add_responses_def)
qed

theorem delete_by_prefix_exact_witness:
  "\<exists>(r :: (nat, unit) replica) a'. replica_steps env_ref (replica_init () None) r \<and>
     txn_execute_delete_by_prefix (lm_ops env_ref) (Applier_new (rp_sm r)) (str ''ab'') (TxnReply_new []) =
       Inr ((TxnReply_new [])\<lparr>rep_responses := [Some (RespDeleteByPrefix \<lparr>bresp_prefix = str ''ab'', bresp_count = 1\<rparr>)]\<rparr>, a') \<and>
     list_kv (lm_ops env_ref) (ap_sm a') (str ''ab'') = Inr []"
proof -
  obtain r where r: "replica_steps env_ref (replica_init () None) r" "rp_log r = sample_log"
    by (rule sample_replica)
  obtain evs f where run: "flat_run (rp_log r) (flat_init ()) = (rp_replies r, evs, f)"
    and sim: "sm_sim (lm_ops env_ref) (lm_inv env_ref) (lm_kv_view env_ref) (lm_expire_view env_ref) (rp_sm r) f"
    by (rule replica_sim [OF env_ref_ok r(1)])
  have f: "f = sample_flat" using run r(2) by (simp add: sample_run)
  have "list_kv (lm_ops env_ref) (rp_sm r) (str ''ab'') = Inr (map Inr [(str ''ab'', SeqV_with_meta 2 None [2])])"
    using leveled.list_kv_sim [OF sim] by (simp add: f sample_flat_def flat_list_def str_def)
  from delete_by_prefix_exact [OF env_ref_ok r(1) _ this, of "Applier_new (rp_sm r)" "TxnReply_new []"] r(1)
  show ?thesis by (auto simp: Applier_new_def TxnReply_new_def)
qed

section \<open>Cluster nodes and rejected entries\<close>

text \<open>A command that changes the system data only.\<close>

lemma sys_cmd_step:
  assumes sim: "sm_sim (lm_ops E) (lm_inv E) (lm_kv_view E) (lm_expire_view E) (ap_sm a) f"
    and c: "flat_cmd (ap_cmd_ctx a) c f = (st, [], g)" "f_kv g = f_kv f" "cmd_ok c" "cmd_seqs c = 0"
  shows "\<exists>c'. apply_cmd (lm_ops E) a c = Inr (st, c') \<and> lv_sys_data (writable (sm_map (ap_sm c'))) = f_sys g \<and>
    (\<forall>k. get_maybe_expired_kv (lm_ops E) (ap_sm c') k = get_maybe_expired_kv (lm_ops E) (ap_sm a) k)"
proof -
  have room: "sequence (f_sys f) < 2 ^ 64"
    using leveled.seq_bound [OF leveled.simD(1) [OF sim]] leveled.simD(3) [OF sim] by simp
  obtain m where m: "apply_cmd (lm_ops E) a c = Inr (st, advance a m [])"
    and sim': "sm_sim (lm_ops E) (lm_inv E) (lm_kv_view E) (lm_expire_view E) ((ap_sm a)\<lparr>sm_map := m\<rparr>) g"
    using leveled.apply_cmd_sim [OF sim c(3) _ c(1)] room c(4) by auto
  have "lv_sys_data (writable m) = f_sys g" using leveled.simD(3) [OF sim'] by (simp add: lm_ops_def)
  with m leveled.get_sim [OF sim'] leveled.get_sim [OF sim] c(2) show ?thesis by auto
qed

text \<open>
  Adding a node stores it when the id is new or overriding is asked for, and otherwise changes
  nothing; removing a node removes it; both reply with the node before and after, and touch neither
  the entries nor the other nodes.
\<close>

theorem node_commands:
  assumes "env_ok E" and "replica_steps E (replica_init mem0 sub) r" and "ap_sm a = rp_sm r"
    and "ns = nodes (lv_sys_data (writable (sm_map (rp_sm r))))"
    and "kept = (if btree_get ns i = None \<or> overriding then Some n else btree_get ns i)"
  shows "\<exists>a' b'. apply_cmd (lm_ops E) a (AddNode i n overriding) = Inr (StateNode (btree_get ns i) kept, a') \<and>
    btree_get (nodes (lv_sys_data (writable (sm_map (ap_sm a'))))) = (btree_get ns)(i := kept) \<and>
    apply_cmd (lm_ops E) a (RemoveNode i) = Inr (StateNode (btree_get ns i) None, b') \<and>
    btree_get (nodes (lv_sys_data (writable (sm_map (ap_sm b'))))) = (btree_get ns)(i := None) \<and>
    (\<forall>k. get_maybe_expired_kv (lm_ops E) (ap_sm a') k = get_maybe_expired_kv (lm_ops E) (rp_sm r) k \<and>
         get_maybe_expired_kv (lm_ops E) (ap_sm b') k = get_maybe_expired_kv (lm_ops E) (rp_sm r) k)"
proof -
  obtain f where sim: "sm_sim (lm_ops E) (lm_inv E) (lm_kv_view E) (lm_expire_view E) (ap_sm a) f"
    and sys: "lv_sys_data (writable (sm_map (rp_sm r))) = f_sys f"
    by (rule replica_applier [OF assms(1-3)])
  have ns: "ns = nodes (f_sys f)" by (simp add: assms(4) sys)
  let ?g = "if btree_get ns i = None \<or> overriding then f\<lparr>f_sys := (f_sys f)\<lparr>nodes := btree_insert i n ns\<rparr>\<rparr> else f"
  let ?h = "f\<lparr>f_sys := (f_sys f)\<lparr>nodes := btree_remove i ns\<rparr>\<rparr>"
  have "flat_cmd (ap_cmd_ctx a) (AddNode i n overriding) f = (StateNode (btree_get ns i) kept, [], ?g)"
    by (auto simp: flat_cmd_def ns Let_def assms(5))
  moreover have "f_kv ?g = f_kv f" by simp
  ultimately obtain a' where a': "apply_cmd (lm_ops E) a (AddNode i n overriding) = Inr (StateNode (btree_get ns i) kept, a')"
    "lv_sys_data (writable (sm_map (ap_sm a'))) = f_sys ?g"
    "\<And>k. get_maybe_expired_kv (lm_ops E) (ap_sm a') k = get_maybe_expired_kv (lm_ops E) (ap_sm a) k"
    using sys_cmd_step [OF sim, of "AddNode i n overriding"] by (auto simp: cmd_ok_def cmd_seqs_def)
  have "flat_cmd (ap_cmd_ctx a) (RemoveNode i) f = (StateNode (btree_get ns i) None, [], ?h)"
    by (simp add: flat_cmd_def ns)
  then obtain b' where b': "apply_cmd (lm_ops E) a (RemoveNode i) = Inr (StateNode (btree_get ns i) None, b')"
    "lv_sys_data (writable (sm_map (ap_sm b'))) = f_sys ?h"
    "\<And>k. get_maybe_expired_kv (lm_ops E) (ap_sm b') k = get_maybe_expired_kv (lm_ops E) (ap_sm a) k"
    using sys_cmd_step [OF sim, of "RemoveNode i"] by (auto simp: cmd_ok_def cmd_seqs_def)
  have "btree_get (nodes (f_sys ?g)) = (btree_get ns)(i := kept)"
    by (auto simp: assms(5) ns)
  with a' b' assms(3) show ?thesis by (intro exI [of _ a'] exI [of _ b']) simp
qed

theorem node_commands_witness:
  "\<exists>(r :: (nat, unit) replica) a'. replica_steps env_ref (replica_init () None) r \<and>
     apply_cmd (lm_ops env_ref) (Applier_new (rp_sm r)) (AddNode 7 sample_node False) =
       Inr (StateNode None (Some sample_node), a') \<and>
     btree_get (nodes (lv_sys_data (writable (sm_map (ap_sm a'))))) 7 = Some sample_node"
proof -
  let ?r = "replica_init () None :: (nat, unit) replica"
  have ns: "nodes (lv_sys_data (writable (sm_map (rp_sm ?r)))) = []"
    by (simp add: replica_init_def smv003_default_def leveled_map_default_def level_default_def sys_data_default_def)
  have a: "ap_sm (Applier_new (rp_sm ?r)) = rp_sm ?r" by (simp add: Applier_new_def)
  have "\<exists>a'. apply_cmd (lm_ops env_ref) (Applier_new (rp_sm ?r)) (AddNode 7 sample_node False) =
       Inr (StateNode None (Some sample_node), a') \<and>
     btree_get (nodes (lv_sys_data (writable (sm_map (ap_sm a'))))) 7 = Some sample_node"
    using node_commands [OF env_ref_ok replica_refl a refl refl, of 7 sample_node False] by (auto simp: ns)
  then show ?thesis by (blast intro: replica_refl)
qed

text \<open>
  A log entry that carries a retry id is rejected: the assertion of \<open>apply\<close> fails, whatever its
  command is.
\<close>

theorem txid_rejected:
  assumes "env_ok E" and "replica_steps E (replica_init mem0 sub) r"
    and "en_payload entry = NormalEntry data" and "le_txid data \<noteq> None" and "get_log_time entry < 2 ^ 64"
  shows "apply_entries (lm_ops E) (rp_sm r) (entry # entries) = Inl (Panic AssertFailed)"
proof -
  let ?a = "(Applier_new (rp_sm r))\<lparr>ap_cmd_ctx := CmdContext_from_millis (get_log_time entry)\<rparr>"
  obtain f where sim: "sm_sim (lm_ops E) (lm_inv E) (lm_kv_view E) (lm_expire_view E) (ap_sm ?a) f"
    by (rule replica_applier [OF assms(1,2), of ?a]) (simp_all add: Applier_new_def)
  obtain b where "clean_expired_kvs (lm_ops E) ?a (get_log_time entry) = Inr b"
    using leveled.clean_expired_sim [OF sim assms(5)] by (metis prod.exhaust)
  with assms(3,4) have "apply_entry (lm_ops E) (Applier_new (rp_sm r)) entry = Inl (Panic AssertFailed)"
    by (simp add: apply_entry_def Let_def)
  then show ?thesis by (simp add: apply_entries_def)
qed

theorem txid_rejected_witness:
  "apply_entries (lm_ops env_ref) (rp_sm (replica_init () None))
     [\<lparr>en_log_id = 1 :: nat, en_payload = NormalEntry
        \<lparr>le_txid = Some \<lparr>tx_client = str ''c'', tx_serial = 1\<rparr>, le_time_ms = Some 5, le_cmd = RemoveNode 1\<rparr>\<rparr>] =
   Inl (Panic AssertFailed)"
  by (rule txid_rejected [OF env_ref_ok replica_refl]) (simp, simp, simp add: get_log_time_def)

end
