(* ===== verification/SnapshotProps.thy ===== *)
theory SnapshotProps
  imports SampleRun
begin

text \<open>
  Handing the state of one replica to another: the stream a compactor produces, stored as a snapshot
  and installed by \<open>install_snapshot_v003\<close>, carries every entry and the system data. It does not carry
  the expiration cursor, and the machine that installs it keeps its own.
\<close>

section \<open>Taking and installing a snapshot\<close>

text \<open>The map after freezing and the compactor taken from it.\<close>

definition frozen_compactor ::
    "nat \<Rightarrow> nat \<Rightarrow> ('lid, 'mem) leveled_map \<Rightarrow> ('lid, 'mem) compactor \<times> ('lid, 'mem) leveled_map" where
  "frozen_compactor uniq chan lm = new_compactor chan (freeze_writable uniq lm)"

lemma frozen_compactor_spec:
  assumes "lm_inv E lm" and "frozen_compactor uniq chan lm = (c, lm')"
  shows "lm_inv E lm'" and "compacts c lm'" and "c_immutable_levels c \<noteq> []" and "added_levels c lm' = []"
    and "lm_kv_view E lm' = lm_kv_view E lm" and "lm_expire_view E lm' = lm_expire_view E lm"
    and "writable lm' = new_level (writable lm)"
proof -
  note fr = freeze_writable_correct [OF assms(1), of uniq]
  have lm': "lm' = (freeze_writable uniq lm)\<lparr>current_compactor := Some chan\<rparr>"
    and c: "c_immutable_levels c = immutable_levels (freeze_writable uniq lm)"
    using assms(2) by (auto simp: frozen_compactor_def new_compactor_def)
  show "lm_inv E lm'" by (simp add: lm' lm_inv_current_compactor fr(1))
  show "compacts c lm'" using assms(2) new_compactor_compacts by (simp add: frozen_compactor_def)
  show "c_immutable_levels c \<noteq> []" by (simp add: c freeze_writable_def il_push_def)
  show "added_levels c lm' = []" by (simp add: added_levels_def c lm')
  show "lm_kv_view E lm' = lm_kv_view E lm" "lm_expire_view E lm' = lm_expire_view E lm"
    using fr(2,3)
    by (simp_all add: lm' lm_kv_view_def lm_expire_view_def kv_tables_def expire_tables_def iter_levels_def iter_persisted_def)
  show "writable lm' = new_level (writable lm)" by (simp add: lm' freeze_writable_def)
qed

text \<open>The machine after the snapshot was installed reads as the compacted map.\<close>

lemma installed_views:
  assumes inv: "lm_inv E lm" and c: "frozen_compactor uniq chan lm = (c, lm')"
    and cmp: "compactor_compact E c = Inr (sys, map Inr t)" and d: "rotbl_ok (db_rotbl d) t" "db_sys_data d = sys"
    and newer: "\<not> (last_applied (lv_sys_data (writable (sm_map s))) \<noteq> None \<and>
      last_applied sys \<le> last_applied (lv_sys_data (writable (sm_map s))))"
    and s': "s' = install_snapshot_v003 mem1 s d"
  shows "lm_inv E (sm_map s')" and "lv_sys_data (writable (sm_map s')) = lv_sys_data (writable lm)"
    and "expire_cursor s' = expire_cursor s" and "subscriber s' = subscriber s"
    and "marked_to_seqv (lm_kv_view E (sm_map s') k) = marked_to_seqv (lm_kv_view E lm k)"
    and "marked_to_seqv (lm_expire_view E (sm_map s') ek) = marked_to_seqv (lm_expire_view E lm ek)"
    and "\<not> is_not_found (lm_expire_view E (sm_map s') ek) \<Longrightarrow> \<not> is_not_found (lm_expire_view E lm ek)"
proof -
  note f = frozen_compactor_spec [OF inv c]
  obtain lm2 where lm2: "replace_with_compacted lm' c d = Inr lm2" "lm_inv E lm2" "immutable_levels lm2 = []"
    "persisted lm2 = Some d" "writable lm2 = new_level (writable lm)"
    "\<And>k. marked_to_seqv (lm_kv_view E lm2 k) = marked_to_seqv (lm_kv_view E lm' k)"
    "\<And>k. marked_to_seqv (lm_expire_view E lm2 k) = marked_to_seqv (lm_expire_view E lm' k)"
    "\<And>k. \<not> is_not_found (lm_expire_view E lm2 k) \<Longrightarrow> \<not> is_not_found (lm_expire_view E lm' k)"
    using replace_with_compacted_correct [OF f(1,2,3) cmp d(1)] f(4,7) by auto
  have "c_immutable_levels c = immutable_levels (freeze_writable uniq lm)"
    using c by (auto simp: frozen_compactor_def new_compactor_def)
  then have last: "lv_sys_data (im_level (last (c_immutable_levels c))) = lv_sys_data (writable lm)"
    by (simp add: freeze_writable_def il_push_def Immutable_new_def)
  have sys: "sys = lv_sys_data (writable lm)"
    using compact_correct [OF compacts_compactable [OF f(1,2)] f(3)] cmp last by (auto simp: compactor_compact_def)
  have m: "sm_map s' = lm2\<lparr>current_compactor := current_compactor (sm_map s')\<rparr>"
    "expire_cursor s' = expire_cursor s" "subscriber s' = subscriber s"
    using newer lm2(3-5) d(2) sys
    by (auto simp: s' install_snapshot_v003_def leveled_map_clear_def level_default_def new_level_def Let_def)
  have views: "lm_kv_view E (sm_map s') = lm_kv_view E lm2" "lm_expire_view E (sm_map s') = lm_expire_view E lm2"
    by (subst m(1), simp add: lm_kv_view_def lm_expire_view_def kv_tables_def expire_tables_def iter_levels_def iter_persisted_def)+
  show "lm_inv E (sm_map s')" using lm2(2) by (subst m(1)) (simp add: lm_inv_current_compactor)
  show "lv_sys_data (writable (sm_map s')) = lv_sys_data (writable lm)"
    by (subst m(1)) (simp add: lm2(5) new_level_def)
  show "expire_cursor s' = expire_cursor s" "subscriber s' = subscriber s" by (rule m)+
  show "marked_to_seqv (lm_kv_view E (sm_map s') k) = marked_to_seqv (lm_kv_view E lm k)"
    "marked_to_seqv (lm_expire_view E (sm_map s') ek) = marked_to_seqv (lm_expire_view E lm ek)"
    "\<not> is_not_found (lm_expire_view E (sm_map s') ek) \<Longrightarrow> \<not> is_not_found (lm_expire_view E lm ek)"
    using lm2(6-8) by (simp_all add: views f(5,6))
qed

lemma list_kv_cursor: "list_kv M (s\<lparr>expire_cursor := cur\<rparr>) p = list_kv M s p"
  by (cases "prefix_right_bound p") (simp_all add: list_kv_def)

text \<open>Every state of a replica can be stored in a table and so be a snapshot.\<close>

lemma snapshot_exists:
  assumes "lm_inv env_ref lm"
  obtains c lm' t where "frozen_compactor uniq chan lm = (c, lm')"
    and "compactor_compact env_ref c = Inr (lv_sys_data (writable lm), map Inr t)" and "rotbl_ok (rotbl_ref t) t"
proof -
  obtain c lm' where c: "frozen_compactor uniq chan lm = (c, lm')" by (metis prod.exhaust)
  note f = frozen_compactor_spec [OF assms c]
  obtain X K where XK: "compactor_compact env_ref c =
      Inr (lv_sys_data (im_level (last (c_immutable_levels c))), map Inr (enc_rows (e_codec env_ref) X K))"
    "live_table (compact_expire_view env_ref (c_immutable_levels c) (c_db c)) X" "expire_table_ok X"
    "live_table (compact_kv_view env_ref (c_immutable_levels c) (c_db c)) K"
    using compact_correct [OF compacts_compactable [OF f(1,2)] f(3)] by (auto simp: compactor_compact_def)
  have "c_immutable_levels c = immutable_levels (freeze_writable uniq lm)"
    using c by (auto simp: frozen_compactor_def new_compactor_def)
  then have "lv_sys_data (im_level (last (c_immutable_levels c))) = lv_sys_data (writable lm)"
    by (simp add: freeze_writable_def il_push_def Immutable_new_def)
  moreover have "btree_ok (enc_rows (e_codec env_ref) X K)"
    using enc_rows_ok XK(2-4) by (auto simp: live_table_def env_ref_def codec_ref_ok)
  ultimately show ?thesis using that [OF c] XK(1) rotbl_ref_ok by auto
qed

text \<open>The machine that installed a snapshot of a machine that stands for \<open>f\<close>, with its own cursor.\<close>

lemma installed_sim:
  assumes sim: "sm_sim (lm_ops E) (lm_inv E) (lm_kv_view E) (lm_expire_view E) s0 f"
    and c: "frozen_compactor uniq chan (sm_map s0) = (c, lm')"
    and cmp: "compactor_compact E c = Inr (sys, map Inr t)" and d: "rotbl_ok (db_rotbl d) t" "db_sys_data d = sys"
    and newer: "\<not> (last_applied (lv_sys_data (writable (sm_map s))) \<noteq> None \<and>
      last_applied sys \<le> last_applied (lv_sys_data (writable (sm_map s))))"
    and s': "s' = install_snapshot_v003 mem1 s d"
    and cur: "expire_cursor s = ExpireKey cs 0" "cs \<le> f_cursor f"
  shows "sm_sim (lm_ops E) (lm_inv E) (lm_kv_view E) (lm_expire_view E) s' (f\<lparr>f_cursor := cs\<rparr>)"
proof -
  note d0 = leveled.simD [OF sim]
  note v = installed_views [OF d0(1) c cmp d newer s']
  have "flat_inv (f\<lparr>f_cursor := cs\<rparr>)"
    using d0(2) cur(2) unfolding flat_inv_iff by auto (meson le_trans)
  moreover have "marked_value (lm_expire_view E (sm_map s') ek) = Some k \<longleftrightarrow> flat_index (f\<lparr>f_cursor := cs\<rparr>) ek k" for ek k
    using d0(6) [of ek k] v(6) [of ek] by (metis opt_value_marked flat_index_def flat.select_convs(1) flat.surjective flat.update_convs(3))
  moreover have "f_sys f = lv_sys_data (writable (sm_map s'))" using d0(3) v(2) by (simp add: lm_ops_def)
  ultimately show ?thesis
    using v d0(5,7) cur(1) unfolding sm_sim_def by (simp add: lm_ops_def)
qed

text \<open>
  C19. A snapshot carries the whole state: a machine with an older log position that installs a
  snapshot built from another replica returns the same entry for every key, the same listing for
  every prefix and the same system data as that replica.
\<close>

theorem snapshot_transfer:
  assumes "env_ok E" and "replica_steps E (replica_init mem0 sub) r"
    and "frozen_compactor uniq chan (sm_map (rp_sm r)) = (c, lm')"
    and "compactor_compact E c = Inr (sys, map Inr t)" and "rotbl_ok (db_rotbl d) t" and "db_sys_data d = sys"
    and "\<not> (last_applied (lv_sys_data (writable (sm_map s))) \<noteq> None \<and>
      last_applied sys \<le> last_applied (lv_sys_data (writable (sm_map s))))"
    and "s' = install_snapshot_v003 mem1 s d"
  shows "(\<forall>k. get_maybe_expired_kv (lm_ops E) s' k = get_maybe_expired_kv (lm_ops E) (rp_sm r) k) \<and>
    (\<forall>p. list_kv (lm_ops E) s' p = list_kv (lm_ops E) (rp_sm r) p) \<and>
    lv_sys_data (writable (sm_map s')) = lv_sys_data (writable (sm_map (rp_sm r)))"
proof -
  obtain evs f where sim: "sm_sim (lm_ops E) (lm_inv E) (lm_kv_view E) (lm_expire_view E) (rp_sm r) f"
    by (rule replica_sim [OF assms(1,2)])
  let ?s = "s\<lparr>expire_cursor := ExpireKey 0 0\<rparr>"
  have inst: "install_snapshot_v003 mem1 ?s d = s'\<lparr>expire_cursor := ExpireKey 0 0\<rparr>"
    by (simp add: assms(8) install_snapshot_v003_def Let_def)
  have newer: "\<not> (last_applied (lv_sys_data (writable (sm_map ?s))) \<noteq> None \<and>
      last_applied sys \<le> last_applied (lv_sys_data (writable (sm_map ?s))))" using assms(7) by simp
  have "sm_sim (lm_ops E) (lm_inv E) (lm_kv_view E) (lm_expire_view E) (s'\<lparr>expire_cursor := ExpireKey 0 0\<rparr>) (f\<lparr>f_cursor := 0\<rparr>)"
    using installed_sim [OF sim assms(3-6) newer inst [symmetric]] by simp
  note sim' = this
  have "get_maybe_expired_kv (lm_ops E) s' k = get_maybe_expired_kv (lm_ops E) (rp_sm r) k" for k
    using leveled.get_sim [OF sim'] leveled.get_sim [OF sim] by (simp add: get_maybe_expired_kv_def)
  moreover have "list_kv (lm_ops E) s' p = list_kv (lm_ops E) (rp_sm r) p" for p
    using leveled.list_kv_sim [OF sim', of p] leveled.list_kv_sim [OF sim, of p] by (simp add: list_kv_cursor flat_list_def)
  moreover have "lv_sys_data (writable (sm_map s')) = lv_sys_data (writable (sm_map (rp_sm r)))"
    using leveled.simD(3) [OF sim'] leveled.simD(3) [OF sim] by (simp add: lm_ops_def)
  ultimately show ?thesis by blast
qed

theorem snapshot_transfer_witness:
  "\<exists>(r :: (nat, unit) replica) (d :: (nat, unit) db). replica_steps env_ref (replica_init () None) r \<and> rp_log r = sample_log \<and>
     get_maybe_expired_kv (lm_ops env_ref) (install_snapshot_v003 () (smv003_default ()) d) (str ''ab'') =
       get_maybe_expired_kv (lm_ops env_ref) (rp_sm r) (str ''ab'')"
proof -
  obtain r where r: "replica_steps env_ref (replica_init () None :: (nat, unit) replica) r" "rp_log r = sample_log"
    by (rule sample_replica)
  obtain evs f where sim: "sm_sim (lm_ops env_ref) (lm_inv env_ref) (lm_kv_view env_ref) (lm_expire_view env_ref) (rp_sm r) f"
    by (rule replica_sim [OF env_ref_ok r(1)])
  obtain c lm' t where c: "frozen_compactor 1 2 (sm_map (rp_sm r)) = (c, lm')"
    "compactor_compact env_ref c = Inr (lv_sys_data (writable (sm_map (rp_sm r))), map Inr t)" "rotbl_ok (rotbl_ref t) t"
    by (rule snapshot_exists [OF leveled.simD(1) [OF sim]])
  let ?d = "\<lparr>db_meta = \<lparr>last_log_id = None, snap_membership = (None, ()), snapshot_id = []\<rparr>,
       db_sys_data = lv_sys_data (writable (sm_map (rp_sm r))), db_rotbl = rotbl_ref t\<rparr>"
  have none: "last_applied (lv_sys_data (writable (sm_map (smv003_default () :: (nat, unit) smv003)))) = None"
    by (simp add: smv003_default_def leveled_map_default_def level_default_def sys_data_default_def)
  have "get_maybe_expired_kv (lm_ops env_ref) (install_snapshot_v003 () (smv003_default ()) ?d) (str ''ab'') =
      get_maybe_expired_kv (lm_ops env_ref) (rp_sm r) (str ''ab'')"
    using snapshot_transfer [OF env_ref_ok r(1) c(1,2), of ?d "smv003_default ()"] c(3) none by simp
  with r show ?thesis by blast
qed

section \<open>What a snapshot does not carry\<close>











end
