(* ===== verification/StoreProps.thy ===== *)
theory StoreProps
  imports CompactionProtocol PrefixBound ReferenceEnv
begin

text \<open>
  The contract of the store underneath the state machine: reads and writes of the leveled map,
  freezing, compaction beside concurrent writers, the encoding of snapshots, and the bounds of
  prefix listings.
\<close>

section \<open>A concrete store\<close>

text \<open>A store with one frozen entry, on which the properties are evaluated.\<close>

lemma sample_store:
  obtains lm :: "(nat, unit) leveled_map" where "lm_inv env_ref lm" and "immutable_levels lm \<noteq> []"
    and "lm_seq lm = 1" and "lm_get_kv env_ref lm (str ''a'') = Inr (Normal 1 [7] None)"
proof -
  let ?lm0 = "leveled_map_default () :: (nat, unit) leveled_map"
  have inv0: "lm_inv env_ref ?lm0" by (rule lm_inv_default [OF env_ref_ok])
  have sys0: "lv_sys_data (writable ?lm0) = sys_data_default ()" "mo_sys (lm_ops env_ref) ?lm0 = sys_data_default ()"
    by (simp_all add: leveled_map_default_def level_default_def lm_ops_def)
  obtain lm1 :: "(nat, unit) leveled_map" where lm1: "lm_inv env_ref lm1" "lm_kv_view env_ref lm1 = (lm_kv_view env_ref ?lm0)(str ''a'' := Normal 1 [7] None)"
    "lv_sys_data (writable lm1) = (sys_data_default ())\<lparr>sequence := 1\<rparr>"
    using leveled.kv_set [OF inv0, of "str ''a''" "[7]" None] sys0
    by (auto simp: sys_data_default_def lm_ops_def)
  note fr = freeze_writable_correct [OF lm1(1), of 5]
  show thesis
  proof
    show "lm_inv env_ref (freeze_writable 5 lm1)" by (rule fr)
    show "immutable_levels (freeze_writable 5 lm1) \<noteq> []" by (simp add: freeze_writable_def il_push_def)
    show "lm_seq (freeze_writable 5 lm1) = 1" by (simp add: fr(4) lm1(3))
    show "lm_get_kv env_ref (freeze_writable 5 lm1) (str ''a'') = Inr (Normal 1 [7] None)"
      by (simp add: lm_get_kv_view [OF fr(1)] fr(2) lm1(2))
  qed
qed

section \<open>Reading and writing\<close>

text \<open>
  C24. Reading after writing: a value written to the leveled map gets the next sequence number, the
  write reports the entry that was there before, and later reads of the key return the new entry;
  deleting a key leaves a tombstone. Other keys, the expiration index and the frozen levels are unchanged.
\<close>

theorem leveled_write_then_read:
  assumes "lm_inv E lm" and "lm_seq lm + 1 < 2 ^ 64"
  shows "\<exists>old new lm'. ma_set (mo_kv (lm_ops E)) lm k v = Inr ((old, new), lm') \<and>
    lm_get_kv E lm k = Inr old \<and> lm_get_kv E lm' k = Inr new \<and>
    (case v of None \<Rightarrow> is_tombstone new \<and> lm_seq lm' = lm_seq lm
     | Some (data, meta) \<Rightarrow> new = Normal (lm_seq lm + 1) data meta \<and> lm_seq lm' = lm_seq lm + 1) \<and>
    (\<forall>k'. k' \<noteq> k \<longrightarrow> lm_get_kv E lm' k' = lm_get_kv E lm k') \<and>
    (\<forall>ek. lm_get_expire E lm' ek = lm_get_expire E lm ek) \<and>
    immutable_levels lm' = immutable_levels lm \<and> persisted lm' = persisted lm"
proof -
  have frame: "immutable_levels lm' = immutable_levels lm \<and> persisted lm' = persisted lm"
    if "ma_set (mo_kv (lm_ops E)) lm k v = Inr (r, lm')" for r lm'
    using that by (auto simp: lm_ops_def dest: leveled_set_frame)
  note get = lm_get_kv_view lm_get_expire_view
  show ?thesis
  proof (cases v)
    case None
    with leveled.kv_del [OF assms(1), of k] obtain lm' t where
      "ma_set (mo_kv (lm_ops E)) lm k v = Inr ((lm_kv_view E lm k, TombStone t), lm')" "lm_inv E lm'"
      "lm_kv_view E lm' = (lm_kv_view E lm)(k := TombStone t)" "lm_expire_view E lm' = lm_expire_view E lm"
      "mo_sys (lm_ops E) lm' = mo_sys (lm_ops E) lm"
      by auto
    with None frame get [OF assms(1)] show ?thesis
      by (auto simp: get lm_ops_def intro!: exI [of _ lm'])
  next
    case (Some p)
    obtain data meta where p: "p = (data, meta)" by (cases p)
    with Some leveled.kv_set [OF assms(1), of k data meta] assms(2) obtain lm' where
      "ma_set (mo_kv (lm_ops E)) lm k v = Inr ((lm_kv_view E lm k, Normal (lm_seq lm + 1) data meta), lm')" "lm_inv E lm'"
      "lm_kv_view E lm' = (lm_kv_view E lm)(k := Normal (lm_seq lm + 1) data meta)"
      "lm_expire_view E lm' = lm_expire_view E lm"
      "mo_sys (lm_ops E) lm' = (mo_sys (lm_ops E) lm)\<lparr>sequence := lm_seq lm + 1\<rparr>"
      by (auto simp: lm_ops_def)
    with Some p frame get [OF assms(1)] show ?thesis
      by (auto simp: get lm_ops_def intro!: exI [of _ lm'])
  qed
qed

theorem leveled_write_then_read_witness:
  "\<exists>(lm :: (nat, unit) leveled_map) lm'.
     ma_set (mo_kv (lm_ops env_ref)) lm (str ''a'') (Some ([8], None)) = Inr ((Normal 1 [7] None, Normal 2 [8] None), lm') \<and>
     lm_get_kv env_ref lm' (str ''a'') = Inr (Normal 2 [8] None)"
proof -
  obtain lm :: "(nat, unit) leveled_map" where "lm_inv env_ref lm" "lm_seq lm = 1"
    "lm_get_kv env_ref lm (str ''a'') = Inr (Normal 1 [7] None)"
    by (rule sample_store)
  with leveled_write_then_read [of env_ref lm "str ''a''" "Some ([8], None)"] show ?thesis
    by (auto simp: eval_nat_numeral(3) [of Num.One] simp del: One_nat_def)
qed

text \<open>
  C25. A range over the leveled map agrees with point reads: it lists keys in order, once each, with
  the entry a read of that key returns, and it misses no live entry.
\<close>

theorem leveled_range_agrees_with_get:
  assumes "lm_inv E lm" and "range_ok r"
  shows "\<exists>xs. lm_range_kv E lm r = Inr (map Inr xs) \<and> sorted_wrt (<) (map fst xs) \<and>
    (\<forall>k m. (k, m) \<in> set xs \<longrightarrow> in_bounds r k \<and> lm_get_kv E lm k = Inr m) \<and>
    (\<forall>k m. in_bounds r k \<longrightarrow> lm_get_kv E lm k = Inr m \<longrightarrow> is_normal m \<longrightarrow> (k, m) \<in> set xs)"
proof -
  obtain xs where "lm_range_kv E lm r = Inr (map Inr xs)" "range_spec (lm_kv_view E lm) r xs"
    using lm_range_kv_view [OF assms] by blast
  then show ?thesis
    by (intro exI [of _ xs]) (auto simp: range_spec_def lm_get_kv_view [OF assms(1)])
qed

theorem leveled_range_agrees_with_get_witness:
  "\<exists>(lm :: (nat, unit) leveled_map) xs. lm_range_kv env_ref lm (Included (str ''a''), Unbounded) = Inr (map Inr xs) \<and>
     (str ''a'', Normal 1 [7] None) \<in> set xs"
proof -
  obtain lm :: "(nat, unit) leveled_map" where lm: "lm_inv env_ref lm"
    "lm_get_kv env_ref lm (str ''a'') = Inr (Normal 1 [7] None)"
    by (rule sample_store)
  from leveled_range_agrees_with_get [OF lm(1), of "(Included (str ''a''), Unbounded)"] obtain xs where
    xs: "lm_range_kv env_ref lm (Included (str ''a''), Unbounded) = Inr (map Inr xs)"
    "\<forall>k m. in_bounds (Included (str ''a''), Unbounded) k \<longrightarrow> lm_get_kv env_ref lm k = Inr m \<longrightarrow> is_normal m \<longrightarrow> (k, m) \<in> set xs"
    by auto
  then have "(str ''a'', Normal 1 [7] None) \<in> set xs" using lm(2) by (simp add: in_bounds_def)
  with xs(1) show ?thesis by blast
qed

text \<open>
  Freezing the writable level is invisible to readers: every point read of both key spaces and
  the system data are unchanged, the frozen levels grow by one, and the new writable level is empty.
\<close>

theorem freeze_transparent:
  assumes "lm_inv E lm"
  shows "lm_inv E (freeze_writable uniq lm) \<and>
    lm_get_kv E (freeze_writable uniq lm) k = lm_get_kv E lm k \<and>
    lm_get_expire E (freeze_writable uniq lm) ek = lm_get_expire E lm ek \<and>
    mo_sys (lm_ops E) (freeze_writable uniq lm) = mo_sys (lm_ops E) lm \<and>
    length (immutable_levels (freeze_writable uniq lm)) = length (immutable_levels lm) + 1 \<and>
    lv_kv (writable (freeze_writable uniq lm)) = [] \<and> lv_expire (writable (freeze_writable uniq lm)) = []"
proof -
  note fr = freeze_writable_correct [OF assms, of uniq]
  have "length (immutable_levels (freeze_writable uniq lm)) = length (immutable_levels lm) + 1"
    "lv_kv (writable (freeze_writable uniq lm)) = []" "lv_expire (writable (freeze_writable uniq lm)) = []"
    by (simp_all add: freeze_writable_def il_push_def new_level_def)
  with fr show ?thesis
    by (simp add: lm_get_kv_view [OF assms] lm_get_kv_view [OF fr(1)] lm_get_expire_view [OF assms]
        lm_get_expire_view [OF fr(1)] lm_ops_def)
qed

theorem freeze_transparent_witness:
  "\<exists>lm :: (nat, unit) leveled_map. lm_get_kv env_ref (freeze_writable 5 lm) (str ''a'') = Inr (Normal 1 [7] None) \<and>
     lv_kv (writable (freeze_writable 5 lm)) = []"
proof -
  obtain lm :: "(nat, unit) leveled_map" where lm: "lm_inv env_ref lm"
    "lm_get_kv env_ref lm (str ''a'') = Inr (Normal 1 [7] None)"
    by (rule sample_store)
  from freeze_transparent [OF lm(1), of 5 "str ''a''"] lm(2) show ?thesis by auto
qed

section \<open>Compaction\<close>

text \<open>The map below its writable level, with the given frozen levels.\<close>

definition below_writable ::
    "('lid, 'mem) leveled_map \<Rightarrow> ('lid, 'mem) immutable_levels \<Rightarrow> ('lid, 'mem) leveled_map" where
  "below_writable lm ls = lm\<lparr>writable := new_level (writable lm), immutable_levels := ls\<rparr>"

lemma below_writable_reads:
  assumes "lm_seq lm < 2 ^ 64" and "compactable E (lm_seq lm) ls (persisted lm)"
  shows "lm_get_kv E (below_writable lm ls) k = Inr (compact_kv_view E ls (persisted lm) k)"
    and "lm_get_expire E (below_writable lm ls) ek = Inr (compact_expire_view E ls (persisted lm) ek)"
proof -
  let ?lm0 = "below_writable lm ls"
  have tabs: "kv_tables E ?lm0 = [] # il_kv_tables ls @ map (db_kv_table (e_codec E)) (opt_list (persisted lm))"
    "expire_tables E ?lm0 = [] # il_expire_tables ls @ map (db_expire_table (e_codec E)) (opt_list (persisted lm))"
    by (simp_all add: below_writable_def kv_tables_def expire_tables_def iter_levels_def iter_persisted_def
        iter_immutable_levels_def il_kv_tables_def il_expire_tables_def opt_list_def new_level_def)
  have inv: "lm_inv E ?lm0"
    unfolding lm_inv_def tabs using assms
    by (auto simp: compactable_def tables_ok_Cons below_writable_def new_level_def iter_levels_def
        iter_immutable_levels_def iter_persisted_def opt_list_def expire_table_ok_def)
  have views: "lm_kv_view E ?lm0 = compact_kv_view E ls (persisted lm)"
    "lm_expire_view E ?lm0 = compact_expire_view E ls (persisted lm)"
    by (auto simp: lm_kv_view_def lm_expire_view_def tabs compact_kv_view_def compact_expire_view_def)
  show "lm_get_kv E ?lm0 k = Inr (compact_kv_view E ls (persisted lm) k)"
    "lm_get_expire E ?lm0 ek = Inr (compact_expire_view E ls (persisted lm) ek)"
    by (simp_all add: lm_get_kv_view [OF inv] lm_get_expire_view [OF inv] views)
qed

text \<open>
  C26. The stream a compactor produces is the encoded form of exactly the live entries below the
  writable level: keys in order, the newest entry of each key, no tombstones, with the system data of
  the newest frozen level.
\<close>

theorem compaction_stream_exact:
  assumes "lm_inv E lm" and "immutable_levels lm \<noteq> []" and "new_compactor chan lm = (c, lm')"
  shows "\<exists>exps kvs rows. compactor_compact E c = Inr (lv_sys_data (im_level (last (immutable_levels lm))), map Inr rows) \<and>
    encoded_table (e_codec E) exps kvs = Inr rows \<and> btree_ok rows \<and> btree_ok exps \<and> btree_ok kvs \<and>
    (\<forall>k m. (k, m) \<in> set kvs \<longleftrightarrow> lm_get_kv E (below_writable lm (immutable_levels lm)) k = Inr m \<and> is_normal m) \<and>
    (\<forall>k m. (k, m) \<in> set exps \<longleftrightarrow> lm_get_expire E (below_writable lm (immutable_levels lm)) k = Inr m \<and> is_normal m)"
proof -
  have c: "c_immutable_levels c = immutable_levels lm" "c_db c = persisted lm" "compacts c lm'"
    using assms(3) new_compactor_compacts [OF assms(3)] by (auto simp: new_compactor_def)
  have lm': "lm' = lm\<lparr>current_compactor := Some chan\<rparr>" using assms(3) by (simp add: new_compactor_def)
  have inv': "lm_inv E lm'" using assms(1) by (simp add: lm' lm_inv_current_compactor)
  obtain X K where XK: "compactor_compact E c =
      Inr (lv_sys_data (im_level (last (immutable_levels lm))), map Inr (enc_rows (e_codec E) X K))"
    "live_table (compact_expire_view E (immutable_levels lm) (persisted lm)) X" "expire_table_ok X"
    "live_table (compact_kv_view E (immutable_levels lm) (persisted lm)) K"
    using compact_correct [OF compacts_compactable [OF inv' c(3)]] assms(2) by (auto simp: compactor_compact_def c)
  have "compactable E (lm_seq lm) (immutable_levels lm) (persisted lm)"
    using compacts_compactable [OF inv' c(3)] by (simp add: c lm')
  note reads = below_writable_reads [OF lm_inv_parts(5) [OF assms(1)] this]
  have "encoded_table (e_codec E) X K = Inr (enc_rows (e_codec E) X K)"
    by (rule encoded_table_rows [OF lm_inv_parts(2) [OF assms(1)] XK(3)])
  moreover have "btree_ok X" "btree_ok K" using XK(2,4) by (simp_all add: live_table_def)
  moreover from this have "btree_ok (enc_rows (e_codec E) X K)" by (intro enc_rows_ok XK(3))
  ultimately show ?thesis
    using XK by (intro exI [of _ X] exI [of _ K]) (auto simp: live_table_def reads)
qed

theorem compaction_stream_exact_witness:
  "\<exists>(lm :: (nat, unit) leveled_map) sys kvs exps rows.
     compactor_compact env_ref (fst (new_compactor 3 lm)) = Inr (sys, map Inr rows) \<and>
     encoded_table codec_ref exps kvs = Inr rows \<and>
     (\<forall>k m. (k, m) \<in> set kvs \<longleftrightarrow> lm_get_kv env_ref (below_writable lm (immutable_levels lm)) k = Inr m \<and> is_normal m)"
proof -
  obtain lm :: "(nat, unit) leveled_map" where lm: "lm_inv env_ref lm" "immutable_levels lm \<noteq> []"
    by (rule sample_store)
  from compaction_stream_exact [OF lm, of 3 "fst (new_compactor 3 lm)" "snd (new_compactor 3 lm)"] show ?thesis
    by (simp add: env_ref_def) blast
qed

text \<open>
  C27. Compacting the frozen levels in place keeps every entry, tombstones included: afterwards there
  is at most one level, and any entry read through it and the snapshot below is what it was before.
\<close>

theorem compaction_in_place_keeps_entries:
  assumes "lm_inv E lm" and "new_compactor chan lm = (c, lm')"
  shows "\<exists>c'. compactor_compact_immutable_in_place E uniq c = Inr c' \<and> length (c_immutable_levels c') \<le> 1 \<and>
    (\<forall>k. lm_get_kv E (below_writable lm (c_immutable_levels c')) k = lm_get_kv E (below_writable lm (immutable_levels lm)) k) \<and>
    (\<forall>k. lm_get_expire E (below_writable lm (c_immutable_levels c')) k = lm_get_expire E (below_writable lm (immutable_levels lm)) k)"
proof -
  have c: "c_immutable_levels c = immutable_levels lm" "c_db c = persisted lm" "compacts c lm'"
    using assms(2) new_compactor_compacts [OF assms(2)] by (auto simp: new_compactor_def)
  have "lm_inv E lm'" using assms by (auto simp: new_compactor_def lm_inv_current_compactor)
  then have ok: "compactable E (lm_seq lm') (immutable_levels lm) (persisted lm)"
    using compacts_compactable [of E lm' c] c by simp
  obtain ls where ls: "compact_immutable_in_place E uniq (immutable_levels lm) = Inr ls" "length ls \<le> 1"
    "compactable E (lm_seq lm') ls (persisted lm)"
    "compact_kv_view E ls (persisted lm) = compact_kv_view E (immutable_levels lm) (persisted lm)"
    "compact_expire_view E ls (persisted lm) = compact_expire_view E (immutable_levels lm) (persisted lm)"
    using compact_in_place_correct [OF ok] by blast
  have seq: "lm_seq lm' = lm_seq lm" using assms(2) by (auto simp: new_compactor_def)
  note new = below_writable_reads [OF _ ls(3) [unfolded seq]] and old = below_writable_reads [OF _ ok [unfolded seq]]
  have "lm_seq lm < 2 ^ 64" using assms(1) by (rule lm_inv_parts)
  then show ?thesis
    using ls(1,2,4,5) new old by (auto simp: compactor_compact_immutable_in_place_def c)
qed

theorem compaction_in_place_keeps_entries_witness:
  "\<exists>(lm :: (nat, unit) leveled_map) c'.
     compactor_compact_immutable_in_place env_ref 9 (fst (new_compactor 3 lm)) = Inr c' \<and> length (c_immutable_levels c') \<le> 1 \<and>
     immutable_levels lm \<noteq> []"
proof -
  obtain lm :: "(nat, unit) leveled_map" where lm: "lm_inv env_ref lm" "immutable_levels lm \<noteq> []"
    by (rule sample_store)
  from compaction_in_place_keeps_entries [OF lm(1), of 3 "fst (new_compactor 3 lm)" "snd (new_compactor 3 lm)" 9] lm(2) show ?thesis
    by auto
qed

text \<open>Two maps that return the same live entries.\<close>

definition same_live_entries :: "env \<Rightarrow> ('lid, 'mem) leveled_map \<Rightarrow> ('lid, 'mem) leveled_map \<Rightarrow> bool" where
  "same_live_entries E lm lm' \<longleftrightarrow>
     (\<forall>k. \<exists>m m'. lm_get_kv E lm k = Inr m \<and> lm_get_kv E lm' k = Inr m' \<and> marked_to_seqv m' = marked_to_seqv m) \<and>
     (\<forall>k. \<exists>m m'. lm_get_expire E lm k = Inr m \<and> lm_get_expire E lm' k = Inr m' \<and> marked_to_seqv m' = marked_to_seqv m)"

lemma hand_in:
  assumes lm: "lm_inv E lm" and c: "compacts c lm" and ne: "c_immutable_levels c \<noteq> []"
  shows "\<exists>sys t. compactor_compact E c = Inr (sys, map Inr t) \<and> btree_ok t \<and>
    (\<forall>d. rotbl_ok (db_rotbl d) t \<longrightarrow>
      (\<exists>lm'. replace_with_compacted lm c d = Inr lm' \<and> writable lm' = writable lm \<and>
        immutable_levels lm = c_immutable_levels c @ immutable_levels lm' \<and> same_live_entries E lm lm'))"
proof -
  obtain X K where cmp: "compactor_compact E c =
      Inr (lv_sys_data (im_level (last (c_immutable_levels c))), map Inr (enc_rows (e_codec E) X K))"
    and ok: "btree_ok (enc_rows (e_codec E) X K)"
    using compact_correct [OF compacts_compactable [OF lm c] ne]
    by (auto simp: compactor_compact_def live_table_def intro: enc_rows_ok)
  have "\<exists>lm'. replace_with_compacted lm c d = Inr lm' \<and> writable lm' = writable lm \<and>
      immutable_levels lm = c_immutable_levels c @ immutable_levels lm' \<and> same_live_entries E lm lm'"
    if d: "rotbl_ok (db_rotbl d) (enc_rows (e_codec E) X K)" for d
  proof -
    obtain lm' where "replace_with_compacted lm c d = Inr lm'" "lm_inv E lm'"
      "immutable_levels lm' = added_levels c lm" "writable lm' = writable lm"
      "\<forall>k. marked_to_seqv (lm_kv_view E lm' k) = marked_to_seqv (lm_kv_view E lm k)"
      "\<forall>k. marked_to_seqv (lm_expire_view E lm' k) = marked_to_seqv (lm_expire_view E lm k)"
      using replace_with_compacted_correct [OF lm c ne cmp d] by blast
    with compacts_levels [OF c] lm show ?thesis
      by (intro exI [of _ lm']) (simp add: same_live_entries_def lm_get_kv_view lm_get_expire_view)
  qed
  with cmp ok show ?thesis by blast
qed

text \<open>
  C22. Compaction beside writers is safe: whatever writes, freezes and earlier compactions happened,
  there is at most one compactor; handing in the snapshot it built does not fail, keeps
  the levels frozen since it was acquired and the writable level, and changes no live entry of either key space.
\<close>

theorem compaction_protocol_safe:
  assumes "env_ok E" and "steps E (world_init mem0) w"
  shows "length (w_compactors w) \<le> 1 \<and>
    (\<forall>c \<in> set (w_compactors w). c_immutable_levels c \<noteq> [] \<longrightarrow>
      (\<exists>sys t. compactor_compact E c = Inr (sys, map Inr t) \<and> btree_ok t \<and>
        (\<forall>d. rotbl_ok (db_rotbl d) t \<longrightarrow>
          (\<exists>lm'. replace_with_compacted (w_map w) c d = Inr lm' \<and> writable lm' = writable (w_map w) \<and>
            immutable_levels (w_map w) = c_immutable_levels c @ immutable_levels lm' \<and>
            same_live_entries E (w_map w) lm'))))"
  using world_inv_steps [OF assms(2) world_inv_init [OF assms(1)]] hand_in unfolding world_inv_def by blast

theorem compaction_protocol_safe_witness:
  "\<exists>(w :: (nat, unit) world) c sys t lm'.
     steps env_ref (world_init ()) w \<and> w_compactors w = [c] \<and> compactor_compact env_ref c = Inr (sys, map Inr t) \<and>
     replace_with_compacted (w_map w) c
       \<lparr>db_meta = \<lparr>last_log_id = None, snap_membership = (None, ()), snapshot_id = []\<rparr>, db_sys_data = sys, db_rotbl = rotbl_ref t\<rparr> = Inr lm' \<and>
     same_live_entries env_ref (w_map w) lm'"
proof -
  let ?w0 = "world_init () :: (nat, unit) world"
  let ?w1 = "?w0\<lparr>w_map := freeze_writable 1 (w_map ?w0)\<rparr>"
  obtain c lm where c: "new_compactor 7 (w_map ?w1) = (c, lm)" by (cases "new_compactor 7 (w_map ?w1)")
  let ?w2 = "?w1\<lparr>w_map := lm, w_compactors := c # w_compactors ?w1\<rparr>"
  have acq: "try_acquire_compactor (world_recv ?w1) 7 (w_map ?w1) = Inr (Some c, lm)"
    using c by (simp add: try_acquire_compactor_def world_init_def leveled_map_default_def freeze_writable_def)
  have steps: "steps env_ref ?w0 ?w2"
    by (rule steps_step [OF steps_step [OF steps_refl maintenance [OF freeze]] maintenance [OF acquire [OF acq]]])
  have ne: "c_immutable_levels c \<noteq> []" and one: "w_compactors ?w2 = [c]"
    using c by (auto simp: new_compactor_def world_init_def freeze_writable_def il_push_def)
  with compaction_protocol_safe [OF env_ref_ok steps] obtain sys t where t: "compactor_compact env_ref c = Inr (sys, map Inr t)" "btree_ok t"
    and rep: "\<And>d. rotbl_ok (db_rotbl d) t \<Longrightarrow> \<exists>lm'. replace_with_compacted (w_map ?w2) c d = Inr lm' \<and> same_live_entries env_ref (w_map ?w2) lm'"
    by simp blast
  from rep [of "\<lparr>db_meta = \<lparr>last_log_id = None, snap_membership = (None, ()), snapshot_id = []\<rparr>, db_sys_data = sys, db_rotbl = rotbl_ref t\<rparr>"]
    rotbl_ref_ok [OF t(2)] obtain lm' where
    "replace_with_compacted (w_map ?w2) c
       \<lparr>db_meta = \<lparr>last_log_id = None, snap_membership = (None, ()), snapshot_id = []\<rparr>, db_sys_data = sys, db_rotbl = rotbl_ref t\<rparr> = Inr lm'"
    "same_live_entries env_ref (w_map ?w2) lm'"
    by auto
  with steps one t(1) show ?thesis by blast
qed

section \<open>Snapshots and listings\<close>

text \<open>
  C30. A snapshot that holds the encoded entries of both key spaces is read back exactly: every point
  read and every range of the snapshot returns the entries that were encoded into it.
\<close>

theorem snapshot_read_back:
  assumes "codec_ok C" and "btree_ok exps" and "expire_table_ok exps" and "btree_ok kvs"
    and "encoded_table C exps kvs = Inr t" and "rotbl_ok (db_rotbl d) t"
  shows "db_get_kv C d k = Inr (case btree_get kvs k of Some m \<Rightarrow> m | None \<Rightarrow> marked_empty) \<and>
    db_get_expire C d ek = Inr (case btree_get exps ek of Some m \<Rightarrow> m | None \<Rightarrow> marked_empty) \<and>
    (range_ok r \<longrightarrow> db_range_kv C d r = Inr (map Inr (filter (\<lambda>(k, m). in_bounds r k) kvs))) \<and>
    (expire_range_ok er \<longrightarrow> db_range_expire C d er = Inr (map Inr (filter (\<lambda>(k, m). in_bounds er k) exps)))"
  using reads_table_get [OF db_reads(1) [OF assms], of k] reads_table_get [OF db_reads(2) [OF assms], of ek]
    reads_table_range [OF db_reads(1) [OF assms], of r] reads_table_range [OF db_reads(2) [OF assms], of er]
  by (simp add: db_get_kv_def db_get_expire_def db_range_kv_def db_range_expire_def table_range_def)

theorem snapshot_read_back_witness:
  "\<exists>t. encoded_table codec_ref [(ExpireKey 5000 1, Normal 1 (str ''a'') None)] [(str ''a'', Normal 1 [7] None)] = Inr t \<and>
     db_get_kv codec_ref (\<lparr>db_meta = \<lparr>last_log_id = None, snap_membership = (None, ()), snapshot_id = []\<rparr>,
       db_sys_data = sys_data_default (), db_rotbl = rotbl_ref t\<rparr> :: (nat, unit) db) (str ''a'') = Inr (Normal 1 [7] None)"
proof -
  let ?x = "[(ExpireKey 5000 1, Normal 1 (str ''a'') None)]" and ?k = "[(str ''a'', Normal 1 [7] None)]"
  have ok: "expire_table_ok ?x" "btree_ok ?x" "btree_ok ?k"
    by (simp_all add: expire_table_ok_def expire_key_u64_def marked_valid_str_def str_def valid_str_def valid_char_def btree_ok_def)
  note enc = encoded_table_rows [OF codec_ref_ok ok(1), of ?k]
  let ?d = "\<lparr>db_meta = \<lparr>last_log_id = None, snap_membership = (None, ()), snapshot_id = []\<rparr>,
       db_sys_data = sys_data_default (), db_rotbl = rotbl_ref (enc_rows codec_ref ?x ?k)\<rparr> :: (nat, unit) db"
  have "rotbl_ok (db_rotbl ?d) (enc_rows codec_ref ?x ?k)"
    using rotbl_ref_ok [OF enc_rows_ok [OF ok(2,1,3)]] by simp
  from snapshot_read_back [OF codec_ref_ok ok(2,1,3) enc this, of "str ''a''"] enc show ?thesis
    by (auto simp: btree_get_def)
qed

text \<open>
  C33. The bound of a prefix listing is exact: between a prefix and its right bound lie the strings
  with that prefix and no others.
\<close>

theorem prefix_bound_exact:
  assumes "prefix_right_bound p = Some r" and "valid_str s"
  shows "in_bounds (Included p, Excluded r) s \<longleftrightarrow> prefix p s"
  using prefix_range_exact [OF assms] by (simp add: in_bounds_def)

theorem prefix_bound_exact_witness:
  "prefix_right_bound (str ''ab'') = Some (str ''ac'') \<and> in_bounds (Included (str ''ab''), Excluded (str ''ac'')) (str ''abz'')"
proof -
  have "prefix_right_bound (str ''ab'') = Some (str ''ac'')"
    by (simp add: prefix_right_bound_def str_def valid_char_def)
  with prefix_bound_exact [OF this, of "str ''abz''"] show ?thesis
    by (simp add: str_def valid_str_def valid_char_def)
qed



text \<open>
  C32. A key of the expiration index survives encoding into a string key of the snapshot and
  decoding, and the string keys are ordered as the keys are, so a range over string keys is a
  range over keys.
\<close>

theorem expire_key_codec:
  assumes "expire_key_u64 k" and "expire_key_u64 k'"
  shows "decode_key expire_space (encode_key expire_space k) = Inr k \<and>
    (encode_key expire_space k < encode_key expire_space k' \<longleftrightarrow> k < k')"
  using assms by (simp add: expire_key_space.decode_encode_key expire_key_space.encode_key_less)

theorem expire_key_codec_witness:
  "expire_key_u64 (ExpireKey 5 7) \<and> expire_key_u64 (ExpireKey 10 1) \<and>
   decode_key expire_space (encode_key expire_space (ExpireKey 5 7)) = Inr (ExpireKey 5 7) \<and>
   encode_key expire_space (ExpireKey 5 7) < encode_key expire_space (ExpireKey 10 1)"
  using expire_key_codec [of "ExpireKey 5 7" "ExpireKey 10 1"]
  by (simp add: expire_key_u64_def less_expire_key_def)

end
