(* ===== verification/MemRefinement.thy ===== *)
theory MemRefinement
  imports ApplyRefinement
begin

text \<open>
  The in-memory state machine of \<open>mem_meta.rs\<close>: the applier over a single level, called directly
  with the wall-clock time instead of through a log. Each call follows the reference machine, and a
  state machine that applies the same requests from a log gives the same replies.
\<close>

section \<open>The calls on the reference machine\<close>

definition flat_mem_upsert ::
    "nat \<Rightarrow> upsert_kv \<Rightarrow> ('lid, 'mem) flat \<Rightarrow> bytes change \<times> ('lid, 'mem) flat" where
  "flat_mem_upsert now up f =
     (case flat_upsert (snd (flat_clean now f)) (CmdContext_from_millis now) up of
        ((prev, result), g) \<Rightarrow> (Change_new prev result, g))"

definition flat_mem_txn ::
    "nat \<Rightarrow> txn_request \<Rightarrow> ('lid, 'mem) flat \<Rightarrow> txn_reply \<times> ('lid, 'mem) flat" where
  "flat_mem_txn now req f =
     (case flat_txn (CmdContext_from_millis now) req (snd (flat_clean now f)) of (r, _, g) \<Rightarrow> (r, g))"

text \<open>Two states of the reference machine that hold the same entries.\<close>

definition same_kv :: "('lid, 'mem) flat \<Rightarrow> ('lid2, 'mem2) flat \<Rightarrow> bool" where
  "same_kv f g \<longleftrightarrow> f_kv f = f_kv g \<and> sequence (f_sys f) = sequence (f_sys g) \<and> f_cursor f = f_cursor g"

abbreviation mem_sim :: "('lid, 'mem) mem_state_machine \<Rightarrow> ('lid, 'mem) flat \<Rightarrow> bool" where
  "mem_sim \<equiv> sm_sim level_ops level_inv level_kv_view level_expire_view"

section \<open>Replies depend on the entries only\<close>

lemma same_kv_upsert:
  "same_kv f g \<Longrightarrow> fst (flat_upsert f ctx up) = fst (flat_upsert g ctx up) \<and>
   same_kv (snd (flat_upsert f ctx up)) (snd (flat_upsert g ctx up))"
  by (simp add: same_kv_def flat_upsert_def flat_put_def Let_def case_prod_beta split: operation.split option.split)

lemma same_kv_clean: "same_kv f g \<Longrightarrow> same_kv (snd (flat_clean t f)) (snd (flat_clean t g))"
  by (simp add: same_kv_def flat_clean_def)

lemma same_kv_op:
  assumes "same_kv f g"
  shows "fst (flat_op ctx x f) = fst (flat_op ctx x g) \<and> fst (snd (flat_op ctx x f)) = fst (snd (flat_op ctx x g)) \<and>
    same_kv (snd (snd (flat_op ctx x f))) (snd (snd (flat_op ctx x g)))"
proof (cases x)
  case None
  with assms show ?thesis by (simp add: flat_op_def)
next
  case (Some r)
  have kv: "f_kv f = f_kv g" "flat_list f = flat_list g" using assms by (auto simp: same_kv_def flat_list_def)
  show ?thesis
  proof (cases r)
    case (ReqPut put)
    then show ?thesis
      using Some same_kv_upsert [OF assms, of ctx] by (simp add: flat_op_def case_prod_beta)
  next
    case (ReqDelete del)
    then show ?thesis
      using Some same_kv_upsert [OF assms, of ctx] by (simp add: flat_op_def case_prod_beta)
  qed (use assms kv Some in \<open>auto simp: flat_op_def same_kv_def\<close>)
qed

lemma same_kv_ops:
  "same_kv f g \<Longrightarrow> fst (flat_ops ctx xs f) = fst (flat_ops ctx xs g) \<and>
   fst (snd (flat_ops ctx xs f)) = fst (snd (flat_ops ctx xs g)) \<and>
   same_kv (snd (snd (flat_ops ctx xs f))) (snd (snd (flat_ops ctx xs g)))"
proof (induction xs arbitrary: f g)
  case (Cons x xs)
  from Cons.IH [OF conjunct2 [OF conjunct2 [OF same_kv_op [OF Cons.prems, of ctx x]]]] same_kv_op [OF Cons.prems, of ctx x]
  show ?case by (simp add: case_prod_beta)
qed simp

lemma same_kv_txn:
  assumes "same_kv f g"
  shows "fst (flat_txn ctx req f) = fst (flat_txn ctx req g) \<and>
    same_kv (snd (snd (flat_txn ctx req f))) (snd (snd (flat_txn ctx req g)))"
proof -
  have "flat_cond f = flat_cond g"
    using assms by (auto simp: same_kv_def flat_cond_def flat_list_def fun_eq_iff split: option.split txn_target.split)
  then show ?thesis
    using same_kv_ops [OF assms, of ctx] by (simp add: flat_txn_def case_prod_beta)
qed

text \<open>A log entry with the request gives the reply of the call.\<close>

definition write_entry :: "'lid \<Rightarrow> nat \<Rightarrow> cmd \<Rightarrow> ('lid, 'mem) entry" where
  "write_entry i now c = \<lparr>en_log_id = i, en_payload = NormalEntry \<lparr>le_txid = None, le_time_ms = Some now, le_cmd = c\<rparr>\<rparr>"

lemma same_kv_apply:
  assumes "same_kv f g"
  shows "fst (flat_apply (write_entry i now (CmdUpsertKV up)) g) = StateKV (fst (flat_mem_upsert now up f))"
    and "same_kv (snd (flat_mem_upsert now up f)) (snd (snd (flat_apply (write_entry i now (CmdUpsertKV up)) g)))"
    and "fst (flat_apply (write_entry i now (Transaction req)) g) = StateTxnReply (fst (flat_mem_txn now req f))"
    and "same_kv (snd (flat_mem_txn now req f)) (snd (snd (flat_apply (write_entry i now (Transaction req)) g)))"
proof -
  let ?ctx = "CmdContext_from_millis now"
  let ?g = "snd (flat_clean now g)\<lparr>f_sys := (f_sys (snd (flat_clean now g)))\<lparr>last_applied := Some i\<rparr>\<rparr>"
  have g: "same_kv (snd (flat_clean now f)) ?g" using same_kv_clean [OF assms, of now] by (simp add: same_kv_def)
  note apply_simps = write_entry_def flat_apply_def flat_payload_def get_log_time_def flat_cmd_def case_prod_beta
  note up = same_kv_upsert [OF g, of ?ctx up] and txn = same_kv_txn [OF g, of ?ctx req]
  show "fst (flat_apply (write_entry i now (CmdUpsertKV up)) g) = StateKV (fst (flat_mem_upsert now up f))"
    using up by (simp add: apply_simps flat_mem_upsert_def)
  show "same_kv (snd (flat_mem_upsert now up f)) (snd (snd (flat_apply (write_entry i now (CmdUpsertKV up)) g)))"
    using up by (simp add: apply_simps flat_mem_upsert_def)
  show "fst (flat_apply (write_entry i now (Transaction req)) g) = StateTxnReply (fst (flat_mem_txn now req f))"
    using txn by (simp add: apply_simps flat_mem_txn_def)
  show "same_kv (snd (flat_mem_txn now req f)) (snd (snd (flat_apply (write_entry i now (Transaction req)) g)))"
    using txn by (simp add: apply_simps flat_mem_txn_def)
qed

section \<open>The calls follow the reference machine\<close>

lemma mem_upsert_sim:
  assumes sim: "mem_sim s f" and "valid_str (uk_key up)" and "now < 2 ^ 64"
    and "sequence (f_sys f) + upsert_seqs up < 2 ^ 64"
  shows "\<exists>s'. mem_upsert_kv s now up = Inr (fst (flat_mem_upsert now up f), s') \<and> mem_sim s' (snd (flat_mem_upsert now up f))"
proof -
  let ?a = "(Applier_new s)\<lparr>ap_cmd_ctx := CmdContext_from_millis now\<rparr>"
  obtain evs f1 where f1: "flat_clean now f = (evs, f1)" by (metis prod.exhaust)
  have "mem_sim (ap_sm ?a) f" using sim by (simp add: Applier_new_def)
  from single_level.clean_expired_sim [OF this assms(3) f1] obtain b where
    b: "clean_expired_kvs level_ops ?a now = Inr b" "mem_sim (ap_sm b) f1" "follows ?a evs b"
    by blast
  have ctx: "ap_cmd_ctx b = CmdContext_from_millis now" using b(3) by (simp add: follows_def)
  obtain p r g where up: "flat_upsert f1 (ap_cmd_ctx b) up = ((p, r), g)" by (metis prod.exhaust)
  have "f_sys f1 = f_sys f" using f1 by (auto simp: flat_clean_def split: if_splits)
  with single_level.upsert_sim [OF b(2) assms(2) _ up] assms(4) obtain m where
    "applier_upsert_kv level_ops b up = Inr ((p, r), b\<lparr>ap_sm := (ap_sm b)\<lparr>sm_map := m\<rparr>,
       ap_changes := ap_changes b @ change_events (uk_key up) p r\<rparr>)" "mem_sim ((ap_sm b)\<lparr>sm_map := m\<rparr>) g"
    by auto
  with b(1) up f1 ctx show ?thesis
    by (auto simp: mem_upsert_kv_def mem_init_applier_def flat_mem_upsert_def)
qed

lemma mem_transaction_sim:
  assumes sim: "mem_sim s f" and "txn_ok req" and "now < 2 ^ 64"
    and "sequence (f_sys f) + cmd_seqs (Transaction req) < 2 ^ 64"
  shows "\<exists>s'. mem_transaction s now req = Inr (fst (flat_mem_txn now req f), s') \<and> mem_sim s' (snd (flat_mem_txn now req f))"
proof -
  let ?a = "(Applier_new s)\<lparr>ap_cmd_ctx := CmdContext_from_millis now\<rparr>"
  obtain evs f1 where f1: "flat_clean now f = (evs, f1)" by (metis prod.exhaust)
  have "mem_sim (ap_sm ?a) f" using sim by (simp add: Applier_new_def)
  from single_level.clean_expired_sim [OF this assms(3) f1] obtain b where
    b: "clean_expired_kvs level_ops ?a now = Inr b" "mem_sim (ap_sm b) f1" "follows ?a evs b"
    by blast
  have ctx: "ap_cmd_ctx b = CmdContext_from_millis now" using b(3) by (simp add: follows_def)
  obtain r evs' g where txn: "flat_txn (ap_cmd_ctx b) req f1 = (r, evs', g)" by (metis prod.exhaust)
  have "f_sys f1 = f_sys f" using f1 by (auto simp: flat_clean_def split: if_splits)
  with single_level.apply_txn_sim [OF b(2) assms(2) _ txn] assms(4) obtain m where
    "apply_txn level_ops b req = Inr (StateTxnReply r, advance b m evs')" "mem_sim ((ap_sm b)\<lparr>sm_map := m\<rparr>) g"
    by auto
  with b(1) txn f1 ctx show ?thesis
    by (auto simp: mem_transaction_def mem_init_applier_def flat_mem_txn_def)
qed

end
