(* ===== verification/ReadRefinement.thy ===== *)
theory ReadRefinement
  imports ApplyRefinement
begin

text \<open>
  Reads by clients on the reference machine: the entry of a key and the entries with a prefix, without those
  that have expired at the wall-clock time. The reads of the key-value interface of a state machine
  (\<open>sm_v003_kv_api.rs\<close>, \<open>mem_meta.rs\<close>) return exactly these.
\<close>

section \<open>Reads of the reference machine\<close>

definition flat_read :: "nat \<Rightarrow> ('lid, 'mem) flat \<Rightarrow> rstr \<Rightarrow> bytes seqv option" where
  "flat_read t f k =
     (case btree_get (f_kv f) k of Some v \<Rightarrow> if expired_before t v then None else Some v | None \<Rightarrow> None)"

definition flat_item :: "nat \<Rightarrow> ('lid, 'mem) flat \<Rightarrow> rstr \<Rightarrow> stream_item" where
  "flat_item t f k = \<lparr>si_key = k, si_value = map_option seqv_to_pb (flat_read t f k)\<rparr>"

definition flat_items :: "nat \<Rightarrow> ('lid, 'mem) flat \<Rightarrow> rstr \<Rightarrow> stream_item list" where
  "flat_items t f p =
     map (\<lambda>(k, v). \<lparr>si_key = k, si_value = Some (seqv_to_pb v)\<rparr>)
       (filter (\<lambda>(k, v). prefix p k \<and> \<not> expired_before t v) (f_kv f))"

section \<open>Reads of a state machine\<close>

lemma is_expired_before: "now < 2 ^ 64 \<Longrightarrow> is_expired (sv_meta v) now \<longleftrightarrow> expired_before now v"
  by (auto simp: is_expired_def expired_before_def sv_expires_def opt_expires_at_ms_eq u64_max_def split: option.splits)

context sm_map
begin

lemma get_kv_stream_sim:
  assumes "sim s f" and "now < 2 ^ 64"
  shows "get_kv_stream M s now keys = Inr (map Inr (map (flat_item now f) keys))"
proof -
  have "\<not> is_expired None now" using assms(2) by (simp add: is_expired_def opt_expires_at_ms_eq u64_max_def)
  then have item: "rbind (get_maybe_expired_kv M s k) (\<lambda>got.
      let v = non_expired got now in Inr (Inr (StreamItem_from_opt (k, v)))) = Inr (Inr (flat_item now f k))" for k
    by (simp add: get_sim [OF assms(1)] non_expired_def StreamItem_from_opt_def opt_meta_def flat_item_def flat_read_def
        is_expired_before [OF assms(2)] split: option.split)
  show ?thesis unfolding get_kv_stream_def by (induction keys) (simp_all only: rmap.simps list.map item rbind.simps)
qed

lemma api_list_kv_sim:
  assumes "sim s f" and "now < 2 ^ 64"
  shows "api_list_kv M s now p = Inr (map Inr (flat_items now f p))"
proof -
  have "List.map_filter (\<lambda>(k, v). if is_expired (sv_meta v) now then None else Some (StreamItem_from (k, v))) (filter (\<lambda>(k, v). prefix p k) kvs) =
      map (\<lambda>(k, v). \<lparr>si_key = k, si_value = Some (seqv_to_pb v)\<rparr>) (filter (\<lambda>(k, v). prefix p k \<and> \<not> expired_before now v) kvs)" for kvs
    by (induction kvs) (auto simp: List.map_filter_simps StreamItem_from_def is_expired_before [OF assms(2)])
  then show ?thesis
    by (simp add: api_list_kv_def list_kv_sim [OF assms(1)] res_simps flat_list_def flat_items_def case_prod_beta comp_def)
qed

end

end
