(* ===== verification/MemProps.thy ===== *)
theory MemProps
  imports MemRefinement ReadRefinement SampleRun
begin

text \<open>
  The key-value interface of a state machine: the in-memory machine gives the replies a replica gives
  for the same requests, and reads by clients never show an entry that has expired.
\<close>

section \<open>Calls and log entries\<close>

datatype kv_call = CallUpsert upsert_kv | CallTxn txn_request

fun call_cmd :: "kv_call \<Rightarrow> cmd" where
  "call_cmd (CallUpsert up) = CmdUpsertKV up"
| "call_cmd (CallTxn txn) = Transaction txn"

text \<open>A call on the in-memory machine, its reply in the form of a reply of the log.\<close>

fun mem_call :: "('lid, 'mem) mem_state_machine \<Rightarrow> nat \<Rightarrow> kv_call \<Rightarrow> (applied_state \<times> ('lid, 'mem) mem_state_machine) res" where
  "mem_call s now (CallUpsert up) = rbind (mem_upsert_kv s now up) (\<lambda>(ch, s). Inr (StateKV ch, s))"
| "mem_call s now (CallTxn txn) = rbind (mem_transaction s now txn) (\<lambda>(r, s). Inr (StateTxnReply r, s))"

fun mem_run ::
    "('lid, 'mem) mem_state_machine \<Rightarrow> (nat \<times> kv_call) list \<Rightarrow> (applied_state list \<times> ('lid, 'mem) mem_state_machine) res" where
  "mem_run s [] = Inr ([], s)"
| "mem_run s ((now, c) # cs) =
     rbind (mem_call s now c) (\<lambda>(st, s). rbind (mem_run s cs) (\<lambda>(sts, s). Inr (st # sts, s)))"

text \<open>The same calls as a log.\<close>

fun log_of :: "nat \<Rightarrow> (nat \<times> kv_call) list \<Rightarrow> (nat, 'mem) entry list" where
  "log_of i [] = []"
| "log_of i ((now, c) # cs) =
     write_entry i now (call_cmd c) # log_of (i + 1) cs"

definition calls_ok :: "(nat \<times> kv_call) list \<Rightarrow> bool" where
  "calls_ok cs \<longleftrightarrow> list_all (\<lambda>(now, c). now < 2 ^ 64 \<and> cmd_ok (call_cmd c)) cs"

definition calls_seqs :: "(nat \<times> kv_call) list \<Rightarrow> nat" where
  "calls_seqs cs = sum_list (map (\<lambda>(now, c). cmd_seqs (call_cmd c)) cs)"

section \<open>The two machines\<close>

lemma log_of_entries:
  fixes cs :: "(nat \<times> kv_call) list"
  shows "calls_ok cs \<Longrightarrow> list_all entry_ok (log_of i cs :: (nat, 'mem) entry list)"
    and "sum_list (map entry_seqs (log_of i cs :: (nat, 'mem) entry list)) = calls_seqs cs"
  by (induction cs arbitrary: i) (auto simp: calls_ok_def calls_seqs_def entry_ok_def entry_seqs_def get_log_time_def write_entry_def)

lemma log_of_run_ok:
  "calls_ok cs \<Longrightarrow> sequence (f_sys f) + calls_seqs cs < 2 ^ 64 \<Longrightarrow> run_ok (log_of i cs) f"
  by (simp add: run_ok_def log_of_entries)

text \<open>One call and one log entry, from states with the same entries.\<close>

lemma mem_call_sim:
  assumes sim: "mem_sim s f" and "now < 2 ^ 64" and "cmd_ok (call_cmd c)"
    and "sequence (f_sys f) + cmd_seqs (call_cmd c) < 2 ^ 64" and same: "same_kv f g"
    and app: "flat_apply (write_entry i now (call_cmd c)) g = (st, evs, g')"
  obtains s' f' where "mem_call s now c = Inr (st, s')" and "mem_sim s' f'" and "same_kv f' g'"
    and "sequence (f_sys f') \<le> sequence (f_sys f) + cmd_seqs (call_cmd c)"
proof -
  let ?ctx = "CmdContext_from_millis now" and ?f1 = "snd (flat_clean now f)"
  have sys1: "f_sys ?f1 = f_sys f" by (simp add: flat_clean_def)
  have seqs: "sequence (f_sys (snd (snd (flat_cmd ?ctx (call_cmd c) ?f1)))) \<le> sequence (f_sys f) + cmd_seqs (call_cmd c)"
    using flat_cmd_seqs [of ?ctx "call_cmd c" ?f1] sys1 by (metis prod.exhaust_sel)
  note log = same_kv_apply [OF same, where i = i and now = now]
  show thesis
  proof (cases c)
    case (CallUpsert up)
    obtain s' where s': "mem_upsert_kv s now up = Inr (fst (flat_mem_upsert now up f), s')" "mem_sim s' (snd (flat_mem_upsert now up f))"
      using mem_upsert_sim [OF sim _ assms(2), of up] assms(3,4) CallUpsert by (auto simp: cmd_ok_def cmd_seqs_def)
    with log(1,2) [of up] app CallUpsert seqs show thesis
      by (intro that [of s' "snd (flat_mem_upsert now up f)"]) (auto simp: flat_mem_upsert_def flat_cmd_def case_prod_beta)
  next
    case (CallTxn txn)
    obtain s' where s': "mem_transaction s now txn = Inr (fst (flat_mem_txn now txn f), s')" "mem_sim s' (snd (flat_mem_txn now txn f))"
      using mem_transaction_sim [OF sim _ assms(2), of txn] assms(3,4) CallTxn by (auto simp: cmd_ok_def)
    with log(3,4) [of txn] app CallTxn seqs show thesis
      by (intro that [of s' "snd (flat_mem_txn now txn f)"]) (auto simp: flat_mem_txn_def flat_cmd_def case_prod_beta)
  qed
qed

lemma mem_run_sim:
  assumes "mem_sim s f" and "calls_ok cs" and "sequence (f_sys f) + calls_seqs cs < 2 ^ 64" and "same_kv f g"
    and "flat_run (log_of i cs) g = (sts, evs, g')"
  shows "\<exists>s' f'. mem_run s cs = Inr (sts, s') \<and> mem_sim s' f' \<and> same_kv f' g'"
  using assms
proof (induction cs arbitrary: s f g i sts evs)
  case (Cons x cs)
  obtain now c where x: "x = (now, c)" by (cases x)
  let ?e = "write_entry i now (call_cmd c)"
  obtain st evs1 g1 where app: "flat_apply ?e g = (st, evs1, g1)" by (metis prod.exhaust)
  obtain sts' evs2 where run: "flat_run (log_of (i + 1) cs) g1 = (sts', evs2, g')" and sts: "sts = st # sts'"
    using Cons.prems(5) x app by (auto split: prod.splits)
  obtain s1 f1 where s1: "mem_call s now c = Inr (st, s1)" "mem_sim s1 f1" "same_kv f1 g1"
    "sequence (f_sys f1) \<le> sequence (f_sys f) + cmd_seqs (call_cmd c)"
    by (rule mem_call_sim [OF Cons.prems(1) _ _ _ Cons.prems(4) app])
       (use Cons.prems(2,3) x in \<open>simp_all add: calls_ok_def calls_seqs_def\<close>)
  have "calls_ok cs" "sequence (f_sys f1) + calls_seqs cs < 2 ^ 64"
    using Cons.prems(2,3) s1(4) x by (simp_all add: calls_ok_def calls_seqs_def)
  from Cons.IH [OF s1(2) this s1(3) run] s1(1) x sts show ?case by auto
qed auto

lemma mem_default_sim: "mem_sim (mem_state_machine_default mem0) (flat_init mem0)"
  by (simp add: sm_sim_def mem_state_machine_default_def flat_init_def flat_index_def level_ops_def level_default_def
      level_inv_def level_kv_view_def level_expire_view_def table_view_def sys_data_default_def marked_empty_def
      flat_inv_def btree_ok_def)

text \<open>
  C23. The in-memory state machine is equivalent to the replicated one: upserts and transactions
  sent to it with the wall-clock times of a log give the replies that a fresh \<open>SMV003\<close> gives when
  it applies them as log entries, none fails, and afterwards both return the same entries.
\<close>

theorem mem_machine_equivalent:
  assumes "env_ok E" and "calls_ok cs" and "calls_seqs cs < 2 ^ 64"
  shows "\<exists>sts s t. mem_run (mem_state_machine_default mem0 :: (nat, 'mem) mem_state_machine) cs = Inr (sts, s) \<and>
    apply_entries (lm_ops E) (smv003_default mem0) (log_of 1 cs) = Inr (sts, t) \<and>
    (\<forall>k. get_maybe_expired_kv level_ops s k = get_maybe_expired_kv (lm_ops E) t k) \<and>
    (\<forall>p. list_kv level_ops s p = list_kv (lm_ops E) t p)"
proof -
  let ?f = "flat_init mem0 :: (nat, 'mem) flat"
  obtain sts evs g where run: "flat_run (log_of 1 cs) ?f = (sts, evs, g)" by (metis prod.exhaust)
  have seq: "sequence (f_sys ?f) + calls_seqs cs < 2 ^ 64" using assms(3) by (simp add: flat_init_def sys_data_default_def)
  have "sm_sim (lm_ops E) (lm_inv E) (lm_kv_view E) (lm_expire_view E) (smv003_default mem0) ?f"
    using smv003_default_sim [OF assms(1), of None mem0] by (simp add: smv003_default_def)
  from leveled.apply_entries_sim [OF this log_of_run_ok [OF assms(2) seq] run] obtain t where
    t: "apply_entries (lm_ops E) (smv003_default mem0) (log_of 1 cs) = Inr (sts, t)"
    "sm_sim (lm_ops E) (lm_inv E) (lm_kv_view E) (lm_expire_view E) t g"
    by blast
  have "same_kv ?f ?f" by (simp add: same_kv_def)
  from mem_run_sim [OF mem_default_sim assms(2) seq this run] obtain s :: "(nat, 'mem) mem_state_machine" and f' :: "(nat, 'mem) flat" where
    s: "mem_run (mem_state_machine_default mem0) cs = Inr (sts, s)" "mem_sim s f'" "same_kv f' g"
    by blast
  have "f_kv f' = f_kv g" using s(3) by (simp add: same_kv_def)
  then show ?thesis
    using s(1) t(1) single_level.get_sim [OF s(2)] leveled.get_sim [OF t(2)] single_level.list_kv_sim [OF s(2)]
      leveled.list_kv_sim [OF t(2)] by (auto simp: flat_list_def)
qed

lemma mem_run_length: "mem_run s cs = Inr (sts, t) \<Longrightarrow> length sts = length cs"
  by (induction s cs arbitrary: sts rule: mem_run.induct) (fastforce simp: rbind_Inr_iff split: prod.splits)+

theorem mem_machine_equivalent_witness:
  "\<exists>st st' s t. mem_run (mem_state_machine_default () :: (nat, unit) mem_state_machine)
       [(1000, CallUpsert (UpsertKV_update (str ''a'') [1])), (2000, CallTxn (TxnRequest_unconditional [TxnOp_get (str ''a'')]))] =
         Inr ([st, st'], s) \<and>
     apply_entries (lm_ops env_ref) (smv003_default ())
       (log_of 1 [(1000, CallUpsert (UpsertKV_update (str ''a'') [1])), (2000, CallTxn (TxnRequest_unconditional [TxnOp_get (str ''a'')]))]) =
         Inr ([st, st'], t)"
proof -
  let ?cs = "[(1000, CallUpsert (UpsertKV_update (str ''a'') [1])), (2000, CallTxn (TxnRequest_unconditional [TxnOp_get (str ''a'')]))]"
  have "calls_ok ?cs" "calls_seqs ?cs < 2 ^ 64"
    by (simp_all add: calls_ok_def calls_seqs_def cmd_ok_def txn_ok_def op_ok_def cmd_seqs_def upsert_seqs_def op_seqs_def ops_seqs_def
        UpsertKV_update_def TxnRequest_unconditional_def TxnOp_get_def str_def valid_str_def valid_char_def)
  from mem_machine_equivalent [OF env_ref_ok this, of "()"] obtain sts s t where
    *: "mem_run (mem_state_machine_default () :: (nat, unit) mem_state_machine) ?cs = Inr (sts, s)"
    "apply_entries (lm_ops env_ref) (smv003_default ()) (log_of 1 ?cs) = Inr (sts, t)"
    by blast
  moreover from mem_run_length [OF *(1)] have "length sts = 2" by simp
  ultimately show ?thesis by (auto simp: numeral_2_eq_2 length_Suc_conv)
qed

section \<open>Reads by clients\<close>

text \<open>
  C31. Reads by clients never show an entry that expired before the wall-clock time: reading a list
  of keys gives one item per key, in order, that holds the stored value unless it has expired; listing
  a prefix gives the keys with this prefix in order, those whose entry has expired left out.
\<close>

theorem client_reads_hide_expired:
  assumes "env_ok E" and "replica_steps E (replica_init mem0 sub) r" and "now < 2 ^ 64"
  shows "\<exists>evs f. flat_run (rp_log r) (flat_init mem0) = (rp_replies r, evs, f) \<and>
    get_kv_stream (lm_ops E) (rp_sm r) now keys =
      Inr (map (\<lambda>k. Inr \<lparr>si_key = k, si_value =
        (case btree_get (f_kv f) k of
           Some v \<Rightarrow> if expired_before now v then None else Some (seqv_to_pb v)
         | None \<Rightarrow> None)\<rparr>) keys) \<and>
    api_list_kv (lm_ops E) (rp_sm r) now p =
      Inr (map (\<lambda>(k, v). Inr \<lparr>si_key = k, si_value = Some (seqv_to_pb v)\<rparr>)
        (filter (\<lambda>(k, v). prefix p k \<and> \<not> expired_before now v) (f_kv f)))"
proof -
  obtain evs f where run: "flat_run (rp_log r) (flat_init mem0) = (rp_replies r, evs, f)"
    and sim: "sm_sim (lm_ops E) (lm_inv E) (lm_kv_view E) (lm_expire_view E) (rp_sm r) f"
    by (rule replica_sim [OF assms(1,2)])
  have "map Inr (map (flat_item now f) keys) = map (\<lambda>k. Inr \<lparr>si_key = k, si_value =
        (case btree_get (f_kv f) k of
           Some v \<Rightarrow> if expired_before now v then None else Some (seqv_to_pb v)
         | None \<Rightarrow> None)\<rparr>) keys"
    by (simp add: flat_item_def flat_read_def split: option.split)
  then show ?thesis
    using run leveled.get_kv_stream_sim [OF sim assms(3)] leveled.api_list_kv_sim [OF sim assms(3)]
    by (simp add: flat_items_def comp_def case_prod_beta)
qed

theorem client_reads_hide_expired_witness:
  "\<exists>r :: (nat, unit) replica. replica_steps env_ref (replica_init () None) r \<and> rp_log r = sample_log \<and>
     get_kv_stream (lm_ops env_ref) (rp_sm r) 6000 [str ''a'', str ''ab''] =
       Inr [Inr \<lparr>si_key = str ''a'', si_value = None\<rparr>,
            Inr \<lparr>si_key = str ''ab'', si_value = Some (seqv_to_pb (SeqV_with_meta 2 None [2]))\<rparr>] \<and>
     api_list_kv (lm_ops env_ref) (rp_sm r) 6000 (str ''a'') =
       Inr [Inr \<lparr>si_key = str ''ab'', si_value = Some (seqv_to_pb (SeqV_with_meta 2 None [2]))\<rparr>]"
proof -
  obtain r :: "(nat, unit) replica" where r: "replica_steps env_ref (replica_init () None) r" "rp_log r = sample_log"
    by (rule sample_replica)
  from client_reads_hide_expired [OF env_ref_ok r(1), of 6000 "[str ''a'', str ''ab'']" "str ''a''"] r show ?thesis
    by (intro exI [of _ r]) (auto simp: sample_run, simp_all add: sample_flat_def btree_get_def expired_before_def sv_expires_def
        SeqV_with_meta_def KVMeta_new_def get_expire_at_ms_def u64_mul_def str_def)
qed

end
