(* ===== verification/KvKey.thy ===== *)
theory KvKey
  imports Utf8 "HOL-Library.Sublist"
begin

text \<open>
  Keys of the meta-service as strings (\<open>helper.rs\<close>, \<open>key_builder.rs\<close>, \<open>key_parser.rs\<close>,
  \<open>key_codec.rs\<close>, \<open>key.rs\<close>, \<open>dir_name.rs\<close> and \<open>prefix.rs\<close> of \<open>src/meta/kvapi/src/kvapi\<close>). A structured
  key is written as segments separated by slashes; strings are escaped byte by byte so that a segment
  contains no slash, numbers are written in decimal.

  A failing call returns a \<open>KeyError\<close> or panics; both are values of \<open>key_failure\<close>. The encoding side
  has no errors, only panics.

  The locale \<open>key_codec\<close> states what \<open>Key::to_string_key\<close> and \<open>Key::from_str_key\<close> rely on of an
  implementation of the trait \<open>KeyCodec\<close>; inside it the round trip and injectivity of string keys are
  proved once for all key types.
\<close>

section \<open>Errors\<close>

datatype key_error =
    FromUtf8Error
  | AsciiError rstr
  | InvalidSegment nat rstr rstr
  | EmptySegment nat
  | WrongNumberOfSegments nat rstr
  | AtleastSegments nat nat
  | InvalidId rstr
  | UnknownPrefix rstr

datatype key_failure = KeyErr key_error | KeyPanic panic

type_synonym 'a pres = "panic + 'a"
type_synonym 'a kres = "key_failure + 'a"

definition no_error :: "'a pres \<Rightarrow> 'a kres" where
  "no_error r = (case r of Inl e \<Rightarrow> Inl (KeyPanic e) | Inr x \<Rightarrow> Inr x)"

definition from_utf8_unwrap :: "bytes \<Rightarrow> rstr pres" where
  "from_utf8_unwrap bs = (case utf8_decode bs of Some s \<Rightarrow> Inr s | None \<Rightarrow> Inl UnwrapNone)"

definition from_utf8 :: "bytes \<Rightarrow> rstr kres" where
  "from_utf8 bs = (case utf8_decode bs of Some s \<Rightarrow> Inr s | None \<Rightarrow> Inl (KeyErr FromUtf8Error))"

section \<open>Escaping\<close>

definition hex :: "nat \<Rightarrow> nat pres" where
  "hex num = (if num \<le> 9 then Inr (48 + num) else if num \<le> 15 then Inr (97 + (num - 10)) else Inl UnreachableCode)"

definition unhex :: "nat \<Rightarrow> nat pres" where
  "unhex num =
     (if 48 \<le> num \<and> num \<le> 57 then Inr (num - 48)
      else if 97 \<le> num \<and> num \<le> 102 then Inr (num - 97 + 10)
      else Inl UnreachableCode)"

text \<open>The three bytes pushed for an escaped byte.\<close>

definition percent :: "nat \<Rightarrow> bytes pres" where
  "percent c = rbind (hex (c div 16)) (\<lambda>h. rbind (hex (c mod 16)) (\<lambda>l. Inr [37, h, l]))"

definition escape_byte :: "nat \<Rightarrow> bytes pres" where
  "escape_byte c =
     (if 48 \<le> c \<and> c \<le> 57 then Inr [c]
      else if c = 95 \<or> 97 \<le> c \<and> c \<le> 122 \<or> 65 \<le> c \<and> c \<le> 90 then Inr [c]
      else percent c)"

definition escape :: "rstr \<Rightarrow> rstr pres" where
  "escape key = rbind (rmap escape_byte (utf8_encode key)) (\<lambda>bs. from_utf8_unwrap (concat bs))"

definition escape_specified :: "rstr \<Rightarrow> bytes \<Rightarrow> rstr pres" where
  "escape_specified key chars =
     rbind (rmap (\<lambda>c. if c \<in> set chars then percent c else Inr [c]) (utf8_encode key)) (\<lambda>bs.
       from_utf8_unwrap (concat bs))"

fun unescape_bytes :: "bytes \<Rightarrow> bytes pres" where
  "unescape_bytes [] = Inr []"
| "unescape_bytes (c # rest) =
     (if c = 37 then
        (case rest of
           [] \<Rightarrow> Inl IndexOutOfBounds
         | [a] \<Rightarrow> rbind (unhex a) (\<lambda>_. Inl IndexOutOfBounds)
         | a # b # rest' \<Rightarrow>
             rbind (unhex a) (\<lambda>x. rbind (unhex b) (\<lambda>y.
             rbind (unescape_bytes rest') (\<lambda>r. Inr ((x * 16 + y) # r)))))
      else rbind (unescape_bytes rest) (\<lambda>r. Inr (c # r)))"

definition unescape :: "rstr \<Rightarrow> rstr kres" where
  "unescape key = rbind (no_error (unescape_bytes (utf8_encode key))) from_utf8"

fun unescape_specified_bytes :: "bytes \<Rightarrow> bytes \<Rightarrow> bytes pres" where
  "unescape_specified_bytes chars [] = Inr []"
| "unescape_specified_bytes chars (c # rest) =
     (if c = 37 then
        (case rest of
           a # b # rest' \<Rightarrow>
             rbind (unhex a) (\<lambda>x. rbind (unhex b) (\<lambda>y.
             rbind (unescape_specified_bytes chars rest') (\<lambda>r.
               Inr (if x * 16 + y \<in> set chars then (x * 16 + y) # r else c # a # b # r))))
         | _ \<Rightarrow> rbind (unescape_specified_bytes chars rest) (\<lambda>r. Inr (37 # r)))
      else rbind (unescape_specified_bytes chars rest) (\<lambda>r. Inr (c # r)))"

definition unescape_specified :: "rstr \<Rightarrow> bytes \<Rightarrow> rstr kres" where
  "unescape_specified key chars = rbind (no_error (unescape_specified_bytes chars (utf8_encode key))) from_utf8"

definition decode_id :: "rstr \<Rightarrow> nat kres" where
  "decode_id s = (case parse_u64 s of Some n \<Rightarrow> Inr n | None \<Rightarrow> Inl (KeyErr (InvalidId s)))"

section \<open>Building keys\<close>

record key_builder =
  kb_buf :: bytes

definition KeyBuilder_new :: key_builder where
  "KeyBuilder_new = \<lparr>kb_buf = []\<rparr>"

definition push_raw :: "rstr \<Rightarrow> key_builder \<Rightarrow> key_builder" where
  "push_raw s b = \<lparr>kb_buf = (if kb_buf b \<noteq> [] then kb_buf b @ [0x2f] else kb_buf b) @ utf8_encode s\<rparr>"

definition KeyBuilder_new_prefixed :: "rstr \<Rightarrow> key_builder" where
  "KeyBuilder_new_prefixed p = push_raw p KeyBuilder_new"

definition push_str :: "rstr \<Rightarrow> key_builder \<Rightarrow> key_builder pres" where
  "push_str s b = rbind (escape s) (\<lambda>e. Inr (push_raw e b))"

definition push_u64 :: "nat \<Rightarrow> key_builder \<Rightarrow> key_builder" where
  "push_u64 n b = push_raw (show_dec n) b"

definition kb_done :: "key_builder \<Rightarrow> rstr pres" where
  "kb_done b = from_utf8_unwrap (kb_buf b)"

section \<open>Parsing keys\<close>

record key_parser =
  kp_str_key :: rstr
  kp_i :: nat
  kp_index :: nat
  kp_elements :: "rstr list"

definition KeyParser_new :: "rstr \<Rightarrow> key_parser" where
  "KeyParser_new source = \<lparr>kp_str_key = source, kp_i = 0, kp_index = 0, kp_elements = split_on 47 source\<rparr>"

text \<open>\<open>KeyParser::index\<close>: the index of the last returned element, in wrapping arithmetic.\<close>

definition kp_last_index :: "key_parser \<Rightarrow> nat" where
  "kp_last_index p = (kp_i p + u64_max) mod 2 ^ 64"

definition peek_literal :: "rstr \<Rightarrow> key_parser \<Rightarrow> unit kres" where
  "peek_literal expect p =
     (case kp_elements p of
        [] \<Rightarrow> Inl (KeyErr (WrongNumberOfSegments (kp_i p) (kp_str_key p)))
      | s # _ \<Rightarrow> if s \<noteq> expect then Inl (KeyErr (InvalidSegment (kp_i p) expect s)) else Inr ())"

definition next_raw :: "key_parser \<Rightarrow> (rstr \<times> key_parser) kres" where
  "next_raw p =
     (case kp_elements p of
        s # rest \<Rightarrow> Inr (s, p\<lparr>kp_i := kp_i p + 1, kp_index := kp_index p + (utf8_len s + 1), kp_elements := rest\<rparr>)
      | [] \<Rightarrow> Inl (KeyErr (WrongNumberOfSegments (kp_i p + 1) (kp_str_key p))))"

text \<open>\<open>NonEmptyString::new\<close>.\<close>

definition NonEmptyString_new :: "rstr \<Rightarrow> rstr option" where
  "NonEmptyString_new s = (if s = [] then None else Some s)"

definition next_nonempty :: "key_parser \<Rightarrow> (rstr \<times> key_parser) kres" where
  "next_nonempty p =
     rbind (next_raw p) (\<lambda>(elt, p).
     rbind (unescape elt) (\<lambda>s.
       case NonEmptyString_new s of
         Some x \<Rightarrow> Inr (x, p)
       | None \<Rightarrow> Inl (KeyErr (EmptySegment (kp_i p - 1)))))"

definition next_str :: "key_parser \<Rightarrow> (rstr \<times> key_parser) kres" where
  "next_str p = rbind (next_raw p) (\<lambda>(elt, p). rbind (unescape elt) (\<lambda>s. Inr (s, p)))"

definition next_u64 :: "key_parser \<Rightarrow> (nat \<times> key_parser) kres" where
  "next_u64 p = rbind (next_raw p) (\<lambda>(elt, p). rbind (decode_id elt) (\<lambda>n. Inr (n, p)))"

definition next_literal :: "rstr \<Rightarrow> key_parser \<Rightarrow> key_parser kres" where
  "next_literal expect p =
     (let ith = kp_i p
      in rbind (next_raw p) (\<lambda>(elt, p).
           if elt \<noteq> expect then Inl (KeyErr (InvalidSegment ith expect elt)) else Inr p))"

definition KeyParser_new_prefixed :: "rstr \<Rightarrow> rstr \<Rightarrow> key_parser kres" where
  "KeyParser_new_prefixed source p = next_literal p (KeyParser_new source)"

text \<open>\<open>&s[n..]\<close>: slicing at a byte position panics outside the string and inside a character.\<close>

fun str_slice_from :: "nat \<Rightarrow> rstr \<Rightarrow> rstr pres" where
  "str_slice_from n s =
     (if n = 0 then Inr s
      else case s of
             [] \<Rightarrow> Inl IndexOutOfBounds
           | c # s' \<Rightarrow>
               if length (utf8_char c) \<le> n then str_slice_from (n - length (utf8_char c)) s' else Inl IndexOutOfBounds)"

declare str_slice_from.simps [simp del]

text \<open>The loop of \<open>tail_raw\<close> that takes the remaining elements.\<close>

fun exhaust :: "rstr list \<Rightarrow> key_parser \<Rightarrow> key_parser" where
  "exhaust [] p = p\<lparr>kp_elements := []\<rparr>"
| "exhaust (s # rest) p = exhaust rest (p\<lparr>kp_i := kp_i p + 1, kp_index := kp_index p + (utf8_len s + 1)\<rparr>)"

definition tail_raw :: "key_parser \<Rightarrow> (rstr \<times> key_parser) kres" where
  "tail_raw p =
     (let index = kp_index p
      in rbind (next_raw p) (\<lambda>(_, p).
         let p = exhaust (kp_elements p) p
         in rbind (no_error (str_slice_from index (kp_str_key p))) (\<lambda>s. Inr (s, p))))"

definition kp_done :: "key_parser \<Rightarrow> unit kres" where
  "kp_done p =
     (case kp_elements p of
        [] \<Rightarrow> Inr ()
      | _ # _ \<Rightarrow> Inl (KeyErr (WrongNumberOfSegments (kp_i p) (kp_str_key p))))"

section \<open>The traits \<open>KeyCodec\<close> and \<open>Key\<close>\<close>

record 'k kcodec =
  kc_encode :: "'k \<Rightarrow> key_builder \<Rightarrow> key_builder pres"
  kc_decode :: "key_parser \<Rightarrow> ('k \<times> key_parser) kres"

definition to_string_key :: "rstr \<Rightarrow> 'k kcodec \<Rightarrow> 'k \<Rightarrow> rstr pres" where
  "to_string_key pfx C k = rbind (kc_encode C k (KeyBuilder_new_prefixed pfx)) kb_done"

definition from_str_key :: "rstr \<Rightarrow> 'k kcodec \<Rightarrow> rstr \<Rightarrow> 'k kres" where
  "from_str_key pfx C s =
     rbind (KeyParser_new_prefixed s pfx) (\<lambda>p.
     rbind (kc_decode C p) (\<lambda>(k, p).
     rbind (kp_done p) (\<lambda>_. Inr k)))"

definition string_codec :: "rstr kcodec" where
  "string_codec = \<lparr>kc_encode = push_str, kc_decode = next_str\<rparr>"

definition u64_codec :: "nat kcodec" where
  "u64_codec = \<lparr>kc_encode = (\<lambda>n b. Inr (push_u64 n b)), kc_decode = next_u64\<rparr>"

definition unit_codec :: "unit kcodec" where
  "unit_codec = \<lparr>kc_encode = (\<lambda>_ b. Inr b), kc_decode = (\<lambda>p. Inr ((), p))\<rparr>"

text \<open>\<open>DirName\<close>: a key without its last \<open>level\<close> segments. \<open>join47\<close> puts slashes between segments.\<close>

fun join47 :: "rstr list \<Rightarrow> rstr" where
  "join47 [] = []"
| "join47 [s] = s"
| "join47 (s # t # ss) = s @ [47] @ join47 (t # ss)"

definition dir_name :: "nat \<Rightarrow> rstr \<Rightarrow> rstr" where
  "dir_name level k = (let ws = split_on 47 k in join47 (take (max 1 (length ws - level)) ws))"

definition dir_name_with_slash :: "nat \<Rightarrow> rstr \<Rightarrow> rstr" where
  "dir_name_with_slash level k = dir_name level k @ [47]"

section \<open>Ranges of a prefix\<close>

definition replace_nth_char :: "rstr \<Rightarrow> nat \<Rightarrow> nat \<Rightarrow> rstr" where
  "replace_nth_char s idx new_char = s[idx := new_char]"

fun ascii_next_loop :: "rstr \<Rightarrow> nat \<Rightarrow> rstr" where
  "ascii_next_loop s 0 = s @ [127]"
| "ascii_next_loop s (Suc l) =
     (if s ! l = 127 then ascii_next_loop s l else replace_nth_char s l (s ! l + 1))"

definition ascii_next :: "rstr \<Rightarrow> rstr kres" where
  "ascii_next s = (if list_ex (\<lambda>c. c \<ge> 128) s then Inl (KeyErr (AsciiError s)) else Inr (ascii_next_loop s (length s)))"

definition prefix_to_range :: "rstr \<Rightarrow> (rstr \<times> rstr) kres" where
  "prefix_to_range p = rbind (ascii_next p) (\<lambda>e. Inr (p, e))"

section \<open>Lemmas\<close>

subsection \<open>Escaping and unescaping\<close>

definition is_ascii :: "rstr \<Rightarrow> bool" where
  "is_ascii s \<longleftrightarrow> (\<forall>c \<in> set s. c < 128)"

lemma is_ascii_simps [simp]:
  "is_ascii []" "is_ascii (c # s) \<longleftrightarrow> c < 128 \<and> is_ascii s" "is_ascii (s @ t) \<longleftrightarrow> is_ascii s \<and> is_ascii t"
  by (auto simp: is_ascii_def)

lemma utf8_encode_is_ascii: "is_ascii s \<Longrightarrow> utf8_encode s = s"
  by (simp add: is_ascii_def utf8_encode_ascii)

lemma is_ascii_valid: "is_ascii s \<Longrightarrow> valid_str s"
  by (auto simp: is_ascii_def valid_str_def valid_char_def)

lemma utf8_decode_ascii: "is_ascii s \<Longrightarrow> utf8_decode s = Some s"
  using utf8_round_trip [OF is_ascii_valid] by (simp add: utf8_encode_is_ascii)

lemma utf8_char_bytes: "valid_char c \<Longrightarrow> b \<in> set (utf8_char c) \<Longrightarrow> b < 256"
proof -
  assume c: "valid_char c" and b: "b \<in> set (utf8_char c)"
  have "c \<le> 0x10FFFF" using c by (auto simp: valid_char_def)
  then have "c div 262144 \<le> 0x10FFFF div 262144" by (rule div_le_mono)
  moreover have "c < 0x10000 \<Longrightarrow> c div 4096 < 16" "c < 0x800 \<Longrightarrow> c div 64 < 32" by simp_all
  moreover have "c div 64 mod 64 < 64" "c div 4096 mod 64 < 64" "c mod 64 < 64" by simp_all
  ultimately show "b < 256" using b by (auto simp: utf8_char_def split: if_splits)
qed

lemma utf8_encode_bytes: "valid_str s \<Longrightarrow> b \<in> set (utf8_encode s) \<Longrightarrow> b < 256"
  using utf8_char_bytes by (auto simp: utf8_encode_def valid_str_def)

lemma hex_total: "n < 16 \<Longrightarrow> \<exists>h. hex n = Inr h \<and> h < 128 \<and> h \<noteq> 47 \<and> h \<noteq> 37 \<and> h \<noteq> 39 \<and> h \<noteq> 64 \<and> unhex h = Inr n"
  by (auto simp: hex_def unhex_def)

text \<open>The three bytes of an escaped byte: safe characters that give the byte back.\<close>

lemma percent_total:
  assumes "c < 256"
  obtains h l where "percent c = Inr [37, h, l]" "h < 128" "l < 128" "h \<notin> {47, 37, 39, 64}" "l \<notin> {47, 37, 39, 64}"
    and "unhex h = Inr (c div 16)" "unhex l = Inr (c mod 16)"
proof -
  have "c div 16 < 16" "c mod 16 < 16" using assms by simp_all
  from hex_total [OF this(1)] hex_total [OF this(2)] that show thesis
    by (auto simp: percent_def)
qed

lemma escape_byte_total:
  assumes "c < 256"
  shows "\<exists>bs. escape_byte c = Inr bs \<and> is_ascii bs \<and> 47 \<notin> set bs \<and> bs \<noteq> [] \<and>
    (\<forall>rest. unescape_bytes (bs @ rest) = rbind (unescape_bytes rest) (\<lambda>r. Inr (c # r)))"
proof (cases "48 \<le> c \<and> c \<le> 57 \<or> c = 95 \<or> 97 \<le> c \<and> c \<le> 122 \<or> 65 \<le> c \<and> c \<le> 90")
  case True
  then show ?thesis by (auto simp: escape_byte_def)
next
  case False
  obtain h l where hl: "percent c = Inr [37, h, l]" "h < 128" "l < 128" "h \<notin> {47, 37, 39, 64}" "l \<notin> {47, 37, 39, 64}"
    "unhex h = Inr (c div 16)" "unhex l = Inr (c mod 16)"
    by (rule percent_total [OF assms])
  have "c div 16 * 16 + c mod 16 = c" by simp
  with False hl show ?thesis by (auto simp: escape_byte_def)
qed

lemma escape_bytes_total:
  "\<forall>c \<in> set cs. c < 256 \<Longrightarrow> \<exists>bs. rmap escape_byte cs = Inr bs \<and> is_ascii (concat bs) \<and> 47 \<notin> set (concat bs) \<and>
     (concat bs = [] \<longleftrightarrow> cs = []) \<and> unescape_bytes (concat bs) = Inr cs"
proof (induction cs)
  case (Cons c cs)
  then obtain bs where bs: "rmap escape_byte cs = Inr bs" "is_ascii (concat bs)" "47 \<notin> set (concat bs)"
    "unescape_bytes (concat bs) = Inr cs"
    by auto
  obtain b where b: "escape_byte c = Inr b" "is_ascii b" "47 \<notin> set b" "b \<noteq> []"
    "\<And>rest. unescape_bytes (b @ rest) = rbind (unescape_bytes rest) (\<lambda>r. Inr (c # r))"
    using escape_byte_total [of c] Cons.prems by auto
  with bs show ?case by auto
qed simp

text \<open>Escaping a string always succeeds, leaves no slash, and is undone by unescaping.\<close>

lemma escape_total:
  assumes "valid_str s"
  obtains e where "escape s = Inr e" and "is_ascii e" and "47 \<notin> set e" and "unescape e = Inr s" and "e = [] \<longleftrightarrow> s = []"
proof -
  obtain bs where bs: "rmap escape_byte (utf8_encode s) = Inr bs" "is_ascii (concat bs)" "47 \<notin> set (concat bs)"
    "concat bs = [] \<longleftrightarrow> utf8_encode s = []" "unescape_bytes (concat bs) = Inr (utf8_encode s)"
    using escape_bytes_total [of "utf8_encode s"] utf8_encode_bytes [OF assms] by blast
  have "unescape (concat bs) = Inr s"
    using bs(2,5) utf8_round_trip [OF assms] by (simp add: unescape_def utf8_encode_is_ascii no_error_def from_utf8_def)
  moreover have "utf8_encode s = [] \<longleftrightarrow> s = []"
    by (cases s) (auto simp: utf8_char_def)
  ultimately show thesis
    using bs that by (simp add: escape_def from_utf8_unwrap_def utf8_decode_ascii)
qed

subsection \<open>Segments\<close>

definition seg_ok :: "rstr \<Rightarrow> bool" where
  "seg_ok s \<longleftrightarrow> valid_str s \<and> 47 \<notin> set s"

lemma valid_str_simps [simp]:
  "valid_str []" "valid_str (c # s) \<longleftrightarrow> valid_char c \<and> valid_str s" "valid_str (s @ t) \<longleftrightarrow> valid_str s \<and> valid_str t"
  by (auto simp: valid_str_def)

lemma valid_char_slash [simp]: "valid_char 47"
  by (simp add: valid_char_def)

lemma join47_Cons: "ws \<noteq> [] \<Longrightarrow> join47 (w # ws) = w @ [47] @ join47 ws"
  by (cases ws) simp_all

lemma split_join47: "ws \<noteq> [] \<Longrightarrow> list_all seg_ok ws \<Longrightarrow> split_on 47 (join47 ws) = ws"
  by (induction ws rule: join47.induct) (simp_all add: seg_ok_def split_on_no_sep split_on_append_sep)

lemma join_split47: "join47 (split_on 47 s) = s"
proof (induction s)
  case (Cons c s)
  show ?case
  proof (cases "c = 47")
    case True
    with Cons show ?thesis by (simp add: join47_Cons)
  next
    case False
    obtain w ws where w: "split_on 47 s = w # ws" by (cases "split_on 47 s") auto
    with Cons False show ?thesis by (cases ws) auto
  qed
qed simp

lemma split47_segs: "valid_str s \<Longrightarrow> list_all seg_ok (split_on 47 s)"
  by (induction s) (auto simp: seg_ok_def split: list.split)

lemma join47_valid: "list_all seg_ok ws \<Longrightarrow> valid_str (join47 ws)"
  by (induction ws rule: join47.induct) (simp_all add: seg_ok_def)

text \<open>Pushing segments onto a builder that is not empty.\<close>

lemma push_segs_buf:
  "kb_buf b \<noteq> [] \<Longrightarrow> kb_buf (fold push_raw ws b) = kb_buf b @ concat (map (\<lambda>w. 47 # utf8_encode w) ws)"
  by (induction ws arbitrary: b) (simp_all add: push_raw_def)

lemma utf8_join47: "utf8_encode (join47 (w # ws)) = utf8_encode w @ concat (map (\<lambda>w. 47 # utf8_encode w) ws)"
  by (induction ws arbitrary: w) (simp_all add: utf8_char_def)

lemma utf8_encode_nonempty: "s \<noteq> [] \<Longrightarrow> utf8_encode s \<noteq> []"
  by (cases s) (auto simp: utf8_char_def)

lemma kb_done_segs:
  assumes "pfx \<noteq> []" and "list_all seg_ok (pfx # ws)"
  shows "kb_done (fold push_raw ws (KeyBuilder_new_prefixed pfx)) = Inr (join47 (pfx # ws))"
proof -
  have buf: "kb_buf (KeyBuilder_new_prefixed pfx) = utf8_encode pfx"
    by (simp add: KeyBuilder_new_prefixed_def KeyBuilder_new_def push_raw_def)
  have "kb_buf (fold push_raw ws (KeyBuilder_new_prefixed pfx)) = utf8_encode (join47 (pfx # ws))"
    using push_segs_buf [of "KeyBuilder_new_prefixed pfx" ws] utf8_encode_nonempty [OF assms(1)] buf utf8_join47 by simp
  then show ?thesis
    using utf8_round_trip [OF join47_valid [OF assms(2)]] by (simp add: kb_done_def from_utf8_unwrap_def)
qed

lemma push_raw_join:
  assumes "kb_buf b \<noteq> []"
  shows "push_raw s b = fold push_raw (split_on 47 s) b"
proof -
  obtain w ws where w: "split_on 47 s = w # ws" by (cases "split_on 47 s") auto
  have "s = join47 (w # ws)" using join_split47 [of s] w by simp
  then have "kb_buf (push_raw s b) = kb_buf (fold push_raw (w # ws) b)"
    using push_segs_buf [OF assms, of "w # ws"] utf8_join47 [of w ws] assms by (simp add: push_raw_def)
  with w show ?thesis by simp
qed

subsection \<open>Parsing\<close>

text \<open>The position of a parser: the elements that are left are the rest of the key.\<close>

definition kp_ok :: "key_parser \<Rightarrow> bool" where
  "kp_ok p \<longleftrightarrow> (kp_elements p \<noteq> [] \<longrightarrow> (\<exists>pre. kp_str_key p = pre @ join47 (kp_elements p) \<and> kp_index p = utf8_len pre))"

text \<open>The parser after its next element.\<close>

definition adv :: "key_parser \<Rightarrow> key_parser" where
  "adv p = p\<lparr>kp_i := kp_i p + 1, kp_index := kp_index p + (utf8_len (hd (kp_elements p)) + 1), kp_elements := tl (kp_elements p)\<rparr>"

lemma adv_simps [simp]: "kp_elements (adv p) = tl (kp_elements p)" "kp_str_key (adv p) = kp_str_key p"
  by (simp_all add: adv_def)

lemma kp_ok_adv [simp]:
  assumes "kp_ok p" and "kp_elements p \<noteq> []"
  shows "kp_ok (adv p)"
proof -
  obtain w ws where w: "kp_elements p = w # ws" using assms(2) by (cases "kp_elements p") auto
  with assms obtain pre where "kp_str_key p = pre @ join47 (w # ws)" "kp_index p = utf8_len pre"
    by (auto simp: kp_ok_def)
  with w show ?thesis
    by (auto simp: kp_ok_def adv_def join47_Cons utf8_char_def intro!: exI [of _ "pre @ w @ [47]"])
qed

lemma next_raw_adv:
  "next_raw p =
     (case kp_elements p of [] \<Rightarrow> Inl (KeyErr (WrongNumberOfSegments (kp_i p + 1) (kp_str_key p))) | s # _ \<Rightarrow> Inr (s, adv p))"
  by (simp add: next_raw_def adv_def split: list.split)

lemma decode_id_show [simp]: "n < 2 ^ 64 \<Longrightarrow> decode_id (show_dec n) = Inr n"
  by (simp add: decode_id_def parse_show_dec)

lemma utf8_char_nonempty: "length (utf8_char c) \<noteq> 0"
  by (simp add: utf8_char_def)

lemma str_slice_from_append: "str_slice_from (utf8_len s) (s @ t) = Inr t"
proof (induction s)
  case Nil
  then show ?case by (simp add: str_slice_from.simps)
next
  case (Cons c s)
  then show ?case
    using utf8_char_nonempty [of c] by (subst str_slice_from.simps) simp
qed

lemma exhaust_done: "kp_elements (exhaust ws p) = [] \<and> kp_str_key (exhaust ws p) = kp_str_key p"
  by (induction ws arbitrary: p) simp_all

lemma tail_raw_all:
  assumes "kp_ok p" and "kp_elements p = split_on 47 s"
  obtains p' where "tail_raw p = Inr (s, p')" and "kp_elements p' = []"
proof -
  obtain w ws where w: "split_on 47 s = w # ws" by (cases "split_on 47 s") auto
  obtain pre where pre: "kp_str_key p = pre @ s" "kp_index p = utf8_len pre"
    using assms w by (auto simp: kp_ok_def) (metis join_split47)
  with w assms(2) str_slice_from_append [of pre s] exhaust_done [of ws "adv p"] that show thesis
    by (simp add: tail_raw_def next_raw_adv Let_def no_error_def)
qed

subsection \<open>Codecs\<close>

locale key_codec =
  fixes C :: "'k kcodec" and kvalid :: "'k \<Rightarrow> bool" and segs :: "'k \<Rightarrow> rstr list"
  assumes segs_ok: "kvalid k \<Longrightarrow> list_all seg_ok (segs k)"
    and encode_segs: "kvalid k \<Longrightarrow> kb_buf b \<noteq> [] \<Longrightarrow> kc_encode C k b = Inr (fold push_raw (segs k) b)"
    and decode_segs: "kvalid k \<Longrightarrow> kp_ok p \<Longrightarrow> kp_elements p = segs k \<Longrightarrow>
      \<exists>p'. kc_decode C p = Inr (k, p') \<and> kp_elements p' = []"
begin

lemma to_string_segs:
  assumes "kvalid k" and "seg_ok pfx" and "pfx \<noteq> []"
  shows "to_string_key pfx C k = Inr (join47 (pfx # segs k))"
proof -
  have "kb_buf (KeyBuilder_new_prefixed pfx) \<noteq> []"
    using utf8_encode_nonempty [OF assms(3)] by (simp add: KeyBuilder_new_prefixed_def KeyBuilder_new_def push_raw_def)
  with encode_segs [OF assms(1)] kb_done_segs [of pfx "segs k"] segs_ok [OF assms(1)] assms(2,3) show ?thesis
    by (simp add: to_string_key_def)
qed

lemma key_round_trip:
  assumes "kvalid k" and "seg_ok pfx" and "pfx \<noteq> []"
  shows "\<exists>s. to_string_key pfx C k = Inr s \<and> from_str_key pfx C s = Inr k"
proof -
  let ?s = "join47 (pfx # segs k)"
  have split: "split_on 47 ?s = pfx # segs k"
    using split_join47 [of "pfx # segs k"] segs_ok [OF assms(1)] assms(2) by simp
  have p: "kp_ok (KeyParser_new ?s)" "kp_elements (KeyParser_new ?s) = pfx # segs k"
    using split by (auto simp: KeyParser_new_def kp_ok_def utf8_len_def)
  then have "kp_ok (adv (KeyParser_new ?s))" "kp_elements (adv (KeyParser_new ?s)) = segs k" by simp_all
  from decode_segs [OF assms(1) this] p(2) show ?thesis
    using to_string_segs [OF assms]
    by (auto simp: from_str_key_def KeyParser_new_prefixed_def next_literal_def next_raw_adv kp_done_def)
qed

lemma key_inj:
  assumes "kvalid k" and "kvalid k'" and "seg_ok pfx" and "pfx \<noteq> []" and "to_string_key pfx C k = to_string_key pfx C k'"
  shows "k = k'"
  using key_round_trip [OF assms(1,3,4)] key_round_trip [OF assms(2-4)] assms(5) by auto

end

text \<open>The escaped form of a string.\<close>

definition esc :: "rstr \<Rightarrow> rstr" where
  "esc s = (case escape s of Inr e \<Rightarrow> e | Inl _ \<Rightarrow> [])"

lemma esc:
  assumes "valid_str s"
  shows "escape s = Inr (esc s)" and "seg_ok (esc s)" and "unescape (esc s) = Inr s" and "is_ascii (esc s)"
proof -
  obtain e where "escape s = Inr e" "is_ascii e" "47 \<notin> set e" "unescape e = Inr s"
    by (rule escape_total [OF assms])
  then show "escape s = Inr (esc s)" and "seg_ok (esc s)" and "unescape (esc s) = Inr s" and "is_ascii (esc s)"
    by (simp_all add: esc_def seg_ok_def is_ascii_valid)
qed

lemma push_str_esc: "valid_str s \<Longrightarrow> push_str s b = Inr (push_raw (esc s) b)"
  by (simp add: push_str_def esc)

lemma seg_ok_show_dec [simp]: "seg_ok (show_dec n)"
  using show_dec_digits [of n] by (auto simp: seg_ok_def valid_str_def valid_char_def is_digit_def list_all_iff)

lemma seg_ok_str:
  "is_ascii (str s) \<Longrightarrow> 47 \<notin> set (str s) \<Longrightarrow> seg_ok (str s)"
  by (simp add: seg_ok_def is_ascii_valid)

lemmas codec_simps = push_str_esc push_u64_def esc next_str_def next_nonempty_def next_u64_def next_raw_adv NonEmptyString_new_def

interpretation string_key_codec: key_codec string_codec valid_str "\<lambda>s. [esc s]"
  by unfold_locales (simp_all add: string_codec_def codec_simps)

interpretation u64_key_codec: key_codec u64_codec "\<lambda>n. n < 2 ^ 64" "\<lambda>n. [show_dec n]"
  by unfold_locales (simp_all add: u64_codec_def codec_simps del: One_nat_def)

interpretation unit_key_codec: key_codec unit_codec "\<lambda>_. True" "\<lambda>_. []"
  by unfold_locales (simp_all add: unit_codec_def)

subsection \<open>Directories\<close>

lemma prefix_seg:
  fixes w v :: rstr
  assumes "d \<notin> set w" and "d \<notin> set v"
  shows "prefix (w @ d # x) (v @ d # y) \<longleftrightarrow> w = v \<and> prefix x y"
  using assms
proof (induction w arbitrary: v)
  case Nil
  then show ?case by (cases v) auto
next
  case (Cons a w)
  then show ?case by (cases v) auto
qed

lemma prefix_dir:
  assumes "ws \<noteq> []" and "list_all seg_ok ws" and "vs \<noteq> []" and "list_all seg_ok vs"
  shows "prefix (join47 ws @ [47]) (join47 vs) \<longleftrightarrow> (\<exists>us. us \<noteq> [] \<and> vs = ws @ us)"
  using assms
proof (induction ws arbitrary: vs)
  case (Cons w ws)
  obtain v vs' where vs: "vs = v # vs'" using Cons.prems(3) by (cases vs) auto
  have no: "47 \<notin> set w" "47 \<notin> set v" using Cons.prems vs by (simp_all add: seg_ok_def)
  have short: "\<not> prefix (w @ 47 # x) v" for x
    using no(2) set_mono_prefix [of "w @ 47 # x" v] by auto
  consider "ws = []" "vs' = []" | "ws = []" "vs' \<noteq> []" | "ws \<noteq> []" "vs' = []" | "ws \<noteq> []" "vs' \<noteq> []" by blast
  then show ?case
  proof cases
    case 1
    with vs short [of "[]"] show ?thesis by simp
  next
    case 2
    with vs prefix_seg [OF no, of "[]" "join47 vs'"] show ?thesis by (auto simp: join47_Cons)
  next
    case 3
    with vs short [of "join47 ws @ [47]"] show ?thesis by (auto simp: join47_Cons)
  next
    case 4
    with vs prefix_seg [OF no, of "join47 ws @ [47]" "join47 vs'"] Cons.IH [of vs'] Cons.prems show ?thesis
      by (auto simp: join47_Cons)
  qed
qed simp

lemma dir_name_segs:
  assumes "ws \<noteq> []" and "list_all seg_ok ws"
  shows "dir_name level (join47 ws) = join47 (take (max 1 (length ws - level)) ws)"
  using split_join47 [OF assms] by (simp add: dir_name_def)

subsection \<open>Ranges of a prefix\<close>

lemma ascii_next_last:
  assumes "c \<noteq> 127"
  shows "ascii_next_loop (s @ [c]) (length (s @ [c])) = s @ [c + 1]"
  using assms by (simp add: replace_nth_char_def)

end
