(* ===== verification/TenantKey.thy ===== *)
theory TenantKey
  imports KvKey
begin

text \<open>
  Keys that belong to a tenant (\<open>tenant/tenant.rs\<close>, \<open>tenant_key/ident.rs\<close>, \<open>tenant_key/raw.rs\<close>,
  \<open>tenant_key/resource.rs\<close> and \<open>key_with_tenant.rs\<close> of \<open>src/meta/app/src\<close>). A \<open>TIdent<R, N>\<close> is a tenant
  and a name; the resource \<open>R\<close> gives the key prefix and says whether the tenant is part of the key. Below
  are the resources the application declares, one per kind of object.

  The locale \<open>tenant_ident\<close> extends \<open>key_codec\<close>: a codec of names gives a codec of identifiers, and listing by
  \<open>tenant_prefix\<close> returns the keys of that tenant only.
\<close>

section \<open>Tenants and identifiers\<close>

record tenant =
  tenant_name :: rstr

definition Tenant_new_or_err :: "rstr \<Rightarrow> tenant option" where
  "Tenant_new_or_err t = map_option (\<lambda>s. \<lparr>tenant_name = s\<rparr>) (NonEmptyString_new t)"

definition tenant_codec :: "tenant kcodec" where
  "tenant_codec =
     \<lparr>kc_encode = (\<lambda>t. push_str (tenant_name t)),
      kc_decode = (\<lambda>p. rbind (next_nonempty p) (\<lambda>(s, p). Inr (\<lparr>tenant_name = s\<rparr>, p)))\<rparr>"

record resource =
  rs_prefix :: rstr
  rs_has_tenant :: bool

record 'n tident =
  ti_tenant :: tenant
  ti_name :: 'n

definition TIdent_new_generic :: "tenant \<Rightarrow> 'n \<Rightarrow> 'n tident" where
  "TIdent_new_generic t n = \<lparr>ti_tenant = t, ti_name = n\<rparr>"

definition tident_encode :: "resource \<Rightarrow> 'n kcodec \<Rightarrow> 'n tident \<Rightarrow> key_builder \<Rightarrow> key_builder pres" where
  "tident_encode R N k b =
     rbind (if rs_has_tenant R then push_str (tenant_name (ti_tenant k)) b else Inr b) (\<lambda>b.
       kc_encode N (ti_name k) b)"

definition tident_decode :: "resource \<Rightarrow> 'n kcodec \<Rightarrow> key_parser \<Rightarrow> ('n tident \<times> key_parser) kres" where
  "tident_decode R N p =
     rbind (if rs_has_tenant R then next_nonempty p else Inr (str ''dummy'', p)) (\<lambda>(tn, p).
     rbind (kc_decode N p) (\<lambda>(name, p).
       Inr (TIdent_new_generic \<lparr>tenant_name = tn\<rparr> name, p)))"

definition tident_codec :: "resource \<Rightarrow> 'n kcodec \<Rightarrow> 'n tident kcodec" where
  "tident_codec R N = \<lparr>kc_encode = tident_encode R N, kc_decode = tident_decode R N\<rparr>"

text \<open>\<open>TIdentRaw\<close>: the form of an identifier that is stored as a value.\<close>

record 'n tident_raw =
  tr_tenant :: rstr
  tr_name :: 'n

definition to_raw :: "'n tident \<Rightarrow> 'n tident_raw" where
  "to_raw k = \<lparr>tr_tenant = tenant_name (ti_tenant k), tr_name = ti_name k\<rparr>"

definition to_tident :: "'n tident_raw \<Rightarrow> 'n tident pres" where
  "to_tident r =
     (case Tenant_new_or_err (tr_tenant r) of
        Some t \<Rightarrow> Inr (TIdent_new_generic t (tr_name r))
      | None \<Rightarrow> Inl UnwrapNone)"

text \<open>\<open>KeyWithTenant::tenant_prefix\<close>.\<close>

definition tenant_prefix :: "rstr \<Rightarrow> tenant \<Rightarrow> rstr pres" where
  "tenant_prefix pfx t =
     rbind (push_str (tenant_name t) (KeyBuilder_new_prefixed pfx)) (\<lambda>b. kb_done (push_raw [] b))"

section \<open>Resources\<close>

definition CatalogIdIdent_rsc :: resource where
  "CatalogIdIdent_rsc = \<lparr>rs_prefix = str ''__fd_catalog_by_id'', rs_has_tenant = False\<rparr>"

definition CatalogIdToNameIdent_rsc :: resource where
  "CatalogIdToNameIdent_rsc = \<lparr>rs_prefix = str ''__fd_catalog_id_to_name'', rs_has_tenant = False\<rparr>"

definition CatalogNameIdent_rsc :: resource where
  "CatalogNameIdent_rsc = \<lparr>rs_prefix = str ''__fd_catalog'', rs_has_tenant = True\<rparr>"

definition DatabaseIdHistoryIdent_rsc :: resource where
  "DatabaseIdHistoryIdent_rsc = \<lparr>rs_prefix = str ''__fd_db_id_list'', rs_has_tenant = True\<rparr>"

definition DatabaseNameIdent_rsc :: resource where
  "DatabaseNameIdent_rsc = \<lparr>rs_prefix = str ''__fd_database'', rs_has_tenant = True\<rparr>"

definition DictionaryIdIdent_rsc :: resource where
  "DictionaryIdIdent_rsc = \<lparr>rs_prefix = str ''__fd_dictionary_by_id'', rs_has_tenant = False\<rparr>"

definition DictionaryNameIdent_rsc :: resource where
  "DictionaryNameIdent_rsc = \<lparr>rs_prefix = str ''__fd_dictionaries'', rs_has_tenant = True\<rparr>"

definition IndexIdIdent_rsc :: resource where
  "IndexIdIdent_rsc = \<lparr>rs_prefix = str ''__fd_index_by_id'', rs_has_tenant = False\<rparr>"

definition IndexIdToNameIdent_rsc :: resource where
  "IndexIdToNameIdent_rsc = \<lparr>rs_prefix = str ''__fd_index_id_to_name'', rs_has_tenant = False\<rparr>"

definition IndexNameIdent_rsc :: resource where
  "IndexNameIdent_rsc = \<lparr>rs_prefix = str ''__fd_index'', rs_has_tenant = True\<rparr>"

definition LeastVisibleTimeIdent_rsc :: resource where
  "LeastVisibleTimeIdent_rsc = \<lparr>rs_prefix = str ''__fd_table_lvt'', rs_has_tenant = False\<rparr>"

definition MarkedDeletedIndexIdIdent_rsc :: resource where
  "MarkedDeletedIndexIdIdent_rsc = \<lparr>rs_prefix = str ''__fd_marked_deleted_index'', rs_has_tenant = False\<rparr>"

definition MarkedDeletedTableIndexIdIdent_rsc :: resource where
  "MarkedDeletedTableIndexIdIdent_rsc = \<lparr>rs_prefix = str ''__fd_marked_deleted_table_index'', rs_has_tenant = False\<rparr>"

definition SequenceIdent_rsc :: resource where
  "SequenceIdent_rsc = \<lparr>rs_prefix = str ''__fd_sequence'', rs_has_tenant = True\<rparr>"

definition TableLockIdent_rsc :: resource where
  "TableLockIdent_rsc = \<lparr>rs_prefix = str ''__fd_table_lock'', rs_has_tenant = True\<rparr>"

definition VirtualColumnIdent_rsc :: resource where
  "VirtualColumnIdent_rsc = \<lparr>rs_prefix = str ''__fd_virtual_column'', rs_has_tenant = True\<rparr>"

definition TenantQuotaIdent_rsc :: resource where
  "TenantQuotaIdent_rsc = \<lparr>rs_prefix = str ''__fd_quotas'', rs_has_tenant = True\<rparr>"

definition ClientSessionIdent_rsc :: resource where
  "ClientSessionIdent_rsc = \<lparr>rs_prefix = str ''__fd_session'', rs_has_tenant = True\<rparr>"

definition ConnectionIdent_rsc :: resource where
  "ConnectionIdent_rsc = \<lparr>rs_prefix = str ''__fd_connection'', rs_has_tenant = True\<rparr>"

definition NetworkPolicyIdent_rsc :: resource where
  "NetworkPolicyIdent_rsc = \<lparr>rs_prefix = str ''__fd_network_policies'', rs_has_tenant = True\<rparr>"

definition PasswordPolicyIdent_rsc :: resource where
  "PasswordPolicyIdent_rsc = \<lparr>rs_prefix = str ''__fd_password_policies'', rs_has_tenant = True\<rparr>"

definition ProcedureIdIdent_rsc :: resource where
  "ProcedureIdIdent_rsc = \<lparr>rs_prefix = str ''__fd_procedure_by_id'', rs_has_tenant = False\<rparr>"

definition ProcedureIdToNameIdent_rsc :: resource where
  "ProcedureIdToNameIdent_rsc = \<lparr>rs_prefix = str ''__fd_procedure_id_to_name'', rs_has_tenant = False\<rparr>"

definition ProcedureNameIdent_rsc :: resource where
  "ProcedureNameIdent_rsc = \<lparr>rs_prefix = str ''__fd_procedure'', rs_has_tenant = True\<rparr>"

definition RoleIdent_rsc :: resource where
  "RoleIdent_rsc = \<lparr>rs_prefix = str ''__fd_roles'', rs_has_tenant = True\<rparr>"

definition StageFileIdent_rsc :: resource where
  "StageFileIdent_rsc = \<lparr>rs_prefix = str ''__fd_stage_files'', rs_has_tenant = True\<rparr>"

definition TenantOwnershipObjectIdent_rsc :: resource where
  "TenantOwnershipObjectIdent_rsc = \<lparr>rs_prefix = str ''__fd_object_owners'', rs_has_tenant = True\<rparr>"

definition TenantUserIdent_rsc :: resource where
  "TenantUserIdent_rsc = \<lparr>rs_prefix = str ''__fd_users'', rs_has_tenant = True\<rparr>"

definition UdfIdent_rsc :: resource where
  "UdfIdent_rsc = \<lparr>rs_prefix = str ''__fd_udfs'', rs_has_tenant = True\<rparr>"

definition UserDefinedFileFormatIdent_rsc :: resource where
  "UserDefinedFileFormatIdent_rsc = \<lparr>rs_prefix = str ''__fd_file_formats'', rs_has_tenant = True\<rparr>"

definition SettingIdent_rsc :: resource where
  "SettingIdent_rsc = \<lparr>rs_prefix = str ''__fd_settings'', rs_has_tenant = True\<rparr>"

definition StageIdent_rsc :: resource where
  "StageIdent_rsc = \<lparr>rs_prefix = str ''__fd_stages'', rs_has_tenant = True\<rparr>"

definition TokenIdent_rsc :: resource where
  "TokenIdent_rsc = \<lparr>rs_prefix = str ''__fd_token'', rs_has_tenant = True\<rparr>"

definition BackgroundJobIdIdent_rsc :: resource where
  "BackgroundJobIdIdent_rsc = \<lparr>rs_prefix = str ''__fd_background_job_by_id'', rs_has_tenant = False\<rparr>"

definition BackgroundJobIdent_rsc :: resource where
  "BackgroundJobIdent_rsc = \<lparr>rs_prefix = str ''__fd_background_job'', rs_has_tenant = True\<rparr>"

definition BackgroundTaskIdent_rsc :: resource where
  "BackgroundTaskIdent_rsc = \<lparr>rs_prefix = str ''__fd_background_task_by_name'', rs_has_tenant = True\<rparr>"

definition DataMaskIdIdent_rsc :: resource where
  "DataMaskIdIdent_rsc = \<lparr>rs_prefix = str ''__fd_datamask_by_id'', rs_has_tenant = False\<rparr>"

definition DataMaskNameIdent_rsc :: resource where
  "DataMaskNameIdent_rsc = \<lparr>rs_prefix = str ''__fd_datamask'', rs_has_tenant = True\<rparr>"

definition MaskPolicyTableIdListIdent_rsc :: resource where
  "MaskPolicyTableIdListIdent_rsc = \<lparr>rs_prefix = str ''__fd_datamask_id_list'', rs_has_tenant = True\<rparr>"

definition all_resources :: "resource list" where
  "all_resources =
     [CatalogIdIdent_rsc, CatalogIdToNameIdent_rsc, CatalogNameIdent_rsc, DatabaseIdHistoryIdent_rsc,
      DatabaseNameIdent_rsc, DictionaryIdIdent_rsc, DictionaryNameIdent_rsc, IndexIdIdent_rsc,
      IndexIdToNameIdent_rsc, IndexNameIdent_rsc, LeastVisibleTimeIdent_rsc,
      MarkedDeletedIndexIdIdent_rsc, MarkedDeletedTableIndexIdIdent_rsc, SequenceIdent_rsc,
      TableLockIdent_rsc, VirtualColumnIdent_rsc, TenantQuotaIdent_rsc, ClientSessionIdent_rsc,
      ConnectionIdent_rsc, NetworkPolicyIdent_rsc, PasswordPolicyIdent_rsc, ProcedureIdIdent_rsc,
      ProcedureIdToNameIdent_rsc, ProcedureNameIdent_rsc, RoleIdent_rsc, StageFileIdent_rsc,
      TenantOwnershipObjectIdent_rsc, TenantUserIdent_rsc, UdfIdent_rsc, UserDefinedFileFormatIdent_rsc,
      SettingIdent_rsc, StageIdent_rsc, TokenIdent_rsc, BackgroundJobIdIdent_rsc, BackgroundJobIdent_rsc,
      BackgroundTaskIdent_rsc, DataMaskIdIdent_rsc, DataMaskNameIdent_rsc, MaskPolicyTableIdListIdent_rsc]"

section \<open>Lemmas\<close>

definition tident_valid :: "resource \<Rightarrow> ('n \<Rightarrow> bool) \<Rightarrow> 'n tident \<Rightarrow> bool" where
  "tident_valid R nv k \<longleftrightarrow>
     nv (ti_name k) \<and>
     (if rs_has_tenant R then valid_str (tenant_name (ti_tenant k)) \<and> tenant_name (ti_tenant k) \<noteq> []
      else tenant_name (ti_tenant k) = str ''dummy'')"

definition tident_segs :: "resource \<Rightarrow> ('n \<Rightarrow> rstr list) \<Rightarrow> 'n tident \<Rightarrow> rstr list" where
  "tident_segs R ns k = (if rs_has_tenant R then [esc (tenant_name (ti_tenant k))] else []) @ ns (ti_name k)"

locale tenant_ident = key_codec C kvalid segs
  for C :: "'n kcodec" and kvalid :: "'n \<Rightarrow> bool" and segs :: "'n \<Rightarrow> rstr list" +
  fixes R :: resource

sublocale tenant_ident \<subseteq> tid: key_codec "tident_codec R C" "tident_valid R kvalid" "tident_segs R segs"
proof unfold_locales
  fix k :: "'n tident" and b p
  assume k: "tident_valid R kvalid k"
  then have n: "kvalid (ti_name k)" by (simp add: tident_valid_def)
  have t: "valid_str (tenant_name (ti_tenant k))" "tenant_name (ti_tenant k) \<noteq> []" if "rs_has_tenant R"
    using k that by (simp_all add: tident_valid_def)
  show "list_all seg_ok (tident_segs R segs k)"
    using segs_ok [OF n] t(1) by (cases "rs_has_tenant R") (simp_all add: tident_segs_def esc(2))
  show "kc_encode (tident_codec R C) k b = Inr (fold push_raw (tident_segs R segs k) b)" if "kb_buf b \<noteq> []"
  proof (cases "rs_has_tenant R")
    case True
    have "kb_buf (push_raw (esc (tenant_name (ti_tenant k))) b) \<noteq> []" using that by (simp add: push_raw_def)
    from encode_segs [OF n this] True t(1) show ?thesis
      by (simp add: tident_segs_def tident_codec_def tident_encode_def push_str_esc)
  next
    case False
    with encode_segs [OF n that] show ?thesis by (simp add: tident_segs_def tident_codec_def tident_encode_def)
  qed
  assume p: "kp_ok p" "kp_elements p = tident_segs R segs k"
  show "\<exists>p'. kc_decode (tident_codec R C) p = Inr (k, p') \<and> kp_elements p' = []"
  proof (cases "rs_has_tenant R")
    case True
    then have el: "kp_elements p = esc (tenant_name (ti_tenant k)) # segs (ti_name k)" using p(2) by (simp add: tident_segs_def)
    have "next_nonempty p = Inr (tenant_name (ti_tenant k), adv p)"
      using t [OF True] by (simp add: next_nonempty_def next_raw_adv el esc(3) NonEmptyString_new_def)
    with decode_segs [OF n, of "adv p"] p(1) el True show ?thesis
      by (auto simp: tident_codec_def tident_decode_def TIdent_new_generic_def)
  next
    case False
    with k have "tenant_name (ti_tenant k) = str ''dummy''" by (simp add: tident_valid_def)
    moreover from False have "kp_elements p = segs (ti_name k)" using p(2) by (simp add: tident_segs_def)
    ultimately show ?thesis
      using False decode_segs [OF n p(1)] by (auto simp: tident_codec_def tident_decode_def TIdent_new_generic_def)
  qed
qed

lemma tenant_prefix_eq:
  assumes "valid_str (tenant_name t)" and "seg_ok pfx" and "pfx \<noteq> []"
  shows "tenant_prefix pfx t = Inr (join47 [pfx, esc (tenant_name t)] @ [47])"
proof -
  have "kb_done (fold push_raw [esc (tenant_name t), []] (KeyBuilder_new_prefixed pfx)) = Inr (join47 [pfx, esc (tenant_name t), []])"
    using assms esc(2) [OF assms(1)] by (intro kb_done_segs) (simp_all add: seg_ok_def)
  with assms(1) show ?thesis by (simp add: tenant_prefix_def push_str_esc)
qed

lemma esc_inj:
  assumes "valid_str s" and "valid_str t" and "esc s = esc t"
  shows "s = t"
proof -
  have "Inr s = unescape (esc t)" using esc(3) [OF assms(1)] unfolding assms(3) by simp
  then show ?thesis unfolding esc(3) [OF assms(2)] by simp
qed

context tenant_ident
begin

text \<open>A key has the prefix of a tenant exactly if it belongs to this tenant and has a name.\<close>

lemma tenant_prefix_iff:
  assumes "rs_has_tenant R" and "tident_valid R kvalid k" and "valid_str (tenant_name t)"
    and "seg_ok (rs_prefix R)" and "rs_prefix R \<noteq> []"
  obtains s q where "to_string_key (rs_prefix R) (tident_codec R C) k = Inr s" and "tenant_prefix (rs_prefix R) t = Inr q"
    and "prefix q s \<longleftrightarrow> ti_tenant k = t \<and> segs (ti_name k) \<noteq> []"
proof -
  let ?n = "tenant_name (ti_tenant k)"
  have segs: "tident_segs R segs k = esc ?n # segs (ti_name k)" using assms(1) by (simp add: tident_segs_def)
  have ok: "list_all seg_ok (tident_segs R segs k)" by (rule tid.segs_ok [OF assms(2)])
  have tn: "valid_str ?n" using assms(1,2) by (simp add: tident_valid_def)
  have "prefix (join47 [rs_prefix R, esc (tenant_name t)] @ [47]) (join47 (rs_prefix R # tident_segs R segs k)) \<longleftrightarrow>
      (\<exists>us. us \<noteq> [] \<and> rs_prefix R # tident_segs R segs k = [rs_prefix R, esc (tenant_name t)] @ us)"
    by (rule prefix_dir) (use ok assms(4) esc(2) [OF assms(3)] in simp_all)
  also have "\<dots> \<longleftrightarrow> esc ?n = esc (tenant_name t) \<and> segs (ti_name k) \<noteq> []" by (auto simp: segs)
  also have "esc ?n = esc (tenant_name t) \<longleftrightarrow> ?n = tenant_name t" by (rule iffI [OF esc_inj [OF tn assms(3)]]) simp_all
  also have "?n = tenant_name t \<longleftrightarrow> ti_tenant k = t" by (cases "ti_tenant k"; cases t) simp
  finally show thesis
    by (rule that [OF tid.to_string_segs [OF assms(2,4,5)] tenant_prefix_eq [OF assms(3-5)]])
qed

end

text \<open>Identifiers whose names are strings, numbers or empty.\<close>

interpretation string_ident: tenant_ident string_codec valid_str "\<lambda>s. [esc s]" R for R
  by unfold_locales

interpretation u64_ident: tenant_ident u64_codec "\<lambda>n. n < 2 ^ 64" "\<lambda>n. [show_dec n]" R for R
  by unfold_locales

interpretation unit_ident: tenant_ident unit_codec "\<lambda>_. True" "\<lambda>_. []" R for R
  by unfold_locales

lemmas resource_defs = all_resources_def
  CatalogIdIdent_rsc_def CatalogIdToNameIdent_rsc_def CatalogNameIdent_rsc_def
  DatabaseIdHistoryIdent_rsc_def DatabaseNameIdent_rsc_def DictionaryIdIdent_rsc_def
  DictionaryNameIdent_rsc_def IndexIdIdent_rsc_def IndexIdToNameIdent_rsc_def IndexNameIdent_rsc_def
  LeastVisibleTimeIdent_rsc_def MarkedDeletedIndexIdIdent_rsc_def
  MarkedDeletedTableIndexIdIdent_rsc_def SequenceIdent_rsc_def TableLockIdent_rsc_def
  VirtualColumnIdent_rsc_def TenantQuotaIdent_rsc_def ClientSessionIdent_rsc_def
  ConnectionIdent_rsc_def NetworkPolicyIdent_rsc_def PasswordPolicyIdent_rsc_def
  ProcedureIdIdent_rsc_def ProcedureIdToNameIdent_rsc_def ProcedureNameIdent_rsc_def RoleIdent_rsc_def
  StageFileIdent_rsc_def TenantOwnershipObjectIdent_rsc_def TenantUserIdent_rsc_def UdfIdent_rsc_def
  UserDefinedFileFormatIdent_rsc_def SettingIdent_rsc_def StageIdent_rsc_def TokenIdent_rsc_def
  BackgroundJobIdIdent_rsc_def BackgroundJobIdent_rsc_def BackgroundTaskIdent_rsc_def
  DataMaskIdIdent_rsc_def DataMaskNameIdent_rsc_def MaskPolicyTableIdListIdent_rsc_def

lemma resource_prefixes:
  "list_all (\<lambda>R. seg_ok (rs_prefix R) \<and> rs_prefix R \<noteq> []) all_resources" "distinct (map rs_prefix all_resources)"
  by (simp_all add: resource_defs str_def seg_ok_def valid_char_def)

end
