(* ===== verification/AppKeys.thy ===== *)
theory AppKeys
  imports TenantKey
begin

text \<open>
  The key types of \<open>src/meta/app/src\<close> that are not plain names: identifier generators, databases and
  tables, locks, indexes, dictionaries, procedures, stage files, sessions, objects with an owner and
  users. Each has its \<open>KeyCodec\<close>; the interpretations show that every one of them satisfies the contract
  \<open>key_codec\<close>, for users only when the names contain no percent sign.
\<close>

section \<open>Identifier generators (\<open>id_generator.rs\<close>)\<close>

record id_generator =
  ig_resource :: rstr

definition IdGenerator_generic :: id_generator where
  "IdGenerator_generic = \<lparr>ig_resource = str ''generic''\<rparr>"

definition IdGenerator_table_id :: id_generator where
  "IdGenerator_table_id = \<lparr>ig_resource = str ''table_id''\<rparr>"

definition IdGenerator_database_id :: id_generator where
  "IdGenerator_database_id = \<lparr>ig_resource = str ''database_id''\<rparr>"

definition IdGenerator_dictionary_id :: id_generator where
  "IdGenerator_dictionary_id = \<lparr>ig_resource = str ''dictionary_id''\<rparr>"

definition IdGenerator_share_id :: id_generator where
  "IdGenerator_share_id = \<lparr>ig_resource = str ''share_id''\<rparr>"

definition IdGenerator_share_endpoint_id :: id_generator where
  "IdGenerator_share_endpoint_id = \<lparr>ig_resource = str ''share_endpoint_id''\<rparr>"

definition IdGenerator_index_id :: id_generator where
  "IdGenerator_index_id = \<lparr>ig_resource = str ''index_id''\<rparr>"

definition IdGenerator_data_mask_id :: id_generator where
  "IdGenerator_data_mask_id = \<lparr>ig_resource = str ''data_mask''\<rparr>"

definition IdGenerator_table_lock_id :: id_generator where
  "IdGenerator_table_lock_id = \<lparr>ig_resource = str ''table_lock_id''\<rparr>"

definition IdGenerator_background_job_id :: id_generator where
  "IdGenerator_background_job_id = \<lparr>ig_resource = str ''background_job''\<rparr>"

definition IdGenerator_catalog_id :: id_generator where
  "IdGenerator_catalog_id = \<lparr>ig_resource = str ''catalog_id''\<rparr>"

definition IdGenerator_procedure_id :: id_generator where
  "IdGenerator_procedure_id = \<lparr>ig_resource = str ''procedure_id''\<rparr>"

definition id_generator_codec :: "id_generator kcodec" where
  "id_generator_codec =
     \<lparr>kc_encode = (\<lambda>g b. Inr (push_raw (ig_resource g) b)),
      kc_decode = (\<lambda>p. rbind (next_raw p) (\<lambda>(s, p). Inr (\<lparr>ig_resource = s\<rparr>, p)))\<rparr>"

definition id_gen_prefix :: rstr where
  "id_gen_prefix = str ''__fd_id_gen''"

section \<open>Databases and tables\<close>

record database_id =
  did_db_id :: nat

definition database_id_codec :: "database_id kcodec" where
  "database_id_codec =
     \<lparr>kc_encode = (\<lambda>k b. Inr (push_u64 (did_db_id k) b)),
      kc_decode = (\<lambda>p. rbind (next_u64 p) (\<lambda>(n, p). Inr (\<lparr>did_db_id = n\<rparr>, p)))\<rparr>"

record database_id_to_name =
  ditn_db_id :: nat

definition database_id_to_name_codec :: "database_id_to_name kcodec" where
  "database_id_to_name_codec =
     \<lparr>kc_encode = (\<lambda>k b. Inr (push_u64 (ditn_db_id k) b)),
      kc_decode = (\<lambda>p. rbind (next_u64 p) (\<lambda>(n, p). Inr (\<lparr>ditn_db_id = n\<rparr>, p)))\<rparr>"

record db_id_table_name =
  dt_db_id :: nat
  dt_table_name :: rstr

definition db_id_table_name_codec :: "db_id_table_name kcodec" where
  "db_id_table_name_codec =
     \<lparr>kc_encode = (\<lambda>k b. push_str (dt_table_name k) (push_u64 (dt_db_id k) b)),
      kc_decode = (\<lambda>p. rbind (next_u64 p) (\<lambda>(n, p). rbind (next_str p) (\<lambda>(s, p).
        Inr (\<lparr>dt_db_id = n, dt_table_name = s\<rparr>, p))))\<rparr>"

record table_id_to_name =
  titn_table_id :: nat

definition table_id_to_name_codec :: "table_id_to_name kcodec" where
  "table_id_to_name_codec =
     \<lparr>kc_encode = (\<lambda>k b. Inr (push_u64 (titn_table_id k) b)),
      kc_decode = (\<lambda>p. rbind (next_u64 p) (\<lambda>(n, p). Inr (\<lparr>titn_table_id = n\<rparr>, p)))\<rparr>"

record table_id =
  tid_table_id :: nat

definition table_id_codec :: "table_id kcodec" where
  "table_id_codec =
     \<lparr>kc_encode = (\<lambda>k b. Inr (push_u64 (tid_table_id k) b)),
      kc_decode = (\<lambda>p. rbind (next_u64 p) (\<lambda>(n, p). Inr (\<lparr>tid_table_id = n\<rparr>, p)))\<rparr>"

record table_id_history_ident =
  th_database_id :: nat
  th_table_name :: rstr

definition table_id_history_codec :: "table_id_history_ident kcodec" where
  "table_id_history_codec =
     \<lparr>kc_encode = (\<lambda>k b. push_str (th_table_name k) (push_u64 (th_database_id k) b)),
      kc_decode = (\<lambda>p. rbind (next_u64 p) (\<lambda>(n, p). rbind (next_str p) (\<lambda>(s, p).
        Inr (\<lparr>th_database_id = n, th_table_name = s\<rparr>, p))))\<rparr>"

text \<open>The file name of a copied file is not escaped; decoding takes the rest of the key.\<close>

record table_copied_file_name =
  cf_table_id :: nat
  cf_file :: rstr

definition table_copied_file_codec :: "table_copied_file_name kcodec" where
  "table_copied_file_codec =
     \<lparr>kc_encode = (\<lambda>k b. Inr (push_raw (cf_file k) (push_u64 (cf_table_id k) b))),
      kc_decode = (\<lambda>p. rbind (next_u64 p) (\<lambda>(n, p). rbind (tail_raw p) (\<lambda>(s, p).
        Inr (\<lparr>cf_table_id = n, cf_file = s\<rparr>, p))))\<rparr>"

record table_id_revision =
  trv_table_id :: nat
  trv_revision :: nat

definition table_id_revision_codec :: "table_id_revision kcodec" where
  "table_id_revision_codec =
     \<lparr>kc_encode = (\<lambda>k b. Inr (push_u64 (trv_revision k) (push_u64 (trv_table_id k) b))),
      kc_decode = (\<lambda>p. rbind (next_u64 p) (\<lambda>(t, p). rbind (next_u64 p) (\<lambda>(r, p).
        Inr (\<lparr>trv_table_id = t, trv_revision = r\<rparr>, p))))\<rparr>"

section \<open>Indexes, dictionaries, procedures, files and sessions\<close>

record marked_deleted_index_id =
  mdi_table_id :: nat
  mdi_index_id :: nat

definition marked_deleted_index_codec :: "marked_deleted_index_id kcodec" where
  "marked_deleted_index_codec =
     \<lparr>kc_encode = (\<lambda>k b. Inr (push_u64 (mdi_index_id k) (push_u64 (mdi_table_id k) b))),
      kc_decode = (\<lambda>p. rbind (next_u64 p) (\<lambda>(t, p). rbind (next_u64 p) (\<lambda>(i, p).
        Inr (\<lparr>mdi_table_id = t, mdi_index_id = i\<rparr>, p))))\<rparr>"

record marked_deleted_table_index_id =
  mdt_table_id :: nat
  mdt_index_name :: rstr
  mdt_index_version :: rstr

definition marked_deleted_table_index_codec :: "marked_deleted_table_index_id kcodec" where
  "marked_deleted_table_index_codec =
     \<lparr>kc_encode = (\<lambda>k b. rbind (push_str (mdt_index_name k) (push_u64 (mdt_table_id k) b)) (push_str (mdt_index_version k))),
      kc_decode = (\<lambda>p. rbind (next_u64 p) (\<lambda>(t, p). rbind (next_str p) (\<lambda>(n, p). rbind (next_str p) (\<lambda>(v, p).
        Inr (\<lparr>mdt_table_id = t, mdt_index_name = n, mdt_index_version = v\<rparr>, p)))))\<rparr>"

record dictionary_identity =
  di_db_id :: nat
  di_dict_name :: rstr

definition dictionary_identity_codec :: "dictionary_identity kcodec" where
  "dictionary_identity_codec =
     \<lparr>kc_encode = (\<lambda>k b. push_str (di_dict_name k) (push_u64 (di_db_id k) b)),
      kc_decode = (\<lambda>p. rbind (next_u64 p) (\<lambda>(n, p). rbind (next_str p) (\<lambda>(s, p).
        Inr (\<lparr>di_db_id = n, di_dict_name = s\<rparr>, p))))\<rparr>"

record procedure_identity =
  pi_name :: rstr
  pi_args :: rstr

definition procedure_identity_codec :: "procedure_identity kcodec" where
  "procedure_identity_codec =
     \<lparr>kc_encode = (\<lambda>k b. rbind (push_str (pi_name k) b) (push_str (pi_args k))),
      kc_decode = (\<lambda>p. rbind (next_str p) (\<lambda>(n, p). rbind (next_str p) (\<lambda>(s, p).
        Inr (\<lparr>pi_name = n, pi_args = s\<rparr>, p))))\<rparr>"

record stage_file_path =
  sf_stage :: rstr
  sf_path :: rstr

definition stage_file_path_codec :: "stage_file_path kcodec" where
  "stage_file_path_codec =
     \<lparr>kc_encode = (\<lambda>k b. rbind (push_str (sf_stage k) b) (push_str (sf_path k))),
      kc_decode = (\<lambda>p. rbind (next_str p) (\<lambda>(n, p). rbind (next_str p) (\<lambda>(s, p).
        Inr (\<lparr>sf_stage = n, sf_path = s\<rparr>, p))))\<rparr>"

record user_session_id =
  us_user_name :: rstr
  us_session_id :: rstr

definition user_session_codec :: "user_session_id kcodec" where
  "user_session_codec =
     \<lparr>kc_encode = (\<lambda>k b. rbind (push_str (us_user_name k) b) (push_str (us_session_id k))),
      kc_decode = (\<lambda>p. rbind (next_str p) (\<lambda>(n, p). rbind (next_str p) (\<lambda>(s, p).
        Inr (\<lparr>us_user_name = n, us_session_id = s\<rparr>, p))))\<rparr>"

section \<open>Objects with an owner (\<open>ownership_object.rs\<close>)\<close>

datatype ownership_object =
    OwnDatabase rstr nat
  | OwnTable rstr nat nat
  | OwnStage rstr
  | OwnUDF rstr
  | OwnWarehouse rstr

definition default_catalog :: rstr where
  "default_catalog = str ''default''"

fun ownership_encode :: "ownership_object \<Rightarrow> key_builder \<Rightarrow> key_builder pres" where
  "ownership_encode (OwnDatabase catalog_name db_id) b =
     (if catalog_name = default_catalog then Inr (push_u64 db_id (push_raw (str ''database-by-id'') b))
      else rbind (push_str catalog_name (push_raw (str ''database-by-catalog-id'') b)) (\<lambda>b. Inr (push_u64 db_id b)))"
| "ownership_encode (OwnTable catalog_name db_id table_id) b =
     (if catalog_name = default_catalog then Inr (push_u64 table_id (push_raw (str ''table-by-id'') b))
      else rbind (push_str catalog_name (push_raw (str ''table-by-catalog-id'') b)) (\<lambda>b. Inr (push_u64 table_id b)))"
| "ownership_encode (OwnStage name) b = push_str name (push_raw (str ''stage-by-name'') b)"
| "ownership_encode (OwnUDF name) b = push_str name (push_raw (str ''udf-by-name'') b)"
| "ownership_encode (OwnWarehouse i) b = push_str i (push_raw (str ''warehouse-by-id'') b)"

definition ownership_decode :: "key_parser \<Rightarrow> (ownership_object \<times> key_parser) kres" where
  "ownership_decode p =
     rbind (next_raw p) (\<lambda>(q, p).
       if q = str ''database-by-id'' then
         rbind (next_u64 p) (\<lambda>(n, p). Inr (OwnDatabase default_catalog n, p))
       else if q = str ''database-by-catalog-id'' then
         rbind (next_str p) (\<lambda>(c, p). rbind (next_u64 p) (\<lambda>(n, p). Inr (OwnDatabase c n, p)))
       else if q = str ''table-by-id'' then
         rbind (next_u64 p) (\<lambda>(t, p). Inr (OwnTable default_catalog 0 t, p))
       else if q = str ''table-by-catalog-id'' then
         rbind (next_str p) (\<lambda>(c, p). rbind (next_u64 p) (\<lambda>(t, p). Inr (OwnTable c 0 t, p)))
       else if q = str ''stage-by-name'' then rbind (next_str p) (\<lambda>(s, p). Inr (OwnStage s, p))
       else if q = str ''udf-by-name'' then rbind (next_str p) (\<lambda>(s, p). Inr (OwnUDF s, p))
       else if q = str ''warehouse-by-id'' then rbind (next_str p) (\<lambda>(s, p). Inr (OwnWarehouse s, p))
       else Inl (KeyErr (InvalidSegment (kp_last_index p)
         (str ''database-by-id|database-by-catalog-id|table-by-id|table-by-catalog-id|stage-by-name|udf-by-name|warehouse-by-id'') q)))"

definition ownership_codec :: "ownership_object kcodec" where
  "ownership_codec = \<lparr>kc_encode = ownership_encode, kc_decode = ownership_decode\<rparr>"

section \<open>Users (\<open>user_identity.rs\<close>)\<close>

record user_identity =
  ui_username :: rstr
  ui_hostname :: rstr

definition user_escape_chars :: bytes where
  "user_escape_chars = [39, 64]"

text \<open>\<open>splitn(2, '@')\<close> and \<open>trim_matches('\'')\<close>.\<close>

fun split_once :: "nat \<Rightarrow> rstr \<Rightarrow> (rstr \<times> rstr) option" where
  "split_once d [] = None"
| "split_once d (c # s) =
     (if c = d then Some ([], s) else map_option (\<lambda>(a, b). (c # a, b)) (split_once d s))"

definition trim_matches :: "nat \<Rightarrow> rstr \<Rightarrow> rstr" where
  "trim_matches d s = rev (dropWhile (\<lambda>c. c = d) (rev (dropWhile (\<lambda>c. c = d) s)))"

definition user_parse :: "rstr \<Rightarrow> user_identity kres" where
  "user_parse s =
     (case split_once 64 s of
        None \<Rightarrow> Inl (KeyErr (WrongNumberOfSegments 2 s))
      | Some (a, b) \<Rightarrow>
          rbind (unescape_specified (trim_matches 39 a) user_escape_chars) (\<lambda>username.
          rbind (unescape_specified (trim_matches 39 b) user_escape_chars) (\<lambda>hostname.
            Inr \<lparr>ui_username = username, ui_hostname = hostname\<rparr>)))"

definition user_encode :: "user_identity \<Rightarrow> rstr pres" where
  "user_encode u =
     rbind (escape_specified (ui_username u) user_escape_chars) (\<lambda>a.
     rbind (escape_specified (ui_hostname u) user_escape_chars) (\<lambda>b.
       Inr ([39] @ a @ [39, 64, 39] @ b @ [39])))"

definition user_codec :: "user_identity kcodec" where
  "user_codec =
     \<lparr>kc_encode = (\<lambda>u b. rbind (user_encode u) (\<lambda>s. push_str s b)),
      kc_decode = (\<lambda>p. rbind (next_str p) (\<lambda>(s, p). rbind (user_parse s) (\<lambda>u. Inr (u, p))))\<rparr>"

section \<open>Lemmas\<close>

subsection \<open>Codecs made of numbers and strings\<close>

interpretation id_generator_key: key_codec id_generator_codec "\<lambda>g. seg_ok (ig_resource g)" "\<lambda>g. [ig_resource g]"
  by unfold_locales (simp_all add: id_generator_codec_def codec_simps)

interpretation database_id_key: key_codec database_id_codec "\<lambda>k. did_db_id k < 2 ^ 64" "\<lambda>k. [show_dec (did_db_id k)]"
  by unfold_locales (simp_all add: database_id_codec_def codec_simps)

interpretation database_id_to_name_key: key_codec database_id_to_name_codec "\<lambda>k. ditn_db_id k < 2 ^ 64"
    "\<lambda>k. [show_dec (ditn_db_id k)]"
  by unfold_locales (simp_all add: database_id_to_name_codec_def codec_simps)

interpretation db_id_table_name_key: key_codec db_id_table_name_codec
    "\<lambda>k. dt_db_id k < 2 ^ 64 \<and> valid_str (dt_table_name k)" "\<lambda>k. [show_dec (dt_db_id k), esc (dt_table_name k)]"
  by unfold_locales (simp_all add: db_id_table_name_codec_def codec_simps)

interpretation table_id_to_name_key: key_codec table_id_to_name_codec "\<lambda>k. titn_table_id k < 2 ^ 64"
    "\<lambda>k. [show_dec (titn_table_id k)]"
  by unfold_locales (simp_all add: table_id_to_name_codec_def codec_simps)

interpretation table_id_key: key_codec table_id_codec "\<lambda>k. tid_table_id k < 2 ^ 64" "\<lambda>k. [show_dec (tid_table_id k)]"
  by unfold_locales (simp_all add: table_id_codec_def codec_simps)

interpretation table_id_history_key: key_codec table_id_history_codec
    "\<lambda>k. th_database_id k < 2 ^ 64 \<and> valid_str (th_table_name k)" "\<lambda>k. [show_dec (th_database_id k), esc (th_table_name k)]"
  by unfold_locales (simp_all add: table_id_history_codec_def codec_simps)

interpretation table_id_revision_key: key_codec table_id_revision_codec
    "\<lambda>k. trv_table_id k < 2 ^ 64 \<and> trv_revision k < 2 ^ 64" "\<lambda>k. [show_dec (trv_table_id k), show_dec (trv_revision k)]"
  by unfold_locales (simp_all add: table_id_revision_codec_def codec_simps)

interpretation marked_deleted_index_key: key_codec marked_deleted_index_codec
    "\<lambda>k. mdi_table_id k < 2 ^ 64 \<and> mdi_index_id k < 2 ^ 64" "\<lambda>k. [show_dec (mdi_table_id k), show_dec (mdi_index_id k)]"
  by unfold_locales (simp_all add: marked_deleted_index_codec_def codec_simps)

interpretation marked_deleted_table_index_key: key_codec marked_deleted_table_index_codec
    "\<lambda>k. mdt_table_id k < 2 ^ 64 \<and> valid_str (mdt_index_name k) \<and> valid_str (mdt_index_version k)"
    "\<lambda>k. [show_dec (mdt_table_id k), esc (mdt_index_name k), esc (mdt_index_version k)]"
  by unfold_locales (simp_all add: marked_deleted_table_index_codec_def codec_simps)

interpretation dictionary_identity_key: key_codec dictionary_identity_codec
    "\<lambda>k. di_db_id k < 2 ^ 64 \<and> valid_str (di_dict_name k)" "\<lambda>k. [show_dec (di_db_id k), esc (di_dict_name k)]"
  by unfold_locales (simp_all add: dictionary_identity_codec_def codec_simps)

interpretation procedure_identity_key: key_codec procedure_identity_codec
    "\<lambda>k. valid_str (pi_name k) \<and> valid_str (pi_args k)" "\<lambda>k. [esc (pi_name k), esc (pi_args k)]"
  by unfold_locales (simp_all add: procedure_identity_codec_def codec_simps)

interpretation stage_file_path_key: key_codec stage_file_path_codec
    "\<lambda>k. valid_str (sf_stage k) \<and> valid_str (sf_path k)" "\<lambda>k. [esc (sf_stage k), esc (sf_path k)]"
  by unfold_locales (simp_all add: stage_file_path_codec_def codec_simps)

interpretation user_session_key: key_codec user_session_codec
    "\<lambda>k. valid_str (us_user_name k) \<and> valid_str (us_session_id k)" "\<lambda>k. [esc (us_user_name k), esc (us_session_id k)]"
  by unfold_locales (simp_all add: user_session_codec_def codec_simps)

subsection \<open>File names and owned objects\<close>

interpretation table_copied_file_key: key_codec table_copied_file_codec
    "\<lambda>k. cf_table_id k < 2 ^ 64 \<and> valid_str (cf_file k)" "\<lambda>k. show_dec (cf_table_id k) # split_on 47 (cf_file k)"
proof unfold_locales
  fix k :: table_copied_file_name and b :: key_builder and p :: key_parser
  assume k: "cf_table_id k < 2 ^ 64 \<and> valid_str (cf_file k)"
  show "list_all seg_ok (show_dec (cf_table_id k) # split_on 47 (cf_file k))"
    using k by (simp add: split47_segs)
  show "kc_encode table_copied_file_codec k b = Inr (fold push_raw (show_dec (cf_table_id k) # split_on 47 (cf_file k)) b)"
    if "kb_buf b \<noteq> []"
    using push_raw_join [of "push_raw (show_dec (cf_table_id k)) b" "cf_file k"] that
    by (simp add: table_copied_file_codec_def push_u64_def) (simp add: push_raw_def)
  assume p: "kp_ok p" "kp_elements p = show_dec (cf_table_id k) # split_on 47 (cf_file k)"
  then obtain p' where "tail_raw (adv p) = Inr (cf_file k, p')" "kp_elements p' = []"
    using tail_raw_all [of "adv p" "cf_file k"] by auto
  with k p(2) show "\<exists>p'. kc_decode table_copied_file_codec p = Inr (k, p') \<and> kp_elements p' = []"
    by (simp add: table_copied_file_codec_def codec_simps)
qed

text \<open>The database of a table is not part of its key.\<close>

fun ownership_valid :: "ownership_object \<Rightarrow> bool" where
  "ownership_valid (OwnDatabase c n) \<longleftrightarrow> valid_str c \<and> n < 2 ^ 64"
| "ownership_valid (OwnTable c d t) \<longleftrightarrow> valid_str c \<and> d = 0 \<and> t < 2 ^ 64"
| "ownership_valid (OwnStage s) \<longleftrightarrow> valid_str s"
| "ownership_valid (OwnUDF s) \<longleftrightarrow> valid_str s"
| "ownership_valid (OwnWarehouse s) \<longleftrightarrow> valid_str s"

fun ownership_segs :: "ownership_object \<Rightarrow> rstr list" where
  "ownership_segs (OwnDatabase c n) =
     (if c = default_catalog then [str ''database-by-id'', show_dec n] else [str ''database-by-catalog-id'', esc c, show_dec n])"
| "ownership_segs (OwnTable c d t) =
     (if c = default_catalog then [str ''table-by-id'', show_dec t] else [str ''table-by-catalog-id'', esc c, show_dec t])"
| "ownership_segs (OwnStage s) = [str ''stage-by-name'', esc s]"
| "ownership_segs (OwnUDF s) = [str ''udf-by-name'', esc s]"
| "ownership_segs (OwnWarehouse s) = [str ''warehouse-by-id'', esc s]"

lemma ownership_literals:
  "list_all seg_ok [str ''database-by-id'', str ''database-by-catalog-id'', str ''table-by-id'', str ''table-by-catalog-id'',
     str ''stage-by-name'', str ''udf-by-name'', str ''warehouse-by-id'']"
  by (simp_all add: str_def seg_ok_def valid_char_def)

interpretation ownership_key: key_codec ownership_codec ownership_valid ownership_segs
proof unfold_locales
  fix k :: ownership_object and b :: key_builder and p :: key_parser
  assume k: "ownership_valid k"
  show "list_all seg_ok (ownership_segs k)"
    using k ownership_literals by (cases k) (auto simp: esc(2))
  show "kc_encode ownership_codec k b = Inr (fold push_raw (ownership_segs k) b)"
    using k by (cases k) (auto simp: ownership_codec_def push_u64_def push_str_esc)
  assume p: "kp_elements p = ownership_segs k"
  have "kc_decode ownership_codec p = Inr (k, if length (ownership_segs k) = 2 then adv (adv p) else adv (adv (adv p)))"
  proof (cases k)
    case (OwnDatabase c n)
    with k p show ?thesis
      by (cases "c = default_catalog") (simp_all add: ownership_codec_def ownership_decode_def codec_simps str_def)
  next
    case (OwnTable c d t)
    with k p show ?thesis
      by (cases "c = default_catalog") (simp_all add: ownership_codec_def ownership_decode_def codec_simps str_def)
  qed (use k p in \<open>simp_all add: ownership_codec_def ownership_decode_def codec_simps str_def\<close>)
  moreover have "kp_elements (if length (ownership_segs k) = 2 then adv (adv p) else adv (adv (adv p))) = []"
    using p by (cases k) simp_all
  ultimately show "\<exists>p'. kc_decode ownership_codec p = Inr (k, p') \<and> kp_elements p' = []" by blast
qed

subsection \<open>User names\<close>

text \<open>What \<open>escape_specified\<close> does to the characters of a user name.\<close>

definition user_esc :: "rstr \<Rightarrow> rstr" where
  "user_esc s = concat (map (\<lambda>c. if c = 39 then [37, 50, 55] else if c = 64 then [37, 52, 48] else [c]) s)"

lemma user_esc_simps [simp]:
  "user_esc [] = []"
  "user_esc (c # s) = (if c = 39 then [37, 50, 55] else if c = 64 then [37, 52, 48] else [c]) @ user_esc s"
  by (simp_all add: user_esc_def)

lemma percent_user: "percent 39 = Inr [37, 50, 55]" "percent 64 = Inr [37, 52, 48]"
  by (simp_all add: percent_def hex_def)

lemma rbind_return [simp]: "rbind m Inr = m"
  by (cases m) simp_all

lemma rmap_append: "rmap f (xs @ ys) = rbind (rmap f xs) (\<lambda>a. rbind (rmap f ys) (\<lambda>b. Inr (a @ b)))"
  by (induction xs) (simp_all add: rbind_assoc)

lemma utf8_char_high: "128 \<le> c \<Longrightarrow> b \<in> set (utf8_char c) \<Longrightarrow> 128 \<le> b"
  by (auto simp: utf8_char_def split: if_splits)

lemma rmap_keep: "\<forall>b \<in> set bs. f b = Inr [b] \<Longrightarrow> rmap f bs = Inr (map (\<lambda>b. [b]) bs)"
  by (induction bs) auto

lemma escape_specified_bytes:
  "\<exists>bs. rmap (\<lambda>c. if c \<in> set user_escape_chars then percent c else Inr [c]) (utf8_encode s) = Inr bs \<and>
     concat bs = utf8_encode (user_esc s)"
proof (induction s)
  case (Cons c s)
  let ?f = "\<lambda>c. if c \<in> set user_escape_chars then percent c else Inr [c]"
  have "\<exists>bs. rmap ?f (utf8_char c) = Inr bs \<and> concat bs = utf8_encode (user_esc [c])"
  proof (cases "c < 128")
    case True
    then have "utf8_char c = [c]" by (simp add: utf8_char_def)
    then show ?thesis by (auto simp: user_escape_chars_def percent_user) (simp_all add: utf8_char_def)
  next
    case False
    then have "rmap ?f (utf8_char c) = Inr (map (\<lambda>b. [b]) (utf8_char c))"
      by (intro rmap_keep) (auto simp: user_escape_chars_def dest!: utf8_char_high [rotated])
    with False show ?thesis by (simp add: concat_map_singleton)
  qed
  with Cons.IH show ?case by (auto simp: rmap_append user_esc_def)
qed simp

lemma user_esc_valid: "valid_str s \<Longrightarrow> valid_str (user_esc s)"
  by (induction s) (auto simp: valid_char_def)

lemma escape_specified_user: "valid_str s \<Longrightarrow> escape_specified s user_escape_chars = Inr (user_esc s)"
  using escape_specified_bytes [of s] utf8_round_trip [OF user_esc_valid [of s]]
  by (auto simp: escape_specified_def from_utf8_unwrap_def)

lemma user_esc_safe: "39 \<notin> set (user_esc s)" "64 \<notin> set (user_esc s)"
  by (induction s) auto

text \<open>A name without a percent sign, or the wildcard host, is read back.\<close>

definition user_name_ok :: "rstr \<Rightarrow> bool" where
  "user_name_ok s \<longleftrightarrow> valid_str s \<and> (37 \<notin> set s \<or> s = [37])"

lemma unescape_user_bytes:
  assumes "37 \<notin> set s"
  shows "unescape_specified_bytes user_escape_chars (utf8_encode (user_esc s)) = Inr (utf8_encode s)"
  using assms
proof (induction s)
  case (Cons c s)
  have hex: "unhex 50 = Inr 2" "unhex 55 = Inr 7" "unhex 52 = Inr 4" "unhex 48 = Inr 0" by (simp_all add: unhex_def)
  have skip: "unescape_specified_bytes user_escape_chars (bs @ rest) =
      rbind (unescape_specified_bytes user_escape_chars rest) (\<lambda>r. Inr (bs @ r))" if "37 \<notin> set bs" for bs rest
    using that by (induction bs) (simp_all add: rbind_assoc)
  have "37 \<notin> set (utf8_char c)" if "c \<noteq> 37"
    using that utf8_char_high [of c 37] by (cases "c < 128") (auto simp: utf8_char_def)
  then show ?case
    using Cons skip [of "utf8_char c"] by (auto simp: hex user_escape_chars_def utf8_char_def)
qed simp

lemma unescape_user: "user_name_ok s \<Longrightarrow> unescape_specified (user_esc s) user_escape_chars = Inr s"
  using unescape_user_bytes [of s] utf8_round_trip [of s]
  by (auto simp: user_name_ok_def unescape_specified_def no_error_def from_utf8_def)
     (simp_all add: utf8_char_def from_utf8_def cons_char_def)

lemma trim_quotes: "39 \<notin> set s \<Longrightarrow> trim_matches 39 ([39] @ s @ [39]) = s"
proof -
  assume s: "39 \<notin> set s"
  then have "dropWhile (\<lambda>c. c = 39) (s @ [39]) = (if s = [] then [] else s @ [39])"
    by (cases s) auto
  moreover have "dropWhile (\<lambda>c. c = 39) (rev s) = rev s" using s by (cases "rev s") auto
  ultimately show ?thesis by (auto simp: trim_matches_def)
qed

lemma split_once_at: "d \<notin> set a \<Longrightarrow> split_once d (a @ d # b) = Some (a, b)"
  by (induction a) auto

definition user_valid :: "user_identity \<Rightarrow> bool" where
  "user_valid u \<longleftrightarrow> user_name_ok (ui_username u) \<and> user_name_ok (ui_hostname u)"

definition user_str :: "user_identity \<Rightarrow> rstr" where
  "user_str u = ([39] @ user_esc (ui_username u) @ [39]) @ 64 # ([39] @ user_esc (ui_hostname u) @ [39])"

lemma user_encode_str:
  "valid_str (ui_username u) \<Longrightarrow> valid_str (ui_hostname u) \<Longrightarrow> user_encode u = Inr (user_str u)"
  by (simp add: user_encode_def escape_specified_user user_str_def)

lemma user_str_valid: "valid_str (ui_username u) \<Longrightarrow> valid_str (ui_hostname u) \<Longrightarrow> valid_str (user_str u)"
  by (simp add: user_str_def user_esc_valid) (simp add: valid_char_def)

lemma user_parse_str: "user_valid u \<Longrightarrow> user_parse (user_str u) = Inr u"
  unfolding user_parse_def user_str_def
  by (subst split_once_at) (simp_all add: user_esc_safe trim_quotes [simplified] unescape_user user_valid_def)

interpretation user_key: key_codec user_codec user_valid "\<lambda>u. [esc (user_str u)]"
proof unfold_locales
  fix k :: user_identity and b :: key_builder and p :: key_parser
  assume k: "user_valid k"
  then have v: "valid_str (ui_username k)" "valid_str (ui_hostname k)" by (simp_all add: user_valid_def user_name_ok_def)
  note s = user_str_valid [OF v]
  show "list_all seg_ok [esc (user_str k)]" using esc(2) [OF s] by simp
  show "kc_encode user_codec k b = Inr (fold push_raw [esc (user_str k)] b)"
    by (simp add: user_codec_def user_encode_str [OF v] push_str_esc [OF s])
  assume "kp_elements p = [esc (user_str k)]"
  with esc(3) [OF s] user_parse_str [OF k] show "\<exists>p'. kc_decode user_codec p = Inr (k, p') \<and> kp_elements p' = []"
    by (simp add: user_codec_def next_str_def next_raw_adv)
qed

text \<open>Identifiers of tenants over these names.\<close>

interpretation ownership_ident: tenant_ident ownership_codec ownership_valid ownership_segs R for R
  by unfold_locales

interpretation user_ident: tenant_ident user_codec user_valid "\<lambda>u. [esc (user_str u)]" R for R
  by unfold_locales

interpretation table_lock_ident: tenant_ident table_id_revision_codec
    "\<lambda>k. trv_table_id k < 2 ^ 64 \<and> trv_revision k < 2 ^ 64" "\<lambda>k. [show_dec (trv_table_id k), show_dec (trv_revision k)]" R for R
  by unfold_locales

interpretation stage_file_ident: tenant_ident stage_file_path_codec
    "\<lambda>k. valid_str (sf_stage k) \<and> valid_str (sf_path k)" "\<lambda>k. [esc (sf_stage k), esc (sf_path k)]" R for R
  by unfold_locales

end
