(* ===== verification/KeyProps.thy ===== *)
theory KeyProps
  imports AppKeys
begin

text \<open>
  Properties of the string keys the application stores in the meta-service: keys are read back as they
  were written, different objects have different keys, and listing by a tenant or a database returns
  the keys that belong to it and no others; user names are the exception.
\<close>

section \<open>Round trips\<close>





section \<open>Separation\<close>





text \<open>
  C39. Databases are separated: a table name key starts with the directory of another table name key, by which the
  tables of its database are listed, exactly if both tables are in the same database.
\<close>

theorem database_listing_exact:
  assumes "dt_db_id a < 2 ^ 64" and "valid_str (dt_table_name a)" and "dt_db_id b < 2 ^ 64" and "valid_str (dt_table_name b)"
  shows "\<exists>s s'. to_string_key (str ''__fd_table'') db_id_table_name_codec a = Inr s \<and>
    to_string_key (str ''__fd_table'') db_id_table_name_codec b = Inr s' \<and>
    (prefix (dir_name_with_slash 1 s) s' \<longleftrightarrow> dt_db_id a = dt_db_id b)"
proof -
  define p where "p = str ''__fd_table''"
  have p: "seg_ok p" "p \<noteq> []" by (simp_all add: p_def str_def seg_ok_def valid_char_def)
  define ws where "ws k = [p, show_dec (dt_db_id k), esc (dt_table_name k)]" for k :: db_id_table_name
  have str: "to_string_key p db_id_table_name_codec a = Inr (join47 (ws a))" "to_string_key p db_id_table_name_codec b = Inr (join47 (ws b))"
    using db_id_table_name_key.to_string_segs [OF _ p] assms by (simp_all add: ws_def)
  have ok: "list_all seg_ok (ws a)" "list_all seg_ok (ws b)" using p assms by (simp_all add: ws_def esc(2))
  have ne: "ws k \<noteq> []" for k by (simp add: ws_def)
  have "dir_name_with_slash 1 (join47 (ws a)) = join47 [p, show_dec (dt_db_id a)] @ [47]"
    using dir_name_segs [OF ne ok(1)] by (simp add: dir_name_with_slash_def) (simp add: ws_def numeral_2_eq_2)
  moreover have "prefix (join47 [p, show_dec (dt_db_id a)] @ [47]) (join47 (ws b)) \<longleftrightarrow>
      (\<exists>us. us \<noteq> [] \<and> ws b = [p, show_dec (dt_db_id a)] @ us)"
    using p by (intro prefix_dir ne ok) simp_all
  moreover have "show_dec (dt_db_id b) = show_dec (dt_db_id a) \<longleftrightarrow> dt_db_id a = dt_db_id b"
    by (metis dec_val_show_dec)
  ultimately have "prefix (dir_name_with_slash 1 (join47 (ws a))) (join47 (ws b)) \<longleftrightarrow> dt_db_id a = dt_db_id b"
    by (simp add: ws_def)
  with str show ?thesis by (simp add: p_def)
qed

theorem database_listing_exact_witness:
  "\<exists>s s'. to_string_key (str ''__fd_table'') db_id_table_name_codec \<lparr>dt_db_id = 1, dt_table_name = str ''a''\<rparr> = Inr s \<and>
    to_string_key (str ''__fd_table'') db_id_table_name_codec \<lparr>dt_db_id = 12, dt_table_name = str ''a''\<rparr> = Inr s' \<and>
    \<not> prefix (dir_name_with_slash 1 s) s'"
proof -
  have "valid_str (str ''a'')" by (simp add: str_def valid_char_def)
  then show ?thesis
    using database_listing_exact [of "\<lparr>dt_db_id = 1, dt_table_name = str ''a''\<rparr>" "\<lparr>dt_db_id = 12, dt_table_name = str ''a''\<rparr>"]
    by simp
qed

section \<open>Users\<close>


end
