(* ===== verification/KvClient.thy ===== *)
theory KvClient
  imports TxnTypes KvKey
begin

text \<open>
  Clients of the key-value interface \<open>KVApi\<close> (\<open>src/meta/kvapi/src/kvapi/api.rs\<close>) and the errors they see
  (\<open>src/meta/types/src/errors\<close>).

  An asynchronous function over a \<open>KVApi\<close> is a program: it has returned, or it waits for the reply to
  one of the four requests of the trait, or for the clock. The programs of several clients interleave
  at these points only. A program of type \<open>('e, 'a) api\<close> returns \<open>Ok\<close>, an error, or has panicked; the
  question mark operator is \<open>abind\<close>, a conversion of errors by \<open>From\<close> is \<open>amap_err\<close>.
\<close>

section \<open>Errors\<close>

datatype meta_network_error =
    ConnectionError
  | GetNodeAddrError
  | DnsParseError
  | TLSConfigError
  | BadAddressFormat
  | NetInvalidArgument
  | NetInvalidReply

datatype meta_api_error =
    ForwardToLeader
  | CanNotForward
  | ApiNetworkError meta_network_error
  | DataError
  | RemoteError

datatype meta_client_error =
    ClientRuntimeError
  | ConfigError
  | ClientNetworkError meta_network_error
  | HandshakeError

datatype meta_error =
    NetworkError meta_network_error
  | StorageError io_error_kind
  | ClientError meta_client_error
  | APIError meta_api_error

text \<open>The conversions of \<open>InvalidArgument\<close>, \<open>InvalidReply\<close> and \<open>IncompleteStream\<close> into a \<open>MetaError\<close>.\<close>

definition meta_invalid_argument :: meta_error where
  "meta_invalid_argument = APIError (ApiNetworkError NetInvalidArgument)"

definition meta_invalid_reply :: meta_error where
  "meta_invalid_reply = APIError (ApiNetworkError NetInvalidReply)"

definition meta_incomplete_stream :: meta_error where
  "meta_incomplete_stream = ClientError (ClientNetworkError NetInvalidReply)"

section \<open>Programs\<close>

type_synonym kv_stream = "(meta_error + stream_item) list"

datatype 'a prog =
    Ret 'a
  | PUpsert upsert_kv "meta_error + bytes change \<Rightarrow> 'a prog"
  | PGet "rstr list" "meta_error + kv_stream \<Rightarrow> 'a prog"
  | PList rstr "meta_error + kv_stream \<Rightarrow> 'a prog"
  | PTxn txn_request "meta_error + txn_reply \<Rightarrow> 'a prog"
  | PNow "nat \<Rightarrow> 'a prog"

primrec pbind :: "'a prog \<Rightarrow> ('a \<Rightarrow> 'b prog) \<Rightarrow> 'b prog" where
  "pbind (Ret x) f = f x"
| "pbind (PUpsert up k) f = PUpsert up (\<lambda>r. pbind (k r) f)"
| "pbind (PGet keys k) f = PGet keys (\<lambda>r. pbind (k r) f)"
| "pbind (PList p k) f = PList p (\<lambda>r. pbind (k r) f)"
| "pbind (PTxn txn k) f = PTxn txn (\<lambda>r. pbind (k r) f)"
| "pbind (PNow k) f = PNow (\<lambda>n. pbind (k n) f)"

datatype 'e fault = Raise 'e | Panicked panic

type_synonym ('e, 'a) api = "('e fault + 'a) prog"

definition aret :: "'a \<Rightarrow> ('e, 'a) api" where
  "aret x = Ret (Inr x)"

definition araise :: "'e \<Rightarrow> ('e, 'a) api" where
  "araise e = Ret (Inl (Raise e))"

definition apanic :: "panic \<Rightarrow> ('e, 'a) api" where
  "apanic p = Ret (Inl (Panicked p))"

definition abind :: "('e, 'a) api \<Rightarrow> ('a \<Rightarrow> ('e, 'b) api) \<Rightarrow> ('e, 'b) api" where
  "abind p f = pbind p (\<lambda>r. case r of Inl e \<Rightarrow> Ret (Inl e) | Inr x \<Rightarrow> f x)"

definition amap_err :: "('e \<Rightarrow> 'd) \<Rightarrow> ('e, 'a) api \<Rightarrow> ('d, 'a) api" where
  "amap_err g p =
     pbind p (\<lambda>r. Ret (case r of
       Inl (Raise e) \<Rightarrow> Inl (Raise (g e)) | Inl (Panicked q) \<Rightarrow> Inl (Panicked q) | Inr x \<Rightarrow> Inr x))"

text \<open>A result, and a computation that may only panic, as programs.\<close>

definition aresult :: "'e + 'a \<Rightarrow> ('e, 'a) api" where
  "aresult r = (case r of Inl e \<Rightarrow> araise e | Inr x \<Rightarrow> aret x)"

definition apure :: "'a pres \<Rightarrow> ('e, 'a) api" where
  "apure r = (case r of Inl p \<Rightarrow> apanic p | Inr x \<Rightarrow> aret x)"

section \<open>The trait \<open>KVApi\<close>\<close>

definition kv_upsert :: "upsert_kv \<Rightarrow> (meta_error, bytes change) api" where
  "kv_upsert up = PUpsert up aresult"

definition kv_get_stream :: "rstr list \<Rightarrow> (meta_error, kv_stream) api" where
  "kv_get_stream keys = PGet keys aresult"

definition kv_list :: "rstr \<Rightarrow> (meta_error, kv_stream) api" where
  "kv_list p = PList p aresult"

definition kv_transaction :: "txn_request \<Rightarrow> (meta_error, txn_reply) api" where
  "kv_transaction txn = PTxn txn aresult"

definition now_utc :: "('e, nat) api" where
  "now_utc = PNow aret"

definition kv_get :: "rstr \<Rightarrow> (meta_error, bytes seqv option) api" where
  "kv_get key =
     abind (kv_get_stream [key]) (\<lambda>strm.
       case strm of
         [] \<Rightarrow> araise meta_incomplete_stream
       | Inl e # _ \<Rightarrow> araise e
       | Inr item # _ \<Rightarrow> aret (map_option seqv_from_pb (si_value item)))"

definition kv_mget :: "rstr list \<Rightarrow> (meta_error, bytes seqv option list) api" where
  "kv_mget keys =
     abind (kv_get_stream keys) (\<lambda>strm.
     abind (aresult (try_collect strm)) (\<lambda>items.
       let seq_values = map (\<lambda>item. map_option seqv_from_pb (si_value item)) items
       in if length seq_values \<noteq> length keys then araise meta_incomplete_stream else aret seq_values))"

text \<open>The stream of \<open>list_kv\<close> collected; \<open>unwrap\<close> of an item without a value panics.\<close>

fun collect_listed :: "kv_stream \<Rightarrow> (meta_error, (rstr \<times> bytes seqv) list) api" where
  "collect_listed [] = aret []"
| "collect_listed (Inl e # _) = araise e"
| "collect_listed (Inr item # rest) =
     (case si_value item of
        None \<Rightarrow> apanic UnwrapNone
      | Some v \<Rightarrow> abind (collect_listed rest) (\<lambda>kvs. aret ((si_key item, seqv_from_pb v) # kvs)))"

definition prefix_list_kv :: "rstr \<Rightarrow> (meta_error, (rstr \<times> bytes seqv) list) api" where
  "prefix_list_kv p = abind (kv_list p) collect_listed"

section \<open>Lemmas\<close>

named_theorems api_simps \<open>evaluation of programs up to their next request\<close>

lemma pbind_assoc: "pbind (pbind p f) g = pbind p (\<lambda>x. pbind (f x) g)"
  by (induction p) (simp_all add: fun_eq_iff)

lemma pbind_Ret [simp]: "pbind p Ret = p"
  by (induction p) (simp_all add: fun_eq_iff)

lemma abind_simps [simp]:
  "abind (aret x) f = f x" "abind (araise e) f = araise e" "abind (apanic q) f = apanic q"
  by (simp_all add: abind_def aret_def araise_def apanic_def)

lemma abind_assoc: "abind (abind p f) g = abind p (\<lambda>x. abind (f x) g)"
  unfolding abind_def pbind_assoc by (rule arg_cong [of _ _ "pbind p"]) (auto simp: fun_eq_iff split: sum.split)

lemma abind_return: "abind p aret = p"
  by (induction p) (simp_all add: abind_def aret_def fun_eq_iff split: sum.split)

lemma abind_calls [api_simps]:
  "abind (PUpsert up k1) h = PUpsert up (\<lambda>r. abind (k1 r) h)" "abind (PGet keys k2) h = PGet keys (\<lambda>r. abind (k2 r) h)"
  "abind (PList p k2) h = PList p (\<lambda>r. abind (k2 r) h)" "abind (PTxn req k3) h = PTxn req (\<lambda>r. abind (k3 r) h)"
  "abind (PNow k4) h = PNow (\<lambda>r. abind (k4 r) h)"
  by (simp_all add: abind_def)

lemma amap_err_calls [api_simps]:
  "amap_err g (PUpsert up k1) = PUpsert up (\<lambda>r. amap_err g (k1 r))" "amap_err g (PGet keys k2) = PGet keys (\<lambda>r. amap_err g (k2 r))"
  "amap_err g (PList p k2) = PList p (\<lambda>r. amap_err g (k2 r))" "amap_err g (PTxn req k3) = PTxn req (\<lambda>r. amap_err g (k3 r))"
  "amap_err g (PNow k4) = PNow (\<lambda>r. amap_err g (k4 r))"
  by (simp_all add: amap_err_def)

declare kv_upsert_def [api_simps] kv_get_stream_def [api_simps] kv_list_def [api_simps] kv_transaction_def [api_simps]
  now_utc_def [api_simps] kv_get_def [api_simps]

lemma aresult_simps [simp]: "aresult (Inr x) = aret x" "aresult (Inl e) = araise e"
  by (simp_all add: aresult_def)

lemma apure_simps [simp]: "apure (Inr x) = aret x" "apure (Inl q) = apanic q"
  by (simp_all add: apure_def)

lemma amap_err_simps [simp]:
  "amap_err g (aret x) = aret x" "amap_err g (araise e) = araise (g e)" "amap_err g (apanic q) = apanic q"
  by (simp_all add: amap_err_def aret_def araise_def apanic_def)

lemma amap_err_abind: "amap_err g (abind p f) = abind (amap_err g p) (\<lambda>x. amap_err g (f x))"
  unfolding abind_def amap_err_def pbind_assoc
  by (rule arg_cong [of _ _ "pbind p"]) (auto simp: fun_eq_iff split: sum.split fault.split)

end
