(* ===== verification/PbApi.thy ===== *)
theory PbApi
  imports KvClient TenantKey
begin

text \<open>
  Access to the key-value interface by structured keys and encoded values: \<open>kv_pb_api\<close> with its errors,
  \<open>txn_backoff.rs\<close>, \<open>reply.rs\<close>, \<open>meta_txn_error.rs\<close>, \<open>kv_app_error.rs\<close> and \<open>util.rs\<close> of \<open>src/meta/api/src\<close>, and
  \<open>data_id.rs\<close> of \<open>src/meta/app/src\<close>.

  A key type that implements \<open>kvapi::Key\<close> is a \<open>pbkey\<close>: its prefix, the codec of its fields and the codec of
  its values. The codec of a value (\<open>FromToProto\<close> into a message that the build generates, and the encoding
  of messages by the crate \<open>prost\<close>) is a parameter, and so is the crate \<open>serde_json\<close>; \<open>pb_ok\<close> and \<open>json_ok\<close>
  state that decoding returns what was encoded.
\<close>

section \<open>Errors\<close>

datatype pb_encode_error = EncodeError | EncodeIncompatible

datatype pb_decode_error = DecodeError | DecodeIncompatible

datatype 'e pb_api_read_error =
    ReadPbDecodeError pb_decode_error
  | ReadKeyError key_error
  | ReadNoneValue rstr
  | ReadStreamReadEof nat nat
  | ReadKvApiError 'e

datatype 'e pb_api_write_error =
    WritePbEncodeError pb_encode_error
  | WritePbDecodeError pb_decode_error
  | WriteKvApiError 'e

definition read_error_to_meta :: "meta_error pb_api_read_error \<Rightarrow> meta_error" where
  "read_error_to_meta e =
     (case e of
        ReadPbDecodeError _ \<Rightarrow> meta_invalid_reply
      | ReadKeyError _ \<Rightarrow> meta_invalid_reply
      | ReadNoneValue _ \<Rightarrow> meta_invalid_reply
      | ReadStreamReadEof _ _ \<Rightarrow> meta_invalid_reply
      | ReadKvApiError e \<Rightarrow> e)"

definition write_error_to_meta :: "meta_error pb_api_write_error \<Rightarrow> meta_error" where
  "write_error_to_meta e =
     (case e of
        WritePbEncodeError _ \<Rightarrow> meta_invalid_argument
      | WritePbDecodeError _ \<Rightarrow> meta_invalid_reply
      | WriteKvApiError e \<Rightarrow> e)"

text \<open>\<open>MetaTxnError\<close>; the error of exhausted trials carries their number.\<close>

datatype meta_txn_error = TxnRetryMaxTimes nat | TxnMetaError meta_error

definition txn_invalid_argument :: meta_txn_error where
  "txn_invalid_argument = TxnMetaError (NetworkError NetInvalidArgument)"

text \<open>\<open>AppError\<close>: the variants the modelled operations return, with the names in them.\<close>

datatype app_error =
    AppTxnRetryMaxTimes nat
  | UnknownDatabase rstr
  | UnknownDatabaseId nat
  | UnknownTable rstr
  | UnknownTableId nat
  | DatabaseAlreadyExists rstr
  | CreateDatabaseWithDropTime rstr
  | DropDbWithDropTime rstr
  | UndropDbHasNoHistory rstr
  | UndropDbWithNoDropTime rstr
  | SequenceAlreadyExists rstr
  | UnknownSequence rstr
  | OutofSequenceRange rstr
  | WrongSequenceCount rstr
  | DatamaskAlreadyExists rstr
  | TableLockExpired nat
  | CatalogAlreadyExists rstr
  | UnknownCatalog rstr
  | IndexAlreadyExists rstr
  | VirtualColumnAlreadyExists nat
  | UnknownVirtualColumn nat
  | DictionaryAlreadyExists nat rstr
  | UnknownDictionary nat rstr

datatype kv_app_error = AppErr app_error | AppMetaError meta_error

definition app_from_txn :: "meta_txn_error \<Rightarrow> kv_app_error" where
  "app_from_txn e = (case e of TxnRetryMaxTimes n \<Rightarrow> AppErr (AppTxnRetryMaxTimes n) | TxnMetaError e \<Rightarrow> AppMetaError e)"

definition app_from_retry :: "nat \<Rightarrow> kv_app_error" where
  "app_from_retry n = AppErr (AppTxnRetryMaxTimes n)"

definition app_invalid_argument :: kv_app_error where
  "app_invalid_argument = AppMetaError (NetworkError NetInvalidArgument)"

section \<open>Codecs\<close>

record 'v pbcodec =
  pb_encode :: "'v \<Rightarrow> pb_encode_error + bytes"
  pb_decode :: "bytes \<Rightarrow> pb_decode_error + 'v"

definition pb_ok :: "('v \<Rightarrow> bool) \<Rightarrow> 'v pbcodec \<Rightarrow> bool" where
  "pb_ok valid P \<longleftrightarrow> (\<forall>v. valid v \<longrightarrow> (\<exists>b. pb_encode P v = Inr b \<and> pb_decode P b = Inr v))"

record json =
  json_of_u64 :: "nat \<Rightarrow> bytes"
  u64_of_json :: "bytes \<Rightarrow> nat option"
  api_error_of_json :: "rstr \<Rightarrow> meta_api_error option"

text \<open>A number below \<open>2 ^ 64\<close> has at most 20 digits.\<close>

definition json_ok :: "json \<Rightarrow> bool" where
  "json_ok J \<longleftrightarrow> (\<forall>n < 2 ^ 64. u64_of_json J (json_of_u64 J n) = Some n \<and> length (json_of_u64 J n) \<le> 20)"

text \<open>\<open>DataId\<close>: a number that as a value is written in JSON, as part of a key in decimal.\<close>

definition data_id_codec :: "nat kcodec" where
  "data_id_codec = \<lparr>kc_encode = (\<lambda>i b. Inr (push_u64 i b)), kc_decode = (\<lambda>p. rbind (next_u64 p) (\<lambda>(v, p). Inr (v, p)))\<rparr>"

definition data_id_pb :: "json \<Rightarrow> nat pbcodec" where
  "data_id_pb J =
     \<lparr>pb_encode = (\<lambda>i. Inr (json_of_u64 J i)),
      pb_decode = (\<lambda>buf.
        if length buf > 64 then Inl DecodeError
        else case u64_of_json J buf of None \<Rightarrow> Inl DecodeError | Some i \<Rightarrow> Inr i)\<rparr>"

definition into_t_ident :: "nat \<Rightarrow> tenant \<Rightarrow> nat tident" where
  "into_t_ident i t = TIdent_new_generic t i"

record ('k, 'v) pbkey =
  pk_prefix :: rstr
  pk_codec :: "'k kcodec"
  pk_value :: "'v pbcodec"

definition pk_string :: "('k, 'v) pbkey \<Rightarrow> 'k \<Rightarrow> rstr pres" where
  "pk_string K k = to_string_key (pk_prefix K) (pk_codec K) k"

definition map_fault :: "('e \<Rightarrow> 'd) \<Rightarrow> 'e fault \<Rightarrow> 'd fault" where
  "map_fault g e = (case e of Raise e \<Rightarrow> Raise (g e) | Panicked q \<Rightarrow> Panicked q)"

definition pk_parse :: "('k, 'v) pbkey \<Rightarrow> rstr \<Rightarrow> key_error fault + 'k" where
  "pk_parse K s =
     (case from_str_key (pk_prefix K) (pk_codec K) s of
        Inl (KeyErr e) \<Rightarrow> Inl (Raise e) | Inl (KeyPanic q) \<Rightarrow> Inl (Panicked q) | Inr k \<Rightarrow> Inr k)"

text \<open>A result that may be a panic, as a program.\<close>

definition afault :: "'e fault + 'a \<Rightarrow> ('e, 'a) api" where
  "afault r = Ret r"

section \<open>\<open>codec.rs\<close>\<close>

definition encode_operation :: "'v pbcodec \<Rightarrow> 'v operation \<Rightarrow> pb_encode_error fault + bytes operation" where
  "encode_operation P v =
     (case v of
        Update t \<Rightarrow> (case pb_encode P t of Inl e \<Rightarrow> Inl (Raise e) | Inr buf \<Rightarrow> Inr (Update buf))
      | Delete \<Rightarrow> Inr Delete
      | AsIs \<Rightarrow> Inl (Panicked UnreachableCode))"

definition decode_seqv :: "'v pbcodec \<Rightarrow> bytes seqv \<Rightarrow> pb_decode_error + 'v seqv" where
  "decode_seqv P sv = rbind (pb_decode P (sv_data sv)) (\<lambda>v. Inr (SeqV_with_meta (sv_seq sv) (sv_meta sv) v))"

definition decode_opt :: "'v pbcodec \<Rightarrow> bytes seqv option \<Rightarrow> pb_decode_error + 'v seqv option" where
  "decode_opt P ov = (case ov of None \<Rightarrow> Inr None | Some sv \<Rightarrow> rbind (decode_seqv P sv) (\<lambda>v. Inr (Some v)))"

definition decode_transition :: "'v pbcodec \<Rightarrow> bytes change \<Rightarrow> pb_decode_error + 'v change" where
  "decode_transition P c =
     rbind (decode_opt P (ch_prev c)) (\<lambda>prev.
     rbind (decode_opt P (ch_result c)) (\<lambda>result.
       Inr \<lparr>ch_ident = ch_ident c, ch_prev = prev, ch_result = result\<rparr>))"

record ('k, 'v) non_empty_item =
  ne_key :: 'k
  ne_seqv :: "'v seqv"

definition decode_non_empty_item ::
    "('k, 'v) pbkey \<Rightarrow> meta_error + stream_item \<Rightarrow> meta_error pb_api_read_error fault + ('k, 'v) non_empty_item" where
  "decode_non_empty_item K r =
     (case r of
        Inr item \<Rightarrow>
          (case pk_parse K (si_key item) of
             Inl e \<Rightarrow> Inl (map_fault ReadKeyError e)
           | Inr k \<Rightarrow>
               (case si_value item of
                  None \<Rightarrow> Inl (Raise (ReadNoneValue (si_key item)))
                | Some raw \<Rightarrow>
                    (case decode_seqv (pk_value K) (seqv_from_pb raw) of
                       Inl e \<Rightarrow> Inl (Raise (ReadPbDecodeError e))
                     | Inr v \<Rightarrow> Inr \<lparr>ne_key = k, ne_seqv = v\<rparr>)))
      | Inl e \<Rightarrow> Inl (Raise (ReadKvApiError e)))"

section \<open>\<open>upsert_pb.rs\<close>\<close>

record ('k, 'v) upsert_pb_req =
  up_key :: 'k
  up_seq :: match_seq_t
  up_value :: "'v operation"
  up_value_meta :: "meta_spec option"

definition UpsertPB_new :: "'k \<Rightarrow> match_seq_t \<Rightarrow> 'v operation \<Rightarrow> meta_spec option \<Rightarrow> ('k, 'v) upsert_pb_req" where
  "UpsertPB_new k s v m = \<lparr>up_key = k, up_seq = s, up_value = v, up_value_meta = m\<rparr>"

definition UpsertPB_insert :: "'k \<Rightarrow> 'v \<Rightarrow> ('k, 'v) upsert_pb_req" where
  "UpsertPB_insert k v = \<lparr>up_key = k, up_seq = Exact 0, up_value = Update v, up_value_meta = None\<rparr>"

definition UpsertPB_update :: "'k \<Rightarrow> 'v \<Rightarrow> ('k, 'v) upsert_pb_req" where
  "UpsertPB_update k v = \<lparr>up_key = k, up_seq = GE 0, up_value = Update v, up_value_meta = None\<rparr>"

definition UpsertPB_update_exact :: "'k \<Rightarrow> 'v seqv \<Rightarrow> ('k, 'v) upsert_pb_req" where
  "UpsertPB_update_exact k v =
     \<lparr>up_key = k, up_seq = Exact (sv_seq v), up_value = Update (sv_data v), up_value_meta = None\<rparr>"

definition UpsertPB_delete :: "'k \<Rightarrow> ('k, 'v) upsert_pb_req" where
  "UpsertPB_delete k = \<lparr>up_key = k, up_seq = GE 1, up_value = Delete, up_value_meta = None\<rparr>"

definition UpsertPB_with_seq :: "('k, 'v) upsert_pb_req \<Rightarrow> match_seq_t \<Rightarrow> ('k, 'v) upsert_pb_req" where
  "UpsertPB_with_seq u s = u\<lparr>up_seq := s\<rparr>"

definition UpsertPB_with_meta :: "('k, 'v) upsert_pb_req \<Rightarrow> meta_spec \<Rightarrow> ('k, 'v) upsert_pb_req" where
  "UpsertPB_with_meta u m = u\<lparr>up_value_meta := Some m\<rparr>"

text \<open>A \<open>Duration\<close> is a number of milliseconds.\<close>

definition UpsertPB_with_ttl :: "('k, 'v) upsert_pb_req \<Rightarrow> nat \<Rightarrow> ('k, 'v) upsert_pb_req" where
  "UpsertPB_with_ttl u ttl = UpsertPB_with_meta u (MetaSpec_new_ttl (Interval_from_millis ttl))"

section \<open>\<open>KVPbApi\<close>\<close>

definition upsert_pb_low :: "('k, 'v) pbkey \<Rightarrow> ('k, 'v) upsert_pb_req \<Rightarrow> (meta_error pb_api_write_error, 'v change) api" where
  "upsert_pb_low K req =
     abind (apure (pk_string K (up_key req))) (\<lambda>k.
     let v = encode_operation (pk_value K) (up_value req)
     in abind (amap_err WritePbEncodeError (afault v)) (\<lambda>v.
        abind (amap_err WriteKvApiError (kv_upsert
          \<lparr>uk_key = k, uk_seq = up_seq req, uk_value = v, uk_value_meta = up_value_meta req\<rparr>)) (\<lambda>reply.
        amap_err WritePbDecodeError (aresult (decode_transition (pk_value K) reply)))))"

definition upsert_pb :: "('k, 'v) pbkey \<Rightarrow> ('k, 'v) upsert_pb_req \<Rightarrow> (meta_error, 'v change) api" where
  "upsert_pb K req = amap_err write_error_to_meta (upsert_pb_low K req)"

definition get_pb_low :: "('k, 'v) pbkey \<Rightarrow> 'k \<Rightarrow> (meta_error pb_api_read_error, 'v seqv option) api" where
  "get_pb_low K k =
     abind (apure (pk_string K k)) (\<lambda>key.
     abind (amap_err ReadKvApiError (kv_get key)) (\<lambda>raw.
     amap_err ReadPbDecodeError (aresult (decode_opt (pk_value K) raw))))"

definition get_pb :: "('k, 'v) pbkey \<Rightarrow> 'k \<Rightarrow> (meta_error, 'v seqv option) api" where
  "get_pb K k = amap_err read_error_to_meta (get_pb_low K k)"

definition get_pb_seq_and_value :: "('k, 'v) pbkey \<Rightarrow> 'k \<Rightarrow> (meta_error, nat \<times> 'v option) api" where
  "get_pb_seq_and_value K k = abind (get_pb K k) (\<lambda>v. aret (opt_seq v, map_option sv_data v))"

definition get_seq :: "('k, 'v) pbkey \<Rightarrow> 'k \<Rightarrow> (meta_error, nat) api" where
  "get_seq K k = abind (apure (pk_string K k)) (\<lambda>key. abind (kv_get key) (\<lambda>raw. aret (opt_seq raw)))"

text \<open>A two level mapping from a name to an identifier to a value.\<close>

definition get_id_and_value ::
    "('k, nat) pbkey \<Rightarrow> ('k \<Rightarrow> tenant) \<Rightarrow> (nat tident, 'v) pbkey \<Rightarrow> 'k \<Rightarrow> (meta_error, (nat seqv \<times> 'v seqv) option) api" where
  "get_id_and_value K tenant_of K2 key =
     abind (get_pb K key) (\<lambda>r.
       case r of
         None \<Rightarrow> aret None
       | Some seq_id \<Rightarrow>
           abind (get_pb K2 (into_t_ident (sv_data seq_id) (tenant_of key))) (\<lambda>r.
             case r of None \<Rightarrow> aret None | Some seq_v \<Rightarrow> aret (Some (seq_id, seq_v))))"

text \<open>One item of the stream of \<open>get_pb_stream_low\<close>.\<close>

definition decode_item ::
    "('k, 'v) pbkey \<Rightarrow> meta_error + stream_item \<Rightarrow> meta_error pb_api_read_error fault + 'k \<times> 'v seqv option" where
  "decode_item K r =
     (case r of
        Inl e \<Rightarrow> Inl (Raise (ReadKvApiError e))
      | Inr item \<Rightarrow>
          (case pk_parse K (si_key item) of
             Inl e \<Rightarrow> Inl (map_fault ReadKeyError e)
           | Inr k \<Rightarrow>
               (case decode_opt (pk_value K) (map_option seqv_from_pb (si_value item)) of
                  Inl e \<Rightarrow> Inl (Raise (ReadPbDecodeError e))
                | Inr v \<Rightarrow> Inr (k, v))))"

text \<open>The stream is filled with an end-of-file error up to the number of keys sent.\<close>

definition set_received :: "nat \<Rightarrow> 'e pb_api_read_error fault + 'a \<Rightarrow> 'e pb_api_read_error fault + 'a" where
  "set_received i r =
     (case r of Inl (Raise (ReadStreamReadEof expected _)) \<Rightarrow> Inl (Raise (ReadStreamReadEof expected i)) | _ \<Rightarrow> r)"

definition get_pb_stream_low ::
    "('k, 'v) pbkey \<Rightarrow> 'k list \<Rightarrow> (meta_error, (meta_error pb_api_read_error fault + 'k \<times> 'v seqv option) list) api" where
  "get_pb_stream_low K ks =
     abind (apure (rmap (pk_string K) ks)) (\<lambda>keys.
     abind (kv_get_stream keys) (\<lambda>strm.
       let sent = length keys;
           items = take sent (map (decode_item K) strm @ [Inl (Raise (ReadStreamReadEof sent 0))])
       in aret (map (\<lambda>(i, r). set_received i r) (enumerate 0 items))))"

definition stream_to_meta :: "(meta_error pb_api_read_error fault + 'a) list \<Rightarrow> (meta_error fault + 'a) list" where
  "stream_to_meta xs = map (\<lambda>r. case r of Inl e \<Rightarrow> Inl (map_fault read_error_to_meta e) | Inr x \<Rightarrow> Inr x) xs"

definition get_pb_stream ::
    "('k, 'v) pbkey \<Rightarrow> 'k list \<Rightarrow> (meta_error, (meta_error fault + 'k \<times> 'v seqv option) list) api" where
  "get_pb_stream K ks = abind (get_pb_stream_low K ks) (\<lambda>strm. aret (stream_to_meta strm))"

definition get_pb_values ::
    "('k, 'v) pbkey \<Rightarrow> 'k list \<Rightarrow> (meta_error, (meta_error fault + 'v seqv option) list) api" where
  "get_pb_values K ks =
     abind (get_pb_stream_low K ks) (\<lambda>strm.
       aret (map (\<lambda>r. case r of Inl e \<Rightarrow> Inl e | Inr (k, v) \<Rightarrow> Inr v) (stream_to_meta strm)))"

definition CHUNK_SIZE :: nat where
  "CHUNK_SIZE = 256"

function chunks :: "nat \<Rightarrow> 'a list \<Rightarrow> 'a list list" where
  "chunks n xs = (if xs = [] \<or> n = 0 then [] else take n xs # chunks n (drop n xs))"
  by pat_completeness auto
termination
  by (relation "measure (\<lambda>(n, xs). length xs)") auto

declare chunks.simps [simp del]

fun chunk_loop :: "('k list \<Rightarrow> (meta_error, (meta_error fault + 'b) list) api) \<Rightarrow> 'k list list \<Rightarrow> (meta_error, 'b list) api" where
  "chunk_loop f [] = aret []"
| "chunk_loop f (chunk # rest) =
     abind (f chunk) (\<lambda>strm.
     abind (afault (try_collect strm)) (\<lambda>vec.
     abind (chunk_loop f rest) (\<lambda>res. aret (vec @ res))))"

definition get_pb_values_vec :: "('k, 'v) pbkey \<Rightarrow> 'k list \<Rightarrow> (meta_error, 'v seqv option list) api" where
  "get_pb_values_vec K ks = chunk_loop (get_pb_values K) (chunks CHUNK_SIZE ks)"

definition get_pb_vec :: "('k, 'v) pbkey \<Rightarrow> 'k list \<Rightarrow> (meta_error, ('k \<times> 'v seqv option) list) api" where
  "get_pb_vec K ks = chunk_loop (get_pb_stream K) (chunks CHUNK_SIZE ks)"

text \<open>Listing below a directory: the key and the level of a \<open>DirName\<close>.\<close>

definition list_pb_low ::
    "('k, 'v) pbkey \<Rightarrow> nat \<Rightarrow> 'k \<Rightarrow> (meta_error pb_api_read_error, (meta_error pb_api_read_error fault + ('k, 'v) non_empty_item) list) api" where
  "list_pb_low K level k =
     abind (apure (pk_string K k)) (\<lambda>key.
     abind (amap_err ReadKvApiError (kv_list (dir_name_with_slash level key))) (\<lambda>strm.
       aret (map (decode_non_empty_item K) strm)))"

definition list_pb ::
    "('k, 'v) pbkey \<Rightarrow> nat \<Rightarrow> 'k \<Rightarrow> (meta_error, (meta_error fault + ('k, 'v) non_empty_item) list) api" where
  "list_pb K level k = abind (amap_err read_error_to_meta (list_pb_low K level k)) (\<lambda>strm. aret (stream_to_meta strm))"

definition list_pb_vec :: "('k, 'v) pbkey \<Rightarrow> nat \<Rightarrow> 'k \<Rightarrow> (meta_error, ('k \<times> 'v seqv) list) api" where
  "list_pb_vec K level k =
     abind (list_pb K level k) (\<lambda>strm.
     afault (try_collect (map (\<lambda>r. case r of Inl e \<Rightarrow> Inl e | Inr itm \<Rightarrow> Inr (ne_key itm, ne_seqv itm)) strm)))"

definition list_pb_values :: "('k, 'v) pbkey \<Rightarrow> nat \<Rightarrow> 'k \<Rightarrow> (meta_error, (meta_error fault + 'v) list) api" where
  "list_pb_values K level k =
     abind (list_pb K level k) (\<lambda>strm.
       aret (map (\<lambda>r. case r of Inl e \<Rightarrow> Inl e | Inr itm \<Rightarrow> Inr (sv_data (ne_seqv itm))) strm))"

definition list_pb_keys :: "('k, 'v) pbkey \<Rightarrow> nat \<Rightarrow> 'k \<Rightarrow> (meta_error, (meta_error fault + 'k) list) api" where
  "list_pb_keys K level k =
     abind (apure (pk_string K k)) (\<lambda>key.
     abind (kv_list (dir_name_with_slash level key)) (\<lambda>strm.
       aret (map (\<lambda>r.
         case r of
           Inl e \<Rightarrow> Inl (Raise e)
         | Inr item \<Rightarrow>
             (case pk_parse K (si_key item) of
                Inl e \<Rightarrow> Inl (map_fault (\<lambda>e. read_error_to_meta (ReadKeyError e)) e)
              | Inr k \<Rightarrow> Inr k)) strm)))"

section \<open>Lemmas\<close>

lemma rbind_Inr: "rbind r Inr = r"
  by (cases r) simp_all

lemma data_id_codec_u64: "data_id_codec = u64_codec"
  by (simp add: data_id_codec_def u64_codec_def fun_eq_iff rbind_Inr)

interpretation data_id_ident: tenant_ident data_id_codec "\<lambda>n. n < 2 ^ 64" "\<lambda>n. [show_dec n]" R for R
  unfolding data_id_codec_u64 by unfold_locales

text \<open>Identifiers without a tenant in their key.\<close>

lemma id_key_string:
  assumes "\<not> rs_has_tenant R" and "seg_ok pfx" and "pfx \<noteq> []"
  shows "to_string_key pfx (tident_codec R data_id_codec) (into_t_ident i t) = Inr (join47 [pfx, show_dec i])"
  using kb_done_segs [of pfx "[show_dec i]"] assms
  by (simp add: to_string_key_def tident_codec_def tident_encode_def data_id_codec_def push_u64_def into_t_ident_def TIdent_new_generic_def)

lemma afault_simps [simp]: "afault (Inr x) = aret x" "afault (Inl (Raise e)) = araise e" "afault (Inl (Panicked q)) = apanic q"
  by (simp_all add: afault_def aret_def araise_def apanic_def)

declare upsert_pb_def [api_simps] upsert_pb_low_def [api_simps] get_pb_def [api_simps] get_pb_low_def [api_simps]
  encode_operation_def [api_simps] decode_opt_def [api_simps] decode_seqv_def [api_simps] decode_transition_def [api_simps]
  UpsertPB_insert_def [api_simps] UpsertPB_update_def [api_simps] UpsertPB_delete_def [api_simps] UpsertPB_with_seq_def [api_simps]

end
