(* ===== verification/ApiUtil.thy ===== *)
theory ApiUtil
  imports PbApi AppKeys
begin

text \<open>
  What the operations of the meta API share: \<open>txn_backoff.rs\<close>, \<open>reply.rs\<close> and \<open>util.rs\<close> of \<open>src/meta/api/src\<close>.

  A loop of trials runs through the iterator of \<open>txn_backoff\<close>: the body of a trial returns \<open>Some\<close> to leave
  the loop and \<open>None\<close> to try again. Sleeping between trials has no effect on the store and is not part of a
  program; the random factor of the sleeping time is left out.
\<close>

section \<open>Trials (\<open>txn_backoff.rs\<close>)\<close>

definition TXN_MAX_RETRY_TIMES :: nat where
  "TXN_MAX_RETRY_TIMES = 60"

text \<open>Backoff times in milliseconds; the item at position 0 is not used.\<close>

definition BACKOFF :: "nat list" where
  "BACKOFF = [0, 0, 2, 5, 10, 14, 20, 29, 42, 61, 89, 128, 184, 266, 383, 552, 794]"

definition ith_backoff :: "nat \<Rightarrow> nat" where
  "ith_backoff i = (if i < length BACKOFF then BACKOFF ! i else BACKOFF ! (length BACKOFF - 1))"

text \<open>The items of the iterator: the time to sleep before a trial, at last the error with the number of trials.\<close>

definition txn_backoff :: "nat option \<Rightarrow> (nat + nat) list" where
  "txn_backoff n =
     (let n = (case n of None \<Rightarrow> TXN_MAX_RETRY_TIMES | Some n \<Rightarrow> n)
      in map (\<lambda>i. if i \<le> n then Inr (ith_backoff i) else Inl n) [1..<n + 2])"

fun txn_loop :: "(nat \<Rightarrow> 'e) \<Rightarrow> ('e, 'a option) api \<Rightarrow> (nat + nat) list \<Rightarrow> ('e, 'a) api" where
  "txn_loop conv body [] = apanic UnwrapNone"
| "txn_loop conv body (Inl n # trials) = araise (conv n)"
| "txn_loop conv body (Inr sleep # trials) =
     abind body (\<lambda>r. case r of Some x \<Rightarrow> aret x | None \<Rightarrow> txn_loop conv body trials)"

section \<open>Replies (\<open>reply.rs\<close>)\<close>

definition txn_reply_to_api_result :: "json \<Rightarrow> txn_reply \<Rightarrow> meta_api_error + (bool \<times> txn_op_response option list)" where
  "txn_reply_to_api_result J r =
     (if rep_error r = [] then Inr (rep_success r, rep_responses r)
      else case api_error_of_json J (rep_error r) of
             None \<Rightarrow> Inl (ApiNetworkError NetInvalidReply)
           | Some e \<Rightarrow> Inl e)"

section \<open>\<open>util.rs\<close>\<close>

definition serialize_u64 :: "json \<Rightarrow> nat \<Rightarrow> bytes" where
  "serialize_u64 J n = json_of_u64 J n"

definition deserialize_u64 :: "json \<Rightarrow> bytes \<Rightarrow> meta_network_error + nat" where
  "deserialize_u64 J v = (case u64_of_json J v of None \<Rightarrow> Inl NetInvalidReply | Some n \<Rightarrow> Inr n)"

definition serialize_struct :: "'v pbcodec \<Rightarrow> 'v \<Rightarrow> meta_network_error + bytes" where
  "serialize_struct P v = (case pb_encode P v of Inl _ \<Rightarrow> Inl NetInvalidArgument | Inr buf \<Rightarrow> Inr buf)"

definition deserialize_struct :: "'v pbcodec \<Rightarrow> bytes \<Rightarrow> meta_network_error + 'v" where
  "deserialize_struct P buf = (case pb_decode P buf of Inl _ \<Rightarrow> Inl NetInvalidReply | Inr v \<Rightarrow> Inr v)"

text \<open>\<open>get_u64_value\<close>: sequence number and value, both 0 if there is none.\<close>

definition get_u64_value :: "json \<Rightarrow> rstr pres \<Rightarrow> (meta_error, nat \<times> nat) api" where
  "get_u64_value J key =
     abind (apure key) (\<lambda>key.
     abind (kv_get key) (\<lambda>res.
       case res of
         Some seq_v \<Rightarrow> abind (amap_err NetworkError (aresult (deserialize_u64 J (sv_data seq_v)))) (\<lambda>n. aret (sv_seq seq_v, n))
       | None \<Rightarrow> aret (0, 0)))"

definition response_key :: "('k, 'v) pbkey \<Rightarrow> rstr \<Rightarrow> (meta_error, 'k) api" where
  "response_key K s = amap_err (\<lambda>_. NetworkError NetInvalidReply) (afault (pk_parse K s))"

definition deserialize_struct_get_response ::
    "('k, 'v) pbkey \<Rightarrow> txn_get_response \<Rightarrow> (meta_error, 'k \<times> 'v seqv option) api" where
  "deserialize_struct_get_response K resp =
     abind (response_key K (gresp_key resp)) (\<lambda>key.
       case gresp_value resp of
         Some pb \<Rightarrow>
           (let sv = seqv_from_pb pb
            in abind (amap_err NetworkError (aresult (deserialize_struct (pk_value K) (sv_data sv)))) (\<lambda>v.
                 aret (key, Some (SeqV_with_meta (sv_seq sv) (sv_meta sv) v))))
       | None \<Rightarrow> aret (key, None))"

definition deserialize_id_get_response ::
    "json \<Rightarrow> ('k, 'v) pbkey \<Rightarrow> txn_get_response \<Rightarrow> (meta_error, 'k \<times> nat seqv option) api" where
  "deserialize_id_get_response J K resp =
     abind (response_key K (gresp_key resp)) (\<lambda>key.
       case gresp_value resp of
         Some pb \<Rightarrow>
           (let sv = seqv_from_pb pb
            in abind (amap_err NetworkError (aresult (deserialize_u64 J (sv_data sv)))) (\<lambda>i.
                 aret (key, Some (SeqV_with_meta (sv_seq sv) (sv_meta sv) i))))
       | None \<Rightarrow> aret (key, None))"

fun decode_values :: "'v pbcodec \<Rightarrow> bytes seqv option list \<Rightarrow> (meta_error, (nat \<times> 'v option) list) api" where
  "decode_values P [] = aret []"
| "decode_values P (Some seq_v # rest) =
     abind (amap_err NetworkError (aresult (deserialize_struct P (sv_data seq_v)))) (\<lambda>v.
     abind (decode_values P rest) (\<lambda>vs. aret ((sv_seq seq_v, Some v) # vs)))"
| "decode_values P (None # rest) = abind (decode_values P rest) (\<lambda>vs. aret ((0, None) # vs))"

definition mget_pb_values :: "'v pbcodec \<Rightarrow> rstr list \<Rightarrow> (meta_error, (nat \<times> 'v option) list) api" where
  "mget_pb_values P keys = abind (kv_mget keys) (decode_values P)"

fun list_u64_loop :: "json \<Rightarrow> ('k, 'v) pbkey \<Rightarrow> (rstr \<times> bytes seqv) list \<Rightarrow> (meta_error, 'k list \<times> nat list) api" where
  "list_u64_loop J K [] = aret ([], [])"
| "list_u64_loop J K ((str_key, sv) # rest) =
     abind (amap_err NetworkError (aresult (deserialize_u64 J (sv_data sv)))) (\<lambda>i.
     abind (response_key K str_key) (\<lambda>struct_key.
     abind (list_u64_loop J K rest) (\<lambda>(ks, vs). aret (struct_key # ks, i # vs))))"

definition list_u64_value :: "json \<Rightarrow> ('k, 'v) pbkey \<Rightarrow> 'k \<Rightarrow> (meta_error, 'k list \<times> nat list) api" where
  "list_u64_value J K key = abind (apure (pk_string K key)) (\<lambda>s. abind (prefix_list_kv s) (list_u64_loop J K))"

text \<open>\<open>fetch_id\<close>: the sequence number of a write to the key of the generator.\<close>

definition fetch_id :: "rstr pres \<Rightarrow> (meta_error, nat) api" where
  "fetch_id generator =
     abind (apure generator) (\<lambda>key.
     abind (kv_upsert \<lparr>uk_key = key, uk_seq = GE 0, uk_value = Update [], uk_value_meta = None\<rparr>) (\<lambda>res.
       case ch_result res of None \<Rightarrow> apanic UnwrapNone | Some seq_v \<Rightarrow> aret (sv_seq seq_v)))"

definition generator_key :: "id_generator \<Rightarrow> rstr pres" where
  "generator_key g = to_string_key id_gen_prefix id_generator_codec g"

definition send_txn :: "json \<Rightarrow> txn_request \<Rightarrow> (meta_error, bool \<times> txn_op_response option list) api" where
  "send_txn J txn =
     abind (kv_transaction txn) (\<lambda>reply. amap_err APIError (aresult (txn_reply_to_api_result J reply)))"

definition TxnRequest_default :: txn_request where
  "TxnRequest_default = \<lparr>tr_operations = [], tr_condition = [], tr_if_then = [], tr_else_then = []\<rparr>"

definition push_condition :: "txn_condition \<Rightarrow> txn_request \<Rightarrow> txn_request" where
  "push_condition c txn = txn\<lparr>tr_condition := tr_condition txn @ [c]\<rparr>"

definition push_then :: "txn_op \<Rightarrow> txn_request \<Rightarrow> txn_request" where
  "push_then x txn = txn\<lparr>tr_if_then := tr_if_then txn @ [x]\<rparr>"

definition txn_cond_eq_seq :: "('k, 'v) pbkey \<Rightarrow> 'k \<Rightarrow> nat \<Rightarrow> txn_condition pres" where
  "txn_cond_eq_seq K key seq = rbind (pk_string K key) (\<lambda>s. Inr (cond_eq_seq s seq))"

definition txn_cond_seq :: "('k, 'v) pbkey \<Rightarrow> 'k \<Rightarrow> condition_result \<Rightarrow> nat \<Rightarrow> txn_condition pres" where
  "txn_cond_seq K key opr seq =
     rbind (pk_string K key) (\<lambda>s.
       Inr \<lparr>tc_key = s, tc_expected = condition_result_to_i32 opr, tc_target = Some (TargetSeq seq)\<rparr>)"

definition txn_op_put :: "('k, 'v) pbkey \<Rightarrow> 'k \<Rightarrow> bytes \<Rightarrow> txn_op pres" where
  "txn_op_put K key v = rbind (pk_string K key) (\<lambda>s. Inr (TxnOp_put s v))"

definition txn_op_get :: "('k, 'v) pbkey \<Rightarrow> 'k \<Rightarrow> txn_op pres" where
  "txn_op_get K key = rbind (pk_string K key) (\<lambda>s. Inr (TxnOp_get s))"

definition txn_op_del :: "('k, 'v) pbkey \<Rightarrow> 'k \<Rightarrow> txn_op pres" where
  "txn_op_del K key = rbind (pk_string K key) (\<lambda>s. Inr (TxnOp_delete s))"

text \<open>The error of encoding a value is \<open>InvalidArgument\<close>; \<open>conv\<close> is its conversion at the call.\<close>

definition txn_put_pb :: "'e \<Rightarrow> ('k, 'v) pbkey \<Rightarrow> 'k \<Rightarrow> 'v \<Rightarrow> ('e, txn_op) api" where
  "txn_put_pb conv K key v =
     (case pb_encode (pk_value K) v of
        Inl _ \<Rightarrow> araise conv
      | Inr buf \<Rightarrow> abind (apure (pk_string K key)) (\<lambda>s. aret (TxnOp_put s buf)))"

definition txn_op_put_pb :: "'e \<Rightarrow> ('k, 'v) pbkey \<Rightarrow> 'k \<Rightarrow> 'v \<Rightarrow> nat option \<Rightarrow> ('e, txn_op) api" where
  "txn_op_put_pb conv K key v ttl =
     (case pb_encode (pk_value K) v of
        Inl _ \<Rightarrow> araise conv
      | Inr buf \<Rightarrow> abind (apure (pk_string K key)) (\<lambda>s. aret (TxnOp_put_with_ttl s buf ttl)))"

definition txn_delete_exact :: "('k, 'v) pbkey \<Rightarrow> 'k \<Rightarrow> nat \<Rightarrow> txn_request \<Rightarrow> ('e, txn_request) api" where
  "txn_delete_exact K key seq txn =
     abind (apure (txn_cond_eq_seq K key seq)) (\<lambda>c.
     abind (apure (txn_op_del K key)) (\<lambda>x. aret (push_then x (push_condition c txn))))"

definition txn_replace_exact :: "'e \<Rightarrow> ('k, 'v) pbkey \<Rightarrow> 'k \<Rightarrow> nat \<Rightarrow> 'v \<Rightarrow> txn_request \<Rightarrow> ('e, txn_request) api" where
  "txn_replace_exact conv K key seq v txn =
     abind (apure (txn_cond_eq_seq K key seq)) (\<lambda>c.
     abind (txn_op_put_pb conv K key v None) (\<lambda>x. aret (push_then x (push_condition c txn))))"

definition unknown_database_error :: "rstr tident \<Rightarrow> app_error" where
  "unknown_database_error db_name_ident = UnknownDatabase (ti_name db_name_ident)"

definition db_has_to_exist :: "nat \<Rightarrow> rstr tident \<Rightarrow> kv_app_error + unit" where
  "db_has_to_exist seq db_name_ident =
     (if seq = 0 then Inl (AppErr (unknown_database_error db_name_ident)) else Inr ())"

definition db_id_has_to_exist :: "nat \<Rightarrow> nat \<Rightarrow> kv_app_error + unit" where
  "db_id_has_to_exist seq db_id = (if seq = 0 then Inl (AppErr (UnknownDatabaseId db_id)) else Inr ())"

definition assert_table_exist :: "nat \<Rightarrow> rstr \<Rightarrow> app_error + unit" where
  "assert_table_exist seq table_name = (if seq > 0 then Inr () else Inl (UnknownTable table_name))"

section \<open>Lemmas\<close>

definition trial_count :: "nat option \<Rightarrow> nat" where
  "trial_count n = (case n of None \<Rightarrow> TXN_MAX_RETRY_TIMES | Some n \<Rightarrow> n)"

lemma txn_backoff_items:
  "txn_backoff n = map (\<lambda>i. Inr (ith_backoff i)) [1..<trial_count n + 1] @ [Inl (trial_count n)]"
  by (simp add: txn_backoff_def trial_count_def [symmetric] Let_def)

declare fetch_id_def [api_simps] send_txn_def [api_simps] txn_reply_to_api_result_def [api_simps] txn_cond_eq_seq_def [api_simps]
  txn_op_put_pb_def [api_simps] txn_op_del_def [api_simps] push_condition_def [api_simps] push_then_def [api_simps] TxnRequest_default_def [api_simps]

end
