(* ===== verification/CrudApi.thy ===== *)
theory CrudApi
  imports ApiUtil
begin

text \<open>
  Generic access patterns: \<open>kv_pb_crud_api.rs\<close>, \<open>name_value_api.rs\<close> and \<open>name_id_value_api.rs\<close> of \<open>src/meta/api/src\<close>. The
  closures they take are functions; a closure that returns a result is a value of a sum type, a closure that
  writes keys may panic, and a closure that reads the clock is given the time.
\<close>

section \<open>\<open>CreateOption\<close>\<close>

datatype create_option = Create | CreateIfNotExists | CreateOrReplace

definition create_option_seq :: "create_option \<Rightarrow> match_seq_t" where
  "create_option_seq c = (case c of Create \<Rightarrow> Exact 0 | CreateIfNotExists \<Rightarrow> Exact 0 | CreateOrReplace \<Rightarrow> GE 0)"

definition is_overriding :: "create_option \<Rightarrow> bool" where
  "is_overriding c \<longleftrightarrow> c = CreateOrReplace"

definition if_return_error :: "create_option \<Rightarrow> bool" where
  "if_return_error c \<longleftrightarrow> c = Create"

section \<open>\<open>KVPbCrudApi\<close>\<close>

definition crud_try_upsert ::
    "('k, 'v) pbkey \<Rightarrow> 'k \<Rightarrow> match_seq_t \<Rightarrow> 'v \<Rightarrow> nat option \<Rightarrow> 'e + unit \<Rightarrow> (meta_txn_error, 'e + unit) api" where
  "crud_try_upsert K key ms v ttl on_exist =
     (let upsert = UpsertPB_with_seq (UpsertPB_insert key v) ms;
          upsert = (case ttl of Some ttl \<Rightarrow> UpsertPB_with_ttl upsert ttl | None \<Rightarrow> upsert)
      in abind (amap_err TxnMetaError (upsert_pb K upsert)) (\<lambda>transition.
           if is_changed transition then aret (Inr ()) else aret on_exist))"

definition crud_try_insert ::
    "('k, 'v) pbkey \<Rightarrow> 'k \<Rightarrow> 'v \<Rightarrow> nat option \<Rightarrow> 'e + unit \<Rightarrow> (meta_txn_error, 'e + unit) api" where
  "crud_try_insert K key v ttl on_exist = crud_try_upsert K key (Exact 0) v ttl on_exist"

text \<open>One trial of \<open>crud_update_existing\<close>.\<close>

definition update_existing_trial ::
    "json \<Rightarrow> ('k, 'v) pbkey \<Rightarrow> 'k \<Rightarrow> (nat \<Rightarrow> 'v \<Rightarrow> ('v \<times> nat option) option) \<Rightarrow> 'e + unit \<Rightarrow> (meta_txn_error, ('e + unit) option) api" where
  "update_existing_trial J K name_ident update not_found =
     abind (amap_err TxnMetaError (get_pb K name_ident)) (\<lambda>seq_meta.
       let seq = opt_seq seq_meta
       in case map_option sv_data seq_meta of
            None \<Rightarrow> aret (Some not_found)
          | Some x \<Rightarrow>
              abind now_utc (\<lambda>now.
                case update now x of
                  None \<Rightarrow> aret (Some (Inr ()))
                | Some (updated, ttl) \<Rightarrow>
                    abind (apure (txn_cond_eq_seq K name_ident seq)) (\<lambda>c.
                    abind (txn_op_put_pb txn_invalid_argument K name_ident updated ttl) (\<lambda>p.
                    abind (amap_err TxnMetaError (send_txn J (push_then p (push_condition c TxnRequest_default)))) (\<lambda>(succ, responses).
                      aret (if succ then Some (Inr ()) else None))))))"

definition crud_update_existing ::
    "json \<Rightarrow> ('k, 'v) pbkey \<Rightarrow> 'k \<Rightarrow> (nat \<Rightarrow> 'v \<Rightarrow> ('v \<times> nat option) option) \<Rightarrow> 'e + unit \<Rightarrow> (meta_txn_error, 'e + unit) api" where
  "crud_update_existing J K name_ident update not_found =
     txn_loop TxnRetryMaxTimes (update_existing_trial J K name_ident update not_found) (txn_backoff None)"

definition upsert_with_trial ::
    "('k, 'v) pbkey \<Rightarrow> 'k \<Rightarrow> ('v seqv option \<Rightarrow> 'e + 'v option) \<Rightarrow> (meta_txn_error, ('e + 'v change) option) api" where
  "upsert_with_trial K name_ident update =
     abind (amap_err TxnMetaError (get_pb K name_ident)) (\<lambda>seq_meta.
       let seq = opt_seq seq_meta
       in case update seq_meta of
            Inr (Some updated) \<Rightarrow>
              abind (amap_err TxnMetaError (upsert_pb K (UpsertPB_with_seq (UpsertPB_insert name_ident updated) (Exact seq)))) (\<lambda>transition.
                aret (if is_changed transition then Some (Inr transition) else None))
          | Inr None \<Rightarrow> aret (Some (Inr (Change_new seq_meta seq_meta)))
          | Inl err \<Rightarrow> aret (Some (Inl err)))"

definition crud_upsert_with ::
    "('k, 'v) pbkey \<Rightarrow> 'k \<Rightarrow> ('v seqv option \<Rightarrow> 'e + 'v option) \<Rightarrow> (meta_txn_error, 'e + 'v change) api" where
  "crud_upsert_with K name_ident update =
     txn_loop TxnRetryMaxTimes (upsert_with_trial K name_ident update) (txn_backoff None)"

definition crud_remove :: "('k, 'v) pbkey \<Rightarrow> 'k \<Rightarrow> 'e + unit \<Rightarrow> (meta_txn_error, 'e + unit) api" where
  "crud_remove K name_ident not_found =
     abind (amap_err TxnMetaError (upsert_pb K (UpsertPB_delete name_ident))) (\<lambda>transition.
       if \<not> is_changed transition then aret not_found else aret (Inr ()))"

section \<open>\<open>NameValueApi\<close>\<close>

text \<open>The error that the name exists carries the name.\<close>

definition insert_name_value ::
    "('n tident, 'v) pbkey \<Rightarrow> 'n tident \<Rightarrow> 'v \<Rightarrow> nat option \<Rightarrow> (meta_txn_error, 'n + unit) api" where
  "insert_name_value K name_ident v ttl = crud_try_insert K name_ident v ttl (Inl (ti_name name_ident))"

definition insert_name_value_with_create_option ::
    "('n tident, 'v) pbkey \<Rightarrow> 'n tident \<Rightarrow> 'v \<Rightarrow> create_option \<Rightarrow> (meta_txn_error, 'n + unit) api" where
  "insert_name_value_with_create_option K name_ident v c =
     abind (amap_err TxnMetaError (upsert_pb K (UpsertPB_with_seq (UpsertPB_insert name_ident v) (create_option_seq c)))) (\<lambda>transition.
       if \<not> is_changed transition \<and> c = Create then aret (Inl (ti_name name_ident)) else aret (Inr ()))"

section \<open>\<open>NameIdValueApi\<close>\<close>

text \<open>
  The key types of a mapping from names to identifiers to values: \<open>nk_name\<close> of the names, \<open>nk_id\<close> of the
  identifiers, and the tenant of a name.
\<close>

record ('k, 'v) name_id_keys =
  nk_name :: "('k, nat) pbkey"
  nk_id :: "(nat tident, 'v) pbkey"
  nk_tenant :: "'k \<Rightarrow> tenant"

definition get_id_value :: "('k, 'v) name_id_keys \<Rightarrow> 'k \<Rightarrow> (meta_error, (nat seqv \<times> 'v seqv) option) api" where
  "get_id_value N key = get_id_and_value (nk_name N) (nk_tenant N) (nk_id N) key"

definition push_all :: "txn_op list \<Rightarrow> txn_request \<Rightarrow> txn_request" where
  "push_all xs txn = fold push_then xs txn"

text \<open>The part of a transaction that removes what the name has been mapped to.\<close>

definition override_existing ::
    "('k, 'v) name_id_keys \<Rightarrow> 'k \<Rightarrow> (nat \<Rightarrow> (rstr \<times> bytes) list pres) \<Rightarrow> (nat \<Rightarrow> nat \<Rightarrow> 'v \<Rightarrow> meta_error fault + (rstr \<times> bytes) list) \<Rightarrow>
     nat seqv \<Rightarrow> 'v seqv \<Rightarrow> txn_request \<Rightarrow> (meta_txn_error, txn_request) api" where
  "override_existing N name_ident associated_records mark_delete_records seq_id seq_meta txn =
     (let id_ident = into_t_ident (sv_data seq_id) (nk_tenant N name_ident)
      in abind (apure (txn_cond_eq_seq (nk_id N) id_ident (sv_seq seq_meta))) (\<lambda>c.
         abind (apure (txn_op_del (nk_id N) id_ident)) (\<lambda>d.
         abind (apure (associated_records (sv_data seq_id))) (\<lambda>kvs.
         let txn = push_then d (push_condition c txn);
             txn = push_all (map (\<lambda>(k, v). TxnOp_delete k) kvs) txn
         in abind now_utc (\<lambda>now.
            abind (amap_err TxnMetaError (afault (mark_delete_records now (sv_data seq_id) (sv_data seq_meta)))) (\<lambda>kvs.
              aret (push_all (map (\<lambda>(k, v). TxnOp_put k v) kvs) txn)))))))"

text \<open>The part that maps the name to a new identifier.\<close>

definition create_new_id ::
    "json \<Rightarrow> ('k, 'v) name_id_keys \<Rightarrow> 'k \<Rightarrow> 'v \<Rightarrow> (nat \<Rightarrow> (rstr \<times> bytes) list pres) \<Rightarrow> nat \<Rightarrow> txn_request \<Rightarrow>
     (meta_txn_error, (nat + nat seqv) option) api" where
  "create_new_id J N name_ident v associated_records current_id_seq txn =
     abind (amap_err TxnMetaError (fetch_id (generator_key IdGenerator_generic))) (\<lambda>i.
     let id_ident = into_t_ident i (nk_tenant N name_ident)
     in abind (apure (txn_cond_eq_seq (nk_name N) name_ident current_id_seq)) (\<lambda>c.
        abind (txn_op_put_pb txn_invalid_argument (nk_name N) name_ident i None) (\<lambda>p1.
        abind (txn_op_put_pb txn_invalid_argument (nk_id N) id_ident v None) (\<lambda>p2.
        abind (apure (associated_records i)) (\<lambda>kvs.
        let txn = push_then p2 (push_then p1 (push_condition c txn));
            txn = push_all (map (\<lambda>(k, v). TxnOp_put k v) kvs) txn
        in abind (amap_err TxnMetaError (send_txn J txn)) (\<lambda>(succ, responses).
             aret (if succ then Some (Inl i) else None)))))))"

text \<open>The result is \<open>Inl\<close> with the created identifier or \<open>Inr\<close> with the existing one.\<close>

definition create_id_value_trial ::
    "json \<Rightarrow> ('k, 'v) name_id_keys \<Rightarrow> 'k \<Rightarrow> 'v \<Rightarrow> bool \<Rightarrow> (nat \<Rightarrow> (rstr \<times> bytes) list pres) \<Rightarrow>
     (nat \<Rightarrow> nat \<Rightarrow> 'v \<Rightarrow> meta_error fault + (rstr \<times> bytes) list) \<Rightarrow> (meta_txn_error, (nat + nat seqv) option) api" where
  "create_id_value_trial J N name_ident v override_exist associated_records mark_delete_records =
     abind (amap_err TxnMetaError (get_id_value N name_ident)) (\<lambda>get_res.
       case get_res of
         Some (seq_id, seq_meta) \<Rightarrow>
           if override_exist
           then abind (override_existing N name_ident associated_records mark_delete_records seq_id seq_meta TxnRequest_default) (\<lambda>txn.
                  create_new_id J N name_ident v associated_records (sv_seq seq_id) txn)
           else aret (Some (Inr seq_id))
       | None \<Rightarrow> create_new_id J N name_ident v associated_records 0 TxnRequest_default)"

definition create_id_value ::
    "json \<Rightarrow> ('k, 'v) name_id_keys \<Rightarrow> 'k \<Rightarrow> 'v \<Rightarrow> bool \<Rightarrow> (nat \<Rightarrow> (rstr \<times> bytes) list pres) \<Rightarrow>
     (nat \<Rightarrow> nat \<Rightarrow> 'v \<Rightarrow> meta_error fault + (rstr \<times> bytes) list) \<Rightarrow> (meta_txn_error, nat + nat seqv) api" where
  "create_id_value J N name_ident v override_exist associated_records mark_delete_records =
     txn_loop TxnRetryMaxTimes
       (create_id_value_trial J N name_ident v override_exist associated_records mark_delete_records) (txn_backoff None)"

definition remove_id_value_trial ::
    "json \<Rightarrow> ('k, 'v) name_id_keys \<Rightarrow> 'k \<Rightarrow> (nat \<Rightarrow> rstr list pres) \<Rightarrow> (meta_txn_error, (nat seqv \<times> 'v seqv) option option) api" where
  "remove_id_value_trial J N name_ident associated_keys =
     abind (amap_err TxnMetaError (get_id_value N name_ident)) (\<lambda>get_res.
       case get_res of
         None \<Rightarrow> aret (Some None)
       | Some (seq_id, seq_meta) \<Rightarrow>
           (let id_ident = into_t_ident (sv_data seq_id) (nk_tenant N name_ident)
            in abind (txn_delete_exact (nk_name N) name_ident (sv_seq seq_id) TxnRequest_default) (\<lambda>txn.
               abind (txn_delete_exact (nk_id N) id_ident (sv_seq seq_meta) txn) (\<lambda>txn.
               abind (apure (associated_keys (sv_data seq_id))) (\<lambda>keys.
               let txn = push_all (map TxnOp_delete keys) txn
               in abind (amap_err TxnMetaError (send_txn J txn)) (\<lambda>(succ, responses).
                    aret (if succ then Some (Some (seq_id, seq_meta)) else None)))))))"

definition remove_id_value ::
    "json \<Rightarrow> ('k, 'v) name_id_keys \<Rightarrow> 'k \<Rightarrow> (nat \<Rightarrow> rstr list pres) \<Rightarrow> (meta_txn_error, (nat seqv \<times> 'v seqv) option) api" where
  "remove_id_value J N name_ident associated_keys =
     txn_loop TxnRetryMaxTimes (remove_id_value_trial J N name_ident associated_keys) (txn_backoff None)"

definition update_by_id :: "('k, 'v) name_id_keys \<Rightarrow> nat tident \<Rightarrow> 'v \<Rightarrow> (meta_error, 'v change) api" where
  "update_by_id N id_ident v = upsert_pb (nk_id N) (UpsertPB_new id_ident (GE 1) (Update v) None)"

definition update_id_value :: "('k, 'v) name_id_keys \<Rightarrow> 'k \<Rightarrow> 'v \<Rightarrow> (meta_error, (nat \<times> 'v) option) api" where
  "update_id_value N key v =
     abind (get_id_value N key) (\<lambda>got.
       case got of
         None \<Rightarrow> aret None
       | Some (seq_id, seq_meta) \<Rightarrow>
           abind (update_by_id N (into_t_ident (sv_data seq_id) (nk_tenant N key)) v) (\<lambda>transition.
             aret (if is_changed transition then Some (sv_data seq_id, sv_data seq_meta) else None)))"

text \<open>Names below a directory with their identifiers and values; names whose value is gone are skipped.\<close>

definition list_id_value :: "('k, 'v) name_id_keys \<Rightarrow> nat \<Rightarrow> 'k \<Rightarrow> (meta_error, ('k \<times> nat \<times> 'v seqv) list) api" where
  "list_id_value N level key =
     abind (list_pb (nk_name N) level key) (\<lambda>strm.
     abind (afault (try_collect strm)) (\<lambda>name_ids.
     abind (get_pb_values (nk_id N) (map (\<lambda>itm. into_t_ident (sv_data (ne_seqv itm)) (nk_tenant N key)) name_ids)) (\<lambda>strm.
     abind (afault (try_collect strm)) (\<lambda>seq_metas.
       aret (List.map_filter (\<lambda>(itm, m). map_option (\<lambda>seq_meta. (ne_key itm, sv_data (ne_seqv itm), seq_meta)) m)
         (zip name_ids seq_metas))))))"

text \<open>The same for given names; names without an identifier are skipped, too.\<close>

definition mget_id_value_compat ::
    "('k, 'i) pbkey \<Rightarrow> ('i, 'v) pbkey \<Rightarrow> 'k list \<Rightarrow> (meta_error, ('k \<times> 'i \<times> 'v seqv) list) api" where
  "mget_id_value_compat KN KI names =
     abind (get_pb_stream KN names) (\<lambda>strm.
     abind (afault (try_collect strm)) (\<lambda>name_ids.
     let name_ids = List.map_filter (\<lambda>(k, seq_v). map_option (\<lambda>x. (k, sv_data x)) seq_v) name_ids
     in abind (get_pb_values KI (map snd name_ids)) (\<lambda>strm.
        abind (afault (try_collect strm)) (\<lambda>seq_metas.
          aret (List.map_filter (\<lambda>((k, i), m). map_option (\<lambda>seq_meta. (k, i, seq_meta)) m) (zip name_ids seq_metas))))))"

end
