(* ===== verification/SequenceApi.thy ===== *)
theory SequenceApi
  imports CrudApi
begin

text \<open>
  Sequences: \<open>sequence_api_impl.rs\<close> of \<open>src/meta/api/src\<close> and \<open>schema/sequence.rs\<close> of \<open>src/meta/app/src\<close>. A time is a number of
  milliseconds.
\<close>

record sequence_meta =
  sq_create_on :: nat
  sq_update_on :: nat
  sq_comment :: "rstr option"
  sq_start :: nat
  sq_step :: int
  sq_current :: nat

record create_sequence_req =
  cs_create_option :: create_option
  cs_ident :: "rstr tident"
  cs_create_on :: nat
  cs_comment :: "rstr option"

record get_sequence_next_value_req =
  gs_ident :: "rstr tident"
  gs_count :: nat

record get_sequence_next_value_reply =
  gs_start :: nat
  gs_step :: int
  gs_end :: nat

record drop_sequence_req =
  ds_if_exists :: bool
  ds_ident :: "rstr tident"

definition SequenceMeta_from :: "create_sequence_req \<Rightarrow> sequence_meta" where
  "SequenceMeta_from p =
     \<lparr>sq_create_on = cs_create_on p, sq_update_on = cs_create_on p, sq_comment = cs_comment p,
      sq_start = 1, sq_step = 1, sq_current = 1\<rparr>"

text \<open>The key type \<open>SequenceIdent\<close>, with the codec of the values as a parameter.\<close>

definition sequence_key :: "sequence_meta pbcodec \<Rightarrow> (rstr tident, sequence_meta) pbkey" where
  "sequence_key P =
     \<lparr>pk_prefix = rs_prefix SequenceIdent_rsc, pk_codec = tident_codec SequenceIdent_rsc string_codec, pk_value = P\<rparr>"

definition create_sequence :: "sequence_meta pbcodec \<Rightarrow> create_sequence_req \<Rightarrow> (kv_app_error, unit) api" where
  "create_sequence P req =
     (let meta = SequenceMeta_from req; seq = create_option_seq (cs_create_option req)
      in abind (amap_err AppMetaError (upsert_pb (sequence_key P) (UpsertPB_with_seq (UpsertPB_update (cs_ident req) meta) seq))) (\<lambda>reply.
           if \<not> is_changed reply
           then case cs_create_option req of
                  Create \<Rightarrow> araise (AppErr (SequenceAlreadyExists (ti_name (cs_ident req))))
                | CreateIfNotExists \<Rightarrow> aret ()
                | CreateOrReplace \<Rightarrow> apanic UnreachableCode
           else aret ()))"

definition get_sequence :: "sequence_meta pbcodec \<Rightarrow> rstr tident \<Rightarrow> (meta_error, sequence_meta seqv option) api" where
  "get_sequence P name_ident = get_pb (sequence_key P) name_ident"

text \<open>One trial of \<open>get_sequence_next_value\<close>.\<close>

definition next_value_trial ::
    "json \<Rightarrow> sequence_meta pbcodec \<Rightarrow> get_sequence_next_value_req \<Rightarrow> (kv_app_error, get_sequence_next_value_reply option) api" where
  "next_value_trial J P req =
     (let ident = gs_ident req
      in abind (amap_err AppMetaError (get_pb (sequence_key P) ident)) (\<lambda>seq_meta.
           case seq_meta of
             None \<Rightarrow> araise (AppErr (UnknownSequence (ti_name ident)))
           | Some seq_meta \<Rightarrow>
               (let sequence_seq = sv_seq seq_meta; sequence_meta = sv_data seq_meta;
                    start = sq_current sequence_meta; count = gs_count req
                in if u64_max - sq_current sequence_meta < count
                   then araise (AppErr (OutofSequenceRange (ti_name ident)))
                   else
                     let sequence_meta = sequence_meta\<lparr>sq_current := sq_current sequence_meta + count\<rparr>
                     in abind now_utc (\<lambda>now.
                        let sequence_meta = sequence_meta\<lparr>sq_update_on := now\<rparr>
                        in abind (apure (txn_cond_eq_seq (sequence_key P) ident sequence_seq)) (\<lambda>c.
                           abind (txn_op_put_pb app_invalid_argument (sequence_key P) ident sequence_meta None) (\<lambda>p.
                           abind (amap_err AppMetaError (send_txn J (TxnRequest_new [c] [p]))) (\<lambda>(succ, responses).
                             aret (if succ
                               then Some \<lparr>gs_start = start, gs_step = sq_step sequence_meta, gs_end = sq_current sequence_meta - 1\<rparr>
                               else None))))))))"

definition get_sequence_next_value ::
    "json \<Rightarrow> sequence_meta pbcodec \<Rightarrow> get_sequence_next_value_req \<Rightarrow> (kv_app_error, get_sequence_next_value_reply) api" where
  "get_sequence_next_value J P req =
     (if gs_count req = 0 then araise (AppErr (WrongSequenceCount (ti_name (gs_ident req))))
      else txn_loop app_from_retry (next_value_trial J P req) (txn_backoff None))"

text \<open>\<open>drop_sequence\<close> returns the sequence number of what it removed.\<close>

definition drop_sequence :: "sequence_meta pbcodec \<Rightarrow> drop_sequence_req \<Rightarrow> (kv_app_error, nat option) api" where
  "drop_sequence P req =
     abind (amap_err AppMetaError (upsert_pb (sequence_key P) (UpsertPB_delete (ds_ident req)))) (\<lambda>reply.
       aret (map_option sv_seq (ch_prev reply)))"

end
