(* ===== verification/ReferenceCodec.thy ===== *)
theory ReferenceCodec
  imports SequenceApi
begin

text \<open>
  Concrete codecs for the values that the repository encodes by generated code and by \<open>serde_json\<close>: they show that what
  is assumed of these can be met, and concrete programs can be evaluated with them.
\<close>

definition json_ref :: json where
  "json_ref = \<lparr>json_of_u64 = show_dec, u64_of_json = parse_u64, api_error_of_json = (\<lambda>_. None)\<rparr>"

definition sequence_pb_ref :: "sequence_meta pbcodec" where
  "sequence_pb_ref =
     \<lparr>pb_encode = (\<lambda>m. Inr ([sq_create_on m, sq_update_on m, sq_start m, nat (sq_step m), sq_current m] @
        (case sq_comment m of None \<Rightarrow> [] | Some s \<Rightarrow> 1 # s))),
      pb_decode = (\<lambda>b. case b of
          c # u # st # sp # cu # rest \<Rightarrow>
            Inr \<lparr>sq_create_on = c, sq_update_on = u, sq_comment = (case rest of [] \<Rightarrow> None | _ # s \<Rightarrow> Some s), sq_start = st,
              sq_step = int sp, sq_current = cu\<rparr>
        | _ \<Rightarrow> Inl DecodeError)\<rparr>"

lemma sequence_pb_ref_ok: "pb_ok (\<lambda>m. 0 \<le> sq_step m) sequence_pb_ref"
  by (simp add: pb_ok_def sequence_pb_ref_def split: option.split)

lemma sequence_pb_ref_eval:
  "pb_encode sequence_pb_ref m = Inr ([sq_create_on m, sq_update_on m, sq_start m, nat (sq_step m), sq_current m] @
     (case sq_comment m of None \<Rightarrow> [] | Some s \<Rightarrow> 1 # s))"
  "pb_decode sequence_pb_ref (c # u # st # sp # cu # rest) =
     Inr \<lparr>sq_create_on = c, sq_update_on = u, sq_comment = (case rest of [] \<Rightarrow> None | _ # s \<Rightarrow> Some s), sq_start = st, sq_step = int sp, sq_current = cu\<rparr>"
  by (simp_all add: sequence_pb_ref_def)

end
