(* ===== verification/KvWorld.thy ===== *)
theory KvWorld
  imports MemRefinement ReadRefinement KvClient
begin

text \<open>
  Clients and a server of the key-value interface. A world holds the state of a server, the programs of its
  clients and what they have returned, in order. The clients interleave: at each step one client has its
  request executed and goes on with the reply, or another client, about which nothing is known but which
  requests it may send, has a request executed, or the server takes a step of its own. Requests and replies can be lost and streams can break.

  The locale \<open>kv_server\<close> states what the trait \<open>KVApi\<close> promises, in terms of the reference machine. Inside it,
  a rely-guarantee rule is proved once: \<open>wp\<close> says of a program that, whatever the others do within the rely
  condition, each of its steps stays within the guarantee and what it returns satisfies the postcondition.
\<close>

section \<open>Servers and worlds\<close>

text \<open>
  The requests of the trait, at a wall-clock time. \<open>ka_ready\<close> bounds the sequence numbers used so far, and
  \<open>ka_internal\<close> are the steps a server takes by itself.
\<close>

record 's kvapi =
  ka_upsert :: "'s \<Rightarrow> nat \<Rightarrow> upsert_kv \<Rightarrow> (bytes change \<times> 's) res"
  ka_get_stream :: "'s \<Rightarrow> nat \<Rightarrow> rstr list \<Rightarrow> stream_item res list res"
  ka_list :: "'s \<Rightarrow> nat \<Rightarrow> rstr \<Rightarrow> stream_item res list res"
  ka_transaction :: "'s \<Rightarrow> nat \<Rightarrow> txn_request \<Rightarrow> (txn_reply \<times> 's) res"
  ka_ready :: "'s \<Rightarrow> nat \<Rightarrow> cmd \<Rightarrow> bool"
  ka_internal :: "'s \<Rightarrow> 's \<Rightarrow> bool"

text \<open>What a client can receive of a stream: all of it, an error, a part and an error, or a part.\<close>

inductive delivers :: "stream_item list \<Rightarrow> meta_error + kv_stream \<Rightarrow> bool" where
  whole: "delivers items (Inr (map Inr items))"
| failed: "delivers items (Inl e)"
| broken: "delivers items (Inr (map Inr (take n items) @ [Inl e]))"
| closed: "delivers items (Inr (map Inr (take n items)))"

inductive_simps delivers_simps: "delivers items r"

inductive call_step :: "'s kvapi \<Rightarrow> 's \<Rightarrow> 'a prog \<Rightarrow> 's \<Rightarrow> 'a prog \<Rightarrow> bool" for A :: "'s kvapi" where
  upsert: "ka_ready A s t (CmdUpsertKV up) \<Longrightarrow> ka_upsert A s t up = Inr (ch, s') \<Longrightarrow> call_step A s (PUpsert up k) s' (k (Inr ch))"
| upsert_unknown:
    "ka_ready A s t (CmdUpsertKV up) \<Longrightarrow> ka_upsert A s t up = Inr (ch, s') \<Longrightarrow> call_step A s (PUpsert up k) s' (k (Inl e))"
| upsert_lost: "call_step A s (PUpsert up k) s (k (Inl e))"
| txn: "ka_ready A s t (Transaction req) \<Longrightarrow> ka_transaction A s t req = Inr (rep, s') \<Longrightarrow> call_step A s (PTxn req k) s' (k (Inr rep))"
| txn_unknown:
    "ka_ready A s t (Transaction req) \<Longrightarrow> ka_transaction A s t req = Inr (rep, s') \<Longrightarrow> call_step A s (PTxn req k) s' (k (Inl e))"
| txn_lost: "call_step A s (PTxn req k) s (k (Inl e))"
| get: "t < 2 ^ 64 \<Longrightarrow> ka_get_stream A s t keys = Inr (map Inr items) \<Longrightarrow> delivers items r \<Longrightarrow> call_step A s (PGet keys k) s (k r)"
| list: "t < 2 ^ 64 \<Longrightarrow> ka_list A s t p = Inr (map Inr items) \<Longrightarrow> delivers items r \<Longrightarrow> call_step A s (PList p k) s (k r)"
| clock: "call_step A s (PNow k) s (k n)"

inductive_cases call_stepE: "call_step A s p s' p'"

record ('s, 'a) kvworld =
  kw_server :: 's
  kw_clients :: "'a prog list"
  kw_done :: "(nat \<times> 'a) list"

definition kvworld_init :: "'s \<Rightarrow> 'a prog list \<Rightarrow> ('s, 'a) kvworld" where
  "kvworld_init s ps = \<lparr>kw_server = s, kw_clients = ps, kw_done = []\<rparr>"

fun returned :: "nat \<Rightarrow> 'a prog \<Rightarrow> (nat \<times> 'a) list" where
  "returned i (Ret x) = [(i, x)]"
| "returned i _ = []"

inductive kvworld_step :: "'s kvapi \<Rightarrow> (cmd \<Rightarrow> bool) \<Rightarrow> ('s, 'a) kvworld \<Rightarrow> ('s, 'a) kvworld \<Rightarrow> bool"
  for A :: "'s kvapi" and allowed :: "cmd \<Rightarrow> bool" where
  client:
    "i < length (kw_clients w) \<Longrightarrow> call_step A (kw_server w) (kw_clients w ! i) s' p' \<Longrightarrow>
     kvworld_step A allowed w \<lparr>kw_server = s', kw_clients = (kw_clients w)[i := p'], kw_done = kw_done w @ returned i p'\<rparr>"
| other_upsert:
    "allowed (CmdUpsertKV up) \<Longrightarrow> ka_ready A (kw_server w) t (CmdUpsertKV up) \<Longrightarrow>
     ka_upsert A (kw_server w) t up = Inr (ch, s') \<Longrightarrow> kvworld_step A allowed w (w\<lparr>kw_server := s'\<rparr>)"
| other_txn:
    "allowed (Transaction req) \<Longrightarrow> ka_ready A (kw_server w) t (Transaction req) \<Longrightarrow>
     ka_transaction A (kw_server w) t req = Inr (rep, s') \<Longrightarrow> kvworld_step A allowed w (w\<lparr>kw_server := s'\<rparr>)"
| internal: "ka_internal A (kw_server w) s' \<Longrightarrow> kvworld_step A allowed w (w\<lparr>kw_server := s'\<rparr>)"

inductive kvworld_steps :: "'s kvapi \<Rightarrow> (cmd \<Rightarrow> bool) \<Rightarrow> ('s, 'a) kvworld \<Rightarrow> ('s, 'a) kvworld \<Rightarrow> bool"
  for A :: "'s kvapi" and allowed :: "cmd \<Rightarrow> bool" where
  start: "kvworld_steps A allowed w w"
| step: "kvworld_steps A allowed w w' \<Longrightarrow> kvworld_step A allowed w' w'' \<Longrightarrow> kvworld_steps A allowed w w''"

section \<open>How entries evolve\<close>

text \<open>An entry stays, goes, or is replaced by one with a new sequence number.\<close>

definition evolves :: "('lid, 'mem) flat \<Rightarrow> ('lid, 'mem) flat \<Rightarrow> bool" where
  "evolves f g \<longleftrightarrow> sequence (f_sys f) \<le> sequence (f_sys g) \<and>
     (\<forall>k. btree_get (f_kv g) k = btree_get (f_kv f) k \<or> btree_get (f_kv g) k = None \<or>
       (\<exists>v. btree_get (f_kv g) k = Some v \<and> sequence (f_sys f) < sv_seq v))"

lemma evolves_refl [simp]: "evolves f f"
  by (simp add: evolves_def)

lemma evolves_trans:
  assumes "evolves f g" and "evolves g h"
  shows "evolves f h"
proof -
  have "btree_get (f_kv h) k = btree_get (f_kv f) k \<or> btree_get (f_kv h) k = None \<or>
      (\<exists>v. btree_get (f_kv h) k = Some v \<and> sequence (f_sys f) < sv_seq v)" for k
    using assms unfolding evolves_def by (elim conjE allE [of _ k]) auto
  with assms show ?thesis by (auto simp: evolves_def)
qed

text \<open>The compare-and-swap argument: an unchanged sequence number means an unchanged entry.\<close>

lemma evolves_same_seq:
  assumes "evolves f g" and "flat_inv f" and "flat_inv g"
    and "opt_seq (btree_get (f_kv g) k) = opt_seq (btree_get (f_kv f) k)"
  shows "btree_get (f_kv g) k = btree_get (f_kv f) k"
proof -
  have "btree_get (f_kv g) k = btree_get (f_kv f) k \<or> btree_get (f_kv g) k = None \<or>
      (\<exists>v. btree_get (f_kv g) k = Some v \<and> sequence (f_sys f) < sv_seq v)"
    using assms(1) by (simp add: evolves_def)
  moreover have "btree_get (f_kv f) k = Some v \<Longrightarrow> 1 \<le> sv_seq v \<and> sv_seq v \<le> sequence (f_sys f)" for v
    using flat_invD(3) [OF assms(2)] by blast
  ultimately show ?thesis
    using assms(4) by (cases "btree_get (f_kv f) k") fastforce+
qed

lemma evolves_clean: "flat_inv f \<Longrightarrow> evolves f (snd (flat_clean t f))"
  by (auto simp: evolves_def flat_clean_def btree_get_filter [OF flat_invD(1)] split: option.splits)

lemma evolves_upsert:
  assumes "flat_upsert f ctx up = ((p, r), g)"
  shows "evolves f g"
proof -
  have "r = p \<or> r = None \<or> (\<exists>v. r = Some v \<and> sequence (f_sys f) < sv_seq v)"
    using flat_upsert_cases [OF assms] by (cases r) (auto dest: flat_put_spec(4) [OF _ refl])
  with flat_upsert_frame(1,2,4) [OF assms] show ?thesis by (auto simp: evolves_def)
qed

lemma evolves_upsert_snd: "evolves f (snd (flat_upsert f ctx up))"
  by (rule evolves_upsert [of f ctx up "fst (fst (flat_upsert f ctx up))" "snd (fst (flat_upsert f ctx up))"]) simp

lemma evolves_op:
  assumes "btree_ok (f_kv f)"
  shows "evolves f (snd (snd (flat_op ctx x f)))"
proof (cases x)
  case None
  then show ?thesis by (simp add: flat_op_def)
next
  case (Some r)
  show ?thesis
  proof (cases r)
    case (ReqDeleteByPrefix p)
    then show ?thesis
      using Some by (auto simp: flat_op_def evolves_def btree_get_filter [OF assms] split: option.splits)
  qed (simp_all add: Some flat_op_def case_prod_beta evolves_upsert_snd)
qed

lemma flat_op_btree_ok: "btree_ok (f_kv f) \<Longrightarrow> btree_ok (f_kv (snd (snd (flat_op ctx x f))))"
proof -
  assume ok: "btree_ok (f_kv f)"
  have up: "btree_ok (f_kv (snd (flat_upsert f ctx up)))" for up
    by (rule flat_upsert_frame(6) [of f ctx up "fst (fst (flat_upsert f ctx up))" "snd (fst (flat_upsert f ctx up))"])
       (simp_all add: ok)
  show ?thesis
    by (cases x; cases "the x") (simp_all add: flat_op_def case_prod_beta up btree_ok_filter ok)
qed

lemma evolves_ops: "btree_ok (f_kv f) \<Longrightarrow> evolves f (snd (snd (flat_ops ctx xs f)))"
proof (induction xs arbitrary: f)
  case (Cons x xs)
  from evolves_trans [OF evolves_op [OF Cons.prems, of ctx x] Cons.IH [OF flat_op_btree_ok [OF Cons.prems]]] show ?case
    by (simp add: case_prod_beta)
qed simp

lemma evolves_mem_upsert:
  assumes "flat_inv f"
  shows "evolves f (snd (flat_mem_upsert t up f))"
  using evolves_trans [OF evolves_clean [OF assms] evolves_upsert_snd] by (simp add: flat_mem_upsert_def case_prod_beta)

lemma flat_clean_btree_ok: "btree_ok (f_kv f) \<Longrightarrow> btree_ok (f_kv (snd (flat_clean t f)))"
  by (simp add: flat_clean_def btree_ok_filter)

lemma evolves_mem_txn:
  assumes "flat_inv f"
  shows "evolves f (snd (flat_mem_txn t req f))"
  using evolves_trans [OF evolves_clean [OF assms] evolves_ops [OF flat_clean_btree_ok [OF flat_invD(1) [OF assms]]]]
  by (simp add: flat_mem_txn_def flat_txn_def case_prod_beta)

section \<open>Programs under interference\<close>

text \<open>
  A state is a reference machine with a ghost value that the clients may change at their writes; programs
  do not see it. \<open>wp R G Q p s s'\<close>: the last step of the client led from \<open>s\<close> to \<open>s'\<close> and \<open>p\<close> is what remains of it. If
  \<open>p\<close> has returned, that step and the result satisfy \<open>Q\<close>; otherwise the step satisfies \<open>G\<close>, and after any
  interference \<open>R\<close> the same holds of the next step, whatever becomes of the request and the reply.
\<close>

type_synonym ('lid, 'mem, 'g) ghosted = "('lid, 'mem) flat \<times> 'g"

text \<open>A request that can be served: the time and the sequence numbers stay in range.\<close>

definition fits :: "nat \<Rightarrow> cmd \<Rightarrow> ('lid, 'mem) flat \<Rightarrow> bool" where
  "fits t c f \<longleftrightarrow> t < 2 ^ 64 \<and> sequence (f_sys f) + cmd_seqs c < 2 ^ 64"

primrec wp ::
    "(('lid, 'mem, 'g) ghosted \<Rightarrow> ('lid, 'mem, 'g) ghosted \<Rightarrow> bool) \<Rightarrow> (('lid, 'mem, 'g) ghosted \<Rightarrow> ('lid, 'mem, 'g) ghosted \<Rightarrow> bool) \<Rightarrow>
     ('a \<Rightarrow> ('lid, 'mem, 'g) ghosted \<Rightarrow> ('lid, 'mem, 'g) ghosted \<Rightarrow> bool) \<Rightarrow>
     'a prog \<Rightarrow> ('lid, 'mem, 'g) ghosted \<Rightarrow> ('lid, 'mem, 'g) ghosted \<Rightarrow> bool" where
  "wp R G Q (Ret x) s s' \<longleftrightarrow> Q x s s'"
| "wp R G Q (PUpsert up k) s s' \<longleftrightarrow> G s s' \<and>
     (\<forall>f c. R s' (f, c) \<longrightarrow> (\<forall>e. wp R G Q (k (Inl e)) (f, c) (f, c)) \<and>
       (\<forall>t. fits t (CmdUpsertKV up) f \<longrightarrow> (\<exists>c'. wp R G Q (k (Inr (fst (flat_mem_upsert t up f)))) (f, c) (snd (flat_mem_upsert t up f), c')) \<and>
         (\<forall>e. \<exists>c'. wp R G Q (k (Inl e)) (f, c) (snd (flat_mem_upsert t up f), c'))))"
| "wp R G Q (PTxn req k) s s' \<longleftrightarrow> G s s' \<and>
     (\<forall>f c. R s' (f, c) \<longrightarrow> (\<forall>e. wp R G Q (k (Inl e)) (f, c) (f, c)) \<and>
       (\<forall>t. fits t (Transaction req) f \<longrightarrow> (\<exists>c'. wp R G Q (k (Inr (fst (flat_mem_txn t req f)))) (f, c) (snd (flat_mem_txn t req f), c')) \<and>
         (\<forall>e. \<exists>c'. wp R G Q (k (Inl e)) (f, c) (snd (flat_mem_txn t req f), c'))))"
| "wp R G Q (PGet keys k) s s' \<longleftrightarrow> G s s' \<and>
     (\<forall>f c t r. R s' (f, c) \<longrightarrow> t < 2 ^ 64 \<longrightarrow> delivers (map (flat_item t f) keys) r \<longrightarrow> wp R G Q (k r) (f, c) (f, c))"
| "wp R G Q (PList p k) s s' \<longleftrightarrow> G s s' \<and>
     (\<forall>f c t r. R s' (f, c) \<longrightarrow> t < 2 ^ 64 \<longrightarrow> delivers (flat_items t f p) r \<longrightarrow> wp R G Q (k r) (f, c) (f, c))"
| "wp R G Q (PNow k) s s' \<longleftrightarrow> G s s' \<and> (\<forall>f c n. R s' (f, c) \<longrightarrow> wp R G Q (k n) (f, c) (f, c))"

lemma wp_pbind: "wp R G Q (pbind p h) s s' \<longleftrightarrow> wp R G (\<lambda>x. wp R G Q (h x)) p s s'"
  by (induction p arbitrary: s s') simp_all

lemma wp_mono:
  "wp R G Q p s s' \<Longrightarrow> (\<And>x u u'. Q x u u' \<Longrightarrow> Q' x u u') \<Longrightarrow> wp R G Q' p s s'"
proof (induction p arbitrary: s s')
  case (PUpsert up k)
  then show ?case by (simp only: wp.simps) (meson rangeI)
next
  case (PTxn req k)
  then show ?case by (simp only: wp.simps) (meson rangeI)
qed auto

definition is_call :: "'a prog \<Rightarrow> bool" where
  "is_call p \<longleftrightarrow> (\<forall>x. p \<noteq> Ret x)"

lemma wp_guarantee: "wp R G Q p s s' \<Longrightarrow> is_call p \<Longrightarrow> G s s'"
  by (cases p) (simp_all add: is_call_def)

lemma wp_stable:
  assumes "wp R G Q p s s'" and "is_call p" and "R s' u" and "G u u" and "\<And>s u v. R s u \<Longrightarrow> R u v \<Longrightarrow> R s v"
  shows "wp R G Q p u u"
proof -
  have "R s' v" if "R u v" for v by (rule assms(5) [OF assms(3) that])
  with assms(1,2,4) show ?thesis by (cases p) (simp_all add: is_call_def)
qed

text \<open>
  A protocol among \<open>n\<close> clients beside unknown ones that send the allowed requests: an invariant of the state and
  the results so far, and for each client a rely condition, a guarantee and a postcondition that fit together.
\<close>

definition protocol ::
    "(('lid, 'mem, 'g) ghosted \<Rightarrow> (nat \<times> 'a) list \<Rightarrow> bool) \<Rightarrow> (nat \<Rightarrow> ('lid, 'mem, 'g) ghosted \<Rightarrow> ('lid, 'mem, 'g) ghosted \<Rightarrow> bool) \<Rightarrow>
     (nat \<Rightarrow> ('lid, 'mem, 'g) ghosted \<Rightarrow> ('lid, 'mem, 'g) ghosted \<Rightarrow> bool) \<Rightarrow>
     (nat \<Rightarrow> 'a \<Rightarrow> ('lid, 'mem, 'g) ghosted \<Rightarrow> ('lid, 'mem, 'g) ghosted \<Rightarrow> bool) \<Rightarrow> (cmd \<Rightarrow> bool) \<Rightarrow> nat \<Rightarrow> bool" where
  "protocol I R G Q allowed n \<longleftrightarrow>
     (\<forall>i f c d. flat_inv f \<longrightarrow> I (f, c) d \<longrightarrow> R i (f, c) (f, c) \<and> G i (f, c) (f, c)) \<and>
     (\<forall>i s u v. R i s u \<longrightarrow> R i u v \<longrightarrow> R i s v) \<and>
     (\<forall>i f g c c' d. flat_inv f \<longrightarrow> flat_inv g \<longrightarrow> evolves f g \<longrightarrow> I (f, c) d \<longrightarrow> G i (f, c) (g, c') \<longrightarrow>
        I (g, c') d \<and> (\<forall>j. j \<noteq> i \<longrightarrow> R j (f, c) (g, c'))) \<and>
     (\<forall>i x f g c c' d. flat_inv f \<longrightarrow> flat_inv g \<longrightarrow> evolves f g \<longrightarrow> I (f, c) d \<longrightarrow> Q i x (f, c) (g, c') \<longrightarrow>
        i \<notin> fst ` set d \<longrightarrow> i < n \<longrightarrow> I (g, c') (d @ [(i, x)]) \<and> (\<forall>j. j \<noteq> i \<longrightarrow> R j (f, c) (g, c'))) \<and>
     (\<forall>f t up c d. flat_inv f \<longrightarrow> fits t (CmdUpsertKV up) f \<longrightarrow> flat_inv (snd (flat_mem_upsert t up f)) \<longrightarrow> I (f, c) d \<longrightarrow> allowed (CmdUpsertKV up) \<longrightarrow>
        I (snd (flat_mem_upsert t up f), c) d \<and> (\<forall>j. R j (f, c) (snd (flat_mem_upsert t up f), c))) \<and>
     (\<forall>f t req c d. flat_inv f \<longrightarrow> fits t (Transaction req) f \<longrightarrow> flat_inv (snd (flat_mem_txn t req f)) \<longrightarrow> I (f, c) d \<longrightarrow> allowed (Transaction req) \<longrightarrow>
        I (snd (flat_mem_txn t req f), c) d \<and> (\<forall>j. R j (f, c) (snd (flat_mem_txn t req f), c)))"

lemmas protocol_refl = protocol_def [THEN iffD1, THEN conjunct1, rule_format]
lemmas protocol_trans = protocol_def [THEN iffD1, THEN conjunct2, THEN conjunct1, rule_format]
lemmas protocol_guar = protocol_def [THEN iffD1, THEN conjunct2, THEN conjunct2, THEN conjunct1, THEN spec, THEN spec, THEN spec, THEN spec,
    THEN spec, THEN spec, THEN mp, THEN mp, THEN mp, THEN mp, THEN mp]
lemmas protocol_post = protocol_def [THEN iffD1, THEN conjunct2, THEN conjunct2, THEN conjunct2, THEN conjunct1, THEN spec, THEN spec, THEN spec,
    THEN spec, THEN spec, THEN spec, THEN spec, THEN mp, THEN mp, THEN mp, THEN mp, THEN mp, THEN mp, THEN mp]
lemmas protocol_other =
  protocol_def [THEN iffD1, THEN conjunct2, THEN conjunct2, THEN conjunct2, THEN conjunct2, THEN conjunct1, THEN spec, THEN spec, THEN spec,
    THEN spec, THEN spec, THEN mp, THEN mp, THEN mp, THEN mp, THEN mp]
  protocol_def [THEN iffD1, THEN conjunct2, THEN conjunct2, THEN conjunct2, THEN conjunct2, THEN conjunct2, THEN spec, THEN spec, THEN spec,
    THEN spec, THEN spec, THEN mp, THEN mp, THEN mp, THEN mp, THEN mp]

text \<open>
  Rely conditions of the usual form: interference keeps the machine well-formed, replaces entries only by
  newer ones, and satisfies a condition of the protocol.
\<close>

definition evolved ::
    "(('lid, 'mem, 'g) ghosted \<Rightarrow> ('lid, 'mem, 'g) ghosted \<Rightarrow> bool) \<Rightarrow> ('lid, 'mem, 'g) ghosted \<Rightarrow> ('lid, 'mem, 'g) ghosted \<Rightarrow> bool" where
  "evolved X s s' \<longleftrightarrow> flat_inv (fst s) \<and> flat_inv (fst s') \<and> evolves (fst s) (fst s') \<and> X s s'"

lemma evolved_trans:
  assumes "\<And>s u v. X s u \<Longrightarrow> X u v \<Longrightarrow> X s v" and "evolved X s u" and "evolved X u v"
  shows "evolved X s v"
  using assms(2,3) assms(1) [of s u v] evolves_trans [of "fst s" "fst u" "fst v"] by (simp add: evolved_def)

lemma protocolI:
  assumes refl: "\<And>i f c d. flat_inv f \<Longrightarrow> I (f, c) d \<Longrightarrow> X i (f, c) (f, c) \<and> G i (f, c) (f, c)"
    and trans: "\<And>i s u v. X i s u \<Longrightarrow> X i u v \<Longrightarrow> X i s v"
    and guar: "\<And>i f g c c' d. evolved (G i) (f, c) (g, c') \<Longrightarrow> I (f, c) d \<Longrightarrow> I (g, c') d \<and> (\<forall>j. j \<noteq> i \<longrightarrow> X j (f, c) (g, c'))"
    and post: "\<And>i x f g c c' d. evolved (Q i x) (f, c) (g, c') \<Longrightarrow> I (f, c) d \<Longrightarrow> i \<notin> fst ` set d \<Longrightarrow> i < n \<Longrightarrow>
        I (g, c') (d @ [(i, x)]) \<and> (\<forall>j. j \<noteq> i \<longrightarrow> X j (f, c) (g, c'))"
    and other: "\<And>f t up c d. flat_inv f \<Longrightarrow> fits t (CmdUpsertKV up) f \<Longrightarrow> evolves f (snd (flat_mem_upsert t up f)) \<Longrightarrow> I (f, c) d \<Longrightarrow>
        allowed (CmdUpsertKV up) \<Longrightarrow> I (snd (flat_mem_upsert t up f), c) d \<and> (\<forall>j. X j (f, c) (snd (flat_mem_upsert t up f), c))"
      "\<And>f t req c d. flat_inv f \<Longrightarrow> fits t (Transaction req) f \<Longrightarrow> evolves f (snd (flat_mem_txn t req f)) \<Longrightarrow> I (f, c) d \<Longrightarrow>
        allowed (Transaction req) \<Longrightarrow> I (snd (flat_mem_txn t req f), c) d \<and> (\<forall>j. X j (f, c) (snd (flat_mem_txn t req f), c))"
  shows "protocol I (\<lambda>i. evolved (X i)) G Q allowed n"
  unfolding protocol_def
proof (intro conjI allI impI, goal_cases)
  case (3 i s u v)
  then show ?case using trans by (rule evolved_trans [rotated])
next
  case (4 i f g c c' d)
  with guar [of i f c g c' d] show ?case by (simp add: evolved_def)
next
  case (5 i f g c c' d j)
  with guar [of i f c g c' d] show ?case by (simp add: evolved_def)
next
  case (6 i x f g c c' d)
  with post [of i x f c g c' d] show ?case by (simp add: evolved_def)
next
  case (7 i x f g c c' d j)
  with post [of i x f c g c' d] show ?case by (simp add: evolved_def)
next
  case (8 f t up c d)
  with other(1) [OF 8(1,2) evolves_mem_upsert [OF 8(1)] 8(4,5)] show ?case by simp
next
  case (9 f t up c d j)
  with other(1) [OF 9(1,2) evolves_mem_upsert [OF 9(1)] 9(4,5)] evolves_mem_upsert [OF 9(1)] show ?case by (simp add: evolved_def)
next
  case (10 f t req c d)
  with other(2) [OF 10(1,2) evolves_mem_txn [OF 10(1)] 10(4,5)] show ?case by simp
next
  case (11 f t req c d j)
  with other(2) [OF 11(1,2) evolves_mem_txn [OF 11(1)] 11(4,5)] evolves_mem_txn [OF 11(1)] show ?case by (simp add: evolved_def)
qed (use refl in \<open>auto simp: evolved_def\<close>)

section \<open>Schedules\<close>

text \<open>
  The reference machine serving programs: one request at a given time, and a list of turns, each naming a
  client and a time. Nothing is lost here, so this constructs runs on which properties can be evaluated.
\<close>

fun serve :: "nat \<Rightarrow> ('lid, 'mem) flat \<Rightarrow> 'a prog \<Rightarrow> ('lid, 'mem) flat \<times> 'a prog" where
  "serve t f (Ret x) = (f, Ret x)"
| "serve t f (PUpsert up k) = (case flat_mem_upsert t up f of (ch, g) \<Rightarrow> (g, k (Inr ch)))"
| "serve t f (PTxn req k) = (case flat_mem_txn t req f of (rep, g) \<Rightarrow> (g, k (Inr rep)))"
| "serve t f (PGet keys k) = (f, k (Inr (map Inr (map (flat_item t f) keys))))"
| "serve t f (PList p k) = (f, k (Inr (map Inr (flat_items t f p))))"
| "serve t f (PNow k) = (f, k t)"

fun request :: "'a prog \<Rightarrow> cmd option" where
  "request (PUpsert up k) = Some (CmdUpsertKV up)"
| "request (PTxn req k) = Some (Transaction req)"
| "request _ = None"

fun waiting :: "'a prog \<Rightarrow> bool" where
  "waiting (Ret x) \<longleftrightarrow> False"
| "waiting _ \<longleftrightarrow> True"

lemma ret_serve [api_simps]: "waiting (aret x) = False" "waiting (araise e) = False" "returned i (aret x) = [(i, Inr x)]"
    "returned i (araise e) = [(i, Inl (Raise e))]"
  by (simp_all add: aret_def araise_def)

fun schedule ::
    "(nat \<times> nat) list \<Rightarrow> ('lid, 'mem) flat \<times> 'a prog list \<times> (nat \<times> 'a) list \<Rightarrow>
     (('lid, 'mem) flat \<times> 'a prog list \<times> (nat \<times> 'a) list) option" where
  "schedule [] w = Some w"
| "schedule ((i, t) # turns) (f, ps, d) =
     (if i < length ps \<and> waiting (ps ! i) \<and> t < 2 ^ 64 \<and>
         (case request (ps ! i) of None \<Rightarrow> True | Some c \<Rightarrow> cmd_ok c \<and> sequence (f_sys f) + cmd_seqs c < 2 ^ 64)
      then case serve t f (ps ! i) of (g, p') \<Rightarrow> schedule turns (g, ps[i := p'], d @ returned i p')
      else None)"

section \<open>The contract of \<open>KVApi\<close>\<close>

locale kv_server =
  fixes A :: "'s kvapi" and sim :: "'s \<Rightarrow> ('lid, 'mem) flat \<Rightarrow> bool"
  assumes sim_inv: "sim s f \<Longrightarrow> flat_inv f"
    and ready_law: "sim s f \<Longrightarrow> ka_ready A s t c \<longleftrightarrow> t < 2 ^ 64 \<and> cmd_ok c \<and> sequence (f_sys f) + cmd_seqs c < 2 ^ 64"
    and upsert_law: "sim s f \<Longrightarrow> ka_ready A s t (CmdUpsertKV up) \<Longrightarrow>
      \<exists>s'. ka_upsert A s t up = Inr (fst (flat_mem_upsert t up f), s') \<and> sim s' (snd (flat_mem_upsert t up f))"
    and txn_law: "sim s f \<Longrightarrow> ka_ready A s t (Transaction req) \<Longrightarrow>
      \<exists>s'. ka_transaction A s t req = Inr (fst (flat_mem_txn t req f), s') \<and> sim s' (snd (flat_mem_txn t req f))"
    and get_law: "sim s f \<Longrightarrow> t < 2 ^ 64 \<Longrightarrow> ka_get_stream A s t keys = Inr (map Inr (map (flat_item t f) keys))"
    and list_law: "sim s f \<Longrightarrow> t < 2 ^ 64 \<Longrightarrow> ka_list A s t p = Inr (map Inr (flat_items t f p))"
    and internal_law: "sim s f \<Longrightarrow> ka_internal A s s' \<Longrightarrow> sim s' f"
begin

lemma ready_fits: "sim s f \<Longrightarrow> ka_ready A s t c \<Longrightarrow> fits t c f"
  by (simp add: ready_law fits_def)

text \<open>A step of a client, seen on the reference machine.\<close>

lemma call_step_sim:
  assumes "call_step A s p s' p'" and sim: "sim s f" and "wp R G Q p (f, c) (f, c)" and "R (f, c) (f, c)"
  shows "\<exists>f' c'. sim s' f' \<and> evolves f f' \<and> wp R G Q p' (f, c) (f', c')"
  using assms(1)
proof cases
  case (upsert t up ch k)
  from upsert_law [OF sim upsert(3)] ready_fits [OF sim upsert(3)] upsert(4) assms(3,4) upsert(1,2) evolves_mem_upsert [OF sim_inv [OF sim]] show ?thesis by auto
next
  case (upsert_unknown t up ch k e)
  from upsert_law [OF sim upsert_unknown(3)] ready_fits [OF sim upsert_unknown(3)] upsert_unknown(4) assms(3,4) upsert_unknown(1,2) evolves_mem_upsert [OF sim_inv [OF sim]]
  show ?thesis by auto
next
  case (txn t req rep k)
  from txn_law [OF sim txn(3)] ready_fits [OF sim txn(3)] txn(4) assms(3,4) txn(1,2) evolves_mem_txn [OF sim_inv [OF sim]] show ?thesis by auto
next
  case (txn_unknown t req rep k e)
  from txn_law [OF sim txn_unknown(3)] ready_fits [OF sim txn_unknown(3)] txn_unknown(4) assms(3,4) txn_unknown(1,2) evolves_mem_txn [OF sim_inv [OF sim]]
  show ?thesis by auto
next
  case (get t keys items r k)
  have "(map Inr items :: stream_item res list) = map Inr (map (flat_item t f) keys)" using get_law [OF sim get(4), of keys] get(5) by simp
  then have "items = map (flat_item t f) keys" by (rule iffD1 [OF inj_map_eq_map, rotated]) simp
  with get assms(3,4) sim show ?thesis by (auto intro!: exI [of _ f] exI [of _ c])
next
  case (list t p items r k)
  have "(map Inr items :: stream_item res list) = map Inr (flat_items t f p)" using list_law [OF sim list(4), of p] list(5) by simp
  then have "items = flat_items t f p" by (rule iffD1 [OF inj_map_eq_map, rotated]) simp
  with list assms(3,4) sim show ?thesis by (auto intro!: exI [of _ f] exI [of _ c])
qed (use assms in \<open>auto intro!: exI [of _ f] exI [of _ c]\<close>)

text \<open>
  The rule for interleaved clients. The rely condition of a client contains every step of another client and
  of unknown clients; an invariant \<open>I\<close> of the state and the results returned so far that each step keeps
  holds throughout.
\<close>

lemma kvworld_sound:
  assumes steps: "kvworld_steps A allowed (kvworld_init s0 ps) w" and init: "sim s0 f0" "I (f0, c0) []"
    and progs: "\<And>i. i < length ps \<Longrightarrow> is_call (ps ! i) \<Longrightarrow> wp (R i) (G i) (Q i) (ps ! i) (f0, c0) (f0, c0)"
    and prot: "protocol I R G Q allowed (length ps)"
  shows "\<exists>f c. sim (kw_server w) f \<and> I (f, c) (kw_done w) \<and> length (kw_clients w) = length ps \<and>
      (\<forall>(i, x) \<in> set (kw_done w). i < length ps \<and> kw_clients w ! i = Ret x) \<and>
      (\<forall>i < length ps. is_call (kw_clients w ! i) \<longrightarrow> wp (R i) (G i) (Q i) (kw_clients w ! i) (f, c) (f, c))"
  using steps
proof (induction "kvworld_init s0 ps" w rule: kvworld_steps.induct)
  case start
  show ?case using init progs by (auto simp: kvworld_init_def intro!: exI [of _ f0] exI [of _ c0])
next
  case (step w' w'')
  then obtain f c where f: "sim (kw_server w') f" "I (f, c) (kw_done w')" and len: "length (kw_clients w') = length ps"
    and fin': "\<forall>(i, x) \<in> set (kw_done w'). i < length ps \<and> kw_clients w' ! i = Ret x"
    and run: "\<And>i. i < length ps \<Longrightarrow> is_call (kw_clients w' ! i) \<Longrightarrow> wp (R i) (G i) (Q i) (kw_clients w' ! i) (f, c) (f, c)"
    by blast
  have fin: "\<And>i x. (i, x) \<in> set (kw_done w') \<Longrightarrow> i < length ps \<and> kw_clients w' ! i = Ret x" using fin' by blast
  note refl = protocol_refl [OF prot, THEN conjunct1] protocol_refl [OF prot, THEN conjunct2]
    and trans = protocol_trans [OF prot] and guar = protocol_guar [OF prot] and post = protocol_post [OF prot]
    and other = protocol_other [OF prot]
  have fi: "flat_inv f" by (rule sim_inv [OF f(1)])
  have stable: "wp (R i) (G i) (Q i) (kw_clients w' ! i) (g, c') (g, c')"
    if "i < length ps" "is_call (kw_clients w' ! i)" "R i (f, c) (g, c')" "flat_inv g" "I (g, c') d" for i g c' d
    by (rule wp_stable [OF run [OF that(1,2)] that(2,3) refl(2) [OF that(4,5)] trans])
  from step.hyps(3) show ?case
  proof cases
    case (client i s' p')
    have i: "i < length ps" using client(2) len by simp
    have call: "is_call (kw_clients w' ! i)" using client(3) by (auto simp: is_call_def elim: call_step.cases)
    then have new: "i \<notin> fst ` set (kw_done w')" using fin by (auto simp: is_call_def)
    from call_step_sim [OF client(3) f(1) run [OF i call] refl(1) [OF fi f(2)]] obtain f' c' where
      f': "sim s' f'" "evolves f f'" "wp (R i) (G i) (Q i) p' (f, c) (f', c')"
      by blast
    have gi: "flat_inv f'" by (rule sim_inv [OF f'(1)])
    have *: "I (f', c') (kw_done w' @ returned i p') \<and> (\<forall>j. j \<noteq> i \<longrightarrow> R j (f, c) (f', c'))"
    proof (cases "is_call p'")
      case True
      from guar [OF fi gi f'(2) f(2) wp_guarantee [OF f'(3) True]] True show ?thesis by (cases p') (auto simp: is_call_def)
    next
      case False
      then show ?thesis using f'(3) post [OF fi gi f'(2) f(2) _ new i] by (auto simp: is_call_def)
    qed
    then have I': "I (f', c') (kw_done w' @ returned i p')" by simp
    have "wp (R i) (G i) (Q i) p' (f', c') (f', c')" if "is_call p'"
      by (rule wp_stable [OF f'(3) that refl(1) [OF gi I'] refl(2) [OF gi I'] trans])
    moreover have "wp (R j) (G j) (Q j) (kw_clients w' ! j) (f', c') (f', c')" if "j \<noteq> i" "j < length ps" "is_call (kw_clients w' ! j)" for j
      by (rule stable [OF that(2,3) _ gi I']) (use * that(1) in blast)
    moreover have "\<forall>(j, x) \<in> set (kw_done w' @ returned i p'). j < length ps \<and> (kw_clients w')[i := p'] ! j = Ret x"
      using fin new i len by (cases p') (force simp: nth_list_update)+
    ultimately show ?thesis
      using f'(1) client(1) I' len i by (auto simp: nth_list_update intro!: exI [of _ f'] exI [of _ c'])
  next
    case (other_upsert up t ch s')
    from upsert_law [OF f(1) other_upsert(3)] other_upsert(4) have s': "sim s' (snd (flat_mem_upsert t up f))" by auto
    from other(1) [OF fi ready_fits [OF f(1) other_upsert(3)] sim_inv [OF s'] f(2) other_upsert(2)] s' stable other_upsert(1) sim_inv [OF s'] len fin show ?thesis
      by (auto intro!: exI [of _ "snd (flat_mem_upsert t up f)"] exI [of _ c])
  next
    case (other_txn req t rep s')
    from txn_law [OF f(1) other_txn(3)] other_txn(4) have s': "sim s' (snd (flat_mem_txn t req f))" by auto
    from other(2) [OF fi ready_fits [OF f(1) other_txn(3)] sim_inv [OF s'] f(2) other_txn(2)] s' stable other_txn(1) sim_inv [OF s'] len fin show ?thesis
      by (auto intro!: exI [of _ "snd (flat_mem_txn t req f)"] exI [of _ c])
  next
    case (internal s')
    with internal_law [OF f(1)] f len fin run show ?thesis by (auto intro!: exI [of _ f] exI [of _ c])
  qed
qed

lemma kvworld_inv:
  assumes "kvworld_steps A allowed (kvworld_init s0 ps) w" and "sim s0 f0" and "I (f0, c0) []"
    and "\<And>i. i < length ps \<Longrightarrow> is_call (ps ! i) \<Longrightarrow> wp (R i) (G i) (Q i) (ps ! i) (f0, c0) (f0, c0)"
    and "protocol I R G Q allowed (length ps)"
  obtains f c where "sim (kw_server w) f" and "I (f, c) (kw_done w)"
    and "\<And>i x. (i, x) \<in> set (kw_done w) \<Longrightarrow> i < length ps \<and> kw_clients w ! i = Ret x"
  using kvworld_sound [OF assms] by blast

text \<open>Every schedule is a run of the server.\<close>

lemma serve_step:
  assumes "sim s f" and "waiting p" and "t < 2 ^ 64"
    and "\<And>c. request p = Some c \<Longrightarrow> cmd_ok c \<and> sequence (f_sys f) + cmd_seqs c < 2 ^ 64"
  shows "\<exists>s'. call_step A s p s' (snd (serve t f p)) \<and> sim s' (fst (serve t f p))"
proof (cases p)
  case (PUpsert up k)
  with assms have ready: "ka_ready A s t (CmdUpsertKV up)" by (simp add: ready_law [OF assms(1)])
  from upsert_law [OF assms(1) ready] PUpsert call_step.upsert [OF ready] show ?thesis by (auto simp: case_prod_beta)
next
  case (PTxn req k)
  with assms have ready: "ka_ready A s t (Transaction req)" by (simp add: ready_law [OF assms(1)])
  from txn_law [OF assms(1) ready] PTxn call_step.txn [OF ready] show ?thesis by (auto simp: case_prod_beta)
next
  case (PGet keys k)
  with call_step.get [OF assms(3) get_law [OF assms(1,3)] delivers.whole, of keys k] assms(1) show ?thesis by auto
next
  case (PList p' k)
  with call_step.list [OF assms(3) list_law [OF assms(1,3)] delivers.whole, of p' k] assms(1) show ?thesis by auto
next
  case (PNow k)
  with call_step.clock [of A s k t] assms(1) show ?thesis by auto
qed (use assms(2) in simp)

lemma schedule_run:
  assumes "schedule turns (f, ps, d) = Some (f', ps', d')" and "sim (kw_server w) f" and "kw_clients w = ps" and "kw_done w = d"
  shows "\<exists>w'. kvworld_steps A allowed w w' \<and> sim (kw_server w') f' \<and> kw_clients w' = ps' \<and> kw_done w' = d'"
  using assms
proof (induction turns arbitrary: f ps d w)
  case Nil
  then show ?case using kvworld_steps.start by fastforce
next
  case (Cons turn turns)
  obtain i t where turn: "turn = (i, t)" by force
  let ?p = "snd (serve t f (ps ! i))" and ?f = "fst (serve t f (ps ! i))"
  from Cons.prems(1) have ok: "i < length ps" "waiting (ps ! i)" "t < 2 ^ 64"
    "\<And>c. request (ps ! i) = Some c \<Longrightarrow> cmd_ok c \<and> sequence (f_sys f) + cmd_seqs c < 2 ^ 64"
    and rest: "schedule turns (?f, ps[i := ?p], d @ returned i ?p) = Some (f', ps', d')"
    by (auto simp: turn case_prod_beta split: if_splits)
  obtain s' where s': "call_step A (kw_server w) (kw_clients w ! i) s' ?p" "sim s' ?f"
    using serve_step [OF Cons.prems(2) ok(2,3,4)] Cons.prems(3) by auto
  let ?w = "\<lparr>kw_server = s', kw_clients = (kw_clients w)[i := ?p], kw_done = kw_done w @ returned i ?p\<rparr>"
  have step: "kvworld_step A allowed w ?w" by (rule kvworld_step.client) (use ok(1) s'(1) Cons.prems(3) in auto)
  obtain w' where w': "kvworld_steps A allowed ?w w'" "sim (kw_server w') f'" "kw_clients w' = ps'" "kw_done w' = d'"
    using Cons.IH [OF rest, of ?w] Cons.prems(3,4) s'(2) by auto
  have "kvworld_steps A allowed u v \<Longrightarrow> kvworld_step A allowed w u \<Longrightarrow> kvworld_steps A allowed w v" for u v
    by (induction rule: kvworld_steps.induct) (auto intro: kvworld_steps.intros)
  with w' step show ?case by blast
qed

end

end
