(* ===== verification/ApiLogic.thy ===== *)
theory ApiLogic
  imports KvWorld ApiUtil
begin

text \<open>
  Reasoning about the operations of the meta API under interference: rules of \<open>wp\<close> for the combinators of
  programs, for typed reads, for writes and for conditional transactions, and what the requests do to the
  entries of the reference machine.
\<close>

section \<open>Combinators\<close>

lemma wp_aret [simp]: "wp R G Q (aret x) s s' \<longleftrightarrow> Q (Inr x) s s'"
  and wp_araise [simp]: "wp R G Q (araise e) s s' \<longleftrightarrow> Q (Inl (Raise e)) s s'"
  and wp_apanic [simp]: "wp R G Q (apanic q) s s' \<longleftrightarrow> Q (Inl (Panicked q)) s s'"
  and wp_afault [simp]: "wp R G Q (afault r) s s' \<longleftrightarrow> Q r s s'"
  by (simp_all add: aret_def araise_def apanic_def afault_def)

lemma wp_abind:
  "wp R G Q (abind p h) s s' \<longleftrightarrow>
     wp R G (\<lambda>r u u'. case r of Inl e \<Rightarrow> Q (Inl e) u u' | Inr x \<Rightarrow> wp R G Q (h x) u u') p s s'"
  unfolding abind_def wp_pbind by (rule arg_cong [of _ _ "\<lambda>Q. wp R G Q p s s'"]) (auto simp: fun_eq_iff split: sum.split)

lemma wp_amap_err:
  "wp R G Q (amap_err h p) s s' \<longleftrightarrow>
     wp R G (\<lambda>r u u'. case r of Inl e \<Rightarrow> Q (Inl (map_fault h e)) u u' | Inr x \<Rightarrow> Q (Inr x) u u') p s s'"
  unfolding amap_err_def wp_pbind
  by (rule arg_cong [of _ _ "\<lambda>Q. wp R G Q p s s'"]) (auto simp: fun_eq_iff map_fault_def split: sum.split fault.split)

lemma map_fault_simps [simp]: "map_fault h (Raise e) = Raise (h e)" "map_fault h (Panicked q) = Panicked q"
  by (simp_all add: map_fault_def)

text \<open>A loop of trials, by an invariant \<open>P\<close> of the step that a failed trial ends with.\<close>

lemma wp_txn_loop:
  assumes body: "\<And>s s'. P s s' \<Longrightarrow>
      wp R G (\<lambda>r u u'. case r of Inl e \<Rightarrow> Q (Inl e) u u' | Inr None \<Rightarrow> P u u' | Inr (Some x) \<Rightarrow> Q (Inr x) u u') body s s'"
    and last: "\<And>s s' n. P s s' \<Longrightarrow> Q (Inl (Raise (conv n))) s s'"
    and "P s s'"
  shows "wp R G Q (txn_loop conv body (txn_backoff n)) s s'"
proof -
  have "wp R G Q (txn_loop conv body (map (\<lambda>i. Inr (b i)) xs @ [Inl m])) s s'" if "P s s'" for xs and b :: "nat \<Rightarrow> nat" and m s s'
    using that
  proof (induction xs arbitrary: s s')
    case (Cons x xs)
    show ?case
      by (simp add: wp_abind, rule wp_mono [OF body [OF Cons.prems]]) (auto split: sum.splits option.splits intro: Cons.IH)
  qed (simp add: last)
  with assms(3) show ?thesis by (simp add: txn_backoff_items)
qed

section \<open>Entries\<close>

abbreviation ent :: "('lid, 'mem) flat \<Rightarrow> rstr \<Rightarrow> bytes seqv option" where
  "ent f k \<equiv> btree_get (f_kv f) k"

text \<open>An entry that does not expire.\<close>

definition lasting :: "('lid, 'mem) flat \<Rightarrow> rstr \<Rightarrow> bool" where
  "lasting f k \<longleftrightarrow> (\<forall>v. ent f k = Some v \<longrightarrow> sv_expires v = None)"

lemma flat_clean_ent: "flat_inv f \<Longrightarrow> ent (snd (flat_clean t f)) k = flat_read t f k"
  by (auto simp: flat_clean_def btree_get_filter [OF flat_invD(1)] flat_read_def expired_before_def split: option.splits)

lemma flat_clean_sequence [simp]: "sequence (f_sys (snd (flat_clean t f))) = sequence (f_sys f)"
  by (simp add: flat_clean_def)

lemma flat_read_lasting: "lasting f k \<Longrightarrow> flat_read t f k = ent f k"
  by (auto simp: flat_read_def lasting_def expired_before_def split: option.splits)

lemma flat_read_SomeD: "flat_read t f k = Some v \<Longrightarrow> ent f k = Some v"
  by (auto simp: flat_read_def split: option.splits if_splits)

text \<open>The compare-and-swap argument for a read and a later transaction.\<close>

lemma same_seq_read:
  assumes "evolves f g" and "flat_inv f" and "flat_inv g"
    and "flat_read t f k = Some v" and "opt_seq (flat_read t' g k) = sv_seq v"
  shows "ent g k = Some v"
proof -
  have f: "ent f k = Some v" by (rule flat_read_SomeD [OF assms(4)])
  have "1 \<le> sv_seq v" using flat_invD(3) [OF assms(2) f] by simp
  with assms(5) obtain u where "flat_read t' g k = Some u" by (cases "flat_read t' g k") auto
  with assms(5) have "opt_seq (ent g k) = opt_seq (ent f k)" using f by (simp add: flat_read_SomeD)
  from evolves_same_seq [OF assms(1-3) this] f show ?thesis by simp
qed

section \<open>The keys a request writes\<close>

fun op_writes :: "txn_op \<Rightarrow> rstr \<Rightarrow> bool" where
  "op_writes (Some (ReqPut put)) k \<longleftrightarrow> pr_key put = k"
| "op_writes (Some (ReqDelete del)) k \<longleftrightarrow> dr_key del = k"
| "op_writes (Some (ReqDeleteByPrefix p)) k \<longleftrightarrow> prefix p k"
| "op_writes _ k \<longleftrightarrow> False"

definition txn_writes :: "txn_request \<Rightarrow> rstr \<Rightarrow> bool" where
  "txn_writes req k \<longleftrightarrow>
     list_ex (\<lambda>c. list_ex (\<lambda>x. op_writes x k) (co_operations c)) (tr_operations req) \<or>
     list_ex (\<lambda>x. op_writes x k) (tr_if_then req) \<or> list_ex (\<lambda>x. op_writes x k) (tr_else_then req)"

definition cmd_writes :: "cmd \<Rightarrow> rstr \<Rightarrow> bool" where
  "cmd_writes c k \<longleftrightarrow> (case c of CmdUpsertKV up \<Rightarrow> uk_key up = k | Transaction req \<Rightarrow> txn_writes req k | _ \<Rightarrow> False)"

lemma flat_upsert_other: "k \<noteq> uk_key up \<Longrightarrow> ent (snd (flat_upsert f ctx up)) k = ent f k"
  using flat_upsert_frame(2) [of f ctx up "fst (fst (flat_upsert f ctx up))" "snd (fst (flat_upsert f ctx up))" "snd (flat_upsert f ctx up)" k]
  by simp

lemma flat_op_other: "btree_ok (f_kv f) \<Longrightarrow> \<not> op_writes x k \<Longrightarrow> ent (snd (snd (flat_op ctx x f))) k = ent f k"
proof (induction x k rule: op_writes.induct)
  case (3 p k)
  then show ?case by (auto simp: flat_op_def btree_get_filter split: option.splits)
qed (auto simp: flat_op_def case_prod_beta UpsertKV_update_def UpsertKV_delete_def with_meta_spec_def with_match_seq_def
      split: option.splits intro!: flat_upsert_other)

lemma flat_ops_other:
  "btree_ok (f_kv f) \<Longrightarrow> \<not> list_ex (\<lambda>x. op_writes x k) xs \<Longrightarrow> ent (snd (snd (flat_ops ctx xs f))) k = ent f k"
  by (induction xs arbitrary: f) (simp_all add: case_prod_beta flat_op_other flat_op_btree_ok)

lemma flat_branch_mem: "flat_branch holds i cs = Some (j, ops) \<Longrightarrow> \<exists>c \<in> set cs. ops = co_operations c"
  by (induction cs arbitrary: i) (auto split: if_splits)

lemma mem_upsert_other:
  "flat_inv f \<Longrightarrow> \<not> cmd_writes (CmdUpsertKV up) k \<Longrightarrow> ent (snd (flat_mem_upsert t up f)) k = flat_read t f k"
  using flat_upsert_other [of k up "snd (flat_clean t f)"] flat_clean_ent [of f t k]
  by (auto simp: flat_mem_upsert_def case_prod_beta cmd_writes_def)

lemma mem_txn_other:
  assumes "flat_inv f" and "\<not> cmd_writes (Transaction req) k"
  shows "ent (snd (flat_mem_txn t req f)) k = flat_read t f k"
proof -
  let ?f = "snd (flat_clean t f)"
  have "\<not> list_ex (\<lambda>x. op_writes x k) (snd (flat_choose (flat_cond ?f) req))"
    using assms(2) flat_branch_mem [of "flat_cond ?f" 0 "tr_operations req"]
    by (auto simp: cmd_writes_def txn_writes_def flat_choose_def list_ex_iff split: option.splits)
  from flat_ops_other [OF flat_clean_btree_ok [OF flat_invD(1) [OF assms(1)]] this] flat_clean_ent [OF assms(1)] show ?thesis
    by (simp add: flat_mem_txn_def flat_txn_def case_prod_beta)
qed

section \<open>Conditional transactions\<close>

text \<open>Operations that write without expiration or remove unconditionally, and what a list of them makes of a key.\<close>

fun plain_op :: "txn_op \<Rightarrow> bool" where
  "plain_op (Some (ReqPut put)) \<longleftrightarrow> pr_expire_at put = None \<and> pr_ttl_ms put = None"
| "plain_op (Some (ReqDelete del)) \<longleftrightarrow> dr_match_seq del = None"
| "plain_op (Some (ReqDeleteByPrefix p)) \<longleftrightarrow> False"
| "plain_op _ \<longleftrightarrow> True"

fun op_final :: "txn_op \<Rightarrow> rstr \<Rightarrow> bytes option option" where
  "op_final (Some (ReqPut put)) k = (if pr_key put = k then Some (Some (pr_value put)) else None)"
| "op_final (Some (ReqDelete del)) k = (if dr_key del = k then Some None else None)"
| "op_final _ k = None"

fun ops_final :: "txn_op list \<Rightarrow> rstr \<Rightarrow> bytes option option" where
  "ops_final [] k = None"
| "ops_final (x # xs) k = (case ops_final xs k of None \<Rightarrow> op_final x k | Some r \<Rightarrow> Some r)"

text \<open>What has become of an entry: unchanged, removed, or new with the given data.\<close>

fun becomes :: "bytes option option \<Rightarrow> nat \<Rightarrow> bytes seqv option \<Rightarrow> bytes seqv option \<Rightarrow> bool" where
  "becomes None n v v' \<longleftrightarrow> v' = v"
| "becomes (Some None) n v v' \<longleftrightarrow> v' = None"
| "becomes (Some (Some b)) n v v' \<longleftrightarrow> (\<exists>u. v' = Some u \<and> sv_data u = b \<and> sv_expires u = None \<and> n < sv_seq u)"

lemma flat_put_lasting:
  assumes "meta_expires_at_ms_opt meta = None" and "f_cursor f \<le> u64_max"
  shows "flat_put f key v meta =
    (Some (SeqV_with_meta (sequence (f_sys f) + 1) meta v),
     f\<lparr>f_sys := (f_sys f)\<lparr>sequence := sequence (f_sys f) + 1\<rparr>,
       f_kv := btree_insert key (SeqV_with_meta (sequence (f_sys f) + 1) meta v) (f_kv f)\<rparr>)"
  using assms by (simp add: flat_put_def opt_expires_at_ms_eq Let_def)

lemma no_expiration: "meta_expires_at_ms_opt (Some (to_kv_meta (MetaSpec_new None None) ctx)) = None" "meta_expires_at_ms_opt None = None"
  "get_expire_at_ms (to_kv_meta (MetaSpec_new None None) ctx) = None"
  by (simp_all add: to_kv_meta_def MetaSpec_new_def KVMeta_new_def meta_expires_at_ms_opt_def get_expire_at_ms_def)

text \<open>What the writes of a transaction rely on, and keep.\<close>

definition writable_ok :: "('lid, 'mem) flat \<Rightarrow> bool" where
  "writable_ok f \<longleftrightarrow> f_cursor f \<le> u64_max \<and> (\<forall>k v. ent f k = Some v \<longrightarrow> 0 < sv_seq v)"

lemma writable_ok_clean:
  assumes "flat_inv f" and "t < 2 ^ 64"
  shows "writable_ok (snd (flat_clean t f))"
proof -
  have "0 < sv_seq v" if "flat_read t f k = Some v" for k v
    using flat_invD(3) [OF assms(1) flat_read_SomeD [OF that]] by simp
  moreover have "f_cursor (snd (flat_clean t f)) \<le> u64_max"
    using flat_invD(2) [OF assms(1)] assms(2) by (simp add: flat_clean_def u64_max_def)
  ultimately show ?thesis by (simp add: writable_ok_def flat_clean_ent [OF assms(1)])
qed

lemma flat_op_final:
  assumes "plain_op x" and "writable_ok f"
  shows "becomes (op_final x k) (sequence (f_sys f)) (ent f k) (ent (snd (snd (flat_op ctx x f))) k)"
    and "writable_ok (snd (snd (flat_op ctx x f)))"
    and "sequence (f_sys f) \<le> sequence (f_sys (snd (snd (flat_op ctx x f))))"
proof -
  have gone: "ent f k' = None" if "\<not> Suc 0 \<le> opt_seq (ent f k')" for k'
    using assms(2) that by (cases "ent f k'") (auto simp: writable_ok_def Suc_le_eq)
  note simps = flat_op_def case_prod_beta UpsertKV_update_def UpsertKV_delete_def with_meta_spec_def flat_upsert_def
    seq_matches_def Let_def flat_put_lasting [OF no_expiration(1)] no_expiration SeqV_with_meta_def sv_expires_def writable_ok_def gone
  show "becomes (op_final x k) (sequence (f_sys f)) (ent f k) (ent (snd (snd (flat_op ctx x f))) k)"
    "writable_ok (snd (snd (flat_op ctx x f)))" "sequence (f_sys f) \<le> sequence (f_sys (snd (snd (flat_op ctx x f))))"
    using assms by (induction x rule: plain_op.induct) (auto simp: simps split: option.split if_splits)
qed

lemma becomes_trans:
  assumes "becomes r n v v'" and "becomes r' n' v' v''" and "n \<le> n'"
  shows "becomes (case r' of None \<Rightarrow> r | Some x \<Rightarrow> Some x) n v v''"
  using assms by (cases r'; cases "the r'") auto

lemma flat_ops_final:
  assumes "list_all plain_op xs" and "writable_ok f"
  shows "becomes (ops_final xs k) (sequence (f_sys f)) (ent f k) (ent (snd (snd (flat_ops ctx xs f))) k)"
  using assms
proof (induction xs arbitrary: f)
  case (Cons x xs)
  then have x: "plain_op x" and xs: "list_all plain_op xs" by simp_all
  note x = flat_op_final [OF x Cons.prems(2), where ctx = ctx]
  from becomes_trans [OF x(1) [of k] Cons.IH [OF xs x(2)] x(3)] show ?case by (simp add: case_prod_beta)
qed simp

text \<open>Transactions with conditions and operations of the first kind of request.\<close>

definition simple_txn :: "txn_request \<Rightarrow> bool" where
  "simple_txn req \<longleftrightarrow> tr_operations req = [] \<and> tr_else_then req = [] \<and> list_all plain_op (tr_if_then req)"

definition txn_holds :: "nat \<Rightarrow> txn_request \<Rightarrow> ('lid, 'mem) flat \<Rightarrow> bool" where
  "txn_holds t req f \<longleftrightarrow> list_all (flat_cond (snd (flat_clean t f))) (tr_condition req)"

lemma flat_cond_eq_seq [simp]: "flat_cond f (cond_eq_seq k n) \<longleftrightarrow> opt_seq (ent f k) = n"
  by (simp add: flat_cond_def cond_eq_seq_def cond_match_seq_def eval_compare_def condition_result_from_i32_def)

lemma mem_txn_simple:
  assumes "simple_txn req"
  shows "rep_success (fst (flat_mem_txn t req f)) \<longleftrightarrow> txn_holds t req f"
    and "rep_error (fst (flat_mem_txn t req f)) = []"
    and "flat_inv f \<Longrightarrow> t < 2 ^ 64 \<Longrightarrow> becomes (if txn_holds t req f then ops_final (tr_if_then req) k else None) (sequence (f_sys f))
      (flat_read t f k) (ent (snd (flat_mem_txn t req f)) k)"
proof -
  let ?f = "snd (flat_clean t f)" and ?ops = "if txn_holds t req f then tr_if_then req else []"
  have choose: "flat_choose (flat_cond ?f) req = (if txn_holds t req f then str ''then'' else str ''else'', ?ops)"
    using assms by (simp add: flat_choose_def simple_txn_def txn_holds_def)
  have ne: "str ''then'' \<noteq> str ''else''" by (simp add: str_def)
  show "rep_success (fst (flat_mem_txn t req f)) \<longleftrightarrow> txn_holds t req f" "rep_error (fst (flat_mem_txn t req f)) = []"
    using ne by (simp_all add: flat_mem_txn_def flat_txn_def choose case_prod_beta TxnReply_new_def)
  show "becomes (if txn_holds t req f then ops_final (tr_if_then req) k else None) (sequence (f_sys f))
      (flat_read t f k) (ent (snd (flat_mem_txn t req f)) k)" if inv: "flat_inv f" "t < 2 ^ 64"
  proof -
    have "list_all plain_op ?ops" using assms by (simp add: simple_txn_def)
    from flat_ops_final [OF this writable_ok_clean [OF inv], of k "CmdContext_from_millis t"] show ?thesis
      by (cases "txn_holds t req f") (simp_all add: flat_mem_txn_def flat_txn_def choose case_prod_beta flat_clean_ent [OF inv(1)])
  qed
qed

text \<open>The most common transaction: write a key if its sequence number is the expected one.\<close>

definition cas_txn :: "rstr \<Rightarrow> nat \<Rightarrow> bytes \<Rightarrow> txn_request" where
  "cas_txn key n buf = TxnRequest_new [cond_eq_seq key n] [TxnOp_put_with_ttl key buf None]"

lemma cas_txn_push: "push_then (TxnOp_put_with_ttl key buf None) (push_condition (cond_eq_seq key n) TxnRequest_default) = cas_txn key n buf"
  by (simp add: cas_txn_def push_then_def push_condition_def TxnRequest_default_def TxnRequest_new_def)

lemma cas_txn_simple: "simple_txn (cas_txn key n buf)"
  by (simp add: cas_txn_def simple_txn_def TxnRequest_new_def TxnOp_put_with_ttl_def)

lemma cas_txn_effect:
  assumes "flat_inv f" and "t < 2 ^ 64"
  shows "txn_holds t (cas_txn key n buf) f \<longleftrightarrow> opt_seq (flat_read t f key) = n"
    and "k \<noteq> key \<or> opt_seq (flat_read t f key) \<noteq> n \<Longrightarrow> ent (snd (flat_mem_txn t (cas_txn key n buf) f)) k = flat_read t f k"
    and "opt_seq (flat_read t f key) = n \<Longrightarrow> \<exists>u. ent (snd (flat_mem_txn t (cas_txn key n buf) f)) key = Some u \<and> sv_data u = buf \<and>
      sv_expires u = None \<and> sequence (f_sys f) < sv_seq u"
proof -
  show holds: "txn_holds t (cas_txn key n buf) f \<longleftrightarrow> opt_seq (flat_read t f key) = n"
    by (simp add: txn_holds_def cas_txn_def TxnRequest_new_def flat_clean_ent [OF assms(1)])
  have final: "ops_final (tr_if_then (cas_txn key n buf)) k = (if k = key then Some (Some buf) else None)" for k
    by (simp add: cas_txn_def TxnRequest_new_def TxnOp_put_with_ttl_def)
  note txn = mem_txn_simple(3) [OF cas_txn_simple assms, of key n buf, unfolded holds final]
  show "k \<noteq> key \<or> opt_seq (flat_read t f key) \<noteq> n \<Longrightarrow> ent (snd (flat_mem_txn t (cas_txn key n buf) f)) k = flat_read t f k"
    using txn [of k] by (auto split: if_splits)
  show "opt_seq (flat_read t f key) = n \<Longrightarrow> \<exists>u. ent (snd (flat_mem_txn t (cas_txn key n buf) f)) key = Some u \<and> sv_data u = buf \<and>
      sv_expires u = None \<and> sequence (f_sys f) < sv_seq u"
    using txn [of key] by simp
qed

text \<open>The same as an upsert.\<close>

lemma cas_upsert_effect:
  assumes "flat_inv f" and "t < 2 ^ 64"
    and "flat_mem_upsert t \<lparr>uk_key = key, uk_seq = Exact n, uk_value = Update buf, uk_value_meta = None\<rparr> f = (ch, g)"
  shows "ch_prev ch = flat_read t f key" and "ch_result ch = ent g key"
    and "k \<noteq> key \<or> opt_seq (flat_read t f key) \<noteq> n \<Longrightarrow> ent g k = flat_read t f k"
    and "opt_seq (flat_read t f key) = n \<Longrightarrow> \<exists>u. ent g key = Some u \<and> sv_data u = buf \<and> sv_expires u = None \<and> sequence (f_sys f) < sv_seq u"
proof -
  have "f_cursor (snd (flat_clean t f)) \<le> u64_max" using writable_ok_clean [OF assms(1,2)] by (simp add: writable_ok_def)
  note * = assms(3) [symmetric] flat_put_lasting [OF no_expiration(2) this] flat_clean_ent [OF assms(1)]
  show "ch_prev ch = flat_read t f key" "ch_result ch = ent g key"
    "k \<noteq> key \<or> opt_seq (flat_read t f key) \<noteq> n \<Longrightarrow> ent g k = flat_read t f k"
    "opt_seq (flat_read t f key) = n \<Longrightarrow> \<exists>u. ent g key = Some u \<and> sv_data u = buf \<and> sv_expires u = None \<and> sequence (f_sys f) < sv_seq u"
    using * no_expiration(2)
    by (auto simp: flat_mem_upsert_def flat_upsert_def seq_matches_def Let_def Change_new_def SeqV_with_meta_def sv_expires_def split: if_splits)
qed

section \<open>Requests\<close>

definition wire :: "bytes seqv \<Rightarrow> bytes seqv" where
  "wire v = seqv_from_pb (seqv_to_pb v)"

lemma wire_simps [simp]: "sv_seq (wire v) = sv_seq v" "sv_data (wire v) = sv_data v"
  by (simp_all add: wire_def seqv_from_pb_def seqv_to_pb_def)

lemma wp_aresult [simp]: "wp R G Q (aresult r) s s' \<longleftrightarrow> Q (case r of Inl e \<Rightarrow> Inl (Raise e) | Inr x \<Rightarrow> Inr x) s s'"
  by (simp add: aresult_def split: sum.split)

lemma wp_kv_get_stream:
  assumes "G s s'" and "\<And>f c t r. R s' (f, c) \<Longrightarrow> t < 2 ^ 64 \<Longrightarrow> delivers (map (flat_item t f) keys) r \<Longrightarrow>
      Q (case r of Inl e \<Rightarrow> Inl (Raise e) | Inr x \<Rightarrow> Inr x) (f, c) (f, c)"
  shows "wp R G Q (kv_get_stream keys) s s'"
  using assms by (simp add: kv_get_stream_def)

lemma wp_kv_get:
  assumes "G s s'" and "\<And>f c e. R s' (f, c) \<Longrightarrow> Q (Inl (Raise e)) (f, c) (f, c)"
    and "\<And>f c t. R s' (f, c) \<Longrightarrow> t < 2 ^ 64 \<Longrightarrow> Q (Inr (map_option wire (flat_read t f key))) (f, c) (f, c)"
  shows "wp R G Q (kv_get key) s s'"
  unfolding kv_get_def wp_abind
proof (rule wp_kv_get_stream, goal_cases)
  case (2 f c t r)
  have wire: "wire = (\<lambda>x. seqv_from_pb (seqv_to_pb x))" by (simp add: wire_def fun_eq_iff)
  from 2(3) assms(2) [OF 2(1)] assms(3) [OF 2(1,2)] show ?case
    by (auto simp: delivers_simps flat_item_def option.map_comp comp_def wire take_Cons' split: if_splits)
qed (rule assms(1))

lemma wp_get_pb:
  assumes "pk_string K k = Inr key" and "G s s'" and "\<And>f c e. R s' (f, c) \<Longrightarrow> Q (Inl (Raise e)) (f, c) (f, c)"
    and "\<And>f c t. R s' (f, c) \<Longrightarrow> t < 2 ^ 64 \<Longrightarrow> flat_read t f key = None \<Longrightarrow> Q (Inr None) (f, c) (f, c)"
    and "\<And>f c t v x m. R s' (f, c) \<Longrightarrow> t < 2 ^ 64 \<Longrightarrow> flat_read t f key = Some v \<Longrightarrow> pb_decode (pk_value K) (sv_data v) = Inr x \<Longrightarrow>
      Q (Inr (Some \<lparr>sv_seq = sv_seq v, sv_meta = m, sv_data = x\<rparr>)) (f, c) (f, c)"
  shows "wp R G Q (get_pb K k) s s'"
  unfolding get_pb_def get_pb_low_def wp_amap_err wp_abind assms(1) apure_simps wp_aret sum.case
proof (rule wp_kv_get, goal_cases)
  case (3 f c t)
  then show ?case
    using assms(3) [OF 3(1)] assms(4,5) [OF 3]
    by (cases "flat_read t f key"; cases "pb_decode (pk_value K) (sv_data (the (flat_read t f key)))")
       (simp_all add: wp_amap_err decode_opt_def decode_seqv_def SeqV_with_meta_def)
qed (simp_all add: assms(2,3))

lemma wp_kv_upsert:
  assumes "G s s'" and "\<And>f c e. R s' (f, c) \<Longrightarrow> Q (Inl (Raise e)) (f, c) (f, c)"
    and "\<And>f c t. R s' (f, c) \<Longrightarrow> fits t (CmdUpsertKV up) f \<Longrightarrow>
      \<exists>c'. Q (Inr (fst (flat_mem_upsert t up f))) (f, c) (snd (flat_mem_upsert t up f), c') \<and>
        (\<forall>e. Q (Inl (Raise e)) (f, c) (snd (flat_mem_upsert t up f), c'))"
  shows "wp R G Q (kv_upsert up) s s'"
  using assms(1,2) assms(3) by (simp add: kv_upsert_def) blast

lemma wp_upsert_pb:
  assumes "pk_string K (up_key req) = Inr key" and "encode_operation (pk_value K) (up_value req) = Inr v"
    and "G s s'" and "\<And>f c e. R s' (f, c) \<Longrightarrow> Q (Inl (Raise e)) (f, c) (f, c)"
    and "\<And>f c t ch g. R s' (f, c) \<Longrightarrow>
      fits t (CmdUpsertKV \<lparr>uk_key = key, uk_seq = up_seq req, uk_value = v, uk_value_meta = up_value_meta req\<rparr>) f \<Longrightarrow>
      flat_mem_upsert t \<lparr>uk_key = key, uk_seq = up_seq req, uk_value = v, uk_value_meta = up_value_meta req\<rparr> f = (ch, g) \<Longrightarrow>
      \<exists>c'. (\<forall>x. decode_transition (pk_value K) ch = Inr x \<longrightarrow> Q (Inr x) (f, c) (g, c')) \<and> (\<forall>e. Q (Inl (Raise e)) (f, c) (g, c'))"
  shows "wp R G Q (upsert_pb K req) s s'"
  unfolding upsert_pb_def upsert_pb_low_def wp_amap_err wp_abind assms(1,2) apure_simps wp_aret wp_afault sum.case Let_def
proof (rule wp_kv_upsert, goal_cases)
  case (3 f c t)
  let ?u = "flat_mem_upsert t \<lparr>uk_key = key, uk_seq = up_seq req, uk_value = v, uk_value_meta = up_value_meta req\<rparr> f"
  obtain c' where "(\<forall>x. decode_transition (pk_value K) (fst ?u) = Inr x \<longrightarrow> Q (Inr x) (f, c) (snd ?u, c')) \<and>
      (\<forall>e. Q (Inl (Raise e)) (f, c) (snd ?u, c'))"
    using assms(5) [OF 3, of "fst ?u" "snd ?u"] by auto
  then show ?case by (auto intro!: exI [of _ c'] simp: wp_amap_err aresult_def split: sum.split)
qed (simp_all add: assms(3,4))

lemma wp_kv_transaction:
  assumes "G s s'" and "\<And>f c e. R s' (f, c) \<Longrightarrow> Q (Inl (Raise e)) (f, c) (f, c)"
    and "\<And>f c t. R s' (f, c) \<Longrightarrow> fits t (Transaction req) f \<Longrightarrow>
      \<exists>c'. Q (Inr (fst (flat_mem_txn t req f))) (f, c) (snd (flat_mem_txn t req f), c') \<and>
        (\<forall>e. Q (Inl (Raise e)) (f, c) (snd (flat_mem_txn t req f), c'))"
  shows "wp R G Q (kv_transaction req) s s'"
  using assms(1,2) assms(3) by (simp add: kv_transaction_def) blast

lemma wp_send_txn:
  assumes "simple_txn req" and "G s s'" and "\<And>f c e. R s' (f, c) \<Longrightarrow> Q (Inl (Raise e)) (f, c) (f, c)"
    and "\<And>f c t. R s' (f, c) \<Longrightarrow> fits t (Transaction req) f \<Longrightarrow>
      \<exists>c'. (\<forall>rs. Q (Inr (txn_holds t req f, rs)) (f, c) (snd (flat_mem_txn t req f), c')) \<and>
        (\<forall>e. Q (Inl (Raise e)) (f, c) (snd (flat_mem_txn t req f), c'))"
  shows "wp R G Q (send_txn J req) s s'"
  unfolding send_txn_def wp_abind
proof (rule wp_kv_transaction, goal_cases)
  case (3 f c t)
  from assms(4) [OF 3] show ?case
    by (simp add: wp_amap_err txn_reply_to_api_result_def mem_txn_simple(1,2) [OF assms(1)]) blast
qed (simp_all add: assms(2,3))

lemma wp_now:
  assumes "G s s'" and "\<And>f c n. R s' (f, c) \<Longrightarrow> Q (Inr n) (f, c) (f, c)"
  shows "wp R G Q now_utc s s'"
  using assms by (simp add: now_utc_def)

lemma wp_txn_op_put_pb:
  assumes "pk_string K k = Inr key" and "\<And>e. Q (Inl (Raise e)) s s'"
    and "\<And>buf. pb_encode (pk_value K) v = Inr buf \<Longrightarrow> Q (Inr (TxnOp_put_with_ttl key buf ttl)) s s'"
  shows "wp R G Q (txn_op_put_pb conv K k v ttl) s s'"
  using assms by (simp add: txn_op_put_pb_def split: sum.split)

section \<open>Evaluation\<close>

text \<open>Definitions that evaluate schedules on the reference machine.\<close>

lemmas serve_eval = flat_mem_upsert_def flat_mem_txn_def flat_clean_def sys_data_default_def flat_upsert_def flat_put_def
  flat_txn_def flat_choose_def flat_op_def flat_cond_def flat_item_def flat_read_def TxnReply_new_def
  cond_eq_seq_def cond_match_seq_def condition_result_from_i32_def eval_compare_def TxnOp_put_with_ttl_def TxnOp_delete_def TxnOp_delete_exact_def
  TxnRequest_new_def UpsertKV_update_def UpsertKV_delete_def with_meta_spec_def MetaSpec_new_def TxnOpResponse_put_def TxnOpResponse_delete_def
  seq_matches_def to_kv_meta_def KVMeta_new_def Let_def flat_expired_def expired_before_def sv_expires_def SeqV_with_meta_def
  meta_expires_at_ms_opt_def opt_expires_at_ms_eq get_expire_at_ms_def u64_mul_def u64_max_def btree_get_def Change_new_def change_events_def is_changed_def
  seqv_to_pb_def seqv_from_pb_def kv_meta_to_pb_def kv_meta_from_pb_def
  cmd_ok_def txn_ok_def cond_ok_def op_ok_def cmd_seqs_def upsert_seqs_def ops_seqs_def op_seqs_def

end
