(* ===== verification/KvServers.thy ===== *)
theory KvServers
  imports KvWorld Replica
begin

text \<open>
  The two servers of the key-value interface: \<open>MemMeta\<close> (\<open>mem_meta.rs\<close>) and \<open>MetaNode\<close>
  (\<open>src/meta/service/src/meta_service/meta_node_kv_api_impl.rs\<close> and \<open>meta_leader.rs\<close>). Both satisfy the contract
  \<open>kv_server\<close>.

  A \<open>MetaNode\<close> is modelled as the leader that has applied its log: a write is stamped with the time, appended to
  the log and answered when it is applied, a read is served by the state machine. Replication of the log by
  the Raft implementation is not modelled. Between requests the node freezes, compacts and replaces its
  store as \<open>replica_step\<close> says.
\<close>

section \<open>\<open>MemMeta\<close>\<close>

definition mem_ready :: "('lid, 'mem) mem_state_machine \<Rightarrow> nat \<Rightarrow> cmd \<Rightarrow> bool" where
  "mem_ready s t c \<longleftrightarrow> t < 2 ^ 64 \<and> cmd_ok c \<and> sequence (mo_sys level_ops (sm_map s)) + cmd_seqs c < 2 ^ 64"

definition mem_api :: "('lid, 'mem) mem_state_machine kvapi" where
  "mem_api =
     \<lparr>ka_upsert = mem_upsert_kv, ka_get_stream = mem_get_kv_stream, ka_list = mem_list_kv,
      ka_transaction = mem_transaction, ka_ready = mem_ready, ka_internal = (\<lambda>_ _. False)\<rparr>"

interpretation mem_server: kv_server mem_api mem_sim
proof
  fix s s' :: "('a, 'b) mem_state_machine" and f t up req keys p
  assume sim: "mem_sim s f"
  have sys: "mo_sys level_ops (sm_map s) = f_sys f" using sim by (simp add: sm_sim_def)
  show "flat_inv f" using sim by (simp add: sm_sim_def)
  show "ka_ready mem_api s t c \<longleftrightarrow> t < 2 ^ 64 \<and> cmd_ok c \<and> sequence (f_sys f) + cmd_seqs c < 2 ^ 64" for c
    by (simp add: mem_api_def mem_ready_def sys)
  show "\<exists>s'. ka_upsert mem_api s t up = Inr (fst (flat_mem_upsert t up f), s') \<and> mem_sim s' (snd (flat_mem_upsert t up f))"
    if "ka_ready mem_api s t (CmdUpsertKV up)"
    using mem_upsert_sim [OF sim] that sys by (simp add: mem_api_def mem_ready_def cmd_ok_def cmd_seqs_def)
  show "\<exists>s'. ka_transaction mem_api s t req = Inr (fst (flat_mem_txn t req f), s') \<and> mem_sim s' (snd (flat_mem_txn t req f))"
    if "ka_ready mem_api s t (Transaction req)"
    using mem_transaction_sim [OF sim] that sys by (simp add: mem_api_def mem_ready_def cmd_ok_def)
  show "ka_get_stream mem_api s t keys = Inr (map Inr (map (flat_item t f) keys))" if "t < 2 ^ 64"
    using single_level.get_kv_stream_sim [OF sim that, of keys] by (simp add: mem_api_def mem_get_kv_stream_def)
  show "ka_list mem_api s t p = Inr (map Inr (flat_items t f p))" if "t < 2 ^ 64"
    using single_level.api_list_kv_sim [OF sim that, of p] by (simp add: mem_api_def mem_list_kv_def)
  show "ka_internal mem_api s s' \<Longrightarrow> mem_sim s' f" by (simp add: mem_api_def)
qed

section \<open>\<open>MetaNode\<close>\<close>

definition leader_write ::
    "env \<Rightarrow> (nat, 'mem) replica \<Rightarrow> nat \<Rightarrow> cmd \<Rightarrow> (applied_state \<times> (nat, 'mem) replica) res" where
  "leader_write E r now c =
     (let entry = write_entry (length (rp_log r) + 1) now c
      in rbind (apply_entries (lm_ops E) (rp_sm r) [entry]) (\<lambda>(sts, s).
           case sts of
             [st] \<Rightarrow> Inr (st, r\<lparr>rp_sm := s, rp_log := rp_log r @ [entry], rp_replies := rp_replies r @ sts\<rparr>)
           | _ \<Rightarrow> Inl (Panic UnreachableCode)))"

definition node_upsert_kv ::
    "env \<Rightarrow> (nat, 'mem) replica \<Rightarrow> nat \<Rightarrow> upsert_kv \<Rightarrow> (bytes change \<times> (nat, 'mem) replica) res" where
  "node_upsert_kv E r now act =
     rbind (leader_write E r now (CmdUpsertKV act)) (\<lambda>(rst, r).
       case rst of StateKV x \<Rightarrow> Inr (x, r) | _ \<Rightarrow> Inl (Panic UnreachableCode))"

definition node_transaction ::
    "env \<Rightarrow> (nat, 'mem) replica \<Rightarrow> nat \<Rightarrow> txn_request \<Rightarrow> (txn_reply \<times> (nat, 'mem) replica) res" where
  "node_transaction E r now txn =
     rbind (leader_write E r now (Transaction txn)) (\<lambda>(rst, r).
       case rst of StateTxnReply x \<Rightarrow> Inr (x, r) | _ \<Rightarrow> Inl (Panic UnreachableCode))"

text \<open>Reads: \<open>mget_kv\<close> on the state machine, unwrapped, and its values paired with the keys again by the leader.\<close>

definition leader_mget_kv :: "env \<Rightarrow> (nat, 'mem) replica \<Rightarrow> nat \<Rightarrow> rstr list \<Rightarrow> bytes seqv option list res" where
  "leader_mget_kv E r now keys =
     (case rbind (get_kv_stream (lm_ops E) (rp_sm r) now keys) try_collect of
        Inl _ \<Rightarrow> Inl (Panic UnwrapNone)
      | Inr items \<Rightarrow>
          (let seq_values = map (\<lambda>item. map_option seqv_from_pb (si_value item)) items
           in if length seq_values \<noteq> length keys then Inl (Panic UnwrapNone) else Inr seq_values))"

definition node_get_kv_stream :: "env \<Rightarrow> (nat, 'mem) replica \<Rightarrow> nat \<Rightarrow> rstr list \<Rightarrow> stream_item res list res" where
  "node_get_kv_stream E r now keys =
     rbind (leader_mget_kv E r now keys) (\<lambda>values. Inr (map (\<lambda>kv. Inr (StreamItem_from_opt kv)) (zip keys values)))"

definition node_list_kv :: "env \<Rightarrow> (nat, 'mem) replica \<Rightarrow> nat \<Rightarrow> rstr \<Rightarrow> stream_item res list res" where
  "node_list_kv E r now p = api_list_kv (lm_ops E) (rp_sm r) now p"

definition node_ready :: "(nat, 'mem) replica \<Rightarrow> nat \<Rightarrow> cmd \<Rightarrow> bool" where
  "node_ready r t c \<longleftrightarrow>
     t < 2 ^ 64 \<and> cmd_ok c \<and> sequence (lv_sys_data (writable (sm_map (rp_sm r)))) + cmd_seqs c < 2 ^ 64"

inductive node_maintain :: "env \<Rightarrow> (nat, 'mem) replica \<Rightarrow> (nat, 'mem) replica \<Rightarrow> bool" for E where
  "maintain E (replica_world r) w \<Longrightarrow>
   node_maintain E r (r\<lparr>rp_sm := (rp_sm r)\<lparr>sm_map := w_map w\<rparr>, rp_compactors := w_compactors w\<rparr>)"

definition node_api :: "env \<Rightarrow> (nat, 'mem) replica kvapi" where
  "node_api E =
     \<lparr>ka_upsert = node_upsert_kv E, ka_get_stream = node_get_kv_stream E, ka_list = node_list_kv E,
      ka_transaction = node_transaction E, ka_ready = node_ready, ka_internal = node_maintain E\<rparr>"

text \<open>A node stands for the reference machine that ran its log, up to the position in the log.\<close>

definition node_sim :: "env \<Rightarrow> (nat, 'mem) replica \<Rightarrow> (nat, 'mem) flat \<Rightarrow> bool" where
  "node_sim E r f \<longleftrightarrow> flat_inv f \<and>
     (\<exists>mem0 sub evs g. replica_inv E mem0 sub r \<and> flat_run (rp_log r) (flat_init mem0) = (rp_replies r, evs, g) \<and> same_kv f g)"

lemma node_sim_flat:
  assumes "node_sim E r f"
  obtains mem0 sub evs g where "replica_inv E mem0 sub r" and "flat_run (rp_log r) (flat_init mem0) = (rp_replies r, evs, g)"
    and "same_kv f g" and "sm_sim (lm_ops E) (lm_inv E) (lm_kv_view E) (lm_expire_view E) (rp_sm r) g"
  using assms by (auto simp: node_sim_def replica_inv_def)

lemma same_kv_inv: "same_kv f g \<Longrightarrow> flat_inv g \<Longrightarrow> flat_inv f"
  by (simp add: same_kv_def flat_inv_def)

lemma leader_write_sim:
  fixes r :: "(nat, 'mem) replica"
  assumes sim: "node_sim E r f" and ready: "node_ready r t c"
  obtains g :: "(nat, 'mem) flat" and r' where "same_kv f g"
    and "leader_write E r t c = Inr (fst (flat_apply (write_entry (length (rp_log r) + 1) t c) g), r')"
    and "\<And>f'. same_kv f' (snd (snd (flat_apply (write_entry (length (rp_log r) + 1) t c) g))) \<Longrightarrow> node_sim E r' f'"
proof -
  obtain mem0 sub evs g where r: "replica_inv E mem0 sub r" "flat_run (rp_log r) (flat_init mem0) = (rp_replies r, evs, g)"
    "same_kv f g" "sm_sim (lm_ops E) (lm_inv E) (lm_kv_view E) (lm_expire_view E) (rp_sm r) g"
    by (rule node_sim_flat [OF sim])
  define entry :: "(nat, 'mem) entry" where "entry = write_entry (length (rp_log r) + 1) t c"
  obtain st evs' g' where app: "flat_apply entry g = (st, evs', g')" by (metis prod.exhaust)
  have sys: "f_sys g = lv_sys_data (writable (sm_map (rp_sm r)))" using r(4) by (simp add: sm_sim_def lm_ops_def)
  have ok: "list_all entry_ok [entry]" "sequence (lv_sys_data (writable (sm_map (rp_sm r)))) + sum_list (map entry_seqs [entry]) < 2 ^ 64"
    using ready by (simp_all add: node_ready_def entry_def write_entry_def entry_ok_def entry_seqs_def get_log_time_def)
  then have "run_ok [entry] g" by (simp add: run_ok_def sys)
  from leveled.apply_entries_sim [OF r(4) this, of "[st]" evs' g'] app obtain s where
    s: "apply_entries (lm_ops E) (rp_sm r) [entry] = Inr ([st], s)" "sm_sim (lm_ops E) (lm_inv E) (lm_kv_view E) (lm_expire_view E) s g'"
    by auto
  define r' where "r' = r\<lparr>rp_sm := s, rp_log := rp_log r @ [entry], rp_replies := rp_replies r @ [st]\<rparr>"
  have inv: "replica_inv E mem0 sub r'" unfolding r'_def by (rule replica_inv_apply [OF r(1) s(1) ok])
  have run: "flat_run (rp_log r') (flat_init mem0) = (rp_replies r', evs @ evs', g')"
    using r(2) app by (simp add: r'_def flat_run_append)
  have "node_sim E r' f'" if "same_kv f' g'" for f'
    using that inv run same_kv_inv [OF that] s(2) by (auto simp: node_sim_def sm_sim_def)
  moreover have "leader_write E r t c = Inr (st, r')" using s(1) by (simp add: leader_write_def Let_def r'_def entry_def)
  ultimately show thesis using that [of g r'] r(3) app unfolding entry_def by simp
qed

lemma seqv_to_pb_again: "seqv_to_pb (seqv_from_pb (seqv_to_pb v)) = seqv_to_pb v"
proof -
  have *: "(n mod 2 ^ 64 div 1000 * 1000) mod 2 ^ 64 = n mod 2 ^ 64 div 1000 * 1000" for n :: nat
    by (rule mod_less) (metis div_times_less_eq_dividend le_less_trans mod_less_divisor zero_less_numeral zero_less_power)
  have "kv_meta_to_pb (kv_meta_from_pb (kv_meta_to_pb m)) = kv_meta_to_pb m" for m
    by (cases "km_expire_at m")
       (simp_all add: kv_meta_to_pb_def kv_meta_from_pb_def get_expire_at_ms_def u64_mul_def * [simplified])
  then show ?thesis by (cases "sv_meta v") (simp_all add: seqv_to_pb_def seqv_from_pb_def)
qed

lemma leader_mget_sim:
  assumes "node_sim E r f" and "t < 2 ^ 64"
  shows "node_get_kv_stream E r t keys = Inr (map Inr (map (flat_item t f) keys))"
proof -
  obtain mem0 sub evs g where r: "same_kv f g" "sm_sim (lm_ops E) (lm_inv E) (lm_kv_view E) (lm_expire_view E) (rp_sm r) g"
    by (rule node_sim_flat [OF assms(1)])
  have item: "flat_item t g = flat_item t f" using r(1) by (simp add: same_kv_def flat_item_def flat_read_def fun_eq_iff)
  have "seqv_to_pb (seqv_from_pb (seqv_to_pb v)) = seqv_to_pb v" for v by (rule seqv_to_pb_again)
  then have *: "StreamItem_from_opt (k, map_option seqv_from_pb (si_value (flat_item t f k))) = flat_item t f k" for k
    by (simp add: StreamItem_from_opt_def flat_item_def option.map_comp comp_def)
  have zip: "map (\<lambda>kv. Inr (StreamItem_from_opt kv)) (zip keys (map (\<lambda>k. map_option seqv_from_pb (si_value (flat_item t f k))) keys)) =
      (map (\<lambda>k. Inr (flat_item t f k)) keys :: stream_item res list)"
    by (induction keys) (simp_all add: *)
  have "try_collect (map (\<lambda>k. Inr (flat_item t f k)) ks) = (Inr (map (flat_item t f) ks) :: stream_item list res)" for ks by (induction ks) simp_all
  with leveled.get_kv_stream_sim [OF r(2) assms(2), of keys] zip show ?thesis
    by (simp add: node_get_kv_stream_def leader_mget_kv_def item comp_def)
qed

interpretation node_server: kv_server "node_api E" "node_sim E" for E
proof
  fix r r' :: "(nat, 'a) replica" and f t up req keys p
  assume sim: "node_sim E r f"
  show "flat_inv f" using sim by (simp add: node_sim_def)
  have "sequence (f_sys f) = sequence (lv_sys_data (writable (sm_map (rp_sm r))))"
    by (rule node_sim_flat [OF sim]) (simp add: same_kv_def sm_sim_def lm_ops_def)
  then show "ka_ready (node_api E) r t c \<longleftrightarrow> t < 2 ^ 64 \<and> cmd_ok c \<and> sequence (f_sys f) + cmd_seqs c < 2 ^ 64" for c
    by (simp add: node_api_def node_ready_def)
  show "\<exists>s'. ka_upsert (node_api E) r t up = Inr (fst (flat_mem_upsert t up f), s') \<and> node_sim E s' (snd (flat_mem_upsert t up f))"
    if "ka_ready (node_api E) r t (CmdUpsertKV up)"
  proof -
    have "node_ready r t (CmdUpsertKV up)" using that by (simp add: node_api_def)
    then obtain g :: "(nat, 'a) flat" and r' where w: "same_kv f g"
      "leader_write E r t (CmdUpsertKV up) = Inr (fst (flat_apply (write_entry (length (rp_log r) + 1) t (CmdUpsertKV up)) g), r')"
      "\<And>f'. same_kv f' (snd (snd (flat_apply (write_entry (length (rp_log r) + 1) t (CmdUpsertKV up)) g))) \<Longrightarrow> node_sim E r' f'"
      by (rule leader_write_sim [OF sim]) (rule that)
    from w(2,3) same_kv_apply(1,2) [OF w(1), where i = "length (rp_log r) + 1" and now = t and up = up] show ?thesis
      by (simp add: node_api_def node_upsert_kv_def)
  qed
  show "\<exists>s'. ka_transaction (node_api E) r t req = Inr (fst (flat_mem_txn t req f), s') \<and> node_sim E s' (snd (flat_mem_txn t req f))"
    if "ka_ready (node_api E) r t (Transaction req)"
  proof -
    have "node_ready r t (Transaction req)" using that by (simp add: node_api_def)
    then obtain g :: "(nat, 'a) flat" and r' where w: "same_kv f g"
      "leader_write E r t (Transaction req) = Inr (fst (flat_apply (write_entry (length (rp_log r) + 1) t (Transaction req)) g), r')"
      "\<And>f'. same_kv f' (snd (snd (flat_apply (write_entry (length (rp_log r) + 1) t (Transaction req)) g))) \<Longrightarrow> node_sim E r' f'"
      by (rule leader_write_sim [OF sim]) (rule that)
    from w(2,3) same_kv_apply(3,4) [OF w(1), where i = "length (rp_log r) + 1" and now = t and req = req] show ?thesis
      by (simp add: node_api_def node_transaction_def)
  qed
  show "ka_get_stream (node_api E) r t keys = Inr (map Inr (map (flat_item t f) keys))" if "t < 2 ^ 64"
    using leader_mget_sim [OF sim that] by (simp add: node_api_def)
  show "ka_list (node_api E) r t p = Inr (map Inr (flat_items t f p))" if "t < 2 ^ 64"
  proof -
    obtain mem0 sub evs g where g: "same_kv f g" "sm_sim (lm_ops E) (lm_inv E) (lm_kv_view E) (lm_expire_view E) (rp_sm r) g"
      by (rule node_sim_flat [OF sim])
    have "flat_items t g p = flat_items t f p" using g(1) by (simp add: same_kv_def flat_items_def)
    with leveled.api_list_kv_sim [OF g(2) that, of p] show ?thesis by (simp add: node_api_def node_list_kv_def)
  qed
  show "node_sim E r' f" if "ka_internal (node_api E) r r'"
  proof -
    from that obtain w where w: "maintain E (replica_world r) w"
      "r' = r\<lparr>rp_sm := (rp_sm r)\<lparr>sm_map := w_map w\<rparr>, rp_compactors := w_compactors w\<rparr>"
      by (auto simp: node_api_def elim: node_maintain.cases)
    then have "replica_step E r r'" using replica_step.reorganise by simp
    moreover obtain mem0 sub evs g where "replica_inv E mem0 sub r" "flat_run (rp_log r) (flat_init mem0) = (rp_replies r, evs, g)"
      "same_kv f g" "flat_inv f"
      using sim by (auto simp: node_sim_def)
    ultimately have "replica_inv E mem0 sub r'" "flat_run (rp_log r') (flat_init mem0) = (rp_replies r', evs, g)" "same_kv f g" "flat_inv f"
      using replica_inv_step w(2) by auto
    then show ?thesis unfolding node_sim_def by blast
  qed
qed

lemma node_sim_init: "env_ok E \<Longrightarrow> node_sim E (replica_init mem0 sub) (flat_init mem0)"
  using replica_inv_init [of E mem0 sub] flat_init_inv [of mem0]
  by (auto simp: node_sim_def replica_init_def same_kv_def)

text \<open>A schedule of clients, run against a new node.\<close>

lemma node_schedule:
  assumes "schedule turns (flat_init mem0, ps, []) = Some (f, ps', d)" and "env_ok E"
  obtains w where "kvworld_steps (node_api E) allowed (kvworld_init (replica_init mem0 sub) ps) w" and "kw_done w = d"
    and "node_sim E (kw_server w) f"
  using node_server.schedule_run [OF assms(1), of E "kvworld_init (replica_init mem0 sub) ps" allowed] node_sim_init [OF assms(2), of mem0 sub]
  by (auto simp: kvworld_init_def)

end
