(* ===== verification/SequenceProps.thy ===== *)
theory SequenceProps
  imports ReferenceCodec ApiLogic KvServers ReferenceEnv
begin

text \<open>
  Sequences under concurrency: clients of a meta node that create, read and advance sequences receive disjoint
  ranges, in order.
\<close>

section \<open>Clients\<close>

datatype seq_call = CallCreate create_sequence_req | CallNext get_sequence_next_value_req | CallGet "rstr tident"

definition seq_client ::
    "json \<Rightarrow> sequence_meta pbcodec \<Rightarrow> seq_call \<Rightarrow> (kv_app_error, get_sequence_next_value_reply option) api" where
  "seq_client J P c =
     (case c of
        CallCreate req \<Rightarrow> abind (create_sequence P req) (\<lambda>_. aret None)
      | CallNext req \<Rightarrow> abind (get_sequence_next_value J P req) (\<lambda>r. aret (Some r))
      | CallGet ident \<Rightarrow> abind (amap_err AppMetaError (get_sequence P ident)) (\<lambda>_. aret None))"

fun call_ident :: "seq_call \<Rightarrow> rstr tident" where
  "call_ident (CallCreate req) = cs_ident req"
| "call_ident (CallNext req) = gs_ident req"
| "call_ident (CallGet ident) = ident"

abbreviation seq_ident :: "rstr tident \<Rightarrow> bool" where
  "seq_ident \<equiv> tident_valid SequenceIdent_rsc valid_str"

text \<open>A valid identifier; sequences are created but not replaced.\<close>

definition call_ok :: "seq_call \<Rightarrow> bool" where
  "call_ok c \<longleftrightarrow> seq_ident (call_ident c) \<and>
     (case c of CallCreate req \<Rightarrow> cs_create_option req \<noteq> CreateOrReplace | _ \<Rightarrow> True)"

text \<open>What is used of the codec of the values: what decodes from an encoded value has its current number.\<close>

definition current_ok :: "sequence_meta pbcodec \<Rightarrow> bool" where
  "current_ok P \<longleftrightarrow>
     (\<forall>m b. sq_current m < 2 ^ 64 \<longrightarrow> pb_encode P m = Inr b \<longrightarrow> (\<exists>m'. pb_decode P b = Inr m' \<and> sq_current m' = sq_current m))"

text \<open>The ranges returned for one sequence, in the order of their return.\<close>

definition ranges :: "rstr tident \<Rightarrow> seq_call list \<Rightarrow> (nat \<times> (kv_app_error fault + get_sequence_next_value_reply option)) list \<Rightarrow>
    get_sequence_next_value_reply list" where
  "ranges ident cs d =
     List.map_filter (\<lambda>(i, x). case x of Inr (Some r) \<Rightarrow> if call_ident (cs ! i) = ident then Some r else None | _ \<Rightarrow> None) d"

section \<open>The protocol\<close>

definition seq_string :: "rstr tident \<Rightarrow> rstr" where
  "seq_string k = join47 [str ''__fd_sequence'', esc (tenant_name (ti_tenant k)), esc (ti_name k)]"

lemma sequence_key_string: "seq_ident k \<Longrightarrow> pk_string (sequence_key P) k = Inr (seq_string k)"
  using string_ident.tid.to_string_segs [of SequenceIdent_rsc k "rs_prefix SequenceIdent_rsc"]
  by (simp add: pk_string_def sequence_key_def seq_string_def tident_segs_def SequenceIdent_rsc_def seg_ok_def str_def valid_char_def)

definition cur_at :: "sequence_meta pbcodec \<Rightarrow> ('lid, 'mem) flat \<Rightarrow> rstr \<Rightarrow> nat option" where
  "cur_at P f s =
     (case ent f s of
        None \<Rightarrow> None
      | Some v \<Rightarrow> (case pb_decode P (sv_data v) of Inl _ \<Rightarrow> None | Inr m \<Rightarrow> Some (sq_current m)))"

text \<open>Every sequence in the store is readable, does not expire and has a current number in range.\<close>

definition seq_good :: "sequence_meta pbcodec \<Rightarrow> ('lid, 'mem) flat \<Rightarrow> rstr \<Rightarrow> bool" where
  "seq_good P f s \<longleftrightarrow> lasting f s \<and> (ent f s \<noteq> None \<longrightarrow> (\<exists>n. cur_at P f s = Some n \<and> 1 \<le> n \<and> n < 2 ^ 64))"

definition seq_step :: "sequence_meta pbcodec \<Rightarrow> ('lid, 'mem, unit) ghosted \<Rightarrow> ('lid, 'mem, unit) ghosted \<Rightarrow> bool" where
  "seq_step P u u' \<longleftrightarrow>
     (\<forall>k. seq_ident k \<longrightarrow> seq_good P (fst u) (seq_string k) \<and> seq_good P (fst u') (seq_string k) \<and>
       (\<forall>n. cur_at P (fst u) (seq_string k) = Some n \<longrightarrow> (\<exists>n' \<ge> n. cur_at P (fst u') (seq_string k) = Some n')))"

definition seq_post ::
    "sequence_meta pbcodec \<Rightarrow> seq_call \<Rightarrow> kv_app_error fault + get_sequence_next_value_reply option \<Rightarrow>
     ('lid, 'mem, unit) ghosted \<Rightarrow> ('lid, 'mem, unit) ghosted \<Rightarrow> bool" where
  "seq_post P c x u u' \<longleftrightarrow> seq_step P u u' \<and>
     (case x of
        Inr None \<Rightarrow> True
      | Inr (Some r) \<Rightarrow>
          (\<exists>req. c = CallNext req \<and> gs_end r + 1 = gs_start r + gs_count req \<and> 1 \<le> gs_start r \<and> 1 \<le> gs_count req \<and>
             cur_at P (fst u) (seq_string (gs_ident req)) = Some (gs_start r) \<and>
             cur_at P (fst u') (seq_string (gs_ident req)) = Some (gs_end r + 1))
      | Inl (Raise _) \<Rightarrow> True
      | Inl (Panicked _) \<Rightarrow> False)"

lemma seq_string_inj: "seq_ident k \<Longrightarrow> seq_ident k' \<Longrightarrow> seq_string k = seq_string k' \<Longrightarrow> k = k'"
  using string_ident.tid.key_inj [of SequenceIdent_rsc k k' "rs_prefix SequenceIdent_rsc"] sequence_key_string [of k] sequence_key_string [of k']
  by (simp add: pk_string_def sequence_key_def SequenceIdent_rsc_def seg_ok_def str_def valid_char_def)

text \<open>A step that changes at most one sequence.\<close>

lemma seq_stepI:
  assumes "\<And>k. seq_ident k \<Longrightarrow> seq_good P f (seq_string k)"
    and "\<And>k'. seq_ident k' \<Longrightarrow> seq_string k' \<noteq> s \<Longrightarrow> ent g (seq_string k') = ent f (seq_string k')"
    and "ent g s = ent f s \<or> (\<exists>n. lasting g s \<and> cur_at P g s = Some n \<and> 1 \<le> n \<and> n < 2 ^ 64 \<and> (\<forall>m. cur_at P f s = Some m \<longrightarrow> m \<le> n))"
  shows "seq_step P (f, c) (g, c')"
proof -
  have same: "seq_good P g k \<and> cur_at P g k = cur_at P f k" if "ent g k = ent f k" "seq_good P f k" for k
    using that by (simp add: seq_good_def lasting_def cur_at_def)
  have "seq_good P f (seq_string k) \<and> seq_good P g (seq_string k) \<and>
      (\<forall>n. cur_at P f (seq_string k) = Some n \<longrightarrow> (\<exists>n' \<ge> n. cur_at P g (seq_string k) = Some n'))" if k: "seq_ident k" for k
  proof (cases "ent g (seq_string k) = ent f (seq_string k)")
    case True
    from same [OF this assms(1) [OF k]] assms(1) [OF k] show ?thesis by auto
  next
    case False
    with assms(2) [OF k] have s: "seq_string k = s" by blast
    with assms(3) False show ?thesis using assms(1) [OF k] by (auto simp: seq_good_def)
  qed
  then show ?thesis by (simp add: seq_step_def)
qed

lemma seq_step_refl:
  assumes "evolved (seq_step P) u (f, c)"
  shows "seq_step P (f, c) (f, c)"
  by (rule seq_stepI) (use assms in \<open>auto simp: evolved_def seq_step_def\<close>)

lemma seq_goodD: "evolved (seq_step P) u (f, c) \<Longrightarrow> seq_ident k \<Longrightarrow> seq_good P f (seq_string k)"
  by (simp add: evolved_def seq_step_def)

lemma seq_step_trans: "seq_step P s u \<Longrightarrow> seq_step P u v \<Longrightarrow> seq_step P s v"
  unfolding seq_step_def by (meson le_trans)

lemma seq_evolved_trans: "evolved (seq_step P) s u \<Longrightarrow> evolved (seq_step P) u v \<Longrightarrow> evolved (seq_step P) s v"
  by (rule evolved_trans [of "seq_step P"]) (auto intro: seq_step_trans)

text \<open>Advancing a sequence: the transaction succeeds only on the entry that was read.\<close>

lemma advance_step:
  assumes R: "evolved (seq_step P) (f, c) (h, c')" and k: "seq_ident k" and P: "current_ok P"
    and read: "ent f (seq_string k) = Some v" "pb_decode P (sv_data v) = Inr m"
    and enc: "sq_current m' = sq_current m + n" "sq_current m' < 2 ^ 64" "pb_encode P m' = Inr buf"
    and req: "req = cas_txn (seq_string k) (sv_seq v) buf" and t: "t < 2 ^ 64"
  shows "seq_step P (h, c') (snd (flat_mem_txn t req h), c'')"
    and "txn_holds t req h \<Longrightarrow> cur_at P h (seq_string k) = Some (sq_current m) \<and>
      cur_at P (snd (flat_mem_txn t req h)) (seq_string k) = Some (sq_current m + n) \<and> 1 \<le> sq_current m"
proof -
  let ?s = "seq_string k" and ?g = "snd (flat_mem_txn t req h)"
  have inv: "flat_inv f" "flat_inv h" "evolves f h" using R by (simp_all add: evolved_def)
  have good: "seq_good P h (seq_string k')" if "seq_ident k'" for k' by (rule seq_goodD [OF R that])
  note cas = cas_txn_effect [OF inv(2) t, where key = ?s and n = "sv_seq v" and buf = buf, folded req]
  have rd: "flat_read t h (seq_string k') = ent h (seq_string k')" if "seq_ident k'" for k'
    using good [OF that] by (auto intro: flat_read_lasting simp: seq_good_def)
  have f: "flat_read t f ?s = Some v"
    using R k read(1) by (auto simp: evolved_def seq_step_def seq_good_def flat_read_lasting)
  have other: "ent ?g (seq_string k') = ent h (seq_string k')" if "seq_ident k'" "seq_string k' \<noteq> ?s" for k'
    using cas(2) rd [OF that(1)] that(2) by simp
  have hit: "ent h ?s = Some v" if "txn_holds t req h"
    by (rule same_seq_read [OF inv(3,1,2) f]) (use that cas(1) in simp)
  obtain m'' where "pb_decode P buf = Inr m''" "sq_current m'' = sq_current m + n"
    using P enc unfolding current_ok_def by metis
  then have new: "lasting ?g ?s \<and> cur_at P ?g ?s = Some (sq_current m + n)" if "txn_holds t req h"
    using cas(1,3) that by (auto simp: lasting_def cur_at_def)
  have cur: "cur_at P h ?s = Some (sq_current m)" "1 \<le> sq_current m" if "txn_holds t req h"
    using hit [OF that] read(2) good [OF k] by (simp_all add: cur_at_def seq_good_def)
  then show "cur_at P h ?s = Some (sq_current m) \<and> cur_at P ?g ?s = Some (sq_current m + n) \<and> 1 \<le> sq_current m" if "txn_holds t req h"
    using new that by blast
  show "seq_step P (h, c') (?g, c'')"
  proof (cases "txn_holds t req h")
    case True
    then show ?thesis using new [OF True] cur [OF True] enc by (intro seq_stepI [where s = ?s]) (auto simp: good other)
  next
    case False
    then show ?thesis using cas(1,2) rd by (intro seq_stepI [where s = ?s]) (auto simp: good rd k)
  qed
qed

lemma next_value_wp:
  assumes "seq_ident (gs_ident req)" and "current_ok P" and "1 \<le> gs_count req" and "seq_step P u u'"
  shows "wp (evolved (seq_step P)) (seq_step P)
    (\<lambda>r u u'. case r of Inl e \<Rightarrow> seq_post P (CallNext req) (Inl e) u u' | Inr None \<Rightarrow> seq_step P u u'
      | Inr (Some x) \<Rightarrow> seq_post P (CallNext req) (Inr (Some x)) u u') (next_value_trial J P req) u u'"
  unfolding next_value_trial_def Let_def wp_abind wp_amap_err
proof (rule wp_get_pb [OF sequence_key_string [OF assms(1)]], goal_cases)
  case 1
  show ?case by (rule assms(4))
next
  case (2 f c e)
  then show ?case by (simp add: seq_post_def seq_step_refl)
next
  case (3 f c t)
  then show ?case by (simp add: seq_post_def seq_step_refl)
next
  case (4 f c t v m meta)
  have ent: "ent f (seq_string (gs_ident req)) = Some v" by (rule flat_read_SomeD [OF 4(3)])
  show ?case
  proof (cases "u64_max - sq_current m < gs_count req")
    case True
    with 4 show ?thesis by (simp add: seq_post_def seq_step_refl)
  next
    case False
    let ?s = "seq_string (gs_ident req)" and ?m = "\<lambda>n. m\<lparr>sq_current := sq_current m + gs_count req, sq_update_on := n\<rparr>"
    have bound: "sq_current m + gs_count req < 2 ^ 64"
      using False seq_goodD [OF 4(1) assms(1)] ent 4(4)
      by (auto simp: u64_max_def seq_good_def cur_at_def sequence_key_def)
    have adv: "seq_step P (h, c') (snd (flat_mem_txn t' (cas_txn ?s (sv_seq v) buf) h), c'')"
      "txn_holds t' (cas_txn ?s (sv_seq v) buf) h \<Longrightarrow> cur_at P h ?s = Some (sq_current m) \<and>
        cur_at P (snd (flat_mem_txn t' (cas_txn ?s (sv_seq v) buf) h)) ?s = Some (sq_current m + gs_count req) \<and> 1 \<le> sq_current m"
      if "evolved (seq_step P) (f, c) (g, c1)" "evolved (seq_step P) (g, c1) (h, c')" "pb_encode P (?m n) = Inr buf" "t' < 2 ^ 64"
      for g c1 h c' c'' n buf t'
      using advance_step [OF seq_evolved_trans [OF that(1,2)] assms(1,2) ent _ _ _ that(3) refl that(4), where m = m and n = "gs_count req"] 4(4) bound
      by (auto simp: sequence_key_def)
    from 4 False show ?thesis
      apply (simp add: wp_abind)
      apply (rule wp_now)
       apply (simp add: seq_step_refl)
      apply (simp add: wp_abind wp_amap_err txn_cond_eq_seq_def sequence_key_string [OF assms(1)])
      apply (rule wp_txn_op_put_pb [OF sequence_key_string [OF assms(1)]])
       apply (simp add: seq_post_def seq_step_refl)
      apply (simp add: wp_abind wp_amap_err cas_txn_def [symmetric])
      apply (rule wp_send_txn [OF cas_txn_simple])
        apply (simp_all add: seq_post_def seq_step_refl)
      using adv assms(3) apply (force simp: sequence_key_def fits_def)
      done
  qed
qed

lemma create_wp:
  assumes "seq_ident (cs_ident req)" and "cs_create_option req \<noteq> CreateOrReplace" and "current_ok P" and "seq_step P u u'"
  shows "wp (evolved (seq_step P)) (seq_step P) (seq_post P (CallCreate req)) (seq_client J P (CallCreate req)) u u'"
proof -
  let ?s = "seq_string (cs_ident req)" and ?req = "UpsertPB_with_seq (UpsertPB_update (cs_ident req) (SequenceMeta_from req)) (Exact 0)"
  have opt: "create_option_seq (cs_create_option req) = Exact 0"
    using assms(2) by (cases "cs_create_option req") (simp_all add: create_option_seq_def)
  have key: "pk_string (sequence_key P) (up_key ?req) = Inr ?s"
    by (simp add: UpsertPB_with_seq_def UpsertPB_update_def sequence_key_string [OF assms(1)])
  show ?thesis
  proof (cases "pb_encode P (SequenceMeta_from req)")
    case (Inl e)
    then show ?thesis
      using assms(4) key
      by (simp add: seq_client_def create_sequence_def opt upsert_pb_def upsert_pb_low_def wp_abind wp_amap_err encode_operation_def
          UpsertPB_with_seq_def UpsertPB_update_def sequence_key_def seq_post_def)
  next
    case (Inr buf)
    have enc: "encode_operation (pk_value (sequence_key P)) (up_value ?req) = Inr (Update buf)"
      using Inr by (simp add: encode_operation_def UpsertPB_with_seq_def UpsertPB_update_def sequence_key_def)
    obtain m where m: "pb_decode P buf = Inr m" "sq_current m = 1"
      using assms(3) Inr by (force simp: current_ok_def SequenceMeta_from_def)
    have step: "seq_step P (f, c) (g, c')"
      if R: "evolved (seq_step P) u' (f, c)" and t: "t < 2 ^ 64"
        and up: "flat_mem_upsert t \<lparr>uk_key = ?s, uk_seq = Exact 0, uk_value = Update buf, uk_value_meta = None\<rparr> f = (ch, g)"
      for f c c' t ch g
    proof -
      have inv: "flat_inv f" using R by (simp add: evolved_def)
      note cas = cas_upsert_effect [OF inv t up] and good = seq_goodD [OF R]
      have rd: "flat_read t f (seq_string k') = ent f (seq_string k')" if "seq_ident k'" for k'
        using good [OF that] by (auto intro: flat_read_lasting simp: seq_good_def)
      have none: "ent f ?s = None" if "opt_seq (ent f ?s) = 0"
        using that flat_invD(3) [OF inv, of ?s] by (cases "ent f ?s") force+
      show ?thesis
      proof (cases "opt_seq (ent f ?s) = 0")
        case True
        with cas(4) rd [OF assms(1)] obtain v where "ent g ?s = Some v" "sv_data v = buf" "sv_expires v = None" by auto
        with True cas(3) m none show ?thesis by (intro seq_stepI [where s = ?s]) (auto simp: good rd lasting_def cur_at_def)
      next
        case False
        with cas(3) show ?thesis by (intro seq_stepI [where s = ?s]) (auto simp: good rd assms(1))
      qed
    qed
    show ?thesis
      unfolding seq_client_def create_sequence_def opt Let_def wp_abind wp_amap_err seq_call.case
    proof (rule wp_upsert_pb [OF key enc], goal_cases)
      case (3 f c t ch g)
      then have "seq_step P (f, c) (g, c)" by (intro step) (auto simp: fits_def UpsertPB_with_seq_def UpsertPB_update_def)
      then show ?case
        using assms(2) by (cases "cs_create_option req") (simp_all add: seq_post_def)
    qed (use assms(4) in \<open>simp_all add: seq_post_def seq_step_refl\<close>)
  qed
qed

lemma get_wp:
  assumes "seq_ident k" and "seq_step P u u'"
  shows "wp (evolved (seq_step P)) (seq_step P) (seq_post P (CallGet k)) (seq_client J P (CallGet k)) u u'"
  unfolding seq_client_def get_sequence_def wp_abind wp_amap_err seq_call.case
  by (rule wp_get_pb [OF sequence_key_string [OF assms(1)]]) (use assms(2) in \<open>simp_all add: seq_post_def seq_step_refl\<close>)

lemma next_wp:
  assumes "seq_ident (gs_ident req)" and "current_ok P" and "seq_step P u u'"
  shows "wp (evolved (seq_step P)) (seq_step P) (seq_post P (CallNext req)) (seq_client J P (CallNext req)) u u'"
proof (cases "gs_count req = 0")
  case True
  then show ?thesis using assms(3) by (simp add: seq_client_def get_sequence_next_value_def wp_abind seq_post_def)
next
  case False
  then have "1 \<le> gs_count req" by simp
  note trial = next_value_wp [OF assms(1,2) this]
  from False show ?thesis
    unfolding seq_client_def get_sequence_next_value_def wp_abind seq_call.case
    by (simp, intro wp_txn_loop [where P = "seq_step P"] wp_mono [OF trial] assms(3))
       (auto simp: seq_post_def split: sum.split option.split)
qed

definition seq_inv :: "sequence_meta pbcodec \<Rightarrow> seq_call list \<Rightarrow> ('lid, 'mem, unit) ghosted \<Rightarrow>
    (nat \<times> (kv_app_error fault + get_sequence_next_value_reply option)) list \<Rightarrow> bool" where
  "seq_inv P cs u d \<longleftrightarrow>
     (\<forall>k. seq_ident k \<longrightarrow> seq_good P (fst u) (seq_string k) \<and> sorted_wrt (\<lambda>a b. gs_end a < gs_start b) (ranges k cs d) \<and>
       (\<forall>r \<in> set (ranges k cs d). \<exists>n. cur_at P (fst u) (seq_string k) = Some n \<and> gs_end r < n)) \<and>
     (\<forall>(i, x) \<in> set d. (\<forall>q. x \<noteq> Inl (Panicked q)) \<and>
       (\<forall>r. x = Inr (Some r) \<longrightarrow> (\<exists>req. cs ! i = CallNext req \<and> 1 \<le> gs_start r \<and> gs_end r + 1 = gs_start r + gs_count req)))"

lemma seq_inv_step:
  assumes "seq_inv P cs u d" and "seq_step P u u'"
  shows "seq_inv P cs u' d"
proof -
  have "seq_good P (fst u') (seq_string k) \<and> sorted_wrt (\<lambda>a b. gs_end a < gs_start b) (ranges k cs d) \<and>
      (\<forall>r \<in> set (ranges k cs d). \<exists>n. cur_at P (fst u') (seq_string k) = Some n \<and> gs_end r < n)" if k: "seq_ident k" for k
    using assms k unfolding seq_inv_def seq_step_def by (meson less_le_trans)
  with assms(1) show ?thesis by (simp add: seq_inv_def)
qed

lemma ranges_append:
  "ranges k cs (d @ [(i, x)]) = ranges k cs d @ (case x of Inr (Some r) \<Rightarrow> if call_ident (cs ! i) = k then [r] else [] | _ \<Rightarrow> [])"
  by (simp add: ranges_def List.map_filter_def split: sum.split option.split)

lemma seq_inv_post:
  assumes inv: "seq_inv P cs u d" and post: "seq_post P (cs ! i) x u u'"
  shows "seq_inv P cs u' (d @ [(i, x)])"
proof -
  have step: "seq_step P u u'" using post by (simp add: seq_post_def)
  note inv' = seq_inv_step [OF inv step]
  show ?thesis
  proof (cases "\<exists>r. x = Inr (Some r)")
    case False
    then have "ranges k cs (d @ [(i, x)]) = ranges k cs d" for k by (simp add: ranges_append split: sum.split option.split)
    with inv' post False show ?thesis by (auto simp: seq_inv_def seq_post_def split: sum.splits fault.splits)
  next
    case True
    then obtain r req where x: "x = Inr (Some r)" "cs ! i = CallNext req" "gs_end r + 1 = gs_start r + gs_count req" "1 \<le> gs_start r"
      "cur_at P (fst u) (seq_string (gs_ident req)) = Some (gs_start r)" "cur_at P (fst u') (seq_string (gs_ident req)) = Some (gs_end r + 1)"
      "1 \<le> gs_count req"
      using post by (auto simp: seq_post_def)
    have "seq_good P (fst u') (seq_string k) \<and> sorted_wrt (\<lambda>a b. gs_end a < gs_start b) (ranges k cs (d @ [(i, x)])) \<and>
        (\<forall>r \<in> set (ranges k cs (d @ [(i, x)])). \<exists>n. cur_at P (fst u') (seq_string k) = Some n \<and> gs_end r < n)" if k: "seq_ident k" for k
    proof (cases "gs_ident req = k")
      case True
      then have "gs_end r' < gs_start r" if "r' \<in> set (ranges k cs d)" for r'
        using inv k that x(5) by (auto simp: seq_inv_def)
      with inv' k x True show ?thesis by (fastforce simp: seq_inv_def ranges_append sorted_wrt_append)
    next
      case False
      with inv' k x show ?thesis by (simp add: seq_inv_def ranges_append)
    qed
    with inv' x show ?thesis by (simp add: seq_inv_def)
  qed
qed

text \<open>
  C8. Any number of clients of a meta node create, read and advance sequences, beside other clients that do
  not write sequences, with requests and replies lost at any point. The ranges of numbers that are returned for a
  sequence are disjoint and increase in the order in which they are returned, each has the requested length, and
  no client panics.
\<close>

theorem sequence_ranges_increase:
  assumes "env_ok E" and "current_ok P" and "list_all call_ok cs"
    and "\<And>c k s. allowed c \<Longrightarrow> seq_ident k \<Longrightarrow> pk_string (sequence_key P) k = Inr s \<Longrightarrow> \<not> cmd_writes c s"
    and "kvworld_steps (node_api E) allowed (kvworld_init (replica_init mem0 sub) (map (seq_client J P) cs)) w"
  shows "(\<forall>k. seq_ident k \<longrightarrow> sorted_wrt (\<lambda>a b. gs_end a < gs_start b) (ranges k cs (kw_done w))) \<and>
    (\<forall>(i, x) \<in> set (kw_done w). (\<forall>q. x \<noteq> Inl (Panicked q)) \<and>
      (\<forall>r. x = Inr (Some r) \<longrightarrow> (\<exists>req. cs ! i = CallNext req \<and> 1 \<le> gs_start r \<and> gs_end r + 1 = gs_start r + gs_count req)))"
proof -
  have init: "seq_inv P cs (flat_init mem0, ()) []"
    by (simp add: seq_inv_def seq_good_def lasting_def flat_init_def ranges_def List.map_filter_def)
  then have start: "seq_step P (flat_init mem0, ()) (flat_init mem0, ())"
    by (intro seq_stepI) (auto simp: seq_inv_def)
  have wp: "wp (evolved (seq_step P)) (seq_step P) (seq_post P (cs ! i)) (map (seq_client J P) cs ! i) (flat_init mem0, ()) (flat_init mem0, ())"
    if "i < length (map (seq_client J P) cs)" "is_call (map (seq_client J P) cs ! i)" for i
  proof (cases "cs ! i")
    case (CallCreate req)
    with create_wp [OF _ _ assms(2) start, of req J] assms(3) that(1) show ?thesis by (auto simp: list_all_length call_ok_def)
  next
    case (CallNext req)
    with next_wp [OF _ assms(2) start, of req J] assms(3) that(1) show ?thesis by (auto simp: list_all_length call_ok_def)
  next
    case (CallGet k)
    with get_wp [OF _ start, of k J] assms(3) that(1) show ?thesis by (auto simp: list_all_length call_ok_def)
  qed
  have others: "seq_step P (f, c) (g, c)"
    if "seq_inv P cs (f, c) d" "\<And>k. seq_ident k \<Longrightarrow> ent g (seq_string k) = flat_read t f (seq_string k)" for f g c d t
    using that by (auto simp: seq_inv_def seq_step_def seq_good_def flat_read_lasting lasting_def cur_at_def)
  have prot: "protocol (seq_inv P cs) (\<lambda>_. evolved (seq_step P)) (\<lambda>_. seq_step P) (\<lambda>i. seq_post P (cs ! i)) allowed (length (map (seq_client J P) cs))"
  proof (rule protocolI, goal_cases)
    case (1 i f c d)
    then show ?case by (auto simp: seq_inv_def intro!: seq_stepI)
  next
    case (5 f t up c d)
    have "seq_step P (f, c) (snd (flat_mem_upsert t up f), c)"
      by (rule others [OF 5(4)], rule mem_upsert_other [OF 5(1)]) (use assms(4) [OF 5(5)] sequence_key_string in blast)
    then show ?case using seq_inv_step [OF 5(4)] by blast
  next
    case (6 f t req c d)
    have "seq_step P (f, c) (snd (flat_mem_txn t req f), c)"
      by (rule others [OF 6(4)], rule mem_txn_other [OF 6(1)]) (use assms(4) [OF 6(5)] sequence_key_string in blast)
    then show ?case using seq_inv_step [OF 6(4)] by blast
  qed (auto simp: evolved_def seq_post_def intro: seq_step_trans seq_inv_step seq_inv_post)
  show ?thesis
    by (rule node_server.kvworld_inv [OF assms(5) node_sim_init [OF assms(1)] init wp prot]) (simp_all add: seq_inv_def)
qed

definition sample_seq :: "rstr tident" where
  "sample_seq = \<lparr>ti_tenant = \<lparr>tenant_name = str ''t''\<rparr>, ti_name = str ''s''\<rparr>"

definition sample_calls :: "seq_call list" where
  "sample_calls =
     [CallCreate \<lparr>cs_create_option = Create, cs_ident = sample_seq, cs_create_on = 0, cs_comment = None\<rparr>,
      CallNext \<lparr>gs_ident = sample_seq, gs_count = 3\<rparr>, CallNext \<lparr>gs_ident = sample_seq, gs_count = 2\<rparr>]"

lemma sequence_key_value: "pk_value (sequence_key P) = P"
  by (simp add: sequence_key_def)

lemma sample_seq_key: "pk_string (sequence_key P) sample_seq = Inr (str ''__fd_sequence/t/s'')"
proof -
  have "seq_ident sample_seq" by (simp add: tident_valid_def sample_seq_def SequenceIdent_rsc_def str_def valid_char_def)
  moreover have "seq_string sample_seq = str ''__fd_sequence/t/s''" by code_simp
  ultimately show ?thesis using sequence_key_string by simp
qed

text \<open>The first two clients both read the sequence before one of them advances it, so the other one has to try again.\<close>

lemma sample_schedule:
  "\<exists>f ps. schedule [(0, 10), (1, 20), (2, 21), (1, 22), (1, 23), (2, 24), (2, 25), (2, 26), (2, 27), (2, 28)]
     (flat_init () :: (nat, unit) flat, map (seq_client json_ref sequence_pb_ref) sample_calls, []) =
   Some (f, ps, [(0, Inr None), (1, Inr (Some \<lparr>gs_start = 1, gs_step = 1, gs_end = 3\<rparr>)), (2, Inr (Some \<lparr>gs_start = 4, gs_step = 1, gs_end = 5\<rparr>))])"
proof -
  obtain a b rest where trials: "txn_backoff None = Inr a # Inr b # rest"
    by (simp add: txn_backoff_items trial_count_def TXN_MAX_RETRY_TIMES_def upt_rec)
  show ?thesis
    by (simp add: serve_eval flat_init_def api_simps trials sample_seq_key sample_calls_def seq_client_def create_sequence_def get_sequence_next_value_def
       next_value_trial_def create_option_seq_def sequence_key_value sequence_pb_ref_eval SequenceMeta_from_def str_def valid_char_def)
qed

lemma sequence_pb_ref_current: "current_ok sequence_pb_ref"
  unfolding current_ok_def by (auto simp: sequence_pb_ref_eval simp del: One_nat_def)

theorem sequence_ranges_increase_witness:
  "\<exists>w. kvworld_steps (node_api env_ref) (\<lambda>c. \<forall>k s. seq_ident k \<longrightarrow> pk_string (sequence_key sequence_pb_ref) k = Inr s \<longrightarrow> \<not> cmd_writes c s)
      (kvworld_init (replica_init () None) (map (seq_client json_ref sequence_pb_ref) sample_calls)) w \<and>
    map (\<lambda>r. (gs_start r, gs_end r)) (ranges sample_seq sample_calls (kw_done w)) = [(1, 3), (4, 5)] \<and>
    sorted_wrt (\<lambda>a b. gs_end a < gs_start b) (ranges sample_seq sample_calls (kw_done w))"
proof -
  let ?ps = "map (seq_client json_ref sequence_pb_ref) sample_calls"
    and ?allowed = "\<lambda>c. \<forall>k s. seq_ident k \<longrightarrow> pk_string (sequence_key sequence_pb_ref) k = Inr s \<longrightarrow> \<not> cmd_writes c s"
  let ?done = "[(0, Inr None), (1, Inr (Some \<lparr>gs_start = 1, gs_step = 1, gs_end = 3\<rparr>)), (2, Inr (Some \<lparr>gs_start = 4, gs_step = 1, gs_end = 5\<rparr>))]"
  obtain turns f ps where "schedule turns (flat_init () :: (nat, unit) flat, ?ps, []) = Some (f, ps, ?done)"
    using sample_schedule by blast
  then obtain w where
    w: "kvworld_steps (node_api env_ref) ?allowed (kvworld_init (replica_init () None) ?ps) w" "kw_done w = ?done"
    by (rule node_schedule [OF _ env_ref_ok]) (rule that)
  have k: "seq_ident sample_seq" by (simp add: tident_valid_def sample_seq_def SequenceIdent_rsc_def str_def valid_char_def)
  then have "list_all call_ok sample_calls" by (simp add: sample_calls_def call_ok_def)
  from sequence_ranges_increase [OF env_ref_ok sequence_pb_ref_current this _ w(1)] k
  have "sorted_wrt (\<lambda>a b. gs_end a < gs_start b) (ranges sample_seq sample_calls (kw_done w))" by blast
  moreover have "map (\<lambda>r. (gs_start r, gs_end r)) (ranges sample_seq sample_calls (kw_done w)) = [(1, 3), (4, 5)]"
    using w(2) by (simp add: ranges_def List.map_filter_def sample_calls_def)
  ultimately show ?thesis using w(1) by (intro exI [of _ w] conjI)
qed

end
