(* ===== verification/DataMaskApi.thy ===== *)
theory DataMaskApi
  imports CrudApi
begin

text \<open>
  Data mask policies: \<open>data_mask_api_impl.rs\<close> of \<open>src/meta/api/src\<close> and \<open>data_mask\<close> of \<open>src/meta/app/src\<close>. Of the meta data of a
  table only the field with the mask policies of its columns is used; the other fields are an extension
  of the record.
\<close>

record datamask_meta =
  dm_args :: "(rstr \<times> rstr) list"
  dm_return_type :: rstr
  dm_body :: rstr
  dm_comment :: "rstr option"
  dm_create_on :: nat
  dm_update_on :: "nat option"

record create_datamask_req =
  cd_create_option :: create_option
  cd_name :: "rstr tident"
  cd_data_mask_meta :: datamask_meta

record maskpolicy_table_id_list =
  mp_id_list :: "(nat, unit) btree"

record table_meta_policy =
  tm_column_mask_policy :: "(rstr, rstr) btree option"

text \<open>The codecs of the values.\<close>

record 'r datamask_pb =
  dp_meta :: "datamask_meta pbcodec"
  dp_id_list :: "maskpolicy_table_id_list pbcodec"
  dp_table :: "'r table_meta_policy_scheme pbcodec"

definition datamask_keys :: "json \<Rightarrow> 'r datamask_pb \<Rightarrow> (rstr tident, datamask_meta) name_id_keys" where
  "datamask_keys J P =
     \<lparr>nk_name = \<lparr>pk_prefix = rs_prefix DataMaskNameIdent_rsc, pk_codec = tident_codec DataMaskNameIdent_rsc string_codec,
        pk_value = data_id_pb J\<rparr>,
      nk_id = \<lparr>pk_prefix = rs_prefix DataMaskIdIdent_rsc, pk_codec = tident_codec DataMaskIdIdent_rsc data_id_codec,
        pk_value = dp_meta P\<rparr>,
      nk_tenant = ti_tenant\<rparr>"

definition id_list_key :: "'r datamask_pb \<Rightarrow> (rstr tident, maskpolicy_table_id_list) pbkey" where
  "id_list_key P =
     \<lparr>pk_prefix = rs_prefix MaskPolicyTableIdListIdent_rsc,
      pk_codec = tident_codec MaskPolicyTableIdListIdent_rsc string_codec, pk_value = dp_id_list P\<rparr>"

definition table_id_key :: "'v pbcodec \<Rightarrow> (table_id, 'v) pbkey" where
  "table_id_key P = \<lparr>pk_prefix = str ''__fd_table_by_id'', pk_codec = table_id_codec, pk_value = P\<rparr>"

text \<open>The loop over the tables that use the policy.\<close>

fun clear_tables :: "'r datamask_pb \<Rightarrow> rstr \<Rightarrow> nat list \<Rightarrow> txn_request \<Rightarrow> (meta_error, txn_request) api" where
  "clear_tables P name [] txn = aret txn"
| "clear_tables P name (i # rest) txn =
     (let tbid = \<lparr>tid_table_id = i\<rparr>
      in abind (get_pb (table_id_key (dp_table P)) tbid) (\<lambda>seq_meta.
           case seq_meta of
             None \<Rightarrow> clear_tables P name rest txn
           | Some seq_meta \<Rightarrow>
               (case tm_column_mask_policy (sv_data seq_meta) of
                  None \<Rightarrow> clear_tables P name rest txn
                | Some policy \<Rightarrow>
                    (let meta = (sv_data seq_meta)\<lparr>tm_column_mask_policy := Some (filter (\<lambda>(c, n). n \<noteq> name) policy)\<rparr>
                     in abind (txn_replace_exact meta_invalid_argument (table_id_key (dp_table P)) tbid (sv_seq seq_meta) meta txn) (\<lambda>txn.
                          clear_tables P name rest txn)))))"

definition clear_table_column_mask_policy :: "'r datamask_pb \<Rightarrow> rstr tident \<Rightarrow> txn_request \<Rightarrow> (meta_error, txn_request) api" where
  "clear_table_column_mask_policy P name_ident txn =
     abind (get_pb (id_list_key P) name_ident) (\<lambda>seq_id_list.
       case seq_id_list of
         None \<Rightarrow> aret txn
       | Some seq_id_list \<Rightarrow>
           abind (txn_delete_exact (id_list_key P) name_ident (sv_seq seq_id_list) txn) (\<lambda>txn.
             clear_tables P (ti_name name_ident) (map fst (mp_id_list (sv_data seq_id_list))) txn))"

text \<open>The part of \<open>create_data_mask\<close> that inserts the records of a new policy.\<close>

definition insert_data_mask ::
    "json \<Rightarrow> 'r datamask_pb \<Rightarrow> create_datamask_req \<Rightarrow> nat \<Rightarrow> txn_request \<Rightarrow> (kv_app_error, nat option) api" where
  "insert_data_mask J P req cur_seq txn =
     (let name_ident = cd_name req; N = datamask_keys J P
      in abind (amap_err AppMetaError (fetch_id (generator_key IdGenerator_data_mask_id))) (\<lambda>i.
         let id_ident = TIdent_new_generic (ti_tenant name_ident) i
         in abind (apure (txn_cond_eq_seq (nk_name N) name_ident cur_seq)) (\<lambda>c.
            abind (txn_op_put_pb app_invalid_argument (nk_name N) name_ident i None) (\<lambda>p1.
            abind (txn_op_put_pb app_invalid_argument (nk_id N) id_ident (cd_data_mask_meta req) None) (\<lambda>p2.
            abind (txn_op_put_pb app_invalid_argument (id_list_key P) name_ident \<lparr>mp_id_list = []\<rparr> None) (\<lambda>p3.
            abind (amap_err AppMetaError (send_txn J (push_all [p1, p2, p3] (push_condition c txn)))) (\<lambda>(succ, responses).
              aret (if succ then Some i else None))))))))"

definition create_data_mask_trial ::
    "json \<Rightarrow> 'r datamask_pb \<Rightarrow> create_datamask_req \<Rightarrow> (kv_app_error, nat option) api" where
  "create_data_mask_trial J P req =
     (let name_ident = cd_name req; N = datamask_keys J P
      in abind (amap_err AppMetaError (get_id_value N name_ident)) (\<lambda>res.
           case res of
             None \<Rightarrow> insert_data_mask J P req 0 TxnRequest_default
           | Some (seq_id, seq_meta) \<Rightarrow>
               (case cd_create_option req of
                  Create \<Rightarrow> araise (AppErr (DatamaskAlreadyExists (ti_name name_ident)))
                | CreateIfNotExists \<Rightarrow> aret (Some (sv_data seq_id))
                | CreateOrReplace \<Rightarrow>
                    (let id_ident = into_t_ident (sv_data seq_id) (ti_tenant name_ident)
                     in abind (txn_delete_exact (nk_id N) id_ident (sv_seq seq_meta) TxnRequest_default) (\<lambda>txn.
                        abind (amap_err AppMetaError (clear_table_column_mask_policy P name_ident txn)) (\<lambda>txn.
                          insert_data_mask J P req (sv_seq seq_id) txn))))))"

definition create_data_mask :: "json \<Rightarrow> 'r datamask_pb \<Rightarrow> create_datamask_req \<Rightarrow> (kv_app_error, nat) api" where
  "create_data_mask J P req = txn_loop app_from_retry (create_data_mask_trial J P req) (txn_backoff None)"

definition drop_data_mask_trial ::
    "json \<Rightarrow> 'r datamask_pb \<Rightarrow> rstr tident \<Rightarrow> (kv_app_error, (nat seqv \<times> datamask_meta seqv) option option) api" where
  "drop_data_mask_trial J P name_ident =
     (let N = datamask_keys J P
      in abind (amap_err AppMetaError (get_id_value N name_ident)) (\<lambda>res.
           case res of
             None \<Rightarrow> aret (Some None)
           | Some (seq_id, seq_meta) \<Rightarrow>
               (let id_ident = into_t_ident (sv_data seq_id) (ti_tenant name_ident)
                in abind (txn_delete_exact (nk_name N) name_ident (sv_seq seq_id) TxnRequest_default) (\<lambda>txn.
                   abind (txn_delete_exact (nk_id N) id_ident (sv_seq seq_meta) txn) (\<lambda>txn.
                   abind (amap_err AppMetaError (clear_table_column_mask_policy P name_ident txn)) (\<lambda>txn.
                   abind (amap_err AppMetaError (send_txn J txn)) (\<lambda>(succ, responses).
                     aret (if succ then Some (Some (seq_id, seq_meta)) else None))))))))"

definition drop_data_mask ::
    "json \<Rightarrow> 'r datamask_pb \<Rightarrow> rstr tident \<Rightarrow> (kv_app_error, (nat seqv \<times> datamask_meta seqv) option) api" where
  "drop_data_mask J P name_ident = txn_loop app_from_retry (drop_data_mask_trial J P name_ident) (txn_backoff None)"

definition get_data_mask :: "json \<Rightarrow> 'r datamask_pb \<Rightarrow> rstr tident \<Rightarrow> (meta_error, datamask_meta seqv option) api" where
  "get_data_mask J P name_ident =
     abind (get_id_value (datamask_keys J P) name_ident) (\<lambda>res. aret (map_option snd res))"

end
