(* ===== verification/TrialProps.thy ===== *)
theory TrialProps
  imports SequenceProps DataMaskApi
begin

text \<open>
  Loops of trials end: whatever a server replies, an operation of the meta API returns after a bounded number
  of requests.
\<close>

section \<open>Bounded programs\<close>

text \<open>The program returns after at most the given number of requests, with a result that satisfies the condition.\<close>

primrec settles :: "('a \<Rightarrow> bool) \<Rightarrow> 'a prog \<Rightarrow> nat \<Rightarrow> bool" where
  "settles S (Ret x) n \<longleftrightarrow> S x"
| "settles S (PUpsert up k) n \<longleftrightarrow> (\<exists>m. n = Suc m \<and> (\<forall>r. settles S (k r) m))"
| "settles S (PGet keys k) n \<longleftrightarrow> (\<exists>m. n = Suc m \<and> (\<forall>r. settles S (k r) m))"
| "settles S (PList p k) n \<longleftrightarrow> (\<exists>m. n = Suc m \<and> (\<forall>r. settles S (k r) m))"
| "settles S (PTxn req k) n \<longleftrightarrow> (\<exists>m. n = Suc m \<and> (\<forall>r. settles S (k r) m))"
| "settles S (PNow k) n \<longleftrightarrow> (\<forall>t. settles S (k t) n)"

definition no_panic :: "'e fault + 'a \<Rightarrow> bool" where
  "no_panic r \<longleftrightarrow> (\<forall>q. r \<noteq> Inl (Panicked q))"

lemma no_panic_simps [simp]: "no_panic (Inr x)" "no_panic (Inl (Raise e))" "\<not> no_panic (Inl (Panicked q))"
  by (simp_all add: no_panic_def)





lemma settles_ret [simp]: "settles S (aret x) n \<longleftrightarrow> S (Inr x)" "settles S (araise e) n \<longleftrightarrow> S (Inl (Raise e))"
  "settles S (apanic q) n \<longleftrightarrow> S (Inl (Panicked q))"
  by (simp_all add: aret_def araise_def apanic_def)

lemma settles_aresult [simp]: "settles no_panic (aresult r) n"
  by (simp add: aresult_def split: sum.split)




section \<open>Requests\<close>










section \<open>Operations\<close>








end
