(* ===== verification/IdProps.thy ===== *)
theory IdProps
  imports ApiLogic KvServers ReferenceEnv
begin

text \<open>
  Properties of a meta node as a server of the key-value interface, and of the identifiers that clients draw
  from it.
\<close>

section \<open>Identifiers\<close>

lemma generator_key_total: "seg_ok (ig_resource g) \<Longrightarrow> \<exists>k. generator_key g = Inr k"
  using id_generator_key.to_string_segs [of g id_gen_prefix]
  by (simp add: generator_key_def id_gen_prefix_def seg_ok_def str_def valid_str_def valid_char_def)

definition id_post :: "meta_error fault + nat \<Rightarrow> ('lid, 'mem, unit) ghosted \<Rightarrow> ('lid, 'mem, unit) ghosted \<Rightarrow> bool" where
  "id_post x s s' \<longleftrightarrow>
     (case x of
        Inr n \<Rightarrow> sequence (f_sys (fst s)) < n \<and> n \<le> sequence (f_sys (fst s'))
      | Inl (Raise _) \<Rightarrow> True
      | Inl (Panicked _) \<Rightarrow> False)"

lemma fetch_id_wp:
  assumes "seg_ok (ig_resource g)" and "G s s'" and "\<And>s u. R s u \<Longrightarrow> flat_inv (fst u)"
  shows "wp R G id_post (fetch_id (generator_key g)) s s'"
proof -
  obtain key where "generator_key g = Inr key" using generator_key_total [OF assms(1)] by blast
  moreover have "wp R G id_post (abind (kv_upsert \<lparr>uk_key = key, uk_seq = GE 0, uk_value = Update [], uk_value_meta = None\<rparr>)
      (\<lambda>res. case ch_result res of None \<Rightarrow> apanic UnwrapNone | Some seq_v \<Rightarrow> aret (sv_seq seq_v))) s s'"
    unfolding wp_abind
  proof (rule wp_kv_upsert, goal_cases)
    case (3 f c t)
    have "flat_inv f" using assms(3) [OF 3(1)] by simp
    then have "f_cursor (snd (flat_clean t f)) \<le> u64_max" using writable_ok_clean [of f t] 3(2) by (simp add: writable_ok_def fits_def)
    then show ?case
      by (simp add: flat_mem_upsert_def flat_upsert_def seq_matches_def Let_def flat_put_lasting [OF no_expiration(2)] Change_new_def
          SeqV_with_meta_def id_post_def)
  qed (simp_all add: assms(2) id_post_def)
  ultimately show ?thesis by (simp add: fetch_id_def)
qed

definition returned_ids :: "(nat \<times> (meta_error fault + nat)) list \<Rightarrow> nat list" where
  "returned_ids d = List.map_filter (\<lambda>(i, x). case x of Inr n \<Rightarrow> Some n | Inl _ \<Rightarrow> None) d"

definition id_inv :: "('lid, 'mem, unit) ghosted \<Rightarrow> (nat \<times> (meta_error fault + nat)) list \<Rightarrow> bool" where
  "id_inv s d \<longleftrightarrow> sorted_wrt (<) (returned_ids d) \<and> (\<forall>n \<in> set (returned_ids d). n \<le> sequence (f_sys (fst s))) \<and>
     (\<forall>(i, x) \<in> set d. \<forall>q. x \<noteq> Inl (Panicked q))"

text \<open>
  C12. Clients that draw identifiers from any generators of a meta node, beside other clients that send
  arbitrary requests, with requests and replies lost at any point: the identifiers they receive increase in
  the order in which they are received, so no two clients ever receive the same one, and none panics.
\<close>

theorem fetched_ids_increase:
  assumes "env_ok E" and "list_all (\<lambda>g. seg_ok (ig_resource g)) gs"
    and "kvworld_steps (node_api E) allowed (kvworld_init (replica_init mem0 sub) (map (\<lambda>g. fetch_id (generator_key g)) gs)) w"
  shows "sorted_wrt (<) (returned_ids (kw_done w)) \<and> (\<forall>(i, x) \<in> set (kw_done w). \<forall>q. x \<noteq> Inl (Panicked q))"
proof -
  let ?ps = "map (\<lambda>g. fetch_id (generator_key g)) gs" and ?R = "\<lambda>i :: nat. evolved (\<lambda>_ _. True)" and ?G = "\<lambda>(i :: nat) _ _. True"
  have wp: "wp (?R i) (?G i) id_post (?ps ! i) s s'" if "i < length ?ps" "is_call (?ps ! i)" for i s s'
    using that(1) assms(2) by (auto intro!: fetch_id_wp simp: list_all_length evolved_def)
  have prot: "protocol id_inv ?R ?G (\<lambda>_. id_post) allowed (length ?ps)"
  proof (rule protocolI, goal_cases)
    case (4 i x f g c c' d)
    then show ?case
      by (fastforce simp: id_inv_def id_post_def returned_ids_def evolved_def evolves_def List.map_filter_def sorted_wrt_append
          split: sum.splits fault.splits)
  qed (auto simp: evolved_def id_inv_def evolves_def)
  have init: "id_inv (flat_init mem0, ()) []" by (simp add: id_inv_def returned_ids_def)
  show ?thesis
    by (rule node_server.kvworld_inv [OF assms(3) node_sim_init [OF assms(1)] init wp prot]) (simp_all add: id_inv_def)
qed

lemma generator_keys:
  "generator_key IdGenerator_database_id = Inr (str ''__fd_id_gen/database_id'')"
  "generator_key IdGenerator_table_id = Inr (str ''__fd_id_gen/table_id'')"
  by code_simp+

theorem fetched_ids_increase_witness:
  "\<exists>w. kvworld_steps (node_api env_ref) (\<lambda>_. True) (kvworld_init (replica_init () None)
      (map (\<lambda>g. fetch_id (generator_key g)) [IdGenerator_database_id, IdGenerator_table_id])) w \<and>
    returned_ids (kw_done w) = [1, 2] \<and> sorted_wrt (<) (returned_ids (kw_done w))"
proof -
  let ?ps = "map (\<lambda>g. fetch_id (generator_key g)) [IdGenerator_database_id, IdGenerator_table_id]"
  have "\<exists>f ps. schedule [(1, 1000), (0, 2000)] (flat_init () :: (nat, unit) flat, ?ps, []) = Some (f, ps, [(1, Inr 1), (0, Inr 2)])"
    by (simp add: serve_eval flat_init_def api_simps generator_keys str_def valid_char_def)
  then obtain f ps where "schedule [(1, 1000), (0, 2000)] (flat_init () :: (nat, unit) flat, ?ps, []) = Some (f, ps, [(1, Inr 1), (0, Inr 2)])"
    by blast
  then obtain w where
    w: "kvworld_steps (node_api env_ref) (\<lambda>_. True) (kvworld_init (replica_init () None) ?ps) w" "kw_done w = [(1, Inr 1), (0, Inr 2)]"
    by (rule node_schedule [OF _ env_ref_ok]) (rule that)
  have "list_all (\<lambda>g. seg_ok (ig_resource g)) [IdGenerator_database_id, IdGenerator_table_id]"
    by (simp add: IdGenerator_database_id_def IdGenerator_table_id_def seg_ok_def str_def valid_str_def valid_char_def)
  from fetched_ids_increase [OF env_ref_ok this w(1)] w show ?thesis
    by (auto simp: returned_ids_def List.map_filter_def)
qed

end
