(* ===== verification/TypedReads.thy ===== *)
theory TypedReads
  imports ApiLogic KvServers
begin

text \<open>
  Reads of typed values under interference, and what a conditional transaction makes of them. A client that has
  read a key knows that any later entry that is no newer than its read is the one it has read; this is what
  the conditions of its transaction test.
\<close>

section \<open>Typed entries\<close>

definition typed :: "'v pbcodec \<Rightarrow> ('lid, 'mem) flat \<Rightarrow> rstr \<Rightarrow> 'v option" where
  "typed P f s =
     (case ent f s of
        None \<Rightarrow> None
      | Some v \<Rightarrow> (case pb_decode P (sv_data v) of Inl _ \<Rightarrow> None | Inr x \<Rightarrow> Some x))"

lemma typed_cong: "ent g s = ent f s \<Longrightarrow> typed P g s = typed P f s"
  by (simp add: typed_def)

lemma lasting_cong: "ent g s = ent f s \<Longrightarrow> lasting g s = lasting f s"
  by (simp add: lasting_def)

text \<open>The codec reads what it has written.\<close>

definition pb_faithful :: "('v \<Rightarrow> bool) \<Rightarrow> 'v pbcodec \<Rightarrow> bool" where
  "pb_faithful valid P \<longleftrightarrow> (\<forall>v b. valid v \<longrightarrow> pb_encode P v = Inr b \<longrightarrow> pb_decode P b = Inr v)"

text \<open>
  \<open>held P s r n f\<close>: when the sequence number was \<open>n\<close>, the key was read with the result \<open>r\<close>, and \<open>f\<close> is a state since then.
\<close>

definition held :: "'v pbcodec \<Rightarrow> rstr \<Rightarrow> 'v seqv option \<Rightarrow> nat \<Rightarrow> ('lid, 'mem) flat \<Rightarrow> bool" where
  "held P s r n f \<longleftrightarrow> n \<le> sequence (f_sys f) \<and> opt_seq r \<le> n \<and> (r \<noteq> None \<longrightarrow> 0 < opt_seq r) \<and>
     (\<forall>h v. flat_inv h \<longrightarrow> evolves f h \<longrightarrow> ent h s = Some v \<longrightarrow> sv_seq v \<le> n \<longrightarrow> typed P h s = map_option sv_data r \<and> r \<noteq> None)"

lemma held_mono: "held P s r n f \<Longrightarrow> evolves f g \<Longrightarrow> held P s r n g"
  unfolding held_def by (meson evolves_def evolves_trans le_trans)

lemma held_now:
  assumes "flat_inv f" and "ent f s = Some v" and "pb_decode P (sv_data v) = Inr x"
  shows "held P s (Some \<lparr>sv_seq = sv_seq v, sv_meta = m, sv_data = x\<rparr>) (sequence (f_sys f)) f"
proof -
  have "ent h s = Some v" if "evolves f h" "ent h s = Some u" "sv_seq u \<le> sequence (f_sys f)" for h u
    using that assms(2) by (auto simp: evolves_def dest!: spec [of _ s])
  with flat_invD(3) [OF assms(1,2)] assms(3) show ?thesis by (auto simp: held_def typed_def)
qed

lemma held_none:
  assumes "flat_inv f" and "ent f s = None"
  shows "held P s None (sequence (f_sys f)) f"
  using assms(2) by (auto simp: held_def evolves_def dest!: spec [of _ s])

text \<open>A later entry with the number that was read is the one that was read.\<close>

lemma held_eq:
  assumes "held P s r n f" and "flat_inv f" and "opt_seq (ent f s) = opt_seq r"
  shows "typed P f s = map_option sv_data r"
proof (cases "ent f s")
  case None
  with assms(1,3) show ?thesis by (cases r) (auto simp: held_def typed_def)
next
  case (Some v)
  with assms show ?thesis by (auto simp: held_def)
qed

text \<open>A second read in between has read the same.\<close>

lemma held_between:
  assumes "held P s (Some r) n f" and "held P s r' n' f" and "n \<le> n'" and "flat_inv f" and "opt_seq (ent f s) = sv_seq r"
  shows "map_option sv_data r' = Some (sv_data r)"
proof -
  obtain v where v: "ent f s = Some v" "sv_seq v = sv_seq r"
    using assms(1,5) by (cases "ent f s") (auto simp: held_def)
  have "typed P f s = Some (sv_data r)" using held_eq [OF assms(1,4)] assms(5) by simp
  moreover have "sv_seq v \<le> n'" using assms(1,3) v by (simp add: held_def)
  then have "typed P f s = map_option sv_data r'" using assms(2,4) v(1) unfolding held_def by (meson evolves_refl)
  ultimately show ?thesis by simp
qed

section \<open>Programs that read\<close>

lemma wp_read:
  assumes "pk_string K k = Inr s" and "G u u'" and "\<And>f c. R u' (f, c) \<Longrightarrow> flat_inv f \<and> lasting f s"
    and "\<And>f c e. R u' (f, c) \<Longrightarrow> Q (Inl (Raise e)) (f, c) (f, c)"
    and "\<And>f c r. R u' (f, c) \<Longrightarrow> held (pk_value K) s r (sequence (f_sys f)) f \<Longrightarrow> typed (pk_value K) f s = map_option sv_data r \<Longrightarrow>
      (r = None \<Longrightarrow> ent f s = None) \<Longrightarrow> Q (Inr r) (f, c) (f, c)"
  shows "wp R G Q (get_pb K k) u u'"
proof (rule wp_get_pb [OF assms(1)], goal_cases)
  case (3 f c t)
  note inv = assms(3) [OF 3(1)]
  have "ent f s = None" using 3(3) flat_read_lasting inv by metis
  with assms(5) [OF 3(1) held_none] inv show ?case by (simp add: typed_def)
next
  case (4 f c t v x m)
  note inv = assms(3) [OF 4(1)]
  have v: "ent f s = Some v" by (rule flat_read_SomeD [OF 4(3)])
  from assms(5) [OF 4(1) held_now [OF _ v 4(4)]] inv v 4(4) show ?case by (simp add: typed_def)
qed (fact assms(2,4))+

lemma wp_read_bind:
  assumes "pk_string K k = Inr s" and "G u u'" and "\<And>f c. R u' (f, c) \<Longrightarrow> flat_inv f \<and> lasting f s"
    and "\<And>f c e. R u' (f, c) \<Longrightarrow> Q (Inl (Raise e)) (f, c) (f, c)"
    and "\<And>f c r. R u' (f, c) \<Longrightarrow> held (pk_value K) s r (sequence (f_sys f)) f \<Longrightarrow> typed (pk_value K) f s = map_option sv_data r \<Longrightarrow>
      (r = None \<Longrightarrow> ent f s = None) \<Longrightarrow> wp R G Q (h r) (f, c) (f, c)"
  shows "wp R G Q (abind (amap_err g (get_pb K k)) h) u u'"
  unfolding wp_abind wp_amap_err by (rule wp_read [OF assms(1)]) (simp_all add: assms(2-5))

section \<open>Transactions on typed entries\<close>

text \<open>What the operations of a transaction make of a typed entry.\<close>

definition final_typed :: "'v pbcodec \<Rightarrow> bytes option option \<Rightarrow> 'v option \<Rightarrow> 'v option" where
  "final_typed P r old =
     (case r of
        None \<Rightarrow> old
      | Some None \<Rightarrow> None
      | Some (Some b) \<Rightarrow> (case pb_decode P b of Inl _ \<Rightarrow> None | Inr x \<Rightarrow> Some x))"

lemma final_typed_simps [simp]:
  "final_typed P None old = old" "final_typed P (Some None) old = None"
  "pb_decode P b = Inr x \<Longrightarrow> final_typed P (Some (Some b)) old = Some x"
  by (simp_all add: final_typed_def)

lemma txn_typed:
  assumes "simple_txn req" and "flat_inv f" and "t < 2 ^ 64" and "lasting f s"
  shows "typed P (snd (flat_mem_txn t req f)) s = final_typed P (if txn_holds t req f then ops_final (tr_if_then req) s else None) (typed P f s)"
    and "lasting (snd (flat_mem_txn t req f)) s"
proof -
  let ?r = "if txn_holds t req f then ops_final (tr_if_then req) s else None" and ?v = "ent (snd (flat_mem_txn t req f)) s"
  have "becomes ?r (sequence (f_sys f)) (ent f s) ?v"
    using mem_txn_simple(3) [OF assms(1-3), of s] by (simp add: flat_read_lasting [OF assms(4)])
  then have "becomes r n (ent f s) ?v \<Longrightarrow> typed P (snd (flat_mem_txn t req f)) s = final_typed P r (typed P f s) \<and>
      lasting (snd (flat_mem_txn t req f)) s" for r n
    using assms(4) by (cases r; cases "the r") (auto simp: typed_def final_typed_def lasting_def)
  with \<open>becomes ?r _ _ _\<close> show "typed P (snd (flat_mem_txn t req f)) s = final_typed P ?r (typed P f s)"
    and "lasting (snd (flat_mem_txn t req f)) s" by blast+
qed

text \<open>The conditions of a transaction that test sequence numbers.\<close>

lemma txn_cond_seq_eq: "pk_string K k = Inr s \<Longrightarrow> txn_cond_seq K k CondEq n = Inr (cond_eq_seq s n)"
  by (simp add: txn_cond_seq_def cond_eq_seq_def cond_match_seq_def)

lemma clean_lasting: "flat_inv f \<Longrightarrow> lasting f s \<Longrightarrow> ent (snd (flat_clean t f)) s = ent f s"
  by (simp add: flat_clean_ent flat_read_lasting)

lemma opt_seq_0: "flat_inv f \<Longrightarrow> opt_seq (ent f s) = 0 \<longleftrightarrow> ent f s = None"
  using flat_invD(3) [of f s] by (cases "ent f s") force+

lemma txn_new_simple: "list_all plain_op ops \<Longrightarrow> simple_txn (TxnRequest_new cs ops)"
  by (simp add: simple_txn_def TxnRequest_new_def)

lemma txn_new_parts [simp]: "tr_condition (TxnRequest_new cs ops) = cs" "tr_if_then (TxnRequest_new cs ops) = ops"
  by (simp_all add: TxnRequest_new_def)

lemma put_ops [simp]:
  "plain_op (TxnOp_put s b)" "plain_op (TxnOp_delete s)" "op_final (TxnOp_put s b) k = (if s = k then Some (Some b) else None)"
  "op_final (TxnOp_delete s) k = (if s = k then Some None else None)"
  by (simp_all add: TxnOp_put_def TxnOp_put_with_ttl_def TxnOp_delete_def TxnOp_delete_exact_def)

lemma push_new [simp]:
  "TxnRequest_default = TxnRequest_new [] []" "push_then x (TxnRequest_new cs ops) = TxnRequest_new cs (ops @ [x])"
  "push_condition c (TxnRequest_new cs ops) = TxnRequest_new (cs @ [c]) ops"
  by (simp_all add: TxnRequest_default_def TxnRequest_new_def push_then_def push_condition_def)

lemma ops_final_append: "ops_final (xs @ ys) k = (case ops_final ys k of None \<Rightarrow> ops_final xs k | Some r \<Rightarrow> Some r)"
  by (induction xs) (auto split: option.split)

text \<open>Entries that another request does not write.\<close>

lemma upsert_frame:
  assumes "flat_inv f" and "lasting f s" and "\<not> cmd_writes (CmdUpsertKV up) s"
  shows "ent (snd (flat_mem_upsert t up f)) s = ent f s"
  using mem_upsert_other [OF assms(1,3)] flat_read_lasting [OF assms(2)] by simp

lemma txn_frame:
  assumes "flat_inv f" and "lasting f s" and "\<not> cmd_writes (Transaction req) s"
  shows "ent (snd (flat_mem_txn t req f)) s = ent f s"
  using mem_txn_other [OF assms(1,3)] flat_read_lasting [OF assms(2)] by simp

section \<open>What a server returns\<close>

text \<open>The value that a read of a typed key returns from a server at a time.\<close>

definition server_value :: "'s kvapi \<Rightarrow> 's \<Rightarrow> nat \<Rightarrow> ('k, 'v) pbkey \<Rightarrow> 'k \<Rightarrow> 'v option" where
  "server_value A s t K k =
     (case pk_string K k of
        Inl _ \<Rightarrow> None
      | Inr key \<Rightarrow>
          (case ka_get_stream A s t [key] of
             Inr [Inr item] \<Rightarrow>
               (case si_value item of
                  None \<Rightarrow> None
                | Some pb \<Rightarrow> (case pb_decode (pk_value K) (sv_data (seqv_from_pb pb)) of Inl _ \<Rightarrow> None | Inr x \<Rightarrow> Some x))
           | _ \<Rightarrow> None))"

context kv_server
begin

lemma server_typed:
  assumes "sim s f" and "t < 2 ^ 64" and "pk_string K k = Inr key" and "lasting f key"
  shows "server_value A s t K k = typed (pk_value K) f key"
proof -
  have "sv_data (seqv_from_pb (seqv_to_pb v)) = sv_data v" for v :: "bytes seqv" using wire_simps(2) [of v] by (simp add: wire_def)
  then show ?thesis
    using get_law [OF assms(1,2), of "[key]"] assms(3)
    by (auto simp: server_value_def typed_def flat_item_def flat_read_lasting [OF assms(4)] split: option.split sum.split)
qed

end

end
