(* ===== verification/ObjectApi.thy ===== *)
theory ObjectApi
  imports CrudApi
begin

text \<open>
  Schema objects beside databases and tables: the operations of \<open>schema_api_impl.rs\<close> in \<open>src/meta/api/src\<close> on indexes,
  virtual columns, table locks, catalogs, least visible times and dictionaries, and their types of
  \<open>schema\<close> in \<open>src/meta/app/src\<close>. Times are numbers of milliseconds. Of the values of catalogs and dictionaries, and of the
  fields of virtual columns, the operations use nothing: they are type parameters.
\<close>

text \<open>\<open>serialize_struct\<close> in a function that returns a \<open>KVAppError\<close> or a \<open>MetaError\<close>.\<close>

definition app_serialize :: "'v pbcodec \<Rightarrow> 'v \<Rightarrow> (kv_app_error, bytes) api" where
  "app_serialize P v = amap_err (\<lambda>e. AppMetaError (NetworkError e)) (aresult (serialize_struct P v))"

text \<open>\<open>await??\<close>: the error of the request, or the error of the operation.\<close>

definition app_flatten :: "(meta_txn_error, app_error + 'a) api \<Rightarrow> (kv_app_error, 'a) api" where
  "app_flatten p = abind (amap_err app_from_txn p) (\<lambda>r. amap_err AppErr (aresult r))"

section \<open>Indexes\<close>

datatype index_type = AGGREGATING | JOIN

record index_meta =
  im_table_id :: nat
  im_index_type :: index_type
  im_created_on :: nat
  im_dropped_on :: "nat option"
  im_updated_on :: "nat option"
  im_original_query :: rstr
  im_query :: rstr
  im_sync_creation :: bool

datatype marked_deleted_index_type = MarkedAggregating | MarkedInverted

record marked_deleted_index_meta =
  md_dropped_on :: nat
  md_index_type :: marked_deleted_index_type

record create_index_req =
  ci_create_option :: create_option
  ci_name_ident :: "rstr tident"
  ci_meta :: index_meta

record list_indexes_req =
  li_tenant :: tenant
  li_table_id :: "nat option"

text \<open>The codecs of the values.\<close>

record index_pb =
  ip_meta :: "index_meta pbcodec"
  ip_name :: "rstr tident_raw pbcodec"
  ip_marked :: "marked_deleted_index_meta pbcodec"

definition index_keys :: "json \<Rightarrow> index_pb \<Rightarrow> (rstr tident, index_meta) name_id_keys" where
  "index_keys J P =
     \<lparr>nk_name = \<lparr>pk_prefix = rs_prefix IndexNameIdent_rsc, pk_codec = tident_codec IndexNameIdent_rsc string_codec, pk_value = data_id_pb J\<rparr>,
      nk_id = \<lparr>pk_prefix = rs_prefix IndexIdIdent_rsc, pk_codec = tident_codec IndexIdIdent_rsc data_id_codec, pk_value = ip_meta P\<rparr>,
      nk_tenant = ti_tenant\<rparr>"

definition index_id_to_name_key :: "index_pb \<Rightarrow> (nat tident, rstr tident_raw) pbkey" where
  "index_id_to_name_key P =
     \<lparr>pk_prefix = rs_prefix IndexIdToNameIdent_rsc, pk_codec = tident_codec IndexIdToNameIdent_rsc data_id_codec, pk_value = ip_name P\<rparr>"

definition marked_deleted_index_key :: "index_pb \<Rightarrow> (marked_deleted_index_id tident, marked_deleted_index_meta) pbkey" where
  "marked_deleted_index_key P =
     \<lparr>pk_prefix = rs_prefix MarkedDeletedIndexIdIdent_rsc,
      pk_codec = tident_codec MarkedDeletedIndexIdIdent_rsc marked_deleted_index_codec, pk_value = ip_marked P\<rparr>"

definition marked_deleted_table_index_key ::
    "index_pb \<Rightarrow> (marked_deleted_table_index_id tident, marked_deleted_index_meta) pbkey" where
  "marked_deleted_table_index_key P =
     \<lparr>pk_prefix = rs_prefix MarkedDeletedTableIndexIdIdent_rsc,
      pk_codec = tident_codec MarkedDeletedTableIndexIdIdent_rsc marked_deleted_table_index_codec, pk_value = ip_marked P\<rparr>"

text \<open>A key and a value that marks an index as deleted; \<open>now\<close> is the time read in the function.\<close>

definition mark_record :: "('k, 'v) pbkey \<Rightarrow> 'k \<Rightarrow> 'v \<Rightarrow> meta_error fault + rstr \<times> bytes" where
  "mark_record K k v =
     (case pk_string K k of
        Inl q \<Rightarrow> Inl (Panicked q)
      | Inr s \<Rightarrow> (case serialize_struct (pk_value K) v of Inl e \<Rightarrow> Inl (Raise (NetworkError e)) | Inr b \<Rightarrow> Inr (s, b)))"

definition mark_index_as_deleted :: "index_pb \<Rightarrow> tenant \<Rightarrow> nat \<Rightarrow> nat \<Rightarrow> nat \<Rightarrow> meta_error fault + rstr \<times> bytes" where
  "mark_index_as_deleted P tenant table_id index_id now =
     mark_record (marked_deleted_index_key P)
       (TIdent_new_generic tenant \<lparr>mdi_table_id = table_id, mdi_index_id = index_id\<rparr>)
       \<lparr>md_dropped_on = now, md_index_type = MarkedAggregating\<rparr>"

definition mark_table_index_as_deleted ::
    "index_pb \<Rightarrow> tenant \<Rightarrow> nat \<Rightarrow> rstr \<Rightarrow> rstr \<Rightarrow> nat \<Rightarrow> meta_error fault + rstr \<times> bytes" where
  "mark_table_index_as_deleted P tenant table_id index_name index_version now =
     mark_record (marked_deleted_table_index_key P)
       (TIdent_new_generic tenant
         \<lparr>mdt_table_id = table_id, mdt_index_name = index_name, mdt_index_version = index_version\<rparr>)
       \<lparr>md_dropped_on = now, md_index_type = MarkedInverted\<rparr>"

definition create_index :: "json \<Rightarrow> index_pb \<Rightarrow> create_index_req \<Rightarrow> (kv_app_error, nat) api" where
  "create_index J P req =
     (let name_ident = ci_name_ident req; overriding = is_overriding (ci_create_option req)
      in abind (app_serialize (ip_name P) (to_raw name_ident)) (\<lambda>name_ident_raw.
         abind (amap_err app_from_txn (create_id_value J (index_keys J P) name_ident (ci_meta req) overriding
           (\<lambda>i. rbind (pk_string (index_id_to_name_key P) (TIdent_new_generic (ti_tenant name_ident) i)) (\<lambda>s. Inr [(s, name_ident_raw)]))
           (\<lambda>now index_id value.
              rbind (mark_index_as_deleted P (ti_tenant name_ident) (im_table_id value) index_id now) (\<lambda>kv. Inr [kv])))) (\<lambda>create_res.
           case create_res of
             Inl i \<Rightarrow> aret i
           | Inr existent \<Rightarrow>
               (case ci_create_option req of
                  Create \<Rightarrow> araise (AppErr (IndexAlreadyExists (ti_name name_ident)))
                | CreateIfNotExists \<Rightarrow> aret (sv_data existent)
                | CreateOrReplace \<Rightarrow> apanic UnreachableCode))))"

definition drop_index_trial ::
    "json \<Rightarrow> index_pb \<Rightarrow> rstr tident \<Rightarrow> (meta_txn_error, (nat seqv \<times> index_meta seqv) option option) api" where
  "drop_index_trial J P name_ident =
     (let N = index_keys J P
      in abind (amap_err TxnMetaError (get_id_value N name_ident)) (\<lambda>get_res.
           case get_res of
             None \<Rightarrow> aret (Some None)
           | Some (seq_id, seq_meta) \<Rightarrow>
               (let id_ident = into_t_ident (sv_data seq_id) (ti_tenant name_ident)
                in abind (txn_delete_exact (nk_name N) name_ident (sv_seq seq_id) TxnRequest_default) (\<lambda>txn.
                   abind (txn_delete_exact (nk_id N) id_ident (sv_seq seq_meta) txn) (\<lambda>txn.
                   abind (apure (pk_string (index_id_to_name_key P) (TIdent_new_generic (ti_tenant name_ident) (sv_data seq_id)))) (\<lambda>s.
                   let txn = push_then (TxnOp_delete s) txn
                   in abind now_utc (\<lambda>now.
                      abind (amap_err TxnMetaError (afault
                        (mark_index_as_deleted P (ti_tenant name_ident) (im_table_id (sv_data seq_meta)) (sv_data seq_id) now))) (\<lambda>(key, value).
                      abind (amap_err TxnMetaError (send_txn J (push_then (TxnOp_put key value) txn))) (\<lambda>(succ, responses).
                        aret (if succ then Some (Some (seq_id, seq_meta)) else None))))))))))"

definition drop_index :: "json \<Rightarrow> index_pb \<Rightarrow> rstr tident \<Rightarrow> (meta_txn_error, (nat seqv \<times> index_meta seqv) option) api" where
  "drop_index J P name_ident = txn_loop TxnRetryMaxTimes (drop_index_trial J P name_ident) (txn_backoff None)"

definition get_index :: "json \<Rightarrow> index_pb \<Rightarrow> rstr tident \<Rightarrow> (meta_error, (nat \<times> index_meta) option) api" where
  "get_index J P name_ident =
     abind (get_id_value (index_keys J P) name_ident) (\<lambda>res.
       case res of None \<Rightarrow> aret None | Some (seq_id, seq_meta) \<Rightarrow> aret (Some (sv_data seq_id, sv_data seq_meta)))"

text \<open>The listed records grouped by the identifier of their table.\<close>

definition group_marked :: "(nat \<times> nat \<times> 'm) list \<Rightarrow> (nat, (nat \<times> 'm) list) btree" where
  "group_marked kvs =
     fold (\<lambda>(t, i, m) acc. btree_insert t ((case btree_get acc t of None \<Rightarrow> [] | Some xs \<Rightarrow> xs) @ [(i, m)]) acc) kvs []"

definition list_marked_deleted_indexes ::
    "index_pb \<Rightarrow> tenant \<Rightarrow> nat option \<Rightarrow> (meta_error, (nat, (nat \<times> marked_deleted_index_meta) list) btree) api" where
  "list_marked_deleted_indexes P tenant table_id =
     (let (level, ident) =
        (case table_id of
           Some table_id \<Rightarrow> (1, TIdent_new_generic tenant \<lparr>mdi_table_id = table_id, mdi_index_id = 0\<rparr>)
         | None \<Rightarrow> (2, TIdent_new_generic tenant \<lparr>mdi_table_id = 0, mdi_index_id = 0\<rparr>))
      in abind (list_pb_vec (marked_deleted_index_key P) level ident) (\<lambda>list_res.
           aret (group_marked (map (\<lambda>(k, v). (mdi_table_id (ti_name k), mdi_index_id (ti_name k), sv_data v)) list_res))))"

definition update_index :: "json \<Rightarrow> index_pb \<Rightarrow> nat tident \<Rightarrow> index_meta \<Rightarrow> (meta_error, index_meta change) api" where
  "update_index J P id_ident meta = update_by_id (index_keys J P) id_ident meta"

definition list_indexes :: "json \<Rightarrow> index_pb \<Rightarrow> list_indexes_req \<Rightarrow> (kv_app_error, (rstr \<times> nat \<times> index_meta) list) api" where
  "list_indexes J P req =
     abind (amap_err AppMetaError (list_id_value (index_keys J P) 1 (TIdent_new_generic (li_tenant req) (str ''dummy'')))) (\<lambda>name_id_metas.
       aret (map (\<lambda>(k, i, seq_meta). (ti_name k, i, sv_data seq_meta))
         (filter (\<lambda>(k, i, seq_meta). li_table_id req = None \<or> li_table_id req = Some (im_table_id (sv_data seq_meta))) name_id_metas)))"

text \<open>Removal of the marks: a transaction without conditions.\<close>

fun push_deletes :: "('k, 'v) pbkey \<Rightarrow> 'k list \<Rightarrow> txn_request \<Rightarrow> ('e, txn_request) api" where
  "push_deletes K [] txn = aret txn"
| "push_deletes K (k # ks) txn = abind (apure (txn_op_del K k)) (\<lambda>d. push_deletes K ks (push_then d txn))"

definition remove_marked_deleted_index_ids ::
    "json \<Rightarrow> index_pb \<Rightarrow> tenant \<Rightarrow> nat \<Rightarrow> nat list \<Rightarrow> (meta_txn_error, unit) api" where
  "remove_marked_deleted_index_ids J P tenant table_id index_ids =
     txn_loop TxnRetryMaxTimes
       (abind (push_deletes (marked_deleted_index_key P)
          (map (\<lambda>i. TIdent_new_generic tenant \<lparr>mdi_table_id = table_id, mdi_index_id = i\<rparr>) index_ids) TxnRequest_default) (\<lambda>txn.
        abind (amap_err TxnMetaError (send_txn J txn)) (\<lambda>(succ, responses). aret (if succ then Some () else None))))
       (txn_backoff None)"

definition remove_marked_deleted_table_indexes ::
    "json \<Rightarrow> index_pb \<Rightarrow> tenant \<Rightarrow> nat \<Rightarrow> (rstr \<times> rstr) list \<Rightarrow> (meta_txn_error, unit) api" where
  "remove_marked_deleted_table_indexes J P tenant table_id indexes =
     txn_loop TxnRetryMaxTimes
       (abind (push_deletes (marked_deleted_table_index_key P)
          (map (\<lambda>(n, v). TIdent_new_generic tenant \<lparr>mdt_table_id = table_id, mdt_index_name = n, mdt_index_version = v\<rparr>) indexes)
          TxnRequest_default) (\<lambda>txn.
        abind (amap_err TxnMetaError (send_txn J txn)) (\<lambda>(succ, responses). aret (if succ then Some () else None))))
       (txn_backoff None)"

section \<open>Virtual columns\<close>

record 'f virtual_column_meta =
  vc_table_id :: nat
  vc_virtual_columns :: "'f list"
  vc_created_on :: nat
  vc_updated_on :: "nat option"
  vc_auto_generated :: bool

record 'f create_virtual_column_req =
  cv_create_option :: create_option
  cv_name_ident :: "nat tident"
  cv_virtual_columns :: "'f list"
  cv_auto_generated :: bool

record 'f update_virtual_column_req =
  uv_if_exists :: bool
  uv_name_ident :: "nat tident"
  uv_virtual_columns :: "'f list"
  uv_auto_generated :: bool

record drop_virtual_column_req =
  dv_if_exists :: bool
  dv_name_ident :: "nat tident"

definition virtual_column_key :: "'f virtual_column_meta pbcodec \<Rightarrow> (nat tident, 'f virtual_column_meta) pbkey" where
  "virtual_column_key P =
     \<lparr>pk_prefix = rs_prefix VirtualColumnIdent_rsc, pk_codec = tident_codec VirtualColumnIdent_rsc u64_codec, pk_value = P\<rparr>"

definition create_virtual_column ::
    "'f virtual_column_meta pbcodec \<Rightarrow> 'f create_virtual_column_req \<Rightarrow> (kv_app_error, unit) api" where
  "create_virtual_column P req =
     abind now_utc (\<lambda>now.
     let meta = \<lparr>vc_table_id = ti_name (cv_name_ident req), vc_virtual_columns = cv_virtual_columns req, vc_created_on = now,
           vc_updated_on = None, vc_auto_generated = cv_auto_generated req\<rparr>
     in abind (amap_err app_from_txn (insert_name_value_with_create_option (virtual_column_key P) (cv_name_ident req) meta (cv_create_option req))) (\<lambda>r.
          case r of Inl i \<Rightarrow> araise (AppErr (VirtualColumnAlreadyExists i)) | Inr () \<Rightarrow> aret ()))"

definition unknown_virtual_column :: "bool \<Rightarrow> nat tident \<Rightarrow> app_error + unit" where
  "unknown_virtual_column if_exists ident = (if if_exists then Inr () else Inl (UnknownVirtualColumn (ti_name ident)))"

definition update_virtual_column ::
    "json \<Rightarrow> 'f virtual_column_meta pbcodec \<Rightarrow> 'f update_virtual_column_req \<Rightarrow> (kv_app_error, unit) api" where
  "update_virtual_column J P req =
     app_flatten (crud_update_existing J (virtual_column_key P) (uv_name_ident req)
       (\<lambda>now meta. Some (meta\<lparr>vc_virtual_columns := uv_virtual_columns req, vc_updated_on := Some now,
          vc_auto_generated := uv_auto_generated req\<rparr>, None))
       (unknown_virtual_column (uv_if_exists req) (uv_name_ident req)))"

definition drop_virtual_column ::
    "'f virtual_column_meta pbcodec \<Rightarrow> drop_virtual_column_req \<Rightarrow> (kv_app_error, unit) api" where
  "drop_virtual_column P req =
     app_flatten (crud_remove (virtual_column_key P) (dv_name_ident req) (unknown_virtual_column (dv_if_exists req) (dv_name_ident req)))"

definition list_virtual_columns ::
    "'f virtual_column_meta pbcodec \<Rightarrow> tenant \<Rightarrow> nat option \<Rightarrow> (kv_app_error, 'f virtual_column_meta list) api" where
  "list_virtual_columns P tenant table_id =
     amap_err AppMetaError
       (case table_id of
          Some table_id \<Rightarrow>
            abind (get_pb (virtual_column_key P) (TIdent_new_generic tenant table_id)) (\<lambda>seq_meta.
              aret (case seq_meta of None \<Rightarrow> [] | Some v \<Rightarrow> [sv_data v]))
        | None \<Rightarrow>
            abind (list_pb_values (virtual_column_key P) 1 (TIdent_new_generic tenant 0)) (\<lambda>strm. afault (try_collect strm)))"

section \<open>Table locks\<close>

datatype lock_type = TABLE

record lock_meta =
  lk_user :: rstr
  lk_node :: rstr
  lk_query_id :: rstr
  lk_created_on :: nat
  lk_acquired_on :: "nat option"
  lk_lock_type :: lock_type
  lk_extra_info :: "(rstr, rstr) btree"

datatype lock_key = LockTable (lock_tenant: tenant) (lock_table_id: nat)

definition TableLockIdent_new :: "tenant \<Rightarrow> nat \<Rightarrow> nat \<Rightarrow> table_id_revision tident" where
  "TableLockIdent_new tenant table_id revision = TIdent_new_generic tenant \<lparr>trv_table_id = table_id, trv_revision = revision\<rparr>"

definition get_extra_info :: "lock_key \<Rightarrow> (rstr, rstr) btree" where
  "get_extra_info k = (case k of LockTable tenant table_id \<Rightarrow> [])"

definition lock_key_type :: "lock_key \<Rightarrow> lock_type" where
  "lock_key_type k = (case k of LockTable tenant table_id \<Rightarrow> TABLE)"

text \<open>A \<open>DirName\<close> is a level and a key.\<close>

definition gen_prefix :: "lock_key \<Rightarrow> nat \<times> table_id_revision tident" where
  "gen_prefix k = (case k of LockTable tenant table_id \<Rightarrow> (1, TableLockIdent_new tenant table_id 0))"

definition gen_key :: "lock_key \<Rightarrow> nat \<Rightarrow> table_id_revision tident" where
  "gen_key k revision = (case k of LockTable tenant table_id \<Rightarrow> TableLockIdent_new tenant table_id revision)"

record create_lock_rev_req =
  cl_lock_key :: lock_key
  cl_ttl :: nat
  cl_user :: rstr
  cl_node :: rstr
  cl_query_id :: rstr

record extend_lock_rev_req =
  el_lock_key :: lock_key
  el_ttl :: nat
  el_revision :: nat
  el_acquire_lock :: bool

definition table_lock_key :: "lock_meta pbcodec \<Rightarrow> (table_id_revision tident, lock_meta) pbkey" where
  "table_lock_key P =
     \<lparr>pk_prefix = rs_prefix TableLockIdent_rsc, pk_codec = tident_codec TableLockIdent_rsc table_id_revision_codec, pk_value = P\<rparr>"

definition id_gen_key :: "(id_generator, unit) pbkey" where
  "id_gen_key =
     \<lparr>pk_prefix = id_gen_prefix, pk_codec = id_generator_codec,
      pk_value = \<lparr>pb_encode = (\<lambda>_. Inr []), pb_decode = (\<lambda>_. Inr ())\<rparr>\<rparr>"

definition list_lock_revisions :: "lock_meta pbcodec \<Rightarrow> lock_key \<Rightarrow> (kv_app_error, (nat \<times> lock_meta) list) api" where
  "list_lock_revisions P lock_key =
     (case gen_prefix lock_key of (level, ident) \<Rightarrow>
        amap_err AppMetaError (abind (list_pb (table_lock_key P) level ident) (\<lambda>strm.
          afault (try_collect (map (\<lambda>r. rbind r (\<lambda>itm. Inr (trv_revision (ti_name (ne_key itm)), sv_data (ne_seqv itm)))) strm)))))"

text \<open>A revision is one more than the sequence number of the last write to the generator.\<close>

definition create_lock_trial :: "json \<Rightarrow> lock_meta pbcodec \<Rightarrow> create_lock_rev_req \<Rightarrow> (kv_app_error, nat option) api" where
  "create_lock_trial J P req =
     (let lock_key = cl_lock_key req; id_generator = IdGenerator_table_lock_id
      in abind (amap_err AppMetaError (get_seq id_gen_key id_generator)) (\<lambda>current_rev.
         let revision = current_rev + 1; key = gen_key lock_key revision
         in abind now_utc (\<lambda>now.
            let lock_meta = \<lparr>lk_user = cl_user req, lk_node = cl_node req, lk_query_id = cl_query_id req, lk_created_on = now,
                  lk_acquired_on = None, lk_lock_type = lock_key_type lock_key, lk_extra_info = get_extra_info lock_key\<rparr>
            in abind (apure (txn_cond_seq id_gen_key id_generator CondEq current_rev)) (\<lambda>c1.
               abind (apure (txn_cond_seq (table_lock_key P) key CondEq 0)) (\<lambda>c2.
               abind (apure (txn_op_put id_gen_key id_generator [])) (\<lambda>p1.
               abind (txn_op_put_pb app_invalid_argument (table_lock_key P) key lock_meta (Some (cl_ttl req))) (\<lambda>p2.
               abind (amap_err AppMetaError (send_txn J (TxnRequest_new [c1, c2] [p1, p2]))) (\<lambda>(succ, responses).
                 aret (if succ then Some revision else None)))))))))"

definition create_lock_revision :: "json \<Rightarrow> lock_meta pbcodec \<Rightarrow> create_lock_rev_req \<Rightarrow> (kv_app_error, nat) api" where
  "create_lock_revision J P req = txn_loop app_from_retry (create_lock_trial J P req) (txn_backoff None)"

definition extend_lock_revision :: "json \<Rightarrow> lock_meta pbcodec \<Rightarrow> extend_lock_rev_req \<Rightarrow> (kv_app_error, unit) api" where
  "extend_lock_revision J P req =
     app_flatten (crud_update_existing J (table_lock_key P) (gen_key (el_lock_key req) (el_revision req))
       (\<lambda>now lock_meta. Some (if el_acquire_lock req then lock_meta\<lparr>lk_acquired_on := Some now\<rparr> else lock_meta, Some (el_ttl req)))
       (Inl (TableLockExpired (lock_table_id (el_lock_key req)))))"

text \<open>The error type of the removal has no use here: its result is always \<open>Ok\<close>.\<close>

definition delete_lock_revision :: "lock_meta pbcodec \<Rightarrow> lock_key \<Rightarrow> nat \<Rightarrow> (kv_app_error, unit) api" where
  "delete_lock_revision P lock_key revision =
     abind (amap_err app_from_txn (crud_remove (table_lock_key P) (gen_key lock_key revision) (Inr () :: unit + unit))) (\<lambda>r.
       case r of Inl () \<Rightarrow> apanic UnwrapNone | Inr () \<Rightarrow> aret ())"

record lock_info =
  lo_table_id :: nat
  lo_revision :: nat
  lo_meta :: lock_meta

definition locks_of_tenant :: "tenant \<Rightarrow> (nat \<times> table_id_revision tident) list" where
  "locks_of_tenant tenant = [(2, TableLockIdent_new tenant 0 0)]"

definition locks_of_tables :: "tenant \<Rightarrow> nat list \<Rightarrow> (nat \<times> table_id_revision tident) list" where
  "locks_of_tables tenant table_ids = map (\<lambda>table_id. (1, TableLockIdent_new tenant table_id 0)) table_ids"

fun list_locks_loop :: "lock_meta pbcodec \<Rightarrow> (nat \<times> table_id_revision tident) list \<Rightarrow> (meta_error, lock_info list) api" where
  "list_locks_loop P [] = aret []"
| "list_locks_loop P ((level, ident) # rest) =
     abind (list_pb (table_lock_key P) level ident) (\<lambda>strm.
     abind (afault (try_collect (map (\<lambda>r. rbind r (\<lambda>itm.
       Inr \<lparr>lo_table_id = trv_table_id (ti_name (ne_key itm)), lo_revision = trv_revision (ti_name (ne_key itm)),
            lo_meta = sv_data (ne_seqv itm)\<rparr>)) strm))) (\<lambda>locks.
     abind (list_locks_loop P rest) (\<lambda>reply. aret (locks @ reply))))"

definition list_locks :: "lock_meta pbcodec \<Rightarrow> (nat \<times> table_id_revision tident) list \<Rightarrow> (kv_app_error, lock_info list) api" where
  "list_locks P dirs = amap_err AppMetaError (list_locks_loop P dirs)"

section \<open>Catalogs\<close>

record 'c catalog_pb =
  cp_meta :: "'c pbcodec"
  cp_name :: "rstr tident_raw pbcodec"

record 'c catalog_info =
  ca_id :: nat
  ca_name :: "rstr tident_raw"
  ca_meta :: 'c

definition CatalogInfo_new :: "rstr tident \<Rightarrow> nat \<Rightarrow> 'c \<Rightarrow> 'c catalog_info" where
  "CatalogInfo_new name_ident i meta =
     \<lparr>ca_id = ti_name (TIdent_new_generic (ti_tenant name_ident) i),
      ca_name = \<lparr>tr_tenant = tenant_name (ti_tenant name_ident), tr_name = ti_name name_ident\<rparr>, ca_meta = meta\<rparr>"

definition catalog_keys :: "json \<Rightarrow> 'c catalog_pb \<Rightarrow> (rstr tident, 'c) name_id_keys" where
  "catalog_keys J P =
     \<lparr>nk_name = \<lparr>pk_prefix = rs_prefix CatalogNameIdent_rsc, pk_codec = tident_codec CatalogNameIdent_rsc string_codec, pk_value = data_id_pb J\<rparr>,
      nk_id = \<lparr>pk_prefix = rs_prefix CatalogIdIdent_rsc, pk_codec = tident_codec CatalogIdIdent_rsc data_id_codec, pk_value = cp_meta P\<rparr>,
      nk_tenant = ti_tenant\<rparr>"

definition catalog_id_to_name_key :: "'c catalog_pb \<Rightarrow> (nat tident, rstr tident_raw) pbkey" where
  "catalog_id_to_name_key P =
     \<lparr>pk_prefix = rs_prefix CatalogIdToNameIdent_rsc, pk_codec = tident_codec CatalogIdToNameIdent_rsc data_id_codec, pk_value = cp_name P\<rparr>"

definition create_catalog :: "json \<Rightarrow> 'c catalog_pb \<Rightarrow> rstr tident \<Rightarrow> 'c \<Rightarrow> (kv_app_error, nat + nat seqv) api" where
  "create_catalog J P name_ident meta =
     abind (app_serialize (cp_name P) (to_raw name_ident)) (\<lambda>name_ident_raw.
       amap_err app_from_txn (create_id_value J (catalog_keys J P) name_ident meta False
         (\<lambda>i. rbind (pk_string (catalog_id_to_name_key P) (TIdent_new_generic (ti_tenant name_ident) i)) (\<lambda>s. Inr [(s, name_ident_raw)]))
         (\<lambda>_ _ _. Inr [])))"

definition get_catalog :: "json \<Rightarrow> 'c catalog_pb \<Rightarrow> rstr tident \<Rightarrow> (kv_app_error, 'c catalog_info) api" where
  "get_catalog J P name_ident =
     abind (amap_err AppMetaError (get_id_and_value (nk_name (catalog_keys J P)) ti_tenant (nk_id (catalog_keys J P)) name_ident)) (\<lambda>r.
       case r of
         None \<Rightarrow> araise (AppErr (UnknownCatalog (ti_name name_ident)))
       | Some (seq_id, seq_meta) \<Rightarrow> aret (CatalogInfo_new name_ident (sv_data seq_id) (sv_data seq_meta)))"

definition drop_catalog :: "json \<Rightarrow> 'c catalog_pb \<Rightarrow> rstr tident \<Rightarrow> (kv_app_error, (nat seqv \<times> 'c seqv) option) api" where
  "drop_catalog J P name_ident =
     amap_err app_from_txn (remove_id_value J (catalog_keys J P) name_ident
       (\<lambda>i. rbind (pk_string (catalog_id_to_name_key P) (TIdent_new_generic (ti_tenant name_ident) i)) (\<lambda>s. Inr [s])))"

definition list_catalogs :: "json \<Rightarrow> 'c catalog_pb \<Rightarrow> tenant \<Rightarrow> (kv_app_error, 'c catalog_info list) api" where
  "list_catalogs J P tenant =
     abind (amap_err AppMetaError (list_id_value (catalog_keys J P) 1 (TIdent_new_generic tenant (str ''dummy'')))) (\<lambda>name_id_values.
       aret (map (\<lambda>(name, i, seq_meta). CatalogInfo_new name i (sv_data seq_meta)) name_id_values))"

section \<open>Least visible times\<close>

record least_visible_time =
  lv_time :: nat

text \<open>The default is the epoch.\<close>

definition LeastVisibleTime_default :: least_visible_time where
  "LeastVisibleTime_default = \<lparr>lv_time = 0\<rparr>"

definition lvt_key :: "least_visible_time pbcodec \<Rightarrow> (nat tident, least_visible_time) pbkey" where
  "lvt_key P =
     \<lparr>pk_prefix = rs_prefix LeastVisibleTimeIdent_rsc, pk_codec = tident_codec LeastVisibleTimeIdent_rsc u64_codec, pk_value = P\<rparr>"

definition lvt_update :: "least_visible_time \<Rightarrow> least_visible_time seqv option \<Rightarrow> unit + least_visible_time option" where
  "lvt_update value t =
     (let curr = (case t of None \<Rightarrow> LeastVisibleTime_default | Some v \<Rightarrow> sv_data v)
      in if lv_time curr \<ge> lv_time value then Inr None else Inr (Some value))"

definition set_table_lvt ::
    "least_visible_time pbcodec \<Rightarrow> nat tident \<Rightarrow> least_visible_time \<Rightarrow> (kv_app_error, least_visible_time) api" where
  "set_table_lvt P name_ident value =
     abind (amap_err app_from_txn (crud_upsert_with (lvt_key P) name_ident (lvt_update value))) (\<lambda>transition.
       case transition of
         Inl () \<Rightarrow> apanic UnwrapNone
       | Inr transition \<Rightarrow> aret (case ch_result transition of None \<Rightarrow> LeastVisibleTime_default | Some v \<Rightarrow> sv_data v))"

definition schema_get :: "('k, 'v) pbkey \<Rightarrow> 'k \<Rightarrow> (meta_error, 'v option) api" where
  "schema_get K name_ident = abind (get_pb K name_ident) (\<lambda>seq_lvt. aret (map_option sv_data seq_lvt))"

section \<open>Dictionaries\<close>

definition dictionary_keys :: "json \<Rightarrow> 'd pbcodec \<Rightarrow> (dictionary_identity tident, 'd) name_id_keys" where
  "dictionary_keys J P =
     \<lparr>nk_name = \<lparr>pk_prefix = rs_prefix DictionaryNameIdent_rsc, pk_codec = tident_codec DictionaryNameIdent_rsc dictionary_identity_codec,
        pk_value = data_id_pb J\<rparr>,
      nk_id = \<lparr>pk_prefix = rs_prefix DictionaryIdIdent_rsc, pk_codec = tident_codec DictionaryIdIdent_rsc data_id_codec, pk_value = P\<rparr>,
      nk_tenant = ti_tenant\<rparr>"

definition dict_exist_error :: "dictionary_identity tident \<Rightarrow> app_error" where
  "dict_exist_error k = DictionaryAlreadyExists (di_db_id (ti_name k)) (di_dict_name (ti_name k))"

definition dict_unknown_error :: "dictionary_identity tident \<Rightarrow> app_error" where
  "dict_unknown_error k = UnknownDictionary (di_db_id (ti_name k)) (di_dict_name (ti_name k))"

definition create_dictionary :: "json \<Rightarrow> 'd pbcodec \<Rightarrow> dictionary_identity tident \<Rightarrow> 'd \<Rightarrow> (kv_app_error, nat) api" where
  "create_dictionary J P name_ident meta =
     abind (amap_err app_from_txn (create_id_value J (dictionary_keys J P) name_ident meta False (\<lambda>_. Inr []) (\<lambda>_ _ _. Inr []))) (\<lambda>r.
       case r of Inl i \<Rightarrow> aret i | Inr existent \<Rightarrow> araise (AppErr (dict_exist_error name_ident)))"

definition update_dictionary :: "json \<Rightarrow> 'd pbcodec \<Rightarrow> dictionary_identity tident \<Rightarrow> 'd \<Rightarrow> (kv_app_error, nat) api" where
  "update_dictionary J P name_ident meta =
     abind (amap_err AppMetaError (update_id_value (dictionary_keys J P) name_ident meta)) (\<lambda>res.
       case res of Some (i, m) \<Rightarrow> aret i | None \<Rightarrow> araise (AppErr (dict_unknown_error name_ident)))"

definition drop_dictionary :: "json \<Rightarrow> 'd pbcodec \<Rightarrow> dictionary_identity tident \<Rightarrow> (meta_txn_error, 'd seqv option) api" where
  "drop_dictionary J P name_ident =
     abind (remove_id_value J (dictionary_keys J P) name_ident (\<lambda>_. Inr [])) (\<lambda>removed. aret (map_option snd removed))"

definition get_dictionary ::
    "json \<Rightarrow> 'd pbcodec \<Rightarrow> dictionary_identity tident \<Rightarrow> (meta_error, (nat seqv \<times> 'd seqv) option) api" where
  "get_dictionary J P name_ident = get_id_value (dictionary_keys J P) name_ident"

definition list_dictionaries :: "json \<Rightarrow> 'd pbcodec \<Rightarrow> tenant \<Rightarrow> nat \<Rightarrow> (kv_app_error, (rstr \<times> 'd) list) api" where
  "list_dictionaries J P tenant db_id =
     abind (amap_err AppMetaError (list_id_value (dictionary_keys J P) 1
       (TIdent_new_generic tenant \<lparr>di_db_id = db_id, di_dict_name = str ''dummy''\<rparr>))) (\<lambda>name_id_values.
       aret (map (\<lambda>(name, i, seq_meta). (di_dict_name (ti_name name), sv_data seq_meta)) name_id_values))"

definition dict_has_to_not_exist :: "nat \<Rightarrow> dictionary_identity tident \<Rightarrow> app_error + unit" where
  "dict_has_to_not_exist seq name_ident = (if seq = 0 then Inr () else Inl (dict_exist_error name_ident))"

definition rename_dictionary_trial ::
    "json \<Rightarrow> 'd pbcodec \<Rightarrow> dictionary_identity tident \<Rightarrow> dictionary_identity \<Rightarrow> (kv_app_error, unit option) api" where
  "rename_dictionary_trial J P name_ident new_dict_ident =
     (let K = nk_name (dictionary_keys J P)
      in abind (amap_err AppMetaError (get_pb K name_ident)) (\<lambda>r.
           case r of
             None \<Rightarrow> araise (AppErr (dict_unknown_error name_ident))
           | Some dict_id \<Rightarrow>
               (let new_name_ident = TIdent_new_generic (ti_tenant name_ident) new_dict_ident
                in abind (amap_err AppMetaError (get_seq K new_name_ident)) (\<lambda>new_dict_id_seq.
                   abind (amap_err AppErr (aresult (dict_has_to_not_exist new_dict_id_seq new_name_ident))) (\<lambda>_.
                   abind (apure (txn_cond_seq K name_ident CondEq (sv_seq dict_id))) (\<lambda>c1.
                   abind (apure (txn_cond_seq K new_name_ident CondEq 0)) (\<lambda>c2.
                   abind (apure (txn_op_del K name_ident)) (\<lambda>d.
                   abind (txn_op_put_pb app_invalid_argument K new_name_ident (sv_data dict_id) None) (\<lambda>p.
                   abind (amap_err AppMetaError (send_txn J (TxnRequest_new [c1, c2] [d, p]))) (\<lambda>(succ, responses).
                     aret (if succ then Some () else None)))))))))))"

definition rename_dictionary ::
    "json \<Rightarrow> 'd pbcodec \<Rightarrow> dictionary_identity tident \<Rightarrow> dictionary_identity \<Rightarrow> (kv_app_error, unit) api" where
  "rename_dictionary J P name_ident new_dict_ident =
     txn_loop app_from_retry (rename_dictionary_trial J P name_ident new_dict_ident) (txn_backoff None)"

end
