(* ===== verification/DatabaseApi.thy ===== *)
theory DatabaseApi
  imports ObjectApi
begin

text \<open>
  Databases: the operations of \<open>schema_api_impl.rs\<close> in \<open>src/meta/api/src\<close> that create, drop, restore, rename, read and list
  databases, and the types of \<open>schema/database.rs\<close> in \<open>src/meta/app/src\<close>.

  A database has four records: its name with the identifier it stands for, the meta data by identifier, the name
  by identifier, and by name the list of all identifiers that the name has stood for. Times are numbers of
  milliseconds.
\<close>

section \<open>Types\<close>

record database_meta =
  db_engine :: rstr
  db_engine_options :: "(rstr, rstr) btree"
  db_options :: "(rstr, rstr) btree"
  db_created_on :: nat
  db_updated_on :: nat
  db_comment :: rstr
  db_drop_on :: "nat option"
  db_gc_in_progress :: bool

record db_id_list =
  dl_id_list :: "nat list"

definition DbIdList_new :: db_id_list where
  "DbIdList_new = \<lparr>dl_id_list = []\<rparr>"

definition dl_append :: "nat \<Rightarrow> db_id_list \<Rightarrow> db_id_list" where
  "dl_append i l = \<lparr>dl_id_list = dl_id_list l @ [i]\<rparr>"

definition dl_pop :: "db_id_list \<Rightarrow> db_id_list" where
  "dl_pop l = \<lparr>dl_id_list = butlast (dl_id_list l)\<rparr>"

definition dl_last :: "db_id_list \<Rightarrow> nat option" where
  "dl_last l = (if dl_id_list l = [] then None else Some (last (dl_id_list l)))"

record create_database_req =
  cb_create_option :: create_option
  cb_name_ident :: "rstr tident"
  cb_meta :: database_meta

record drop_database_req =
  xb_if_exists :: bool
  xb_name_ident :: "rstr tident"

record rename_database_req =
  rb_if_exists :: bool
  rb_name_ident :: "rstr tident"
  rb_new_db_name :: rstr

record database_info =
  bi_database_id :: nat
  bi_name_ident :: "rstr tident"
  bi_meta :: "database_meta seqv"

text \<open>The codecs of the values, and the keys of the four kinds of records.\<close>

record database_pb =
  bp_meta :: "database_meta pbcodec"
  bp_id_list :: "db_id_list pbcodec"
  bp_name :: "rstr tident_raw pbcodec"

definition id_pb :: "json \<Rightarrow> nat pbcodec" where
  "id_pb J =
     \<lparr>pb_encode = (\<lambda>i. Inr (json_of_u64 J i)),
      pb_decode = (\<lambda>buf.
        if length buf > 64 then Inl DecodeError
        else case u64_of_json J buf of None \<Rightarrow> Inl DecodeError | Some i \<Rightarrow> Inr i)\<rparr>"

definition db_name_key :: "json \<Rightarrow> (rstr tident, nat) pbkey" where
  "db_name_key J =
     \<lparr>pk_prefix = rs_prefix DatabaseNameIdent_rsc, pk_codec = tident_codec DatabaseNameIdent_rsc string_codec, pk_value = id_pb J\<rparr>"

definition db_id_key :: "database_pb \<Rightarrow> (database_id, database_meta) pbkey" where
  "db_id_key P = \<lparr>pk_prefix = str ''__fd_database_by_id'', pk_codec = database_id_codec, pk_value = bp_meta P\<rparr>"

definition db_id_to_name_key :: "database_pb \<Rightarrow> (database_id_to_name, rstr tident_raw) pbkey" where
  "db_id_to_name_key P = \<lparr>pk_prefix = str ''__fd_database_id_to_name'', pk_codec = database_id_to_name_codec, pk_value = bp_name P\<rparr>"

definition db_history_key :: "database_pb \<Rightarrow> (rstr tident, db_id_list) pbkey" where
  "db_history_key P =
     \<lparr>pk_prefix = rs_prefix DatabaseIdHistoryIdent_rsc, pk_codec = tident_codec DatabaseIdHistoryIdent_rsc string_codec,
      pk_value = bp_id_list P\<rparr>"

section \<open>Helpers\<close>

text \<open>A result that the caller inspects; a panic is not a result.\<close>

definition atry :: "('e, 'a) api \<Rightarrow> ('d, 'e + 'a) api" where
  "atry p = pbind p (\<lambda>r. case r of Inl (Raise e) \<Rightarrow> aret (Inl e) | Inl (Panicked q) \<Rightarrow> apanic q | Inr x \<Rightarrow> aret (Inr x))"

text \<open>\<open>txn_op_put\<close> of a serialized value.\<close>

definition app_put :: "('k, 'v) pbkey \<Rightarrow> 'k \<Rightarrow> 'v \<Rightarrow> (kv_app_error, txn_op) api" where
  "app_put K k v = abind (app_serialize (pk_value K) v) (\<lambda>b. apure (txn_op_put K k b))"

definition push_conditions :: "txn_condition list \<Rightarrow> txn_request \<Rightarrow> txn_request" where
  "push_conditions cs txn = fold push_condition cs txn"

definition get_db_id_or_err :: "json \<Rightarrow> rstr tident \<Rightarrow> (kv_app_error, nat seqv) api" where
  "get_db_id_or_err J name_key =
     abind (amap_err AppMetaError (get_pb (db_name_key J) name_key)) (\<lambda>r.
       case r of None \<Rightarrow> araise (AppErr (unknown_database_error name_key)) | Some seq_db_id \<Rightarrow> aret seq_db_id)"

definition get_db_or_err :: "json \<Rightarrow> database_pb \<Rightarrow> rstr tident \<Rightarrow> (kv_app_error, nat seqv \<times> database_meta seqv) api" where
  "get_db_or_err J P name_key =
     abind (amap_err AppMetaError (get_pb (db_name_key J) name_key)) (\<lambda>r.
       case r of
         None \<Rightarrow> araise (AppErr (unknown_database_error name_key))
       | Some seq_db_id \<Rightarrow>
           abind (amap_err AppMetaError (get_pb (db_id_key P) \<lparr>did_db_id = sv_data seq_db_id\<rparr>)) (\<lambda>r.
             case r of
               None \<Rightarrow> araise (AppErr (unknown_database_error name_key))
             | Some seq_db_meta \<Rightarrow> aret (seq_db_id, seq_db_meta)))"

definition get_db_by_id_or_err :: "database_pb \<Rightarrow> nat \<Rightarrow> (kv_app_error, nat \<times> database_meta) api" where
  "get_db_by_id_or_err P db_id =
     abind (amap_err AppMetaError (get_pb_seq_and_value (db_id_key P) \<lparr>did_db_id = db_id\<rparr>)) (\<lambda>(db_meta_seq, db_meta).
     abind (aresult (db_id_has_to_exist db_meta_seq db_id)) (\<lambda>_.
       case db_meta of None \<Rightarrow> apanic UnwrapNone | Some m \<Rightarrow> aret (db_meta_seq, m)))"

definition db_has_to_not_exist :: "nat \<Rightarrow> rstr tident \<Rightarrow> kv_app_error + unit" where
  "db_has_to_not_exist seq name_ident = (if seq = 0 then Inr () else Inl (AppErr (DatabaseAlreadyExists (ti_name name_ident))))"

definition DEFAULT_DATA_RETENTION_SECONDS :: nat where
  "DEFAULT_DATA_RETENTION_SECONDS = 24 * 60 * 60"

text \<open>Points in time before the epoch are negative.\<close>

definition get_retention_boundary :: "int \<Rightarrow> int" where
  "get_retention_boundary now = now - int DEFAULT_DATA_RETENTION_SECONDS * 1000"

definition is_drop_time_retainable :: "nat option \<Rightarrow> nat \<Rightarrow> bool" where
  "is_drop_time_retainable drop_on now =
     (case drop_on of None \<Rightarrow> True | Some t \<Rightarrow> int t > get_retention_boundary (int now))"

text \<open>Adds to a transaction what marks the database of a name as dropped and returns its identifier.\<close>

definition mark_db_dropped ::
    "json \<Rightarrow> database_pb \<Rightarrow> rstr tident \<Rightarrow> bool \<Rightarrow> nat seqv \<Rightarrow> database_meta seqv \<Rightarrow> txn_request \<Rightarrow> (kv_app_error, nat \<times> txn_request) api" where
  "mark_db_dropped J P tenant_dbname drop_name_key seq_db_id db_meta txn =
     abind (if drop_name_key
       then abind (apure (txn_cond_seq (db_name_key J) tenant_dbname CondEq (sv_seq seq_db_id))) (\<lambda>c.
            abind (apure (txn_op_del (db_name_key J) tenant_dbname)) (\<lambda>d. aret (push_then d (push_condition c txn))))
       else aret txn) (\<lambda>txn.
     let db_id_key_v = \<lparr>did_db_id = sv_data seq_db_id\<rparr>
     in if db_drop_on (sv_data db_meta) \<noteq> None then araise (AppErr (DropDbWithDropTime (ti_name tenant_dbname)))
        else
          abind now_utc (\<lambda>now.
          let meta = (sv_data db_meta)\<lparr>db_drop_on := Some now\<rparr>
          in abind (apure (txn_cond_seq (db_id_key P) db_id_key_v CondEq (sv_seq db_meta))) (\<lambda>c.
             abind (app_put (db_id_key P) db_id_key_v meta) (\<lambda>p.
             let txn = push_then p (push_condition c txn)
             in abind (amap_err AppMetaError (get_pb_seq_and_value (db_history_key P) tenant_dbname)) (\<lambda>(db_id_list_seq, db_id_list_opt).
                  if db_id_list_seq = 0 \<or> db_id_list_opt = None
                  then abind (apure (txn_cond_seq (db_history_key P) tenant_dbname CondEq db_id_list_seq)) (\<lambda>c.
                       abind (app_put (db_history_key P) tenant_dbname (dl_append (sv_data seq_db_id) DbIdList_new)) (\<lambda>p.
                         aret (sv_data seq_db_id, push_then p (push_condition c txn))))
                  else aret (sv_data seq_db_id, txn))))))"

definition drop_database_meta ::
    "json \<Rightarrow> database_pb \<Rightarrow> rstr tident \<Rightarrow> bool \<Rightarrow> bool \<Rightarrow> txn_request \<Rightarrow> (kv_app_error, nat \<times> txn_request) api" where
  "drop_database_meta J P tenant_dbname if_exists drop_name_key txn =
     abind (atry (get_db_or_err J P tenant_dbname)) (\<lambda>res.
       case res of
         Inl e \<Rightarrow> (case e of AppErr (UnknownDatabase _) \<Rightarrow> if if_exists then aret (0, txn) else araise e | _ \<Rightarrow> araise e)
       | Inr (seq_db_id, db_meta) \<Rightarrow> mark_db_dropped J P tenant_dbname drop_name_key seq_db_id db_meta txn)"

section \<open>Operations\<close>

text \<open>The part of \<open>create_database\<close> that inserts the records of a new database.\<close>

definition insert_database ::
    "json \<Rightarrow> database_pb \<Rightarrow> create_database_req \<Rightarrow> nat \<Rightarrow> txn_request \<Rightarrow> (kv_app_error, nat option) api" where
  "insert_database J P req cur_seq txn =
     (let name_key = cb_name_ident req
      in abind (amap_err AppMetaError (get_pb (db_history_key P) name_key)) (\<lambda>seq_db_id_list.
         let db_id_list_seq = opt_seq seq_db_id_list;
             db_id_list = (case seq_db_id_list of None \<Rightarrow> DbIdList_new | Some v \<Rightarrow> sv_data v)
         in abind (amap_err AppMetaError (fetch_id (generator_key IdGenerator_database_id))) (\<lambda>db_id.
            let db_id_list = dl_append db_id db_id_list; id_key = \<lparr>did_db_id = db_id\<rparr>; id_to_name_key = \<lparr>ditn_db_id = db_id\<rparr>
            in abind (apure (txn_cond_seq (db_name_key J) name_key CondEq cur_seq)) (\<lambda>c1.
               abind (apure (txn_cond_seq (db_id_to_name_key P) id_to_name_key CondEq 0)) (\<lambda>c2.
               abind (apure (txn_cond_seq (db_history_key P) name_key CondEq db_id_list_seq)) (\<lambda>c3.
               abind (apure (txn_op_put (db_name_key J) name_key (serialize_u64 J db_id))) (\<lambda>p1.
               abind (app_put (db_id_key P) id_key (cb_meta req)) (\<lambda>p2.
               abind (app_put (db_history_key P) name_key db_id_list) (\<lambda>p3.
               abind (app_put (db_id_to_name_key P) id_to_name_key (to_raw name_key)) (\<lambda>p4.
               abind (amap_err AppMetaError (send_txn J (push_all [p1, p2, p3, p4] (push_conditions [c1, c2, c3] txn)))) (\<lambda>(succ, responses).
                 aret (if succ then Some db_id else None))))))))))))"

definition create_database_trial :: "json \<Rightarrow> database_pb \<Rightarrow> create_database_req \<Rightarrow> (kv_app_error, nat option) api" where
  "create_database_trial J P req =
     (let name_key = cb_name_ident req
      in abind (amap_err AppMetaError (get_pb (db_name_key J) name_key)) (\<lambda>curr_seq_db_id.
           case curr_seq_db_id of
             None \<Rightarrow> insert_database J P req 0 TxnRequest_default
           | Some seq_db_id \<Rightarrow>
               (case cb_create_option req of
                  Create \<Rightarrow> araise (AppErr (DatabaseAlreadyExists (ti_name name_key)))
                | CreateIfNotExists \<Rightarrow> aret (Some (sv_data seq_db_id))
                | CreateOrReplace \<Rightarrow>
                    abind (drop_database_meta J P name_key False False TxnRequest_default) (\<lambda>(_, txn).
                      insert_database J P req (sv_seq seq_db_id) txn))))"

definition create_database :: "json \<Rightarrow> database_pb \<Rightarrow> create_database_req \<Rightarrow> (kv_app_error, nat) api" where
  "create_database J P req =
     (if db_drop_on (cb_meta req) \<noteq> None then araise (AppErr (CreateDatabaseWithDropTime (ti_name (cb_name_ident req))))
      else txn_loop app_from_retry (create_database_trial J P req) (txn_backoff None))"

definition drop_database_trial :: "json \<Rightarrow> database_pb \<Rightarrow> drop_database_req \<Rightarrow> (kv_app_error, nat option) api" where
  "drop_database_trial J P req =
     abind (drop_database_meta J P (xb_name_ident req) (xb_if_exists req) True TxnRequest_default) (\<lambda>(db_id, txn).
     abind (amap_err AppMetaError (send_txn J txn)) (\<lambda>(succ, responses).
       aret (if succ then Some db_id else None)))"

definition drop_database :: "json \<Rightarrow> database_pb \<Rightarrow> drop_database_req \<Rightarrow> (kv_app_error, nat) api" where
  "drop_database J P req = txn_loop app_from_retry (drop_database_trial J P req) (txn_backoff None)"

text \<open>The part of \<open>undrop_database\<close> that restores the last database of a name.\<close>

definition restore_database ::
    "json \<Rightarrow> database_pb \<Rightarrow> rstr tident \<Rightarrow> nat \<Rightarrow> nat \<Rightarrow> database_meta seqv \<Rightarrow> (kv_app_error, unit option) api" where
  "restore_database J P name_key db_id_list_seq db_id seq_meta =
     (let dbid = \<lparr>did_db_id = db_id\<rparr>
      in if db_drop_on (sv_data seq_meta) = None then araise (AppErr (UndropDbWithNoDropTime (ti_name name_key)))
         else
           (let db_meta = (sv_data seq_meta)\<lparr>db_drop_on := None\<rparr>
            in abind (apure (txn_cond_seq (db_name_key J) name_key CondEq 0)) (\<lambda>c1.
               abind (apure (txn_cond_seq (db_history_key P) name_key CondEq db_id_list_seq)) (\<lambda>c2.
               abind (apure (txn_cond_seq (db_id_key P) dbid CondEq (sv_seq seq_meta))) (\<lambda>c3.
               abind (apure (txn_op_put (db_name_key J) name_key (serialize_u64 J db_id))) (\<lambda>p1.
               abind (app_put (db_id_key P) dbid db_meta) (\<lambda>p2.
               abind (amap_err AppMetaError (send_txn J (TxnRequest_new [c1, c2, c3] [p1, p2]))) (\<lambda>(succ, responses).
                 aret (if succ then Some () else None)))))))))"

definition undrop_database_trial :: "json \<Rightarrow> database_pb \<Rightarrow> rstr tident \<Rightarrow> (kv_app_error, unit option) api" where
  "undrop_database_trial J P name_key =
     abind (atry (get_db_or_err J P name_key)) (\<lambda>res.
       case res of
         Inr _ \<Rightarrow> araise (AppErr (DatabaseAlreadyExists (ti_name name_key)))
       | Inl _ \<Rightarrow>
           abind (amap_err AppMetaError (get_pb (db_history_key P) name_key)) (\<lambda>r.
             case r of
               None \<Rightarrow> araise (AppErr (UndropDbHasNoHistory (ti_name name_key)))
             | Some seq_db_id_list \<Rightarrow>
                 (case dl_last (sv_data seq_db_id_list) of
                    None \<Rightarrow> araise (AppErr (UndropDbHasNoHistory (ti_name name_key)))
                  | Some db_id \<Rightarrow>
                      abind (amap_err AppMetaError (get_pb (db_id_key P) \<lparr>did_db_id = db_id\<rparr>)) (\<lambda>seq_meta.
                        case seq_meta of
                          None \<Rightarrow> apanic UnwrapNone
                        | Some seq_meta \<Rightarrow> restore_database J P name_key (sv_seq seq_db_id_list) db_id seq_meta))))"

definition undrop_database :: "json \<Rightarrow> database_pb \<Rightarrow> rstr tident \<Rightarrow> (kv_app_error, unit) api" where
  "undrop_database J P name_key = txn_loop app_from_retry (undrop_database_trial J P name_key) (txn_backoff None)"

text \<open>The part of \<open>rename_database\<close> that moves the identifier from one name to the other.\<close>

definition move_database ::
    "json \<Rightarrow> database_pb \<Rightarrow> rstr tident \<Rightarrow> rstr tident \<Rightarrow> nat seqv \<Rightarrow> nat \<Rightarrow> nat \<Rightarrow> db_id_list \<Rightarrow> (kv_app_error, unit option) api" where
  "move_database J P tenant_dbname tenant_newdbname old_seq_db_id db_name_seq db_id_list_seq db_id_list =
     (let old_db_id = sv_data old_seq_db_id; back = \<lparr>ditn_db_id = old_db_id\<rparr>
      in abind (amap_err AppMetaError (get_pb (db_history_key P) tenant_newdbname)) (\<lambda>seq_idlist.
         let new_db_id_list_seq = opt_seq seq_idlist;
             new_db_id_list = (case seq_idlist of None \<Rightarrow> DbIdList_new | Some v \<Rightarrow> sv_data v);
             db_id_list = dl_pop db_id_list;
             new_db_id_list = dl_append old_db_id new_db_id_list
         in abind (apure (txn_cond_seq (db_name_key J) tenant_dbname CondEq (sv_seq old_seq_db_id))) (\<lambda>c1.
            abind (apure (txn_cond_seq (db_id_to_name_key P) back CondEq db_name_seq)) (\<lambda>c2.
            abind (apure (txn_cond_seq (db_name_key J) tenant_newdbname CondEq 0)) (\<lambda>c3.
            abind (apure (txn_cond_seq (db_history_key P) tenant_dbname CondEq db_id_list_seq)) (\<lambda>c4.
            abind (apure (txn_cond_seq (db_history_key P) tenant_newdbname CondEq new_db_id_list_seq)) (\<lambda>c5.
            abind (apure (txn_op_del (db_name_key J) tenant_dbname)) (\<lambda>d.
            abind (apure (txn_op_put (db_name_key J) tenant_newdbname (serialize_u64 J old_db_id))) (\<lambda>p1.
            abind (app_put (db_history_key P) tenant_newdbname new_db_id_list) (\<lambda>p2.
            abind (app_put (db_history_key P) tenant_dbname db_id_list) (\<lambda>p3.
            abind (app_put (db_id_to_name_key P) back (to_raw tenant_newdbname)) (\<lambda>p4.
            abind (amap_err AppMetaError (send_txn J (TxnRequest_new [c1, c2, c3, c4, c5] [d, p1, p2, p3, p4]))) (\<lambda>(succ, responses).
              aret (if succ then Some () else None))))))))))))))"

definition rename_database_trial :: "json \<Rightarrow> database_pb \<Rightarrow> rename_database_req \<Rightarrow> (kv_app_error, unit option) api" where
  "rename_database_trial J P req =
     (let tenant_dbname = rb_name_ident req; tenant_newdbname = TIdent_new_generic (ti_tenant tenant_dbname) (rb_new_db_name req)
      in abind (amap_err AppMetaError (get_pb (db_name_key J) tenant_dbname)) (\<lambda>r.
           case r of
             None \<Rightarrow>
               if rb_if_exists req then aret (Some ())
               else abind (aresult (db_has_to_exist 0 tenant_dbname)) (\<lambda>_. apanic UnreachableCode)
           | Some old_seq_db_id \<Rightarrow>
               (let old_db_id = sv_data old_seq_db_id
                in abind (amap_err AppMetaError (get_pb (db_id_key P) \<lparr>did_db_id = old_db_id\<rparr>)) (\<lambda>old_seq_db_meta.
                   abind (aresult (db_has_to_exist (opt_seq old_seq_db_meta) tenant_dbname)) (\<lambda>_.
                   abind (amap_err AppMetaError (get_pb (db_name_key J) tenant_newdbname)) (\<lambda>new_seq_db_id.
                   abind (aresult (db_has_to_not_exist (opt_seq new_seq_db_id) tenant_newdbname)) (\<lambda>_.
                   abind (amap_err AppMetaError (get_pb (db_id_to_name_key P) \<lparr>ditn_db_id = old_db_id\<rparr>)) (\<lambda>seq_db_name.
                   abind (amap_err AppMetaError (get_pb (db_history_key P) tenant_dbname)) (\<lambda>seq_db_id_list.
                   let db_id_list = (case seq_db_id_list of None \<Rightarrow> dl_append old_db_id DbIdList_new | Some v \<Rightarrow> sv_data v)
                   in if dl_last db_id_list = Some old_db_id
                      then move_database J P tenant_dbname tenant_newdbname old_seq_db_id (opt_seq seq_db_name) (opt_seq seq_db_id_list) db_id_list
                      else araise (AppErr (DatabaseAlreadyExists (ti_name tenant_dbname))))))))))))"

definition rename_database :: "json \<Rightarrow> database_pb \<Rightarrow> rename_database_req \<Rightarrow> (kv_app_error, unit) api" where
  "rename_database J P req = txn_loop app_from_retry (rename_database_trial J P req) (txn_backoff None)"

definition get_database :: "json \<Rightarrow> database_pb \<Rightarrow> rstr tident \<Rightarrow> (kv_app_error, database_info) api" where
  "get_database J P name_key =
     abind (get_db_or_err J P name_key) (\<lambda>(seq_db_id, db_meta).
       aret \<lparr>bi_database_id = sv_data seq_db_id, bi_name_ident = name_key, bi_meta = db_meta\<rparr>)"

definition list_databases :: "json \<Rightarrow> database_pb \<Rightarrow> tenant \<Rightarrow> (meta_error, database_info list) api" where
  "list_databases J P tenant =
     abind (list_pb_vec (db_name_key J) 1 (TIdent_new_generic tenant (str ''dummy''))) (\<lambda>name_seq_ids.
     abind (get_pb_values_vec (db_id_key P) (map (\<lambda>(k, i). \<lparr>did_db_id = sv_data i\<rparr>) name_seq_ids)) (\<lambda>id_metas.
       aret (List.map_filter (\<lambda>((name, seq_id), m).
           map_option (\<lambda>seq_meta. \<lparr>bi_database_id = sv_data seq_id, bi_name_ident = name, bi_meta = seq_meta\<rparr>) m)
         (zip name_seq_ids id_metas))))"

text \<open>The loop over the lists of identifiers: all databases that are found, by identifier.\<close>

fun history_loop ::
    "database_pb \<Rightarrow> (rstr tident \<times> db_id_list seqv) list \<Rightarrow> (nat, database_info) btree \<Rightarrow> (meta_error, (nat, database_info) btree) api" where
  "history_loop P [] dbs = aret dbs"
| "history_loop P ((k, l) # rest) dbs =
     abind (get_pb_vec (db_id_key P) (map (\<lambda>i. \<lparr>did_db_id = i\<rparr>) (dl_id_list (sv_data l)))) (\<lambda>id_metas.
       history_loop P rest (fold (\<lambda>(db_id, m) dbs.
         case m of
           None \<Rightarrow> dbs
         | Some db_meta \<Rightarrow> btree_insert (did_db_id db_id) \<lparr>bi_database_id = did_db_id db_id, bi_name_ident = k, bi_meta = db_meta\<rparr> dbs) id_metas dbs))"

definition get_tenant_history_databases ::
    "json \<Rightarrow> database_pb \<Rightarrow> tenant \<Rightarrow> bool \<Rightarrow> (meta_error, database_info list) api" where
  "get_tenant_history_databases J P tenant include_non_retainable =
     abind (list_pb_vec (db_history_key P) 1 (TIdent_new_generic tenant (str ''dummy''))) (\<lambda>name_idlists.
     abind (history_loop P name_idlists []) (\<lambda>dbs.
     abind (list_databases J P tenant) (\<lambda>list_dbs.
     let dbs = fold (\<lambda>db_info dbs.
           if btree_get dbs (bi_database_id db_info) = None then btree_insert (bi_database_id db_info) db_info dbs else dbs) list_dbs dbs
     in abind now_utc (\<lambda>now.
          aret (filter (\<lambda>x. include_non_retainable \<or> is_drop_time_retainable (db_drop_on (sv_data (bi_meta x))) now) (map snd dbs))))))"

definition get_db_name_by_id :: "database_pb \<Rightarrow> nat \<Rightarrow> (kv_app_error, rstr) api" where
  "get_db_name_by_id P db_id =
     abind (amap_err AppMetaError (get_pb (db_id_to_name_key P) \<lparr>ditn_db_id = db_id\<rparr>)) (\<lambda>r.
       case r of None \<Rightarrow> araise (AppErr (UnknownDatabaseId db_id)) | Some seq_meta \<Rightarrow> aret (tr_name (sv_data seq_meta)))"

definition mget_database_names_by_ids :: "database_pb \<Rightarrow> nat list \<Rightarrow> (kv_app_error, rstr option list) api" where
  "mget_database_names_by_ids P db_ids =
     amap_err AppMetaError (
     abind (get_pb_values_vec (db_id_to_name_key P) (map (\<lambda>i. \<lparr>ditn_db_id = i\<rparr>) db_ids)) (\<lambda>seq_names.
     let db_names = map (map_option (\<lambda>s. tr_name (sv_data s))) seq_names
     in abind (get_pb_values_vec (db_id_key P) (map (\<lambda>i. \<lparr>did_db_id = i\<rparr>) db_ids)) (\<lambda>seq_metas.
          aret (map (\<lambda>(name, m). case m of Some seq_meta \<Rightarrow> if db_drop_on (sv_data seq_meta) \<noteq> None then None else name | None \<Rightarrow> None)
            (zip db_names seq_metas)))))"

section \<open>Lemmas\<close>

lemma atry_simps [simp]: "atry (aret x) = aret (Inr x)" "atry (araise e) = aret (Inl e)" "atry (apanic q) = apanic q"
  by (simp_all add: atry_def aret_def araise_def apanic_def)

lemma atry_calls [api_simps]:
  "atry (PUpsert up k1) = PUpsert up (\<lambda>r. atry (k1 r))" "atry (PGet keys k2) = PGet keys (\<lambda>r. atry (k2 r))"
  "atry (PList p k2) = PList p (\<lambda>r. atry (k2 r))" "atry (PTxn req k3) = PTxn req (\<lambda>r. atry (k3 r))"
  "atry (PNow k4) = PNow (\<lambda>r. atry (k4 r))"
  by (simp_all add: atry_def)

end
