(* ===== verification/DatabaseCodec.thy ===== *)
theory DatabaseCodec
  imports TypedReads DatabaseApi ReferenceCodec RotblCodec
begin

text \<open>
  Concrete codecs for the values of databases: they show that what is assumed of the generated codecs can be
  met, and concrete programs can be evaluated with them.
\<close>

section \<open>Writers and readers\<close>

text \<open>A reader returns the value at the start of the input and the rest of the input.\<close>

record 'a wire_codec =
  wc_put :: "'a \<Rightarrow> nat list"
  wc_take :: "nat list \<Rightarrow> ('a \<times> nat list) option"

definition wire_ok :: "'a wire_codec \<Rightarrow> bool" where
  "wire_ok C \<longleftrightarrow> (\<forall>x rest. wc_take C (wc_put C x @ rest) = Some (x, rest))"

lemma wire_okD [simp]: "wire_ok C \<Longrightarrow> wc_take C (wc_put C x @ rest) = Some (x, rest)"
  by (simp add: wire_ok_def)

definition wire_nat :: "nat wire_codec" where
  "wire_nat = \<lparr>wc_put = (\<lambda>n. [n]), wc_take = (\<lambda>b. case b of [] \<Rightarrow> None | n # rest \<Rightarrow> Some (n, rest))\<rparr>"

definition wire_pair :: "'a wire_codec \<Rightarrow> 'b wire_codec \<Rightarrow> ('a \<times> 'b) wire_codec" where
  "wire_pair A B =
     \<lparr>wc_put = (\<lambda>(x, y). wc_put A x @ wc_put B y),
      wc_take = (\<lambda>b. case wc_take A b of
          None \<Rightarrow> None
        | Some (x, b) \<Rightarrow> (case wc_take B b of None \<Rightarrow> None | Some (y, b) \<Rightarrow> Some ((x, y), b)))\<rparr>"

fun take_many :: "'a wire_codec \<Rightarrow> nat \<Rightarrow> nat list \<Rightarrow> ('a list \<times> nat list) option" where
  "take_many A 0 b = Some ([], b)"
| "take_many A (Suc n) b =
     (case wc_take A b of
        None \<Rightarrow> None
      | Some (x, b) \<Rightarrow> (case take_many A n b of None \<Rightarrow> None | Some (xs, b) \<Rightarrow> Some (x # xs, b)))"

definition wire_list :: "'a wire_codec \<Rightarrow> 'a list wire_codec" where
  "wire_list A =
     \<lparr>wc_put = (\<lambda>xs. length xs # concat (map (wc_put A) xs)),
      wc_take = (\<lambda>b. case b of [] \<Rightarrow> None | n # b \<Rightarrow> take_many A n b)\<rparr>"

definition wire_option :: "'a wire_codec \<Rightarrow> 'a option wire_codec" where
  "wire_option A =
     \<lparr>wc_put = (\<lambda>x. case x of None \<Rightarrow> [0] | Some y \<Rightarrow> 1 # wc_put A y),
      wc_take = (\<lambda>b. case b of
          [] \<Rightarrow> None
        | n # b \<Rightarrow> if n = 0 then Some (None, b) else map_option (\<lambda>(y, b). (Some y, b)) (wc_take A b))\<rparr>"

text \<open>Values that are read and written as other values.\<close>

definition wire_via :: "('a \<Rightarrow> 'b) \<Rightarrow> ('b \<Rightarrow> 'a) \<Rightarrow> 'b wire_codec \<Rightarrow> 'a wire_codec" where
  "wire_via f g B = \<lparr>wc_put = (\<lambda>x. wc_put B (f x)), wc_take = (\<lambda>b. map_option (\<lambda>(y, b). (g y, b)) (wc_take B b))\<rparr>"

lemma wire_nat_ok: "wire_ok wire_nat"
  by (simp add: wire_ok_def wire_nat_def)

lemma wire_pair_ok: "wire_ok A \<Longrightarrow> wire_ok B \<Longrightarrow> wire_ok (wire_pair A B)"
  unfolding wire_ok_def by (simp add: wire_pair_def)

lemma take_many_ok: "wire_ok A \<Longrightarrow> take_many A (length xs) (concat (map (wc_put A) xs) @ rest) = Some (xs, rest)"
  by (induction xs) simp_all

lemma wire_list_ok: "wire_ok A \<Longrightarrow> wire_ok (wire_list A)"
  unfolding wire_ok_def [of "wire_list A"] by (simp add: wire_list_def take_many_ok)

lemma wire_option_ok: "wire_ok A \<Longrightarrow> wire_ok (wire_option A)"
  unfolding wire_ok_def [of "wire_option A"] by (simp add: wire_option_def split: option.split)

lemma wire_via_ok: "wire_ok B \<Longrightarrow> (\<And>x. g (f x) = x) \<Longrightarrow> wire_ok (wire_via f g B)"
  unfolding wire_ok_def [of "wire_via f g B"] by (simp add: wire_via_def)

text \<open>The codec of messages: the whole input has to be read.\<close>

definition pb_of_wire :: "'a wire_codec \<Rightarrow> 'a pbcodec" where
  "pb_of_wire C =
     \<lparr>pb_encode = (\<lambda>x. Inr (wc_put C x)),
      pb_decode = (\<lambda>b. case wc_take C b of Some (x, []) \<Rightarrow> Inr x | _ \<Rightarrow> Inl DecodeError)\<rparr>"

lemma pb_of_wire_eval:
  "pb_encode (pb_of_wire C) x = Inr (wc_put C x)" "wire_ok C \<Longrightarrow> pb_decode (pb_of_wire C) (wc_put C x) = Inr x"
  using wire_okD [of C x "[]"] by (simp_all add: pb_of_wire_def)

lemma pb_of_wire_faithful: "wire_ok C \<Longrightarrow> pb_faithful valid (pb_of_wire C)"
  by (auto simp: pb_faithful_def pb_of_wire_eval)

section \<open>Values of databases\<close>

abbreviation wire_string :: "nat list wire_codec" where
  "wire_string \<equiv> wire_list wire_nat"

abbreviation wire_options :: "(nat list \<times> nat list) list wire_codec" where
  "wire_options \<equiv> wire_list (wire_pair wire_string wire_string)"

definition database_meta_wire :: "database_meta wire_codec" where
  "database_meta_wire =
     wire_via (\<lambda>m. (db_engine m, db_engine_options m, db_options m, db_created_on m, db_updated_on m, db_comment m, db_drop_on m,
         if db_gc_in_progress m then 1 else 0))
       (\<lambda>(e, eo, o', c, u, co, d, g). \<lparr>db_engine = e, db_engine_options = eo, db_options = o', db_created_on = c, db_updated_on = u,
         db_comment = co, db_drop_on = d, db_gc_in_progress = (g \<noteq> 0)\<rparr>)
       (wire_pair wire_string (wire_pair wire_options (wire_pair wire_options (wire_pair wire_nat (wire_pair wire_nat
         (wire_pair wire_string (wire_pair (wire_option wire_nat) wire_nat)))))))"

definition db_id_list_wire :: "db_id_list wire_codec" where
  "db_id_list_wire = wire_via dl_id_list (\<lambda>l. \<lparr>dl_id_list = l\<rparr>) wire_string"

definition db_name_wire :: "rstr tident_raw wire_codec" where
  "db_name_wire = wire_via (\<lambda>n. (tr_tenant n, tr_name n)) (\<lambda>(t, n). \<lparr>tr_tenant = t, tr_name = n\<rparr>) (wire_pair wire_string wire_string)"

lemmas wire_oks = wire_nat_ok wire_pair_ok wire_list_ok wire_option_ok

lemma database_wires_ok: "wire_ok database_meta_wire" "wire_ok db_id_list_wire" "wire_ok db_name_wire"
  unfolding database_meta_wire_def db_id_list_wire_def db_name_wire_def by (intro wire_via_ok wire_oks; simp)+

definition database_pb_ref :: database_pb where
  "database_pb_ref = \<lparr>bp_meta = pb_of_wire database_meta_wire, bp_id_list = pb_of_wire db_id_list_wire, bp_name = pb_of_wire db_name_wire\<rparr>"

lemmas database_pb_eval = pb_of_wire_eval(1) database_wires_ok [THEN pb_of_wire_eval(2)]

lemma json_ref_ok: "json_ok json_ref"
  using length_show_dec [of _ 19] by (auto simp: json_ok_def json_ref_def parse_show_dec)

lemma id_pb_ref_eval: "serialize_u64 json_ref i = show_dec i" "i < 2 ^ 64 \<Longrightarrow> pb_decode (id_pb json_ref) (show_dec i) = Inr i"
  using json_ref_ok by (force simp: json_ok_def json_ref_def id_pb_def serialize_u64_def)+

end
