(* ===== verification/DatabaseProps.thy ===== *)
theory DatabaseProps
  imports DatabaseCodec ReferenceEnv
begin

text \<open>
  Databases under concurrency: the four records of a database stay consistent, whatever clients of a meta node
  create, replace, drop, restore, rename and read databases, and no client panics.
\<close>

section \<open>Consistency\<close>

text \<open>Names that can be written as keys.\<close>

abbreviation db_ident :: "rstr tident \<Rightarrow> bool" where
  "db_ident \<equiv> tident_valid DatabaseNameIdent_rsc valid_str"

text \<open>
  For identifiers by name, meta data by identifier, lists of identifiers by name and names by identifier: a name
  stands for the last identifier of its list, and its database is not marked as dropped; every identifier of a
  list has meta data and leads back to the name, and it is marked as dropped unless the name stands for it.
\<close>

definition db_consistent ::
    "(rstr tident \<Rightarrow> nat option) \<Rightarrow> (nat \<Rightarrow> database_meta option) \<Rightarrow> (rstr tident \<Rightarrow> db_id_list option) \<Rightarrow>
     (nat \<Rightarrow> rstr tident_raw option) \<Rightarrow> bool" where
  "db_consistent N M H B \<longleftrightarrow>
     (\<forall>k i. db_ident k \<longrightarrow> N k = Some i \<longrightarrow>
        (\<exists>m l. M i = Some m \<and> db_drop_on m = None \<and> H k = Some l \<and> dl_last l = Some i)) \<and>
     (\<forall>k l i. db_ident k \<longrightarrow> H k = Some l \<longrightarrow> i \<in> set (dl_id_list l) \<longrightarrow>
        i < 2 ^ 64 \<and> B i = Some (to_raw k) \<and> (\<exists>m. M i = Some m \<and> (db_drop_on m = None \<longrightarrow> N k = Some i))) \<and>
     (\<forall>k l. db_ident k \<longrightarrow> H k = Some l \<longrightarrow> distinct (dl_id_list l))"

lemma db_namedD:
  assumes "db_consistent N M H B" and "db_ident k" and "N k = Some i"
  obtains m l where "M i = Some m" and "db_drop_on m = None" and "H k = Some l" and "dl_last l = Some i"
  using assms unfolding db_consistent_def by blast

lemma db_listedD:
  assumes "db_consistent N M H B" and "db_ident k" and "H k = Some l" and "i \<in> set (dl_id_list l)"
  shows "i < 2 ^ 64" and "B i = Some (to_raw k)" and "M i \<noteq> None" and "N k \<noteq> Some i \<Longrightarrow> \<exists>m. M i = Some m \<and> db_drop_on m \<noteq> None"
  using assms unfolding db_consistent_def by blast+

lemma db_distinctD: "db_consistent N M H B \<Longrightarrow> db_ident k \<Longrightarrow> H k = Some l \<Longrightarrow> distinct (dl_id_list l)"
  by (simp add: db_consistent_def)

lemma to_raw_inj: "to_raw k = to_raw k' \<longleftrightarrow> k = k'"
  by (cases k; cases k'; cases "ti_tenant k"; cases "ti_tenant k'") (auto simp: to_raw_def)

lemma dl_last_mem: "dl_last l = Some i \<Longrightarrow> i \<in> set (dl_id_list l)"
  by (auto simp: dl_last_def split: if_splits)

text \<open>An identifier belongs to the list of one name.\<close>

lemma db_listed_once:
  assumes "db_consistent N M H B" and "db_ident k" and "db_ident k'" and "H k = Some l" and "H k' = Some l'"
    and "i \<in> set (dl_id_list l)" and "i \<in> set (dl_id_list l')"
  shows "k = k'"
  using db_listedD(2) [OF assms(1,2,4,6)] db_listedD(2) [OF assms(1,3,5,7)] by (simp add: to_raw_inj)

text \<open>The transitions: a new database, and a database that is dropped, restored and renamed.\<close>

lemma db_consistent_insert:
  assumes con: "db_consistent N M H B" and k: "db_ident k" and i: "B i = None" "i < 2 ^ 64" "db_drop_on m = None"
    and l: "l = (case H k of None \<Rightarrow> DbIdList_new | Some l \<Rightarrow> l)"
    and M': "\<And>j. M j \<noteq> None \<Longrightarrow> M' j = M j \<or> (N k = Some j \<and> (\<exists>x. M' j = Some x \<and> db_drop_on x \<noteq> None))"
    and old: "\<And>j. N k = Some j \<Longrightarrow> \<exists>x. M' j = Some x \<and> db_drop_on x \<noteq> None"
  shows "db_consistent (N(k \<mapsto> i)) (M'(i \<mapsto> m)) (H(k \<mapsto> dl_append i l)) (B(i \<mapsto> to_raw k))"
proof -
  have fresh: "j \<noteq> i" if "db_ident k'" "H k' = Some l'" "j \<in> set (dl_id_list l')" for k' l' j
    using db_listedD(2) [OF con that] i(1) by auto
  have mine: "N k \<noteq> Some j" if "db_ident k'" "H k' = Some l'" "j \<in> set (dl_id_list l')" "k' \<noteq> k" for k' l' j
    using db_namedD [OF con k, of j] dl_last_mem db_listed_once [OF con k that(1) _ that(2) _ that(3)] that(4) by metis
  have keep: "j \<in> set (dl_id_list l) \<Longrightarrow> j < 2 ^ 64 \<and> j \<noteq> i \<and> B j = Some (to_raw k) \<and> (\<exists>x. M' j = Some x \<and> db_drop_on x \<noteq> None)" for j
    using db_listedD [OF con k, of l j] fresh [OF k, of l j] M' [of j] old [of j] l
    by (cases "H k"; cases "N k = Some j") (auto simp: DbIdList_new_def)
  have "distinct (dl_id_list l)" using db_distinctD [OF con k] l by (cases "H k") (auto simp: DbIdList_new_def)
  moreover have "\<exists>x l'. (M'(i \<mapsto> m)) j = Some x \<and> db_drop_on x = None \<and> H k' = Some l' \<and> dl_last l' = Some j"
    if "db_ident k'" "k' \<noteq> k" "N k' = Some j" for k' j
  proof -
    note named = db_namedD [OF con that(1,3)]
    obtain x l' where x: "M j = Some x" "db_drop_on x = None" "H k' = Some l'" "dl_last l' = Some j" by (rule named)
    with fresh [OF that(1) x(3) dl_last_mem] mine [OF that(1) x(3) dl_last_mem that(2)] M' [of j] show ?thesis by auto
  qed
  moreover have "j < 2 ^ 64 \<and> j \<noteq> i \<and> B j = Some (to_raw k') \<and> (\<exists>x. M' j = Some x \<and> (db_drop_on x = None \<longrightarrow> N k' = Some j))"
    if "db_ident k'" "k' \<noteq> k" "H k' = Some l'" "j \<in> set (dl_id_list l')" for k' l' j
    using db_listedD [OF con that(1,3,4)] fresh [OF that(1,3,4)] mine [OF that(1,3,4,2)] M' [of j] by (cases "N k' = Some j") auto
  ultimately show ?thesis
    using i(2,3) db_distinctD [OF con] unfolding db_consistent_def by (auto simp: dl_append_def dl_last_def dest: keep)
qed

lemma db_consistent_drop:
  assumes con: "db_consistent N M H B" and k: "db_ident k" and i: "N k = Some i" and m: "db_drop_on m \<noteq> None"
  shows "db_consistent (N(k := None)) (M(i \<mapsto> m)) H B"
proof -
  obtain l where l: "H k = Some l" "dl_last l = Some i" by (rule db_namedD [OF con k i])
  have other: "j \<noteq> i" if "db_ident k'" "H k' = Some l'" "j \<in> set (dl_id_list l')" "k' \<noteq> k" for k' l' j
    using db_listed_once [OF con k that(1) l(1) that(2) dl_last_mem [OF l(2)]] that(3,4) by auto
  have "\<exists>x l'. (M(i \<mapsto> m)) j = Some x \<and> db_drop_on x = None \<and> H k' = Some l' \<and> dl_last l' = Some j"
    if "db_ident k'" "k' \<noteq> k" "N k' = Some j" for k' j
  proof -
    note named = db_namedD [OF con that(1,3)]
    obtain x l' where x: "M j = Some x" "db_drop_on x = None" "H k' = Some l'" "dl_last l' = Some j" by (rule named)
    with other [OF that(1) x(3) dl_last_mem that(2)] show ?thesis by auto
  qed
  moreover have "j < 2 ^ 64 \<and> B j = Some (to_raw k') \<and> (\<exists>x. (M(i \<mapsto> m)) j = Some x \<and> (db_drop_on x = None \<longrightarrow> (N(k := None)) k' = Some j))"
    if "db_ident k'" "H k' = Some l'" "j \<in> set (dl_id_list l')" for k' l' j
    using db_listedD [OF con that] m i other [OF that] by (cases "j = i"; cases "k' = k") fastforce+
  ultimately show ?thesis using db_distinctD [OF con] unfolding db_consistent_def by auto
qed

lemma db_consistent_undrop:
  assumes con: "db_consistent N M H B" and k: "db_ident k" and l: "N k = None" "H k = Some l" "dl_last l = Some i" and m: "db_drop_on m = None"
  shows "db_consistent (N(k \<mapsto> i)) (M(i \<mapsto> m)) H B"
proof -
  have other: "j \<noteq> i" if "db_ident k'" "H k' = Some l'" "j \<in> set (dl_id_list l')" "k' \<noteq> k" for k' l' j
    using db_listed_once [OF con k that(1) l(2) that(2) dl_last_mem [OF l(3)]] that(3,4) by auto
  have "\<exists>x l'. (M(i \<mapsto> m)) j = Some x \<and> db_drop_on x = None \<and> H k' = Some l' \<and> dl_last l' = Some j"
    if "db_ident k'" "k' \<noteq> k" "N k' = Some j" for k' j
  proof -
    note named = db_namedD [OF con that(1,3)]
    obtain x l' where x: "M j = Some x" "db_drop_on x = None" "H k' = Some l'" "dl_last l' = Some j" by (rule named)
    with other [OF that(1) x(3) dl_last_mem that(2)] show ?thesis by auto
  qed
  moreover have "j < 2 ^ 64 \<and> B j = Some (to_raw k') \<and> (\<exists>x. (M(i \<mapsto> m)) j = Some x \<and> (db_drop_on x = None \<longrightarrow> (N(k \<mapsto> i)) k' = Some j))"
    if "db_ident k'" "H k' = Some l'" "j \<in> set (dl_id_list l')" for k' l' j
    using db_listedD [OF con that] l(1) other [OF that] by (cases "j = i"; cases "k' = k") fastforce+
  ultimately show ?thesis using db_distinctD [OF con] l m unfolding db_consistent_def by auto
qed

lemma db_consistent_rename:
  assumes con: "db_consistent N M H B" and k: "db_ident k" "db_ident k'" and n: "N k = Some i" "N k' = None" and l: "H k = Some l"
    and l': "l' = (case H k' of None \<Rightarrow> DbIdList_new | Some l \<Rightarrow> l)"
  shows "db_consistent (N(k := None, k' \<mapsto> i)) M (H(k' \<mapsto> dl_append i l', k \<mapsto> dl_pop l)) (B(i \<mapsto> to_raw k'))"
proof -
  obtain m where m: "M i = Some m" "db_drop_on m = None" "dl_last l = Some i" using db_namedD [OF con k(1) n(1)] l by auto
  have ne: "k \<noteq> k'" using n by auto
  have il: "i \<in> set (dl_id_list l)" by (rule dl_last_mem [OF m(3)])
  have other: "j \<noteq> i" if "db_ident a" "H a = Some b" "j \<in> set (dl_id_list b)" "a \<noteq> k" for a b j
    using db_listed_once [OF con k(1) that(1) l that(2) il] that(3,4) by auto
  have pop: "j \<in> set (dl_id_list l) \<and> j \<noteq> i" if "j \<in> set (dl_id_list (dl_pop l))" for j
  proof -
    have "dl_id_list l = butlast (dl_id_list l) @ [i]"
      using m(3) append_butlast_last_id [of "dl_id_list l"] unfolding dl_last_def by (metis option.distinct(1) option.inject)
    with db_distinctD [OF con k(1) l] have "distinct (butlast (dl_id_list l) @ [i])" by metis
    with that show ?thesis by (auto simp: dl_pop_def dest: in_set_butlastD)
  qed
  have new: "j \<in> set (dl_id_list l') \<Longrightarrow> j < 2 ^ 64 \<and> j \<noteq> i \<and> B j = Some (to_raw k') \<and> (\<exists>x. M j = Some x \<and> db_drop_on x \<noteq> None)" for j
    using db_listedD [OF con k(2), of l' j] other [OF k(2), of l' j] ne n(2) l' by (cases "H k'") (auto simp: DbIdList_new_def)
  have "distinct (dl_id_list l')" using db_distinctD [OF con k(2)] l' by (cases "H k'") (auto simp: DbIdList_new_def)
  moreover have "distinct (dl_id_list (dl_pop l))" using db_distinctD [OF con k(1) l] by (simp add: dl_pop_def distinct_butlast)
  moreover have "\<exists>x c. M j = Some x \<and> db_drop_on x = None \<and> H a = Some c \<and> dl_last c = Some j" if "db_ident a" "N a = Some j" for a j
    using db_namedD [OF con that] by metis
  moreover have "j < 2 ^ 64 \<and> j \<noteq> i \<and> B j = Some (to_raw a) \<and> (\<exists>x. M j = Some x \<and> (db_drop_on x = None \<longrightarrow> N a = Some j))"
    if "db_ident a" "a \<noteq> k" "H a = Some b" "j \<in> set (dl_id_list b)" for a b j
    using db_listedD [OF con that(1,3,4)] other [OF that(1,3,4,2)] by (cases "N a = Some j") auto
  moreover have "j < 2 ^ 64 \<and> j \<noteq> i \<and> B j = Some (to_raw k) \<and> (\<exists>x. M j = Some x \<and> db_drop_on x \<noteq> None)"
    if "j \<in> set (dl_id_list (dl_pop l))" for j
    using db_listedD [OF con k(1) l, of j] pop [OF that] n(1) by auto
  ultimately show ?thesis
    using ne m db_listedD(1) [OF con k(1) l il] db_distinctD [OF con] unfolding db_consistent_def
    by (auto simp: dl_append_def dl_last_def dest: new)
qed

section \<open>Records\<close>

datatype db_rec = DbName "rstr tident" | DbMeta nat | DbHist "rstr tident" | DbBack nat

fun db_rec_ok :: "db_rec \<Rightarrow> bool" where
  "db_rec_ok (DbName k) \<longleftrightarrow> db_ident k"
| "db_rec_ok (DbHist k) \<longleftrightarrow> db_ident k"
| "db_rec_ok _ \<longleftrightarrow> True"

fun db_segs :: "db_rec \<Rightarrow> rstr list" where
  "db_segs (DbName k) = [str ''__fd_database'', esc (tenant_name (ti_tenant k)), esc (ti_name k)]"
| "db_segs (DbMeta i) = [str ''__fd_database_by_id'', show_dec i]"
| "db_segs (DbHist k) = [str ''__fd_db_id_list'', esc (tenant_name (ti_tenant k)), esc (ti_name k)]"
| "db_segs (DbBack i) = [str ''__fd_database_id_to_name'', show_dec i]"

definition db_str :: "db_rec \<Rightarrow> rstr" where
  "db_str x = join47 (db_segs x)"

lemma join47_inj: "xs \<noteq> [] \<Longrightarrow> ys \<noteq> [] \<Longrightarrow> list_all seg_ok xs \<Longrightarrow> list_all seg_ok ys \<Longrightarrow> join47 xs = join47 ys \<longleftrightarrow> xs = ys"
  by (metis split_join47)

lemma db_segs_ok: "db_rec_ok x \<Longrightarrow> list_all seg_ok (db_segs x)" "db_segs x \<noteq> []"
  by (cases x; simp add: tident_valid_def DatabaseNameIdent_rsc_def esc; simp add: seg_ok_def str_def valid_char_def)+

lemma db_str_inj [simp]:
  assumes "db_rec_ok x" and "db_rec_ok y"
  shows "db_str x = db_str y \<longleftrightarrow> x = y"
proof -
  have "k = k'" if "db_ident k" "db_ident k'" "esc (tenant_name (ti_tenant k)) = esc (tenant_name (ti_tenant k'))" "esc (ti_name k) = esc (ti_name k')"
    for k k' :: "rstr tident"
    using that esc_inj by (cases k; cases k'; cases "ti_tenant k"; cases "ti_tenant k'") (auto simp: tident_valid_def DatabaseNameIdent_rsc_def)
  moreover have "show_dec i = show_dec j \<longleftrightarrow> i = j" for i j by (metis dec_val_show_dec)
  ultimately show ?thesis
    using assms unfolding db_str_def join47_inj [OF db_segs_ok(2) db_segs_ok(2) db_segs_ok(1) [OF assms(1)] db_segs_ok(1) [OF assms(2)]]
    by (cases x; cases y) (auto simp: str_def)
qed

lemma db_key_strings:
  "db_ident k \<Longrightarrow> pk_string (db_name_key J) k = Inr (db_str (DbName k))"
  "db_ident k \<Longrightarrow> pk_string (db_history_key P) k = Inr (db_str (DbHist k))"
  "pk_string (db_id_key P) \<lparr>did_db_id = i\<rparr> = Inr (db_str (DbMeta i))"
  "pk_string (db_id_to_name_key P) \<lparr>ditn_db_id = i\<rparr> = Inr (db_str (DbBack i))"
proof -
  show "pk_string (db_name_key J) k = Inr (db_str (DbName k))" if "db_ident k"
    using string_ident.tid.to_string_segs [of DatabaseNameIdent_rsc k "rs_prefix DatabaseNameIdent_rsc"] that
    by (simp add: pk_string_def db_name_key_def db_str_def tident_segs_def DatabaseNameIdent_rsc_def seg_ok_def str_def valid_char_def)
  show "pk_string (db_history_key P) k = Inr (db_str (DbHist k))" if "db_ident k"
    using string_ident.tid.to_string_segs [of DatabaseIdHistoryIdent_rsc k "rs_prefix DatabaseIdHistoryIdent_rsc"] that
    by (simp add: pk_string_def db_history_key_def db_str_def tident_segs_def tident_valid_def DatabaseNameIdent_rsc_def DatabaseIdHistoryIdent_rsc_def
        seg_ok_def str_def valid_char_def)
  show "pk_string (db_id_key P) \<lparr>did_db_id = i\<rparr> = Inr (db_str (DbMeta i))"
    using kb_done_segs [of "str ''__fd_database_by_id''" "[show_dec i]"]
    by (simp add: pk_string_def db_id_key_def to_string_key_def database_id_codec_def push_u64_def db_str_def seg_ok_def str_def valid_char_def seg_ok_show_dec [unfolded seg_ok_def])
  show "pk_string (db_id_to_name_key P) \<lparr>ditn_db_id = i\<rparr> = Inr (db_str (DbBack i))"
    using kb_done_segs [of "str ''__fd_database_id_to_name''" "[show_dec i]"]
    by (simp add: pk_string_def db_id_to_name_key_def to_string_key_def database_id_to_name_codec_def push_u64_def db_str_def seg_ok_def str_def valid_char_def
        seg_ok_show_dec [unfolded seg_ok_def])
qed

lemma db_key_values [simp]:
  "pk_value (db_name_key J) = id_pb J" "pk_value (db_id_key P) = bp_meta P" "pk_value (db_history_key P) = bp_id_list P"
  "pk_value (db_id_to_name_key P) = bp_name P"
  by (simp_all add: db_name_key_def db_id_key_def db_history_key_def db_id_to_name_key_def)

lemma db_generator:
  obtains s where "generator_key IdGenerator_database_id = Inr s" and "\<And>x. db_rec_ok x \<Longrightarrow> s \<noteq> db_str x"
proof
  show "generator_key IdGenerator_database_id = Inr (join47 [str ''__fd_id_gen'', str ''database_id''])" by code_simp
  show "join47 [str ''__fd_id_gen'', str ''database_id''] \<noteq> db_str x" if "db_rec_ok x" for x
  proof -
    have "list_all seg_ok [str ''__fd_id_gen'', str ''database_id'']" by (simp add: seg_ok_def str_def valid_char_def)
    with join47_inj [OF _ db_segs_ok(2) _ db_segs_ok(1) [OF that]] show ?thesis
      unfolding db_str_def by (cases x) (auto simp: str_def)
  qed
qed

section \<open>The protocol\<close>

text \<open>The four maps, as a state has them.\<close>

abbreviation db_names :: "json \<Rightarrow> ('lid, 'mem) flat \<Rightarrow> rstr tident \<Rightarrow> nat option" where
  "db_names J f \<equiv> \<lambda>k. typed (id_pb J) f (db_str (DbName k))"

abbreviation db_metas :: "database_pb \<Rightarrow> ('lid, 'mem) flat \<Rightarrow> nat \<Rightarrow> database_meta option" where
  "db_metas P f \<equiv> \<lambda>i. typed (bp_meta P) f (db_str (DbMeta i))"

abbreviation db_lists :: "database_pb \<Rightarrow> ('lid, 'mem) flat \<Rightarrow> rstr tident \<Rightarrow> db_id_list option" where
  "db_lists P f \<equiv> \<lambda>k. typed (bp_id_list P) f (db_str (DbHist k))"

abbreviation db_backs :: "database_pb \<Rightarrow> ('lid, 'mem) flat \<Rightarrow> nat \<Rightarrow> rstr tident_raw option" where
  "db_backs P f \<equiv> \<lambda>i. typed (bp_name P) f (db_str (DbBack i))"

definition db_inv :: "json \<Rightarrow> database_pb \<Rightarrow> ('lid, 'mem) flat \<Rightarrow> bool" where
  "db_inv J P f \<longleftrightarrow> (\<forall>x. db_rec_ok x \<longrightarrow> lasting f (db_str x)) \<and> db_consistent (db_names J f) (db_metas P f) (db_lists P f) (db_backs P f)"

text \<open>Every step keeps the invariant, and no meta data disappear.\<close>

definition db_step :: "json \<Rightarrow> database_pb \<Rightarrow> ('lid, 'mem, unit) ghosted \<Rightarrow> ('lid, 'mem, unit) ghosted \<Rightarrow> bool" where
  "db_step J P u u' \<longleftrightarrow> db_inv J P (fst u) \<and> db_inv J P (fst u') \<and> (\<forall>i. db_metas P (fst u) i \<noteq> None \<longrightarrow> db_metas P (fst u') i \<noteq> None)"

definition db_post ::
    "json \<Rightarrow> database_pb \<Rightarrow> 'e fault + 'a \<Rightarrow> ('lid, 'mem, unit) ghosted \<Rightarrow> ('lid, 'mem, unit) ghosted \<Rightarrow> bool" where
  "db_post J P r u u' \<longleftrightarrow> db_step J P u u' \<and> (\<forall>q. r \<noteq> Inl (Panicked q))"

abbreviation db_wp where
  "db_wp J P \<equiv> wp (evolved (db_step J P)) (db_step J P)"

text \<open>What is assumed of the codecs.\<close>

definition db_codecs :: "json \<Rightarrow> database_pb \<Rightarrow> bool" where
  "db_codecs J P \<longleftrightarrow> json_ok J \<and> pb_faithful (\<lambda>_. True) (bp_meta P) \<and> pb_faithful (\<lambda>_. True) (bp_id_list P) \<and> pb_faithful (\<lambda>_. True) (bp_name P)"

lemma db_codecsD:
  assumes "db_codecs J P"
  shows "i < 2 ^ 64 \<Longrightarrow> pb_decode (id_pb J) (serialize_u64 J i) = Inr i" "pb_encode (bp_meta P) m = Inr b \<Longrightarrow> pb_decode (bp_meta P) b = Inr m"
    "pb_encode (bp_id_list P) l = Inr b \<Longrightarrow> pb_decode (bp_id_list P) b = Inr l" "pb_encode (bp_name P) n = Inr b \<Longrightarrow> pb_decode (bp_name P) b = Inr n"
proof -
  show "pb_decode (id_pb J) (serialize_u64 J i) = Inr i" if "i < 2 ^ 64"
    using assms that unfolding db_codecs_def json_ok_def id_pb_def serialize_u64_def by (auto dest!: spec [of _ i])
qed (use assms in \<open>auto simp: db_codecs_def pb_faithful_def\<close>)

lemma db_evolvedD:
  assumes "evolved (db_step J P) u (f, c)"
  shows "flat_inv f" and "db_inv J P f" and "db_step J P (f, c) (f, c)" and "evolves (fst u) f"
    and "db_rec_ok x \<Longrightarrow> lasting f (db_str x)"
  using assms by (simp_all add: evolved_def db_step_def db_inv_def)

lemma db_step_trans: "db_step J P s u \<Longrightarrow> db_step J P u v \<Longrightarrow> db_step J P s v"
  by (simp add: db_step_def)

lemma db_evolved_trans: "evolved (db_step J P) s u \<Longrightarrow> evolved (db_step J P) u v \<Longrightarrow> evolved (db_step J P) s v"
  by (rule evolved_trans [of "db_step J P"]) (auto intro: db_step_trans)

lemma db_held:
  "held X s r n (fst u) \<Longrightarrow> evolved (db_step J P) u (g, c) \<Longrightarrow> held X s r n g"
  by (rule held_mono) (auto simp: evolved_def)

lemma wp_atry:
  "wp R G Q (atry p) u u' \<longleftrightarrow>
     wp R G (\<lambda>r u u'. case r of Inl (Raise e) \<Rightarrow> Q (Inr (Inl e)) u u' | Inl (Panicked q) \<Rightarrow> Q (Inl (Panicked q)) u u' | Inr x \<Rightarrow> Q (Inr (Inr x)) u u') p u u'"
  unfolding atry_def wp_pbind
  by (rule arg_cong [of _ _ "\<lambda>Q. wp R G Q p u u'"]) (auto simp: fun_eq_iff split: sum.split fault.split)

lemma wp_app_put:
  assumes "pk_string K k = Inr s" and "\<And>e. Q (Inl (Raise e)) u u'" and "\<And>b. pb_encode (pk_value K) v = Inr b \<Longrightarrow> wp R G Q (h (TxnOp_put s b)) u u'"
  shows "wp R G Q (abind (app_put K k v) h) u u'"
  using assms
  by (simp add: app_put_def app_serialize_def serialize_struct_def txn_op_put_def wp_abind wp_amap_err split: sum.split)

text \<open>A read of one of the records.\<close>

lemma db_read:
  assumes "pk_string K k = Inr (db_str x)" and "db_rec_ok x" and "db_step J P u u'"
    and "\<And>f c r. evolved (db_step J P) u' (f, c) \<Longrightarrow> held (pk_value K) (db_str x) r (sequence (f_sys f)) f \<Longrightarrow>
      typed (pk_value K) f (db_str x) = map_option sv_data r \<Longrightarrow> (r = None \<Longrightarrow> ent f (db_str x) = None) \<Longrightarrow> db_wp J P Q (h r) (f, c) (f, c)"
    and "\<And>e f c. evolved (db_step J P) u' (f, c) \<Longrightarrow> Q (Inl (Raise e)) (f, c) (f, c)"
  shows "db_wp J P Q (abind (amap_err g (get_pb K k)) h) u u'"
  by (rule wp_read_bind [OF assms(1)]) (simp_all add: assms(3-5) db_evolvedD(1) db_evolvedD(5) [OF _ assms(2)])

lemma db_post_raise: "evolved (db_step J P) u (f, c) \<Longrightarrow> db_post J P (Inl (Raise e)) (f, c) (f, c)"
  by (simp add: db_post_def db_evolvedD)

lemma db_consistent_cong:
  assumes "\<And>k. db_ident k \<Longrightarrow> N' k = N k" and "\<And>i. M' i = M i" and "\<And>k. db_ident k \<Longrightarrow> H' k = H k" and "\<And>i. B' i = B i"
  shows "db_consistent N' M' H' B' \<longleftrightarrow> db_consistent N M H B"
  using assms by (simp add: db_consistent_def)

text \<open>A transaction: if its conditions hold, the four maps that it makes have to be consistent.\<close>

lemma db_txn_step:
  assumes ev: "evolved (db_step J P) u (h, c)" and "simple_txn req" and "t < 2 ^ 64"
    and new: "txn_holds t req h \<Longrightarrow>
      db_consistent (\<lambda>k. final_typed (id_pb J) (ops_final (tr_if_then req) (db_str (DbName k))) (db_names J h k))
        (\<lambda>i. final_typed (bp_meta P) (ops_final (tr_if_then req) (db_str (DbMeta i))) (db_metas P h i))
        (\<lambda>k. final_typed (bp_id_list P) (ops_final (tr_if_then req) (db_str (DbHist k))) (db_lists P h k))
        (\<lambda>i. final_typed (bp_name P) (ops_final (tr_if_then req) (db_str (DbBack i))) (db_backs P h i)) \<and>
      (\<forall>i. db_metas P h i \<noteq> None \<longrightarrow> final_typed (bp_meta P) (ops_final (tr_if_then req) (db_str (DbMeta i))) (db_metas P h i) \<noteq> None)"
  shows "db_step J P (h, c) (snd (flat_mem_txn t req h), c')"
proof -
  note e = db_evolvedD [OF ev]
  note txn = txn_typed [OF assms(2) e(1) assms(3) e(5)]
  let ?g = "snd (flat_mem_txn t req h)" and ?r = "\<lambda>x. if txn_holds t req h then ops_final (tr_if_then req) (db_str x) else None"
  have "db_consistent (db_names J ?g) (db_metas P ?g) (db_lists P ?g) (db_backs P ?g) \<longleftrightarrow>
      db_consistent (\<lambda>k. final_typed (id_pb J) (?r (DbName k)) (db_names J h k)) (\<lambda>i. final_typed (bp_meta P) (?r (DbMeta i)) (db_metas P h i))
        (\<lambda>k. final_typed (bp_id_list P) (?r (DbHist k)) (db_lists P h k)) (\<lambda>i. final_typed (bp_name P) (?r (DbBack i)) (db_backs P h i))"
    by (rule db_consistent_cong) (simp_all add: txn)
  then show ?thesis
    using e(2) new by (cases "txn_holds t req h") (simp_all add: db_step_def db_inv_def txn)
qed

lemma db_send:
  assumes "simple_txn req" and "db_step J P u u'"
    and "\<And>h c t. evolved (db_step J P) u' (h, c) \<Longrightarrow> t < 2 ^ 64 \<Longrightarrow> db_step J P (h, c) (snd (flat_mem_txn t req h), c)"
  shows "db_wp J P (db_post J P) (abind (amap_err AppMetaError (send_txn J req)) (\<lambda>(succ, responses). aret (if succ then Some x else None))) u u'"
  unfolding wp_abind wp_amap_err
proof (rule wp_send_txn [OF assms(1)], goal_cases)
  case (3 f c t)
  then have "t < 2 ^ 64" by (simp add: fits_def)
  from assms(3) [OF 3(1) this] show ?case by (auto simp: db_post_def)
qed (simp_all add: assms(2) db_post_raise)

section \<open>Operations\<close>

lemma get_db_wp:
  assumes "db_ident k" and "db_step J P u u'" and "\<And>e f c. evolved (db_step J P) u' (f, c) \<Longrightarrow> Q (Inl (Raise e)) (f, c) (f, c)"
    and "\<And>f c a m n. evolved (db_step J P) u' (f, c) \<Longrightarrow> held (id_pb J) (db_str (DbName k)) (Some a) n f \<Longrightarrow> sequence (f_sys (fst u')) \<le> n \<Longrightarrow>
      held (bp_meta P) (db_str (DbMeta (sv_data a))) (Some m) (sequence (f_sys f)) f \<Longrightarrow> Q (Inr (a, m)) (f, c) (f, c)"
  shows "db_wp J P Q (get_db_or_err J P k) u u'"
  unfolding get_db_or_err_def
proof (rule db_read [OF db_key_strings(1) [OF assms(1)] _ assms(2)], goal_cases)
  case (2 f c r)
  show ?case
  proof (cases r)
    case None
    with assms(3) [OF 2(1)] show ?thesis by simp
  next
    case (Some a)
    show ?thesis
      unfolding Some option.case
    proof (rule db_read [OF db_key_strings(3) _ db_evolvedD(3) [OF 2(1)]], goal_cases)
      case (2 g c' r')
      note ev = db_evolved_trans [OF \<open>evolved _ u' (f, c)\<close> 2(1)]
      from assms(3) [OF ev] assms(4) [OF ev db_held [OF _ 2(1)]] 2(2) \<open>held _ _ r _ f\<close> Some db_evolvedD(4) [OF \<open>evolved _ u' (f, c)\<close>] show ?case
        by (cases r') (simp_all add: evolves_def)
    qed (simp_all add: assms(3) [OF db_evolved_trans [OF 2(1)]])
  qed
qed (use assms(1,3) in simp_all)

lemma restore_wp:
  assumes k: "db_ident k" and codecs: "db_codecs J P" and step: "db_step J P u u'"
    and l: "held (bp_id_list P) (db_str (DbHist k)) (Some l) n (fst u')" "dl_last (sv_data l) = Some i"
  shows "db_wp J P (db_post J P) (restore_database J P k (sv_seq l) i m) u u'"
proof (cases "db_drop_on (sv_data m) = None")
  case True
  with step show ?thesis by (simp add: restore_database_def db_post_def)
next
  case False
  let ?m = "(sv_data m)\<lparr>db_drop_on := None\<rparr>"
  note prog = restore_database_def txn_cond_seq_eq txn_op_put_def db_key_strings k Let_def
  show ?thesis
  proof (simp add: prog False del: not_None_eq, rule wp_app_put [OF db_key_strings(3)], goal_cases)
    case (2 b)
    show ?case
    proof (rule db_send [OF txn_new_simple step], goal_cases)
      case (2 h c' t)
      note e = db_evolvedD [OF 2(1)]
      show ?case
      proof (rule db_txn_step [OF 2(1) txn_new_simple 2(2)], goal_cases)
        case 2
        then have holds: "opt_seq (ent h (db_str (DbName k))) = 0" "opt_seq (ent h (db_str (DbHist k))) = sv_seq l"
          by (simp_all add: txn_holds_def clean_lasting [OF e(1) e(5)] k)
        have "db_names J h k = None" using holds(1) by (simp add: opt_seq_0 [OF e(1)] typed_def)
        moreover have "db_lists P h k = Some (sv_data l)"
          using held_eq [OF db_held [OF l(1) \<open>evolved _ u' (h, c')\<close>] e(1)] holds(2) by simp
        ultimately have con: "db_consistent ((db_names J h)(k \<mapsto> i)) ((db_metas P h)(i \<mapsto> ?m)) (db_lists P h) (db_backs P h)"
          and "i < 2 ^ 64"
          using e(2) k l(2) db_listedD(1) [OF _ k _ dl_last_mem [OF l(2)]]
          by (auto simp: db_inv_def intro!: db_consistent_undrop)
        then show ?case
          using k \<open>pb_encode _ _ = Inr b\<close> db_codecsD [OF codecs]
          by (auto elim!: db_consistent_cong [THEN iffD1, rotated -1] simp: fun_upd_def)
      qed simp
    qed simp
  qed (use step in \<open>simp add: db_post_def\<close>)
qed

lemma undrop_wp:
  assumes "db_ident k" and "db_codecs J P" and "db_step J P u u'"
  shows "db_wp J P (db_post J P) (undrop_database_trial J P k) u u'"
  unfolding undrop_database_trial_def wp_abind [of _ _ _ "atry _"] wp_atry
proof (rule get_db_wp [OF assms(1,3)], goal_cases)
  case (1 e f c)
  show ?case
    unfolding fault.case sum.case
  proof (rule db_read [OF db_key_strings(2) [OF assms(1)] _ db_evolvedD(3) [OF 1]], goal_cases)
    case (2 g c' r)
    note g = this
    show ?case
    proof (cases "\<exists>l i. r = Some l \<and> dl_last (sv_data l) = Some i")
      case False
      then show ?thesis using db_post_raise [OF g(1)] by (auto split: option.split)
    next
      case True
      then obtain l i where r: "r = Some l" "dl_last (sv_data l) = Some i" by blast
      have listed: "db_metas P g i \<noteq> None"
        using db_listedD(3) [OF _ assms(1) _ dl_last_mem [OF r(2)]] db_evolvedD(2) [OF g(1)] g(3) r(1) by (auto simp: db_inv_def)
      show ?thesis
        unfolding r option.case
      proof (rule db_read [OF db_key_strings(3) _ db_evolvedD(3) [OF g(1)]], goal_cases)
        case (2 h c'' r')
        have "r' \<noteq> None" using 2(1,3) listed by (cases r') (auto simp: evolved_def db_step_def)
        then obtain m where m: "r' = Some m" by blast
        show ?case
          unfolding m option.case
          by (rule restore_wp [OF assms(1,2) db_evolvedD(3) [OF 2(1)] _ r(2)]) (use db_held [OF _ 2(1)] g(2) r(1) in auto)
      qed (simp_all add: db_post_raise [OF db_evolved_trans [OF g(1)]] db_post_raise)
    qed
  qed (use assms(1) in \<open>simp_all add: db_post_raise\<close>)
qed (simp add: db_post_raise)

text \<open>What \<open>drop_database_meta\<close> adds to a transaction.\<close>

definition drop_conds :: "rstr tident \<Rightarrow> bool \<Rightarrow> nat seqv \<Rightarrow> database_meta seqv \<Rightarrow> txn_condition list" where
  "drop_conds k drop_name_key a m =
     (if drop_name_key then [cond_eq_seq (db_str (DbName k)) (sv_seq a)] else []) @ [cond_eq_seq (db_str (DbMeta (sv_data a))) (sv_seq m)]"

definition drop_puts :: "rstr tident \<Rightarrow> bool \<Rightarrow> nat seqv \<Rightarrow> bytes \<Rightarrow> txn_op list" where
  "drop_puts k drop_name_key a b =
     (if drop_name_key then [TxnOp_delete (db_str (DbName k))] else []) @ [TxnOp_put (db_str (DbMeta (sv_data a))) b]"

inductive drop_ops :: "database_pb \<Rightarrow> rstr tident \<Rightarrow> bool \<Rightarrow> nat seqv \<Rightarrow> database_meta seqv \<Rightarrow> txn_request \<Rightarrow> bool" where
  drop_listed: "pb_encode (bp_meta P) ((sv_data m)\<lparr>db_drop_on := Some now\<rparr>) = Inr b \<Longrightarrow>
     drop_ops P k drop_name_key a m (TxnRequest_new (drop_conds k drop_name_key a m) (drop_puts k drop_name_key a b))"
| drop_unlisted: "pb_encode (bp_meta P) ((sv_data m)\<lparr>db_drop_on := Some now\<rparr>) = Inr b \<Longrightarrow>
     drop_ops P k drop_name_key a m
       (TxnRequest_new (drop_conds k drop_name_key a m @ [cond_eq_seq (db_str (DbHist k)) 0])
         (drop_puts k drop_name_key a b @ [TxnOp_put (db_str (DbHist k)) b']))"

lemma mark_dropped_wp:
  assumes k: "db_ident k" and step: "db_step J P u u'" and raise: "\<And>e. Q (Inl (Raise e)) u u'" "\<And>e f c. evolved (db_step J P) u' (f, c) \<Longrightarrow> Q (Inl (Raise e)) (f, c) (f, c)"
    and post: "\<And>f c txn. evolved (db_step J P) u' (f, c) \<Longrightarrow> drop_ops P k drop_name_key a m txn \<Longrightarrow> Q (Inr (sv_data a, txn)) (f, c) (f, c)"
  shows "db_wp J P Q (mark_db_dropped J P k drop_name_key a m TxnRequest_default) u u'"
proof (cases "db_drop_on (sv_data m) = None")
  case False
  then show ?thesis
    using raise(1) by (simp add: mark_db_dropped_def Let_def txn_cond_seq_eq txn_op_del_def db_key_strings k)
next
  case True
  let ?rest = "\<lambda>now. abind (app_put (db_id_key P) \<lparr>did_db_id = sv_data a\<rparr> ((sv_data m)\<lparr>db_drop_on := Some now\<rparr>)) (\<lambda>p.
      abind (amap_err AppMetaError (get_pb_seq_and_value (db_history_key P) k)) (\<lambda>(db_id_list_seq, db_id_list_opt).
        if db_id_list_seq = 0 \<or> db_id_list_opt = None
        then abind (app_put (db_history_key P) k (dl_append (sv_data a) DbIdList_new)) (\<lambda>p'.
               aret (sv_data a, TxnRequest_new (drop_conds k drop_name_key a m @ [cond_eq_seq (db_str (DbHist k)) db_id_list_seq])
                 (((if drop_name_key then [TxnOp_delete (db_str (DbName k))] else []) @ [p]) @ [p'])))
        else aret (sv_data a, TxnRequest_new (drop_conds k drop_name_key a m)
               ((if drop_name_key then [TxnOp_delete (db_str (DbName k))] else []) @ [p]))))"
  have prog: "mark_db_dropped J P k drop_name_key a m TxnRequest_default = abind now_utc ?rest"
    using True by (cases drop_name_key) (simp_all add: mark_db_dropped_def Let_def txn_cond_seq_eq txn_op_del_def db_key_strings k drop_conds_def cong: if_cong)
  show ?thesis
    unfolding prog wp_abind [of _ _ _ now_utc]
  proof (rule wp_now, goal_cases)
    case (2 f c now)
    show ?case
      unfolding sum.case
    proof (rule wp_app_put [OF db_key_strings(3)], goal_cases)
      case (2 b)
      show ?case
        unfolding get_pb_seq_and_value_def amap_err_abind abind_assoc amap_err_simps abind_simps prod.case
      proof (rule db_read [OF db_key_strings(2) [OF k] _ db_evolvedD(3) [OF \<open>evolved _ u' (f, c)\<close>]], goal_cases)
        case (2 g c' r)
        note ev = db_evolved_trans [OF \<open>evolved _ u' (f, c)\<close> 2(1)]
        have enc: "pb_encode (bp_meta P) ((sv_data m)\<lparr>db_drop_on := Some now\<rparr>) = Inr b" using \<open>pb_encode _ _ = Inr b\<close> by simp
        show ?case
        proof (cases r)
          case None
          show ?thesis
            unfolding None opt_seq_simps
          proof (simp only: simp_thms if_True, rule wp_app_put [OF db_key_strings(2) [OF k]], goal_cases)
            case (2 b')
            show ?case
              unfolding wp_aret drop_puts_def [symmetric] by (rule post [OF ev drop_unlisted [OF enc]])
          qed (rule raise(2) [OF ev])
        next
          case (Some l)
          then have "opt_seq r \<noteq> 0" using 2(2) by (auto simp: held_def)
          with Some show ?thesis using post [OF ev drop_listed [OF enc]] by (simp add: drop_puts_def)
        qed
      qed (use k raise(2) [OF db_evolved_trans [OF \<open>evolved _ u' (f, c)\<close>]] in simp_all)
    qed (rule raise(2) [OF 2])
  qed (rule step)
qed

lemma drop_meta_wp:
  assumes k: "db_ident k" and step: "db_step J P u u'" and raise: "\<And>e f c. evolved (db_step J P) u' (f, c) \<Longrightarrow> Q (Inl (Raise e)) (f, c) (f, c)"
    and skip: "\<And>f c. evolved (db_step J P) u' (f, c) \<Longrightarrow> if_exists \<Longrightarrow> Q (Inr (0, TxnRequest_new [] [])) (f, c) (f, c)"
    and post: "\<And>f c a m n txn. evolved (db_step J P) u' (f, c) \<Longrightarrow> held (id_pb J) (db_str (DbName k)) (Some a) n f \<Longrightarrow>
      sequence (f_sys (fst u')) \<le> n \<Longrightarrow> drop_ops P k drop_name_key a m txn \<Longrightarrow> Q (Inr (sv_data a, txn)) (f, c) (f, c)"
  shows "db_wp J P Q (drop_database_meta J P k if_exists drop_name_key TxnRequest_default) u u'"
  unfolding drop_database_meta_def wp_abind [of _ _ _ "atry _"] wp_atry
proof (rule get_db_wp [OF k step], goal_cases)
  case (1 e f c)
  show ?case
    using raise [OF 1] skip [OF 1] by (auto split: kv_app_error.split app_error.split)
next
  case (2 f c a m n)
  show ?case
    unfolding fault.case sum.case prod.case
  proof (rule mark_dropped_wp [OF k db_evolvedD(3) [OF 2(1)]], goal_cases)
    case (1 e)
    show ?case by (rule raise [OF 2(1)])
  next
    case (2 e g c')
    then show ?case by (rule raise [OF db_evolved_trans [OF \<open>evolved _ u' (f, c)\<close>]])
  next
    case (3 g c' txn)
    show ?case
      by (rule post [OF db_evolved_trans [OF 2(1) 3(1)] _ _ 3(2)], rule db_held [OF _ 3(1)]) (use 2(2,3) in simp_all)
  qed
qed

lemma drop_wp:
  assumes k: "db_ident (xb_name_ident req)" and codecs: "db_codecs J P" and step: "db_step J P u u'"
  shows "db_wp J P (db_post J P) (drop_database_trial J P req) u u'"
  unfolding drop_database_trial_def wp_abind [of _ _ _ "drop_database_meta _ _ _ _ _ _"]
proof (rule drop_meta_wp [OF k step], goal_cases)
  case (1 e f c)
  then show ?case by (simp add: db_post_raise)
next
  case (2 f c)
  show ?case
    unfolding sum.case prod.case
  proof (rule db_send [OF txn_new_simple db_evolvedD(3) [OF 2(1)]], goal_cases)
    case (2 h c' t)
    show ?case
      by (rule db_txn_step [OF 2(1) txn_new_simple 2(2)]) (use db_evolvedD(2) [OF 2(1)] in \<open>simp_all add: db_inv_def\<close>)
  qed simp
next
  case (3 f c a m n txn)
  let ?k = "xb_name_ident req"
  have named: "db_names J h ?k = Some (sv_data a)" if "evolved (db_step J P) (f, c) (h, c')" "opt_seq (ent h (db_str (DbName ?k))) = sv_seq a" for h c'
    using held_eq [OF db_held [of _ _ "Some a", OF _ that(1)] db_evolvedD(1) [OF that(1)]] that(2) 3(2) by simp
  from 3(4) show ?case
  proof cases
    case (drop_listed now b)
    show ?thesis
      unfolding drop_listed(1) sum.case prod.case
    proof (rule db_send [OF txn_new_simple db_evolvedD(3) [OF 3(1)]], goal_cases)
      case (2 h c' t)
      note e = db_evolvedD [OF 2(1)]
      show ?case
      proof (rule db_txn_step [OF 2(1) txn_new_simple 2(2)], goal_cases)
        case 2
        then have "db_names J h ?k = Some (sv_data a)"
          by (intro named [OF \<open>evolved _ _ (h, c')\<close>]) (simp add: txn_holds_def drop_conds_def clean_lasting [OF e(1) e(5)] k)
        then have "db_consistent ((db_names J h)(?k := None)) ((db_metas P h)(sv_data a \<mapsto> (sv_data m)\<lparr>db_drop_on := Some now\<rparr>)) (db_lists P h) (db_backs P h)"
          using e(2) k by (auto simp: db_inv_def intro!: db_consistent_drop)
        then show ?case
          using k db_codecsD(2) [OF codecs drop_listed(2)]
          by (auto elim!: db_consistent_cong [THEN iffD1, rotated -1] simp: fun_upd_def drop_puts_def)
      qed (simp add: drop_puts_def)
    qed (simp add: drop_puts_def)
  next
    case (drop_unlisted now b b')
    show ?thesis
      unfolding drop_unlisted(1) sum.case prod.case
    proof (rule db_send [OF txn_new_simple db_evolvedD(3) [OF 3(1)]], goal_cases)
      case (2 h c' t)
      note e = db_evolvedD [OF 2(1)]
      show ?case
      proof (rule db_txn_step [OF 2(1) txn_new_simple 2(2)], goal_cases)
        case 2
        then have "db_names J h ?k = Some (sv_data a)" and "ent h (db_str (DbHist ?k)) = None"
          by (auto intro!: named [OF \<open>evolved _ _ (h, c')\<close>] simp: txn_holds_def drop_conds_def clean_lasting [OF e(1) e(5)] k opt_seq_0 [OF e(1)])
        with e(2) k show ?case by (auto simp: db_inv_def typed_def [of "bp_id_list P"] elim!: db_namedD)
      qed (simp add: drop_puts_def)
    qed (simp add: drop_puts_def)
  qed
qed

text \<open>A step that writes none of the records.\<close>

lemma db_frame:
  assumes "db_inv J P f" and "\<And>x. db_rec_ok x \<Longrightarrow> ent g (db_str x) = ent f (db_str x)"
  shows "db_step J P (f, c) (g, c')"
proof -
  note same = typed_cong [OF assms(2)] lasting_cong [OF assms(2)]
  have "db_consistent (db_names J g) (db_metas P g) (db_lists P g) (db_backs P g) \<longleftrightarrow>
      db_consistent (db_names J f) (db_metas P f) (db_lists P f) (db_backs P f)"
    by (rule db_consistent_cong) (simp_all add: same)
  with assms(1) show ?thesis by (simp add: db_step_def db_inv_def same)
qed

lemma db_fetch:
  assumes step: "db_step J P u u'"
    and raise: "\<And>e f c g c'. evolved (db_step J P) u' (f, c) \<Longrightarrow> db_step J P (f, c) (g, c') \<Longrightarrow> Q (Inl (Raise e)) (f, c) (g, c')"
    and post: "\<And>i f c g c'. evolved (db_step J P) u' (f, c) \<Longrightarrow> evolves f g \<Longrightarrow> db_step J P (f, c) (g, c') \<Longrightarrow> i < 2 ^ 64 \<Longrightarrow>
      db_wp J P Q (h i) (f, c) (g, c')"
  shows "db_wp J P Q (abind (amap_err x (fetch_id (generator_key IdGenerator_database_id))) h) u u'"
proof -
  note gen = db_generator
  obtain s where s: "generator_key IdGenerator_database_id = Inr s" "\<And>x. db_rec_ok x \<Longrightarrow> s \<noteq> db_str x" by (rule gen) blast
  let ?up = "\<lparr>uk_key = s, uk_seq = GE 0, uk_value = Update [], uk_value_meta = None\<rparr>"
  show ?thesis
    unfolding fetch_id_def s(1) apure_simps abind_simps amap_err_abind abind_assoc
    unfolding wp_abind [of _ _ _ "amap_err _ (kv_upsert _)"] wp_amap_err
  proof (rule wp_kv_upsert, goal_cases)
    case (3 f c t)
    note e = db_evolvedD [OF 3(1)]
    let ?g = "snd (flat_mem_upsert t ?up f)"
    have g: "db_step J P (f, c) (?g, c)"
      by (rule db_frame [OF e(2)], rule upsert_frame [OF e(1)]) (auto simp: cmd_writes_def e(5) s(2))
    have "f_cursor (snd (flat_clean t f)) \<le> u64_max" "sequence (f_sys f) + 1 < 2 ^ 64"
      using writable_ok_clean [OF e(1), of t] 3(2) by (simp_all add: writable_ok_def fits_def cmd_seqs_def upsert_seqs_def)
    then have "\<exists>v. ch_result (fst (flat_mem_upsert t ?up f)) = Some v \<and> sv_seq v < 2 ^ 64"
      by (simp add: flat_mem_upsert_def flat_upsert_def seq_matches_def Let_def flat_put_lasting [OF no_expiration(2)] Change_new_def SeqV_with_meta_def)
    then show ?case
      using raise [OF 3(1) g] post [OF 3(1) evolves_mem_upsert [OF e(1)] g] by (auto simp: amap_err_simps)
  qed (use step raise [OF _ db_evolvedD(3)] in \<open>auto\<close>)
qed

lemma push_lists [simp]:
  "push_all xs (TxnRequest_new cs ops) = TxnRequest_new cs (ops @ xs)" "push_conditions ys (TxnRequest_new cs ops) = TxnRequest_new (cs @ ys) ops"
proof -
  show "push_all xs (TxnRequest_new cs ops) = TxnRequest_new cs (ops @ xs)" by (induction xs arbitrary: ops) (simp_all add: push_all_def)
  show "push_conditions ys (TxnRequest_new cs ops) = TxnRequest_new (cs @ ys) ops" by (induction ys arbitrary: cs) (simp_all add: push_conditions_def)
qed

text \<open>Operations that mark the database that a name stands for as dropped, if it stands for one.\<close>

definition clears :: "json \<Rightarrow> database_pb \<Rightarrow> rstr tident \<Rightarrow> txn_op list \<Rightarrow> ('lid, 'mem) flat \<Rightarrow> bool" where
  "clears J P k ops h \<longleftrightarrow>
     (\<forall>x. db_rec_ok x \<longrightarrow> (\<forall>j. x \<noteq> DbMeta j) \<longrightarrow> ops_final ops (db_str x) = None) \<and>
     (\<forall>j. let x = final_typed (bp_meta P) (ops_final ops (db_str (DbMeta j))) (db_metas P h j)
          in if db_names J h k = Some j then \<exists>m. x = Some m \<and> db_drop_on m \<noteq> None else x = db_metas P h j)"

lemma insert_step:
  assumes ev: "evolved (db_step J P) u (h, c)" and t: "t < 2 ^ 64" and plain: "list_all plain_op ops"
    and k: "db_ident k" and i: "i < 2 ^ 64" "db_drop_on m = None" and codecs: "db_codecs J P"
    and l: "held (bp_id_list P) (db_str (DbHist k)) l n h" and prior: "txn_holds t (TxnRequest_new cs ops) h \<Longrightarrow>
      opt_seq (ent h (db_str (DbName k))) = cur_seq \<Longrightarrow> clears J P k ops h"
    and enc: "pb_encode (bp_meta P) m = Inr b1" "pb_encode (bp_id_list P) (dl_append i (case l of None \<Rightarrow> DbIdList_new | Some v \<Rightarrow> sv_data v)) = Inr b2"
      "pb_encode (bp_name P) (to_raw k) = Inr b3"
  defines "req \<equiv> TxnRequest_new
      (cs @ [cond_eq_seq (db_str (DbName k)) cur_seq, cond_eq_seq (db_str (DbBack i)) 0, cond_eq_seq (db_str (DbHist k)) (opt_seq l)])
      (ops @ [TxnOp_put (db_str (DbName k)) (serialize_u64 J i), TxnOp_put (db_str (DbMeta i)) b1, TxnOp_put (db_str (DbHist k)) b2,
        TxnOp_put (db_str (DbBack i)) b3])"
  shows "db_step J P (h, c) (snd (flat_mem_txn t req h), c')"
proof (rule db_txn_step [OF ev _ t], goal_cases)
  case 2
  note e = db_evolvedD [OF ev]
  let ?M = "\<lambda>j. final_typed (bp_meta P) (ops_final ops (db_str (DbMeta j))) (db_metas P h j)"
    and ?l = "case db_lists P h k of None \<Rightarrow> DbIdList_new | Some l \<Rightarrow> l"
  from 2 have holds: "txn_holds t (TxnRequest_new cs ops) h" "opt_seq (ent h (db_str (DbName k))) = cur_seq"
      "ent h (db_str (DbBack i)) = None" "opt_seq (ent h (db_str (DbHist k))) = opt_seq l"
    by (simp_all add: req_def txn_holds_def clean_lasting [OF e(1) e(5)] k opt_seq_0 [OF e(1)])
  have lists: "db_lists P h k = map_option sv_data l" by (rule held_eq [OF l e(1) holds(4)])
  then have ll: "(case l of None \<Rightarrow> DbIdList_new | Some v \<Rightarrow> sv_data v) = ?l" by (cases l) simp_all
  note cl = prior [OF holds(1,2), unfolded clears_def Let_def]
  then have M: "if db_names J h k = Some j then \<exists>m. ?M j = Some m \<and> db_drop_on m \<noteq> None else ?M j = db_metas P h j" for j by blast
  have "db_consistent ((db_names J h)(k \<mapsto> i)) (?M(i \<mapsto> m)) ((db_lists P h)(k \<mapsto> dl_append i ?l)) ((db_backs P h)(i \<mapsto> to_raw k))"
  proof (rule db_consistent_insert [of "db_names J h" "db_metas P h" "db_lists P h", OF _ k _ i refl], goal_cases)
    case (3 j)
    then show ?case using M [of j] by (auto split: if_splits)
  next
    case (4 j)
    then show ?case using M [of j] by simp
  qed (use e(2) holds(3) in \<open>simp_all add: db_inv_def typed_def\<close>)
  moreover have "?M j \<noteq> None" if "db_metas P h j \<noteq> None" for j using M [of j] that by (auto split: if_splits)
  ultimately show ?case
    using cl k i(1) enc db_codecsD [OF codecs]
    by (auto elim!: db_consistent_cong [THEN iffD1, rotated -1] simp: req_def ops_final_append fun_upd_def ll)
qed (simp add: req_def plain txn_new_simple)

lemma insert_wp:
  assumes k: "db_ident (cb_name_ident req)" and codecs: "db_codecs J P" and step: "db_step J P u u'" and "db_drop_on (cb_meta req) = None"
    and plain: "list_all plain_op ops" and prior: "\<And>h c t. evolved (db_step J P) u' (h, c) \<Longrightarrow> txn_holds t (TxnRequest_new cs ops) h \<Longrightarrow>
      opt_seq (ent h (db_str (DbName (cb_name_ident req)))) = cur_seq \<Longrightarrow> clears J P (cb_name_ident req) ops h"
  shows "db_wp J P (db_post J P) (insert_database J P req cur_seq (TxnRequest_new cs ops)) u u'"
  unfolding insert_database_def Let_def
proof (rule db_read [OF db_key_strings(2) [OF k] _ step], goal_cases)
  case (2 f c l)
  show ?case
  proof (rule db_fetch [OF db_evolvedD(3) [OF 2(1)]], goal_cases)
    case (2 i g c' g' c'')
    have raise: "db_post J P (Inl (Raise e)) (g, c') (g', c'')" for e :: kv_app_error using 2(3) by (simp add: db_post_def)
    have ev: "evolved (db_step J P) u' (h, d)" if "evolved (db_step J P) (g', c'') (h, d)" for h d
    proof -
      have "evolved (db_step J P) (g, c') (g', c'')" using 2(1-3) that by (simp add: evolved_def)
      then show ?thesis using db_evolved_trans that \<open>evolved _ u' (f, c)\<close> 2(1) by blast
    qed
    show ?case
      unfolding txn_cond_seq_eq [OF db_key_strings(1) [OF k]] txn_cond_seq_eq [OF db_key_strings(2) [OF k]] txn_cond_seq_eq [OF db_key_strings(4)]
        txn_op_put_def db_key_strings(1) [OF k] rbind.simps apure_simps abind_simps sum.case push_lists
    proof (rule wp_app_put [OF db_key_strings(3)], rule raise, rule wp_app_put [OF db_key_strings(2) [OF k]], rule raise,
        rule wp_app_put [OF db_key_strings(4)], rule raise, goal_cases)
      case (1 b1 b2 b3)
      note enc = 1
      show ?case
      proof (rule db_send [OF txn_new_simple 2(3)], goal_cases)
        case (2 h d t)
        from ev [OF 2(1)] \<open>evolved _ u' (f, c)\<close> 2(1) \<open>evolved _ (f, c) (g, c')\<close> \<open>evolves g g'\<close> have "evolves f h"
          by (auto simp: evolved_def intro: evolves_trans)
        from held_mono [OF \<open>held _ _ l _ f\<close> this]
        have "held (bp_id_list P) (db_str (DbHist (cb_name_ident req))) l (sequence (f_sys f)) h" by simp
        from insert_step [OF ev [OF 2(1)] 2(2) plain k \<open>i < 2 ^ 64\<close> assms(4) codecs this prior [OF ev [OF 2(1)]]] enc
        show ?case by simp
      qed (simp add: plain)
    qed
  qed (simp_all add: db_post_def)
qed (use k in \<open>simp_all add: db_post_raise\<close>)

lemma drop_opsE:
  assumes "drop_ops P k drop_name_key a m txn"
  obtains cs ops where "txn = TxnRequest_new cs ops" and "list_all plain_op ops"
  using assms by cases (auto simp: drop_puts_def)

lemma replace_clears:
  assumes ev: "evolved (db_step J P) u (h, c)" and k: "db_ident k" and codecs: "db_codecs J P"
    and a: "held (id_pb J) (db_str (DbName k)) (Some a) n h" "held (id_pb J) (db_str (DbName k)) (Some a') n' h" "n \<le> n'"
    and drop: "drop_ops P k False a' m (TxnRequest_new cs ops)" "txn_holds t (TxnRequest_new cs ops) h"
    and seq: "opt_seq (ent h (db_str (DbName k))) = sv_seq a"
  shows "clears J P k ops h"
proof -
  note e = db_evolvedD [OF ev]
  have name: "db_names J h k = Some (sv_data a')" using held_eq [OF a(1) e(1)] held_between [OF a e(1) seq] seq by simp
  from drop(1) show ?thesis
  proof cases
    case (drop_listed now b)
    then show ?thesis
      using name db_codecsD(2) [OF codecs drop_listed(2)] by (auto simp: clears_def drop_puts_def TxnRequest_new_def Let_def)
  next
    case (drop_unlisted now b b')
    then have "ent h (db_str (DbHist k)) = None"
      using drop(2) by (auto simp: txn_holds_def TxnRequest_new_def clean_lasting [OF e(1) e(5)] k opt_seq_0 [OF e(1)])
    with name e(2) k show ?thesis by (auto simp: db_inv_def typed_def [of "bp_id_list P"] elim!: db_namedD)
  qed
qed

lemma db_create_wp:
  assumes k: "db_ident (cb_name_ident req)" and codecs: "db_codecs J P" and step: "db_step J P u u'" and new: "db_drop_on (cb_meta req) = None"
  shows "db_wp J P (db_post J P) (create_database_trial J P req) u u'"
  unfolding create_database_trial_def Let_def
proof (rule db_read [OF db_key_strings(1) [OF k] _ step], goal_cases)
  case (2 f c r)
  note f = db_evolvedD [OF 2(1)]
  show ?case
  proof (cases r)
    case None
    have "clears J P (cb_name_ident req) [] h"
      if "evolved (db_step J P) (f, c) (h, c')" "opt_seq (ent h (db_str (DbName (cb_name_ident req)))) = 0" for h c'
      using that(2) by (simp add: clears_def opt_seq_0 [OF db_evolvedD(1) [OF that(1)]] typed_def)
    with insert_wp [OF k codecs f(3) new, of "[]" "[]" 0] show ?thesis unfolding None by simp
  next
    case (Some a)
    show ?thesis
    proof (cases "cb_create_option req")
      case CreateOrReplace
      show ?thesis
        unfolding Some CreateOrReplace option.case create_option.case wp_abind [of _ _ _ "drop_database_meta _ _ _ _ _ _"]
      proof (rule drop_meta_wp [OF k f(3)], goal_cases)
        case (3 g c' a' m n txn)
        obtain cs ops where txn: "txn = TxnRequest_new cs ops" "list_all plain_op ops" using 3(4) by (rule drop_opsE)
        show ?case
          unfolding sum.case prod.case txn(1)
        proof (rule insert_wp [OF k codecs db_evolvedD(3) [OF 3(1)] new txn(2)], goal_cases)
          case (1 h d t)
          have "held (id_pb J) (db_str (DbName (cb_name_ident req))) (Some a) (sequence (f_sys f)) h"
            by (rule db_held [OF _ db_evolved_trans [OF 3(1) 1(1)]]) (use 2(2) Some in simp)
          moreover have "held (id_pb J) (db_str (DbName (cb_name_ident req))) (Some a') n h"
            by (rule db_held [OF _ 1(1)]) (use 3(2) in simp)
          ultimately show ?case
            by (rule replace_clears [OF 1(1) k codecs]) (use 3(3,4) txn(1) 1(2,3) in simp_all)
        qed
      qed (simp_all add: db_post_raise)
    qed (use Some db_post_raise [OF 2(1)] f(3) in \<open>simp_all add: db_post_def\<close>)
  qed
qed (use k in \<open>simp_all add: db_post_raise\<close>)

lemma move_wp:
  assumes k: "db_ident k" "db_ident k'" and codecs: "db_codecs J P" and step: "db_step J P u u'"
    and a: "held (id_pb J) (db_str (DbName k)) (Some a) n (fst u')" and l: "held (bp_id_list P) (db_str (DbHist k)) l n' (fst u')"
    and ids: "\<And>v. l = Some v \<Longrightarrow> ids = sv_data v"
  shows "db_wp J P (db_post J P) (move_database J P k k' a q (opt_seq l) ids) u u'"
  unfolding move_database_def Let_def
proof (rule db_read [OF db_key_strings(2) [OF k(2)] _ step], goal_cases)
  case (2 f c l')
  have raise: "db_post J P (Inl (Raise e)) (f, c) (f, c)" for e :: kv_app_error by (rule db_post_raise [OF 2(1)])
  show ?case
    unfolding txn_cond_seq_eq [OF db_key_strings(1) [OF k(1)]] txn_cond_seq_eq [OF db_key_strings(1) [OF k(2)]]
      txn_cond_seq_eq [OF db_key_strings(2) [OF k(1)]] txn_cond_seq_eq [OF db_key_strings(2) [OF k(2)]] txn_cond_seq_eq [OF db_key_strings(4)]
      txn_op_put_def txn_op_del_def db_key_strings(1) [OF k(1)] db_key_strings(1) [OF k(2)] rbind.simps apure_simps abind_simps sum.case
  proof (rule wp_app_put [OF db_key_strings(2) [OF k(2)]], rule raise, rule wp_app_put [OF db_key_strings(2) [OF k(1)]], rule raise,
      rule wp_app_put [OF db_key_strings(4)], rule raise, goal_cases)
    case (1 b1 b2 b3)
    note enc = 1
    show ?case
    proof (rule db_send [OF txn_new_simple db_evolvedD(3) [OF 2(1)]], goal_cases)
      case (2 h c' t)
      note ev = db_evolved_trans [OF \<open>evolved _ u' (f, c)\<close> 2(1)]
      note e = db_evolvedD [OF ev]
      show ?case
      proof (rule db_txn_step [OF 2(1) txn_new_simple 2(2)], goal_cases)
        case 2
        let ?i = "sv_data a" and ?l' = "case db_lists P h k' of None \<Rightarrow> DbIdList_new | Some l \<Rightarrow> l"
        from 2 have holds: "opt_seq (ent h (db_str (DbName k))) = sv_seq a" "ent h (db_str (DbName k')) = None"
            "opt_seq (ent h (db_str (DbHist k))) = opt_seq l" "opt_seq (ent h (db_str (DbHist k'))) = opt_seq l'"
          by (simp_all add: txn_holds_def clean_lasting [OF e(1) e(5)] k opt_seq_0 [OF e(1)])
        have names: "db_names J h k = Some ?i" "db_names J h k' = None"
          using held_eq [OF db_held [OF a ev] e(1)] holds(1,2) by (simp_all add: typed_def)
        have lists: "db_lists P h k = map_option sv_data l" by (rule held_eq [OF db_held [OF l ev] e(1) holds(3)])
        have "db_lists P h k' = map_option sv_data l'"
          using held_eq [OF db_held [OF _ \<open>evolved _ (f, c) (h, c')\<close>] e(1) holds(4)] \<open>held _ _ l' _ f\<close> by simp
        then have l': "(case l' of None \<Rightarrow> DbIdList_new | Some v \<Rightarrow> sv_data v) = ?l'" by (cases l') simp_all
        have con: "db_consistent (db_names J h) (db_metas P h) (db_lists P h) (db_backs P h)" using e(2) by (simp add: db_inv_def)
        note named = db_namedD [OF con k(1) names(1)]
        obtain v where v: "db_lists P h k = Some v" "dl_last v = Some ?i" by (rule named)
        with lists ids have [simp]: "ids = v" by (cases l) auto
        have "?i < 2 ^ 64" by (rule db_listedD(1) [OF con k(1) v(1) dl_last_mem [OF v(2)]])
        moreover have "k \<noteq> k'" using names by auto
        moreover have "db_consistent ((db_names J h)(k := None, k' \<mapsto> ?i)) (db_metas P h) ((db_lists P h)(k' \<mapsto> dl_append ?i ?l', k \<mapsto> dl_pop v))
            ((db_backs P h)(?i \<mapsto> to_raw k'))"
          by (rule db_consistent_rename [OF con k names v(1) refl])
        ultimately show ?case
          using k enc db_codecsD [OF codecs]
          by (auto elim!: db_consistent_cong [THEN iffD1, rotated -1] simp: fun_upd_def l')
      qed simp
    qed simp
  qed
qed (use k in \<open>simp_all add: db_post_raise\<close>)

lemma wp_aresult_bind:
  "\<forall>e. Q (Inl (Raise e)) u u' \<Longrightarrow> (\<And>y. x = Inr y \<Longrightarrow> wp R G Q (h y) u u') \<Longrightarrow> wp R G Q (abind (aresult x) h) u u'"
  by (cases x) (simp_all add: aresult_def)

lemma rename_wp:
  assumes k: "db_ident (rb_name_ident req)" "db_ident (TIdent_new_generic (ti_tenant (rb_name_ident req)) (rb_new_db_name req))"
    and codecs: "db_codecs J P" and step: "db_step J P u u'"
  shows "db_wp J P (db_post J P) (rename_database_trial J P req) u u'"
  unfolding rename_database_trial_def Let_def
proof (rule db_read [OF db_key_strings(1) [OF k(1)] _ step], goal_cases)
  case (2 f c r)
  note ev = 2(1)
  show ?case
  proof (cases r)
    case None
    then show ?thesis
      using db_evolvedD(3) [OF ev] by (simp add: db_post_def db_has_to_exist_def aresult_def)
  next
    case (Some a)
    show ?thesis
      unfolding Some option.case
    proof (rule db_read [OF db_key_strings(3) _ db_evolvedD(3) [OF ev]], goal_cases)
      case (2 f1 c1 m)
      note ev1 = 2(1)
      show ?case
      proof (rule wp_aresult_bind, rule allI, rule db_post_raise [OF ev1], rule db_read [OF db_key_strings(1) [OF k(2)] _ db_evolvedD(3) [OF ev1]], goal_cases)
        case (2 y f2 c2 r2)
        note ev2 = 2(2)
        show ?case
        proof (rule wp_aresult_bind, rule allI, rule db_post_raise [OF ev2], rule db_read [OF db_key_strings(4) _ db_evolvedD(3) [OF ev2]], goal_cases)
          case (2 y f3 c3 q)
          note ev3 = 2(2)
          show ?case
          proof (rule db_read [OF db_key_strings(2) [OF k(1)] _ db_evolvedD(3) [OF ev3]], goal_cases)
            case (2 g c' l)
            note tr = db_evolved_trans [OF db_evolved_trans [OF db_evolved_trans [OF ev1 ev2] ev3] 2(1)]
            have raise: "db_post J P (Inl (Raise e) ::
                kv_app_error fault + unit option) (g, c') (g, c')" for e by (rule db_post_raise [OF 2(1)])
            have "held (id_pb J) (db_str (DbName (rb_name_ident req))) (Some a) (sequence (f_sys f)) g"
              by (rule db_held [OF _ tr]) (use \<open>held _ _ r _ f\<close> Some in simp)
            with move_wp [OF k codecs db_evolvedD(3) [OF 2(1)], of a "sequence (f_sys f)" l "sequence (f_sys g)"
                "case l of None \<Rightarrow> dl_append (sv_data a) DbIdList_new | Some x \<Rightarrow> sv_data x" "opt_seq q"]
            show ?case using raise 2(2) by simp
          qed (use k in \<open>simp_all add: db_post_raise\<close>)
        qed (use k in \<open>simp_all add: db_post_raise\<close>)
      qed (use k in \<open>simp_all add: db_post_raise\<close>)
    qed (simp_all add: db_post_raise)
  qed
qed (use k in \<open>simp_all add: db_post_raise\<close>)

section \<open>Clients\<close>

datatype db_call =
  CallCreateDb create_database_req
| CallDropDb drop_database_req
| CallUndropDb "rstr tident"
| CallRenameDb rename_database_req
| CallGetDb "rstr tident"

datatype db_reply = DbId nat | DbDone | DbInfo database_info

fun db_client :: "json \<Rightarrow> database_pb \<Rightarrow> db_call \<Rightarrow> (kv_app_error, db_reply) api" where
  "db_client J P (CallCreateDb req) = abind (create_database J P req) (\<lambda>i. aret (DbId i))"
| "db_client J P (CallDropDb req) = abind (drop_database J P req) (\<lambda>i. aret (DbId i))"
| "db_client J P (CallUndropDb k) = abind (undrop_database J P k) (\<lambda>_. aret DbDone)"
| "db_client J P (CallRenameDb req) = abind (rename_database J P req) (\<lambda>_. aret DbDone)"
| "db_client J P (CallGetDb k) = abind (get_database J P k) (\<lambda>x. aret (DbInfo x))"

text \<open>The names of a call can be written as keys.\<close>

fun db_call_ok :: "db_call \<Rightarrow> bool" where
  "db_call_ok (CallCreateDb req) \<longleftrightarrow> db_ident (cb_name_ident req)"
| "db_call_ok (CallDropDb req) \<longleftrightarrow> db_ident (xb_name_ident req)"
| "db_call_ok (CallUndropDb k) \<longleftrightarrow> db_ident k"
| "db_call_ok (CallRenameDb req) \<longleftrightarrow>
     db_ident (rb_name_ident req) \<and> db_ident (TIdent_new_generic (ti_tenant (rb_name_ident req)) (rb_new_db_name req))"
| "db_call_ok (CallGetDb k) \<longleftrightarrow> db_ident k"

lemma db_loop:
  fixes u u' :: "('lid, 'mem, unit) ghosted"
  assumes "\<And>u u' :: ('lid, 'mem, unit) ghosted. db_step J P u u' \<Longrightarrow> db_wp J P (db_post J P) body u u'" and "db_step J P u u'"
  shows "db_wp J P (db_post J P) (abind (txn_loop conv body (txn_backoff n)) (\<lambda>x. aret (h x))) u u'"
  unfolding wp_abind
proof (rule wp_txn_loop [where P = "db_step J P"], goal_cases)
  case (1 u u')
  show ?case by (rule wp_mono [OF assms(1) [OF 1]]) (auto simp: db_post_def split: sum.split option.split)
qed (use assms(2) in \<open>simp_all add: db_post_def\<close>)

lemma db_client_wp:
  assumes "db_call_ok x" and "db_codecs J P" and "db_step J P u u'"
  shows "db_wp J P (db_post J P) (db_client J P x) u u'"
proof (cases x)
  case (CallCreateDb req)
  with assms db_loop [OF db_create_wp [of req J P]] show ?thesis
    by (cases "db_drop_on (cb_meta req) = None") (simp_all add: create_database_def db_post_def)
next
  case (CallDropDb req)
  with assms db_loop [OF drop_wp [of req J P]] show ?thesis by (simp add: drop_database_def)
next
  case (CallUndropDb k)
  with assms db_loop [OF undrop_wp [of k J P]] show ?thesis by (simp add: undrop_database_def)
next
  case (CallRenameDb req)
  with assms db_loop [OF rename_wp [of req J P]] show ?thesis by (simp add: rename_database_def)
next
  case (CallGetDb k)
  have "db_wp J P (db_post J P) (get_database J P k) u u'"
    unfolding get_database_def wp_abind
    by (rule get_db_wp [OF _ assms(3)]) (use assms(1) CallGetDb in \<open>auto simp: db_post_def db_evolvedD\<close>)
  then have "db_wp J P (\<lambda>r u u'. case r of Inl e \<Rightarrow> db_post J P (Inl e) u u' | Inr x \<Rightarrow> db_post J P (Inr (DbInfo x)) u u') (get_database J P k) u u'"
    by (rule wp_mono) (auto simp: db_post_def split: sum.split)
  then show ?thesis unfolding CallGetDb db_client.simps wp_abind wp_aret .
qed

definition db_world_inv ::
    "json \<Rightarrow> database_pb \<Rightarrow> ('lid, 'mem, unit) ghosted \<Rightarrow> (nat \<times> (kv_app_error fault + db_reply)) list \<Rightarrow> bool" where
  "db_world_inv J P u d \<longleftrightarrow> db_inv J P (fst u) \<and> (\<forall>(i, x) \<in> set d. \<forall>q. x \<noteq> Inl (Panicked q))"

text \<open>
  C9. Any number of clients of a meta node create, replace, drop, restore, rename and read databases, beside
  other clients that do not write the records of databases, with requests and replies lost at any point. What the
  node returns for the records is consistent at any time: a name stands for the last identifier of its
  list and for a database that is not marked as dropped, each listed identifier has meta data and leads back to
  its name, and it is marked as dropped unless the name stands for it. No client panics.
\<close>

theorem databases_stay_consistent:
  assumes "env_ok E" and "db_codecs J P" and "list_all db_call_ok cs" and "t < 2 ^ 64"
    and "\<And>c x. allowed c \<Longrightarrow> db_rec_ok x \<Longrightarrow> \<not> cmd_writes c (db_str x)"
    and "kvworld_steps (node_api E) allowed (kvworld_init (replica_init mem0 sub) (map (db_client J P) cs)) w"
  shows "db_consistent (server_value (node_api E) (kw_server w) t (db_name_key J))
      (\<lambda>i. server_value (node_api E) (kw_server w) t (db_id_key P) \<lparr>did_db_id = i\<rparr>)
      (server_value (node_api E) (kw_server w) t (db_history_key P))
      (\<lambda>i. server_value (node_api E) (kw_server w) t (db_id_to_name_key P) \<lparr>ditn_db_id = i\<rparr>) \<and>
    (\<forall>(i, x) \<in> set (kw_done w). \<forall>q. x \<noteq> Inl (Panicked q))"
proof -
  have init: "db_world_inv J P (flat_init mem0, ()) []"
    by (simp add: db_world_inv_def db_inv_def db_consistent_def lasting_def typed_def flat_init_def)
  then have start: "db_step J P (flat_init mem0, ()) (flat_init mem0, ())" by (simp add: db_world_inv_def db_step_def)
  have wp: "db_wp J P (db_post J P) (map (db_client J P) cs ! i) (flat_init mem0, ()) (flat_init mem0, ())"
    if "i < length (map (db_client J P) cs)" for i
    using that assms(2,3) start by (auto simp: list_all_length intro!: db_client_wp)
  have prot: "protocol (db_world_inv J P) (\<lambda>_. evolved (db_step J P)) (\<lambda>_. db_step J P) (\<lambda>_. db_post J P) allowed (length (map (db_client J P) cs))"
  proof (rule protocolI, goal_cases)
    case (5 f t up c d)
    then have "db_step J P (f, c) (snd (flat_mem_upsert t up f), c)"
      by (intro db_frame upsert_frame) (auto simp: db_world_inv_def db_inv_def assms(5))
    with 5(4) show ?case by (auto simp: db_world_inv_def db_step_def)
  next
    case (6 f t req c d)
    then have "db_step J P (f, c) (snd (flat_mem_txn t req f), c)"
      by (intro db_frame txn_frame) (auto simp: db_world_inv_def db_inv_def assms(5))
    with 6(4) show ?case by (auto simp: db_world_inv_def db_step_def)
  qed (auto simp: evolved_def db_post_def db_world_inv_def db_step_def intro: db_step_trans)
  obtain f where f: "node_sim E (kw_server w) f" "db_world_inv J P (f, ()) (kw_done w)"
    by (rule node_server.kvworld_inv [OF assms(6) node_sim_init [OF assms(1)] init wp prot]) auto
  note read = node_server.server_typed [OF f(1) assms(4)]
  have "db_consistent (server_value (node_api E) (kw_server w) t (db_name_key J))
      (\<lambda>i. server_value (node_api E) (kw_server w) t (db_id_key P) \<lparr>did_db_id = i\<rparr>)
      (server_value (node_api E) (kw_server w) t (db_history_key P))
      (\<lambda>i. server_value (node_api E) (kw_server w) t (db_id_to_name_key P) \<lparr>ditn_db_id = i\<rparr>) \<longleftrightarrow>
    db_consistent (db_names J f) (db_metas P f) (db_lists P f) (db_backs P f)"
    by (rule db_consistent_cong) (use f(2) in \<open>simp_all add: db_world_inv_def db_inv_def read db_key_strings\<close>)
  with f(2) show ?thesis by (simp add: db_world_inv_def db_inv_def)
qed

section \<open>An example\<close>

text \<open>
  A database is created; then one client renames it while another one drops it. The one that drops it has read
  the records before they change, so its transaction fails; when it tries again the name is unknown.
\<close>

definition sample_a :: "rstr tident" where
  "sample_a = \<lparr>ti_tenant = \<lparr>tenant_name = str ''t''\<rparr>, ti_name = str ''a''\<rparr>"

definition sample_b :: "rstr tident" where
  "sample_b = \<lparr>ti_tenant = \<lparr>tenant_name = str ''t''\<rparr>, ti_name = str ''b''\<rparr>"

definition sample_meta :: database_meta where
  "sample_meta = \<lparr>db_engine = [], db_engine_options = [], db_options = [], db_created_on = 5, db_updated_on = 5, db_comment = [],
     db_drop_on = None, db_gc_in_progress = False\<rparr>"

definition sample_db_calls :: "db_call list" where
  "sample_db_calls =
     [CallCreateDb \<lparr>cb_create_option = Create, cb_name_ident = sample_a, cb_meta = sample_meta\<rparr>,
      CallRenameDb \<lparr>rb_if_exists = False, rb_name_ident = sample_a, rb_new_db_name = ti_name sample_b\<rparr>,
      CallDropDb \<lparr>xb_if_exists = False, xb_name_ident = sample_a\<rparr>]"

lemma sample_idents: "db_ident sample_a" "db_ident sample_b" "TIdent_new_generic (ti_tenant sample_a) (ti_name sample_b) = sample_b"
  by (simp_all add: tident_valid_def sample_a_def sample_b_def DatabaseNameIdent_rsc_def str_def valid_char_def TIdent_new_generic_def)

lemma sample_strs:
  "db_str (DbName sample_a) = str ''__fd_database/t/a''" "db_str (DbName sample_b) = str ''__fd_database/t/b''"
  "db_str (DbHist sample_a) = str ''__fd_db_id_list/t/a''" "db_str (DbHist sample_b) = str ''__fd_db_id_list/t/b''"
  "db_str (DbMeta (Suc 0)) = str ''__fd_database_by_id/1''" "db_str (DbBack (Suc 0)) = str ''__fd_database_id_to_name/1''"
  "generator_key IdGenerator_database_id = Inr (str ''__fd_id_gen/database_id'')"
  by code_simp+

lemmas sample_keys = sample_idents db_key_strings sample_strs

lemma sample_db_schedule:
  "\<exists>f ps. schedule
       [(0, 10), (0, 11), (0, 12), (0, 13), (2, 20), (2, 21), (2, 22), (2, 23),
        (1, 30), (1, 31), (1, 32), (1, 33), (1, 34), (1, 35), (1, 36), (2, 40), (2, 41)]
     (flat_init () :: (nat, unit) flat, map (db_client json_ref database_pb_ref) sample_db_calls, []) =
   Some (f, ps, [(0, Inr (DbId 1)), (1, Inr DbDone), (2, Inl (Raise (AppErr (unknown_database_error sample_a))))])"
proof -
  obtain a b rest where trials: "txn_backoff None = Inr a # Inr b # rest"
    by (simp add: txn_backoff_items trial_count_def TXN_MAX_RETRY_TIMES_def upt_rec)
  show ?thesis
    by (simp add: serve_eval flat_init_def api_simps trials sample_db_calls_def sample_keys create_database_def rename_database_def
      drop_database_def create_database_trial_def insert_database_def txn_cond_seq_eq txn_op_put_def fetch_id_def app_put_def app_serialize_def
      serialize_struct_def database_pb_ref_def database_pb_eval id_pb_ref_eval sample_meta_def push_all_def push_conditions_def push_then_def push_condition_def
      str_def valid_char_def TxnOp_put_def dl_append_def DbIdList_new_def get_db_or_err_def
      drop_database_trial_def drop_database_meta_def mark_db_dropped_def txn_op_del_def get_pb_seq_and_value_def rename_database_trial_def move_database_def
      db_has_to_exist_def db_has_to_not_exist_def aresult_def dl_last_def dl_pop_def btree_remove_def unknown_database_error_def)
qed

theorem databases_stay_consistent_witness:
  "\<exists>w. kvworld_steps (node_api env_ref) (\<lambda>c. \<forall>x. db_rec_ok x \<longrightarrow> \<not> cmd_writes c (db_str x))
      (kvworld_init (replica_init () None) (map (db_client json_ref database_pb_ref) sample_db_calls)) w \<and>
    kw_done w = [(0, Inr (DbId 1)), (1, Inr DbDone), (2, Inl (Raise (AppErr (unknown_database_error sample_a))))] \<and>
    db_consistent (server_value (node_api env_ref) (kw_server w) 50 (db_name_key json_ref))
      (\<lambda>i. server_value (node_api env_ref) (kw_server w) 50 (db_id_key database_pb_ref) \<lparr>did_db_id = i\<rparr>)
      (server_value (node_api env_ref) (kw_server w) 50 (db_history_key database_pb_ref))
      (\<lambda>i. server_value (node_api env_ref) (kw_server w) 50 (db_id_to_name_key database_pb_ref) \<lparr>ditn_db_id = i\<rparr>)"
proof -
  let ?ps = "map (db_client json_ref database_pb_ref) sample_db_calls" and ?allowed = "\<lambda>c. \<forall>x. db_rec_ok x \<longrightarrow> \<not> cmd_writes c (db_str x)"
  let ?done = "[(0, Inr (DbId 1)), (1, Inr DbDone), (2, Inl (Raise (AppErr (unknown_database_error sample_a))))]"
  obtain turns f ps where "schedule turns (flat_init () :: (nat, unit) flat, ?ps, []) = Some (f, ps, ?done)"
    using sample_db_schedule by blast
  then obtain w where
    w: "kvworld_steps (node_api env_ref) ?allowed (kvworld_init (replica_init () None) ?ps) w" "kw_done w = ?done"
    by (rule node_schedule [OF _ env_ref_ok]) (rule that)
  have "db_codecs json_ref database_pb_ref"
    by (simp add: db_codecs_def json_ref_ok database_pb_ref_def pb_of_wire_faithful database_wires_ok)
  moreover have "list_all db_call_ok sample_db_calls" by (simp add: sample_db_calls_def sample_idents)
  moreover have "(50 :: nat) < 2 ^ 64" by simp
  ultimately show ?thesis using databases_stay_consistent [OF env_ref_ok _ _ _ _ w(1)] w by blast
qed

end
