(* ===== verification/UpdateProps.thy ===== *)
theory UpdateProps
  imports TypedReads ObjectApi ReferenceEnv
begin

text \<open>
  Concurrent updates of one record by \<open>crud_upsert_with\<close> (\<open>kv_pb_crud_api.rs\<close>): no update is lost and none is applied twice.
\<close>

section \<open>Updates one after the other\<close>

text \<open>An update fails, leaves the value as it is, or replaces it.\<close>

definition upd_step :: "('v option \<Rightarrow> 'e + 'v option) \<Rightarrow> 'v option \<Rightarrow> 'v option" where
  "upd_step g v = (case g v of Inr (Some x) \<Rightarrow> Some x | _ \<Rightarrow> v)"

definition upd_run :: "('v option \<Rightarrow> 'e + 'v option) list \<Rightarrow> nat list \<Rightarrow> 'v option" where
  "upd_run gs os = fold (\<lambda>i. upd_step (gs ! i)) os None"

lemma upd_run_snoc: "upd_run gs (os @ [i]) = upd_step (gs ! i) (upd_run gs os)"
  by (simp add: upd_run_def)

text \<open>
  The result of client \<open>i\<close> fits to an order in which the updates took effect: a reported change is the step at the place of
  the client, and a client that reports no change has not changed the value.
\<close>

definition result_fits :: "('v option \<Rightarrow> 'e + 'v option) list \<Rightarrow> nat \<Rightarrow> meta_txn_error fault + ('e + 'v change) \<Rightarrow> nat list \<Rightarrow> bool" where
  "result_fits gs i r os \<longleftrightarrow>
     (case r of
        Inl (Raise _) \<Rightarrow> True
      | Inl (Panicked _) \<Rightarrow> False
      | Inr (Inl e) \<Rightarrow> i \<notin> set os \<and> (\<exists>ys zs. os = ys @ zs \<and> (gs ! i) (upd_run gs ys) = Inl e)
      | Inr (Inr c) \<Rightarrow>
          if is_changed c
          then \<exists>ys zs. os = ys @ i # zs \<and> map_option sv_data (ch_prev c) = upd_run gs ys \<and> map_option sv_data (ch_result c) = upd_run gs (ys @ [i])
          else i \<notin> set os \<and>
            (\<exists>ys zs. os = ys @ zs \<and> (gs ! i) (upd_run gs ys) = Inr None \<and> map_option sv_data (ch_result c) = upd_run gs ys))"

lemma result_fits_append: "result_fits gs i r os \<Longrightarrow> i \<notin> set zs \<Longrightarrow> result_fits gs i r (os @ zs)"
  unfolding result_fits_def by (auto split: sum.splits fault.splits) (metis append.assoc append_Cons)+

lemma result_fitsI:
  "i \<notin> set os \<Longrightarrow> (gs ! i) (upd_run gs os) = Inl e \<Longrightarrow> result_fits gs i (Inr (Inl e)) os"
  "i \<notin> set os \<Longrightarrow> (gs ! i) (upd_run gs os) = Inr None \<Longrightarrow> \<not> is_changed c \<Longrightarrow> map_option sv_data (ch_result c) = upd_run gs os \<Longrightarrow>
     result_fits gs i (Inr (Inr c)) os"
  "is_changed c \<Longrightarrow> map_option sv_data (ch_prev c) = upd_run gs os \<Longrightarrow> map_option sv_data (ch_result c) = upd_run gs (os @ [i]) \<Longrightarrow>
     result_fits gs i (Inr (Inr c)) (os @ [i])"
proof -
  assume *: "i \<notin> set os" "(gs ! i) (upd_run gs os) = Inl e"
  have "\<exists>ys zs. os = ys @ zs \<and> (gs ! i) (upd_run gs ys) = Inl e" by (rule exI [of _ os], rule exI [of _ "[]"]) (simp add: *)
  with * show "result_fits gs i (Inr (Inl e)) os" by (simp add: result_fits_def)
next
  assume *: "i \<notin> set os" "(gs ! i) (upd_run gs os) = Inr None" "\<not> is_changed c" "map_option sv_data (ch_result c) = upd_run gs os"
  have "\<exists>ys zs. os = ys @ zs \<and> (gs ! i) (upd_run gs ys) = Inr None \<and> map_option sv_data (ch_result c) = upd_run gs ys"
    by (rule exI [of _ os], rule exI [of _ "[]"]) (simp add: *)
  with * show "result_fits gs i (Inr (Inr c)) os" by (simp add: result_fits_def)
next
  assume *: "is_changed c" "map_option sv_data (ch_prev c) = upd_run gs os" "map_option sv_data (ch_result c) = upd_run gs (os @ [i])"
  have "\<exists>ys zs. os @ [i] = ys @ i # zs \<and> map_option sv_data (ch_prev c) = upd_run gs ys \<and> map_option sv_data (ch_result c) = upd_run gs (ys @ [i])"
    by (rule exI [of _ os], rule exI [of _ "[]"]) (simp add: *)
  with * show "result_fits gs i (Inr (Inr c)) (os @ [i])" by (simp add: result_fits_def)
qed

section \<open>The protocol\<close>

type_synonym ('lid, 'mem) ordered = "('lid, 'mem, nat list) ghosted"

text \<open>The ghost state is the order in which the updates took effect.\<close>

definition upd_inv :: "('v option \<Rightarrow> 'e + 'v option) list \<Rightarrow> 'v pbcodec \<Rightarrow> rstr \<Rightarrow> ('lid, 'mem) ordered \<Rightarrow> bool" where
  "upd_inv gs P s u \<longleftrightarrow> lasting (fst u) s \<and> typed P (fst u) s = upd_run gs (snd u) \<and> distinct (snd u) \<and> set (snd u) \<subseteq> {..<length gs}"

definition upd_rely :: "('v option \<Rightarrow> 'e + 'v option) list \<Rightarrow> 'v pbcodec \<Rightarrow> rstr \<Rightarrow> nat \<Rightarrow> ('lid, 'mem) ordered \<Rightarrow> ('lid, 'mem) ordered \<Rightarrow> bool" where
  "upd_rely gs P s i u u' \<longleftrightarrow> upd_inv gs P s u \<and> upd_inv gs P s u' \<and> (\<exists>zs. snd u' = snd u @ zs \<and> i \<notin> set zs)"

definition upd_guar :: "('v option \<Rightarrow> 'e + 'v option) list \<Rightarrow> 'v pbcodec \<Rightarrow> rstr \<Rightarrow> ('lid, 'mem) ordered \<Rightarrow> ('lid, 'mem) ordered \<Rightarrow> bool" where
  "upd_guar gs P s u u' \<longleftrightarrow> upd_inv gs P s u \<and> upd_inv gs P s u' \<and> snd u' = snd u"

definition upd_post :: "('v option \<Rightarrow> 'e + 'v option) list \<Rightarrow> 'v pbcodec \<Rightarrow> rstr \<Rightarrow> nat \<Rightarrow> meta_txn_error fault + ('e + 'v change) \<Rightarrow>
    ('lid, 'mem) ordered \<Rightarrow> ('lid, 'mem) ordered \<Rightarrow> bool" where
  "upd_post gs P s i r u u' \<longleftrightarrow> upd_inv gs P s u \<and> upd_inv gs P s u' \<and> (snd u' = snd u \<or> snd u' = snd u @ [i]) \<and> result_fits gs i r (snd u')"

definition upd_world_inv :: "('v option \<Rightarrow> 'e + 'v option) list \<Rightarrow> 'v pbcodec \<Rightarrow> rstr \<Rightarrow> ('lid, 'mem) ordered \<Rightarrow>
    (nat \<times> (meta_txn_error fault + ('e + 'v change))) list \<Rightarrow> bool" where
  "upd_world_inv gs P s u d \<longleftrightarrow> upd_inv gs P s u \<and> (\<forall>(i, x) \<in> set d. result_fits gs i x (snd u))"

text \<open>A conditional write: either the value is the one that was read and the update takes its place in the order, or nothing changes.\<close>

lemma decode_opt_typed: "decode_opt P (ent f s) = Inr r \<Longrightarrow> opt_seq r = opt_seq (ent f s) \<and> map_option sv_data r = typed P f s"
  by (cases "ent f s"; cases "pb_decode P (sv_data (the (ent f s)))") (auto simp: decode_opt_def decode_seqv_def typed_def SeqV_with_meta_def)

lemma decode_transition_typed:
  assumes "decode_transition P ch = Inr c" and "ch_prev ch = ent f s" and "ch_result ch = ent g s"
  shows "opt_seq (ch_prev c) = opt_seq (ent f s)" "map_option sv_data (ch_prev c) = typed P f s"
    "opt_seq (ch_result c) = opt_seq (ent g s)" "map_option sv_data (ch_result c) = typed P g s"
proof -
  from assms obtain p q where "decode_opt P (ent f s) = Inr p" "decode_opt P (ent g s) = Inr q" "ch_prev c = p" "ch_result c = q"
    by (cases "decode_opt P (ent f s)"; cases "decode_opt P (ent g s)") (auto simp: decode_transition_def)
  with decode_opt_typed show "opt_seq (ch_prev c) = opt_seq (ent f s)" "map_option sv_data (ch_prev c) = typed P f s"
    "opt_seq (ch_result c) = opt_seq (ent g s)" "map_option sv_data (ch_result c) = typed P g s" by blast+
qed

lemma cas_step:
  assumes inv: "flat_inv f" "upd_inv gs P s (f, os)" and t: "t < 2 ^ 64" and r: "held P s r n f" and i: "i \<notin> set os" "i < length gs"
    and up: "flat_mem_upsert t \<lparr>uk_key = s, uk_seq = Exact (opt_seq r), uk_value = Update buf, uk_value_meta = None\<rparr> f = (ch, g)"
    and g: "(gs ! i) (map_option sv_data r) = Inr (Some x)" "pb_decode P buf = Inr x"
  shows "\<exists>os'. upd_inv gs P s (g, os') \<and> (os' = os \<or> os' = os @ [i]) \<and>
    (\<forall>c. decode_transition P ch = Inr c \<longrightarrow> (if is_changed c then os' = os @ [i] \<and> result_fits gs i (Inr (Inr c)) os' else os' = os))"
proof -
  note cas = cas_upsert_effect [OF inv(1) t up]
  have rd: "flat_read t f s = ent f s" using inv(2) by (simp add: upd_inv_def flat_read_lasting)
  note tr = decode_transition_typed [OF _ cas(1) [unfolded rd] cas(2)]
  show ?thesis
  proof (cases "opt_seq (ent f s) = opt_seq r")
    case True
    have old: "upd_run gs os = map_option sv_data r" using held_eq [OF r inv(1) True] inv(2) by (simp add: upd_inv_def)
    obtain v where v: "ent g s = Some v" "sv_data v = buf" "sv_expires v = None" "sequence (f_sys f) < sv_seq v" using cas(4) rd True by auto
    have new: "upd_run gs (os @ [i]) = Some x" using g(1) old by (simp add: upd_run_snoc upd_step_def)
    have "opt_seq (ent f s) \<le> sequence (f_sys f)" using flat_invD(3) [OF inv(1), of s] by (cases "ent f s") auto
    then have "is_changed c" "map_option sv_data (ch_prev c) = upd_run gs os" "map_option sv_data (ch_result c) = upd_run gs (os @ [i])"
      if "decode_transition P ch = Inr c" for c
      using tr [OF that] v g(2) inv(2) new by (auto simp: is_changed_def upd_inv_def typed_def)
    moreover have "upd_inv gs P s (g, os @ [i])" using inv(2) v g(2) new i by (simp add: upd_inv_def lasting_def typed_def)
    ultimately show ?thesis by (intro exI [of _ "os @ [i]"]) (simp add: result_fitsI(3))
  next
    case False
    then have "ent g s = ent f s" using cas(3) [of s] rd by simp
    moreover from this have "\<not> is_changed c" if "decode_transition P ch = Inr c" for c using tr [OF that] by (simp add: is_changed_def)
    ultimately show ?thesis using inv(2) typed_cong [of g s f P] lasting_cong [of g s f] by (intro exI [of _ os]) (simp add: upd_inv_def)
  qed
qed

text \<open>The trials of a client.\<close>

definition upd_client :: "('k, 'v) pbkey \<Rightarrow> 'k \<Rightarrow> ('v option \<Rightarrow> 'e + 'v option) \<Rightarrow> (meta_txn_error, 'e + 'v change) api" where
  "upd_client K k g = crud_upsert_with K k (\<lambda>r. g (map_option sv_data r))"

lemma upd_trial_wp:
  assumes key: "pk_string K k = Inr s" and codec: "pb_faithful (\<lambda>_. True) (pk_value K)" and i: "i < length gs" "i \<notin> set (snd u')"
    and guar: "upd_guar gs (pk_value K) s u u'"
  shows "wp (evolved (upd_rely gs (pk_value K) s i)) (upd_guar gs (pk_value K) s)
    (\<lambda>r u u'. case r of
        Inl e \<Rightarrow> upd_post gs (pk_value K) s i (Inl e) u u'
      | Inr None \<Rightarrow> upd_guar gs (pk_value K) s u u' \<and> i \<notin> set (snd u')
      | Inr (Some x) \<Rightarrow> upd_post gs (pk_value K) s i (Inr x) u u')
    (upsert_with_trial K k (\<lambda>r. (gs ! i) (map_option sv_data r))) u u'"
  unfolding upsert_with_trial_def Let_def
proof (rule wp_read_bind [OF key], rule guar, goal_cases)
  case (1 f c)
  then show ?case by (auto simp: evolved_def upd_rely_def upd_inv_def)
next
  case (2 f c e)
  then show ?case by (auto simp: evolved_def upd_rely_def upd_post_def result_fits_def)
next
  case (3 f os r)
  note f = this
  have inv: "upd_inv gs (pk_value K) s (f, os)" "i \<notin> set os" using 3(1) i(2) by (auto simp: evolved_def upd_rely_def)
  then have run: "upd_run gs os = map_option sv_data r" using 3(3) by (simp add: upd_inv_def)
  show ?case
  proof (cases "(gs ! i) (map_option sv_data r)")
    case (Inl err)
    with inv run show ?thesis by (simp add: upd_post_def result_fitsI(1))
  next
    case (Inr res)
    show ?thesis
    proof (cases res)
      case None
      with Inr inv run show ?thesis by (simp add: upd_post_def result_fitsI(2) is_changed_def Change_new_def)
    next
      case (Some x)
      show ?thesis
      proof (cases "pb_encode (pk_value K) x")
        case (Inl e)
        with Inr Some inv show ?thesis
          by (simp add: upsert_pb_def upsert_pb_low_def UpsertPB_with_seq_def UpsertPB_insert_def encode_operation_def key wp_abind wp_amap_err upd_post_def
              result_fits_def)
      next
        case buf: (Inr buf)
        let ?req = "UpsertPB_with_seq (UpsertPB_insert k x) (Exact (opt_seq r))"
        have x: "pb_decode (pk_value K) buf = Inr x" using codec buf by (auto simp: pb_faithful_def)
        have req: "pk_string K (up_key ?req) = Inr s" "encode_operation (pk_value K) (up_value ?req) = Inr (Update buf)"
          using buf by (simp_all add: UpsertPB_with_seq_def UpsertPB_insert_def encode_operation_def key)
        show ?thesis
          unfolding Inr Some sum.case option.case wp_abind wp_amap_err
        proof (rule wp_upsert_pb [OF req], goal_cases)
          case 1
          then show ?case using inv by (simp add: upd_guar_def)
        next
          case (2 g os' e)
          then show ?case by (auto simp: evolved_def upd_rely_def upd_post_def result_fits_def)
        next
          case (3 g os' t ch h)
          have g: "flat_inv g" "upd_inv gs (pk_value K) s (g, os')" "i \<notin> set os'" "evolves f g"
            using 3(1) inv(2) by (auto simp: evolved_def upd_rely_def)
          have t: "t < 2 ^ 64" using 3(2) by (simp add: fits_def)
          have up: "flat_mem_upsert t \<lparr>uk_key = s, uk_seq = Exact (opt_seq r), uk_value = Update buf, uk_value_meta = None\<rparr> g = (ch, h)"
            using 3(3) by (simp add: UpsertPB_with_seq_def UpsertPB_insert_def)
          have upd: "(gs ! i) (map_option sv_data r) = Inr (Some x)" using Inr Some by simp
          obtain os2 where os2: "upd_inv gs (pk_value K) s (h, os2)" "os2 = os' \<or> os2 = os' @ [i]"
            "\<And>c. decode_transition (pk_value K) ch = Inr c \<Longrightarrow> if is_changed c then os2 = os' @ [i] \<and> result_fits gs i (Inr (Inr c)) os2 else os2 = os'"
            using cas_step [OF g(1,2) t held_mono [OF f(2) g(4)] g(3) i(1) up upd x] by blast
          show ?case
            using g(2,3) os2(1,2) os2(3)
            by (intro exI [of _ os2]) (auto simp: upd_post_def upd_guar_def result_fits_def [of _ _ "Inl _"] split: if_splits)
        qed
      qed
    qed
  qed
qed

lemma upd_client_wp:
  assumes "pk_string K k = Inr s" and "pb_faithful (\<lambda>_. True) (pk_value K)" and "i < length gs" and "i \<notin> set (snd u')"
    and "upd_guar gs (pk_value K) s u u'"
  shows "wp (evolved (upd_rely gs (pk_value K) s i)) (upd_guar gs (pk_value K) s) (upd_post gs (pk_value K) s i) (upd_client K k (gs ! i)) u u'"
  unfolding upd_client_def crud_upsert_with_def
proof (rule wp_txn_loop [where P = "\<lambda>u u'. upd_guar gs (pk_value K) s u u' \<and> i \<notin> set (snd u')"], goal_cases)
  case (1 u u')
  with upd_trial_wp [OF assms(1,2,3)] show ?case by blast
qed (use assms(4,5) in \<open>auto simp: upd_post_def upd_guar_def result_fits_def\<close>)

text \<open>
  C10. Any number of clients update the same record by \<open>crud_upsert_with\<close>, beside other clients that do not write it, with
  requests and replies lost at any point. At any time there is an order of some of the clients, each at most once, such that
  the value is the one that their updates make of nothing, one after the other. It contains each client that reported a
  change, and what the client reported is the step at its place; it contains no client that reported an error of its own
  or no change. No client panics.
\<close>

theorem updates_take_effect_once:
  assumes "env_ok E" and "pk_string K k = Inr s" and "pb_faithful (\<lambda>_. True) (pk_value K)" and "t < 2 ^ 64"
    and "\<And>c. allowed c \<Longrightarrow> \<not> cmd_writes c s"
    and "kvworld_steps (node_api E) allowed (kvworld_init (replica_init mem0 sub) (map (upd_client K k) gs)) w"
  shows "\<exists>os. distinct os \<and> set os \<subseteq> {..<length gs} \<and> server_value (node_api E) (kw_server w) t K k = upd_run gs os \<and>
    (\<forall>(i, x) \<in> set (kw_done w). result_fits gs i x os)"
proof -
  let ?I = "upd_world_inv gs (pk_value K) s" and ?X = "upd_rely gs (pk_value K) s" and ?G = "upd_guar gs (pk_value K) s" and ?Q = "upd_post gs (pk_value K) s"
  have init: "?I (flat_init mem0, []) []"
    by (simp add: upd_world_inv_def upd_inv_def lasting_def typed_def flat_init_def upd_run_def)
  then have start: "?G (flat_init mem0, []) (flat_init mem0, [])" by (simp add: upd_world_inv_def upd_guar_def)
  have wp: "wp (evolved (?X i)) ?G (?Q i) (map (upd_client K k) gs ! i) (flat_init mem0, []) (flat_init mem0, [])"
    if "i < length (map (upd_client K k) gs)" for i
    using upd_client_wp [OF assms(2,3) _ _ start, of i] that by simp
  have other: "?I (g, os) d \<and> (\<forall>j. ?X j (f, os) (g, os))" if "?I (f, os) d" "ent g s = ent f s" for f g os d
    using that typed_cong [OF that(2), of "pk_value K"] lasting_cong [OF that(2)] by (simp add: upd_world_inv_def upd_rely_def upd_inv_def)
  have prot: "protocol ?I (\<lambda>i. evolved (?X i)) (\<lambda>_. ?G) ?Q allowed (length (map (upd_client K k) gs))"
  proof (rule protocolI, goal_cases)
    case (4 i x f g os os' d)
    then have "result_fits gs j y os'" if "(j, y) \<in> set d" for j y
      using that result_fits_append [of gs j y os "[i]"] by (force simp: upd_world_inv_def evolved_def upd_post_def)
    with 4 show ?case by (auto simp: upd_world_inv_def evolved_def upd_post_def upd_rely_def)
  next
    case (5 f t up os d)
    then show ?case by (intro other upsert_frame) (auto simp: upd_world_inv_def upd_inv_def assms(5))
  next
    case (6 f t req os d)
    then show ?case by (intro other txn_frame) (auto simp: upd_world_inv_def upd_inv_def assms(5))
  qed (auto simp: upd_world_inv_def evolved_def upd_guar_def upd_rely_def)
  obtain f os where f: "node_sim E (kw_server w) f" "?I (f, os) (kw_done w)"
    by (rule node_server.kvworld_inv [OF assms(6) node_sim_init [OF assms(1)] init wp prot]) auto
  with node_server.server_typed [OF f(1) assms(4,2)] show ?thesis
    by (intro exI [of _ os]) (simp add: upd_world_inv_def upd_inv_def)
qed

section \<open>An example\<close>

text \<open>Two clients add to a number; both read it before the first one writes it, so the second one has to try again.\<close>

definition lvt_pb_ref :: "least_visible_time pbcodec" where
  "lvt_pb_ref = \<lparr>pb_encode = (\<lambda>x. Inr [lv_time x]), pb_decode = (\<lambda>b. case b of [n] \<Rightarrow> Inr \<lparr>lv_time = n\<rparr> | _ \<Rightarrow> Inl DecodeError)\<rparr>"

definition sample_lvt :: "nat tident" where
  "sample_lvt = \<lparr>ti_tenant = \<lparr>tenant_name = str ''t''\<rparr>, ti_name = 7\<rparr>"

definition add_time :: "nat \<Rightarrow> least_visible_time option \<Rightarrow> unit + least_visible_time option" where
  "add_time n v = Inr (Some \<lparr>lv_time = (case v of None \<Rightarrow> 0 | Some x \<Rightarrow> lv_time x) + n\<rparr>)"

lemma sample_lvt_key: "pk_string (lvt_key P) sample_lvt = Inr (str ''__fd_table_lvt/7'')"
  unfolding lvt_key_def pk_string_def pbkey.simps by code_simp

lemma sample_updates:
  "\<exists>f ps c c'. schedule [(0, 10), (1, 11), (0, 12), (1, 13), (1, 14), (1, 15)]
     (flat_init () :: (nat, unit) flat, map (upd_client (lvt_key lvt_pb_ref) sample_lvt) [add_time 5, add_time 7], []) =
   Some (f, ps, [(0, Inr (Inr c)), (1, Inr (Inr c'))]) \<and> is_changed c \<and> is_changed c'"
proof -
  obtain a b rest where trials: "txn_backoff None = Inr a # Inr b # rest"
    by (simp add: txn_backoff_items trial_count_def TXN_MAX_RETRY_TIMES_def upt_rec)
  have val: "pk_value (lvt_key P) = P" for P by (simp add: lvt_key_def)
  show ?thesis
    by (simp add: serve_eval flat_init_def api_simps trials sample_lvt_key val upd_client_def crud_upsert_with_def upsert_with_trial_def add_time_def
        lvt_pb_ref_def str_def valid_char_def)
qed

lemma result_fits_mem: "result_fits gs i (Inr (Inr c)) os \<Longrightarrow> is_changed c \<Longrightarrow> i \<in> set os"
  by (auto simp: result_fits_def)

lemma two_orders: "distinct os \<Longrightarrow> set os \<subseteq> {..<2} \<Longrightarrow> 0 \<in> set os \<Longrightarrow> 1 \<in> set os \<Longrightarrow> os = [0, 1] \<or> os = [1, 0 :: nat]"
proof -
  assume *: "distinct os" "set os \<subseteq> {..<2}" "0 \<in> set os" "(1 :: nat) \<in> set os"
  then have "set os = {0, 1}" by (auto simp: less_2_cases_iff)
  with distinct_card [OF *(1)] have "length os = 2" by simp
  then obtain a b where "os = [a, b]" by (auto simp: length_Suc_conv numeral_2_eq_2)
  with \<open>set os = {0, 1}\<close> *(1) show ?thesis by (auto simp: doubleton_eq_iff)
qed

theorem updates_take_effect_once_witness:
  "\<exists>w. kvworld_steps (node_api env_ref) (\<lambda>c. \<not> cmd_writes c (str ''__fd_table_lvt/7''))
      (kvworld_init (replica_init () None) (map (upd_client (lvt_key lvt_pb_ref) sample_lvt) [add_time 5, add_time 7])) w \<and>
    length (kw_done w) = 2 \<and> server_value (node_api env_ref) (kw_server w) 20 (lvt_key lvt_pb_ref) sample_lvt = Some \<lparr>lv_time = 12\<rparr>"
proof -
  let ?gs = "[add_time 5, add_time 7]" and ?K = "lvt_key lvt_pb_ref" and ?allowed = "\<lambda>c. \<not> cmd_writes c (str ''__fd_table_lvt/7'')"
  obtain turns f ps c c' where "schedule turns (flat_init () :: (nat, unit) flat, map (upd_client ?K sample_lvt) ?gs, []) =
      Some (f, ps, [(0, Inr (Inr c)), (1, Inr (Inr c'))])" and c: "is_changed c" "is_changed c'"
    using sample_updates by blast
  then obtain w where w: "kvworld_steps (node_api env_ref) ?allowed (kvworld_init (replica_init () None) (map (upd_client ?K sample_lvt) ?gs)) w"
      "kw_done w = [(0, Inr (Inr c)), (1, Inr (Inr c'))]"
    by - (rule node_schedule [OF _ env_ref_ok], auto)
  have K: "pb_faithful (\<lambda>_. True) (pk_value ?K)" by (simp add: lvt_key_def lvt_pb_ref_def pb_faithful_def)
  have t: "(20 :: nat) < 2 ^ 64" by simp
  obtain os where os: "distinct os" "set os \<subseteq> {..<length ?gs}" "server_value (node_api env_ref) (kw_server w) 20 ?K sample_lvt = upd_run ?gs os"
      "\<forall>(i, x) \<in> set (kw_done w). result_fits ?gs i x os"
    using updates_take_effect_once [OF env_ref_ok sample_lvt_key K t _ w(1)] by blast
  then have "0 \<in> set os" "1 \<in> set os" using w(2) c result_fits_mem [of ?gs] by (simp_all, blast+)
  then have "os = [0, 1] \<or> os = [1, 0]" using two_orders [OF os(1)] os(2) by (simp add: numeral_2_eq_2)
  then have "upd_run ?gs os = Some \<lparr>lv_time = 12\<rparr>" by (auto simp: upd_run_def upd_step_def add_time_def)
  with w os(3) show ?thesis by (intro exI [of _ w]) simp
qed

end
