(* ===== verification/ReplyProps.thy ===== *)
theory ReplyProps
  imports SampleRun
begin

text \<open>
  The replies of the state machine have the type that the command asks for, so the conversions that unpack
  them for a client succeed.
\<close>

section \<open>Types of replies\<close>

text \<open>The response to an operation is of the same kind and names the same key or prefix.\<close>

fun response_fits :: "txn_op_request \<Rightarrow> txn_op_response \<Rightarrow> bool" where
  "response_fits (ReqGet key) (RespGet r) \<longleftrightarrow> gresp_key r = key"
| "response_fits (ReqPut put) (RespPut r) \<longleftrightarrow> presp_key r = pr_key put"
| "response_fits (ReqDelete del) (RespDelete r) \<longleftrightarrow> dresp_key r = dr_key del"
| "response_fits (ReqDeleteByPrefix p) (RespDeleteByPrefix r) \<longleftrightarrow> bresp_prefix r = p \<and> bresp_count r < 2 ^ 32"
| "response_fits _ _ \<longleftrightarrow> False"

text \<open>The branches of a transaction by the path that the reply names.\<close>

inductive branch_of :: "txn_request \<Rightarrow> rstr \<Rightarrow> txn_op list \<Rightarrow> bool" for req where
  branch_operation: "i < length (tr_operations req) \<Longrightarrow> branch_of req (str ''operation:'' @ show_dec i) (co_operations (tr_operations req ! i))"
| branch_then: "branch_of req (str ''then'') (tr_if_then req)"
| branch_else: "branch_of req (str ''else'') (tr_else_then req)"

text \<open>
  The reply to a transaction names one of its branches, has no error, reports success unless the branch is the
  last one, and has one response for each operation of the branch, in order; empty operations have none.
\<close>

definition txn_reply_fits :: "txn_request \<Rightarrow> txn_reply \<Rightarrow> bool" where
  "txn_reply_fits req r \<longleftrightarrow>
     (\<exists>ops. branch_of req (rep_execution_path r) ops \<and> rep_error r = [] \<and> (rep_success r \<longleftrightarrow> rep_execution_path r \<noteq> str ''else'') \<and>
        list_all2 (\<lambda>x y. \<exists>z. y = Some z \<and> response_fits x z) (List.map_filter id ops) (rep_responses r))"

fun reply_fits :: "'mem entry_payload \<Rightarrow> applied_state \<Rightarrow> bool" where
  "reply_fits Blank st \<longleftrightarrow> st = StateNone"
| "reply_fits (MembershipEntry mem) st \<longleftrightarrow> st = StateNone"
| "reply_fits (NormalEntry data) st \<longleftrightarrow>
     (case le_cmd data of
        AddNode i n overriding \<Rightarrow> \<exists>prev res. st = StateNode prev res \<and> res \<noteq> None
      | RemoveNode i \<Rightarrow> \<exists>prev. st = StateNode prev None
      | CmdUpsertKV up \<Rightarrow> \<exists>ch. st = StateKV ch
      | Transaction req \<Rightarrow> \<exists>r. st = StateTxnReply r \<and> txn_reply_fits req r)"

section \<open>The reference machine\<close>

lemma flat_op_fits:
  "list_all2 (\<lambda>x y. \<exists>z. y = Some z \<and> response_fits x z) (case opn of None \<Rightarrow> [] | Some x \<Rightarrow> [x]) (map Some (fst (flat_op ctx opn f)))"
proof (cases opn)
  case (Some x)
  then show ?thesis
    by (cases x) (simp_all add: flat_op_def case_prod_beta TxnOpResponse_get_def TxnOpResponse_put_def TxnOpResponse_delete_def)
qed (simp add: flat_op_def)

lemma flat_ops_fit:
  "list_all2 (\<lambda>x y. \<exists>z. y = Some z \<and> response_fits x z) (List.map_filter id ops) (map Some (fst (flat_ops ctx ops f)))"
proof (induction ops arbitrary: f)
  case (Cons opn ops)
  from list_all2_appendI [OF flat_op_fits Cons.IH, of opn ctx f "snd (snd (flat_op ctx opn f))"] show ?case
    by (cases opn) (simp_all add: case_prod_beta List.map_filter_def)
qed (simp add: List.map_filter_def)

lemma flat_branch_nth: "flat_branch holds j cs = Some (i, ops) \<Longrightarrow> j \<le> i \<and> i - j < length cs \<and> ops = co_operations (cs ! (i - j))"
proof (induction holds j cs rule: flat_branch.induct)
  case (2 holds j c cs)
  show ?case
  proof (cases "i = j")
    case False
    with 2 show ?thesis by (fastforce simp: nth_Cons' split: if_splits)
  qed (use 2 in \<open>fastforce split: if_splits\<close>)
qed simp

lemma flat_choose_branch: "flat_choose holds req = (path, ops) \<Longrightarrow> branch_of req path ops"
  unfolding flat_choose_def using flat_branch_nth [of holds 0 "tr_operations req"]
  by (auto split: option.splits if_splits intro: branch_of.intros)

lemma flat_txn_fits: "txn_reply_fits req (fst (flat_txn ctx req f))"
proof -
  obtain path ops where "flat_choose (flat_cond f) req = (path, ops)" by (metis prod.exhaust)
  with flat_choose_branch [OF this] flat_ops_fit [of ops ctx f] show ?thesis
    by (auto simp: flat_txn_def txn_reply_fits_def TxnReply_new_def case_prod_beta)
qed

lemma flat_apply_fits: "reply_fits (en_payload entry) (fst (flat_apply entry f))"
proof (cases "en_payload entry")
  case (NormalEntry data)
  then show ?thesis
    using flat_txn_fits by (cases "le_cmd data") (auto simp: flat_apply_def flat_payload_def flat_cmd_def case_prod_beta Let_def)
qed (simp_all add: flat_apply_def flat_payload_def case_prod_beta)

lemma flat_run_fits: "list_all2 (\<lambda>entry. reply_fits (en_payload entry)) entries (fst (flat_run entries f))"
  by (induction entries arbitrary: f) (simp_all add: case_prod_beta flat_apply_fits)

section \<open>Replicas\<close>

text \<open>
  C14. The replies of a replica are well typed: there is one for each entry of the log; an upsert is answered by a
  change, a command on nodes by the nodes before and after it, and a transaction by a reply that names the
  branch that was executed and has one response of the right kind and key for each of its operations.
\<close>

theorem replica_replies_typed:
  assumes "env_ok E" and "replica_steps E (replica_init mem0 sub) r"
  shows "list_all2 (\<lambda>entry. reply_fits (en_payload entry)) (rp_log r) (rp_replies r)"
proof -
  obtain evs f where run: "flat_run (rp_log r) (flat_init mem0) = (rp_replies r, evs, f)"
    by (rule replica_sim [OF assms])
  from flat_run_fits [of "rp_log r" "flat_init mem0"] run show ?thesis by simp
qed

theorem replica_replies_typed_witness:
  "\<exists>r :: (nat, unit) replica. replica_steps env_ref (replica_init () None) r \<and> rp_log r = sample_log \<and>
     list_all2 (\<lambda>entry. reply_fits (en_payload entry)) sample_log (rp_replies r)"
proof -
  obtain r where r: "replica_steps env_ref (replica_init () None) r" "rp_log r = sample_log"
    by (rule sample_replica)
  from replica_replies_typed [OF env_ref_ok r(1)] r show ?thesis by auto
qed

end
