(* ===== verification/TableSchema.thy ===== *)
theory TableSchema
  imports KvClient
begin

text \<open>
  The schema of a table (\<open>TableSchema\<close>, \<open>TableField\<close> and \<open>TableDataType\<close> of \<open>src/query/expression/src/schema.rs\<close>) and quoted identifiers
  (\<open>src/query/ast/src/ast/quote.rs\<close>), from which the names of inner columns are made.

  A column identifier is an unsigned 32-bit number; addition wraps around, as in a release build. An error is a
  value of \<open>schema_error\<close>, without its message; an index out of range and a failed assertion are panics. A change that
  fails returns no schema: \<open>add_column\<close> and \<open>drop_column\<close> leave it as it was, the caller of \<open>add_columns\<close> drops it.
\<close>

section \<open>Types\<close>

datatype number_data_type =
  UInt8 | UInt16 | UInt32 | UInt64 | Int8 | Int16 | Int32 | Int64 | Float32 | Float64

record decimal_size =
  ds_precision :: nat
  ds_scale :: nat

datatype decimal_data_type = Decimal128 decimal_size | Decimal256 decimal_size

datatype table_data_type =
    TyNull
  | TyEmptyArray
  | TyEmptyMap
  | TyBoolean
  | TyBinary
  | TyString
  | TyNumber number_data_type
  | TyDecimal decimal_data_type
  | TyTimestamp
  | TyDate
  | TyNullable table_data_type
  | TyArray table_data_type
  | TyMap table_data_type
  | TyBitmap
  | TyTuple "rstr list" "table_data_type list"
  | TyVariant
  | TyGeometry
  | TyGeography
  | TyInterval

datatype computed_expr = ComputedVirtual rstr | ComputedStored rstr

record table_field =
  tf_name :: rstr
  tf_default_expr :: "rstr option"
  tf_data_type :: table_data_type
  tf_column_id :: nat
  tf_computed_expr :: "computed_expr option"

record table_schema =
  ts_fields :: "table_field list"
  ts_metadata :: "(rstr, rstr) btree"
  ts_next_column_id :: nat

datatype schema_error = BadArguments | AddColumnExistError | DropColumnEmptyError

type_synonym 'a sres = "schema_error fault + 'a"

definition u32_add :: "nat \<Rightarrow> nat \<Rightarrow> nat" where
  "u32_add a b = (a + b) mod 2 ^ 32"

definition sassert :: "bool \<Rightarrow> unit sres" where
  "sassert b = (if b then Inr () else Inl (Panicked AssertFailed))"

definition sindex :: "'a list \<Rightarrow> nat \<Rightarrow> 'a sres" where
  "sindex xs i = (if i < length xs then Inr (xs ! i) else Inl (Panicked IndexOutOfBounds))"

section \<open>Identifiers in quotes\<close>

definition is_ascii_uppercase :: "nat \<Rightarrow> bool" where
  "is_ascii_uppercase c \<longleftrightarrow> 65 \<le> c \<and> c \<le> 90"

definition is_ascii_alphabetic :: "nat \<Rightarrow> bool" where
  "is_ascii_alphabetic c \<longleftrightarrow> 65 \<le> c \<and> c \<le> 90 \<or> 97 \<le> c \<and> c \<le> 122"

definition is_ascii_alphanumeric :: "nat \<Rightarrow> bool" where
  "is_ascii_alphanumeric c \<longleftrightarrow> is_ascii_alphabetic c \<or> is_digit c"

text \<open>The characters are the underscore, the dollar sign and the tilde.\<close>

definition ident_needs_quote :: "rstr \<Rightarrow> bool" where
  "ident_needs_quote ident =
     (case ident of
        [] \<Rightarrow> True
      | first # chars \<Rightarrow>
          if ident = [126] then False
          else if \<not> is_ascii_alphabetic first \<and> first \<noteq> 95 then True
          else list_ex (\<lambda>c. \<not> is_ascii_alphanumeric c \<and> c \<noteq> 95 \<and> c \<noteq> 36) chars)"

definition quoted_ident :: "rstr \<Rightarrow> nat \<Rightarrow> rstr" where
  "quoted_ident ident quote = [quote] @ concat (map (\<lambda>c. if c = quote then [quote, c] else [c]) ident) @ [quote]"

fun unquote_loop :: "nat \<Rightarrow> rstr \<Rightarrow> rstr option" where
  "unquote_loop quote [] = Some []"
| "unquote_loop quote (c # cs) =
     (if c = quote
      then (case cs of d # cs \<Rightarrow> if d = quote then map_option ((#) c) (unquote_loop quote cs) else None | [] \<Rightarrow> None)
      else map_option ((#) c) (unquote_loop quote cs))"

text \<open>\<open>QuotedIdent::from_str\<close>: the identifier and the quote.\<close>

definition quoted_ident_from_str :: "rstr \<Rightarrow> (rstr \<times> nat) option" where
  "quoted_ident_from_str s =
     (case s of
        [] \<Rightarrow> None
      | quote # chars \<Rightarrow>
          if chars = [] \<or> last chars \<noteq> quote then None
          else map_option (\<lambda>out. (out, quote)) (unquote_loop quote (butlast chars)))"

definition display_ident :: "rstr \<Rightarrow> bool \<Rightarrow> bool \<Rightarrow> nat \<Rightarrow> rstr" where
  "display_ident name force_quoted_ident quoted_ident_case_sensitive quote =
     (if list_ex is_ascii_uppercase name \<and> quoted_ident_case_sensitive \<or> ident_needs_quote name \<or> force_quoted_ident
      then quoted_ident name quote else name)"

text \<open>PostgreSQL quotes with the double quote.\<close>

definition display_tuple_field_name :: "rstr \<Rightarrow> rstr" where
  "display_tuple_field_name field_name = display_ident field_name False True 34"

section \<open>\<open>TableDataType\<close>\<close>

fun remove_nullable :: "table_data_type \<Rightarrow> table_data_type" where
  "remove_nullable (TyNullable ty) = ty"
| "remove_nullable ty = ty"

fun num_leaf_columns :: "table_data_type \<Rightarrow> nat" where
  "num_leaf_columns (TyNullable ty) = num_leaf_columns ty"
| "num_leaf_columns (TyArray ty) = num_leaf_columns ty"
| "num_leaf_columns (TyMap ty) = num_leaf_columns ty"
| "num_leaf_columns (TyTuple names tys) = sum_list (map num_leaf_columns tys)"
| "num_leaf_columns _ = 1"

lemma size_remove_nullable: "size (remove_nullable ty) \<le> size ty"
  by (cases ty) simp_all

lemma size_tuple [termination_simp]:
  "remove_nullable ty = TyTuple names tys \<Longrightarrow> t \<in> set tys \<Longrightarrow> size t < size ty"
  "remove_nullable ty = TyArray a \<Longrightarrow> size a < size ty" "remove_nullable ty = TyMap a \<Longrightarrow> size a < size ty"
proof -
  assume ty: "remove_nullable ty = TyTuple names tys" and t: "t \<in> set tys"
  have "size t < size (TyTuple names tys)" using size_list_estimation' [OF t, of "size t" size] by simp
  with size_remove_nullable [of ty] ty show "size t < size ty" by simp
qed (use size_remove_nullable [of ty] in simp_all)

section \<open>\<open>TableField\<close>\<close>

definition TableField_new :: "rstr \<Rightarrow> table_data_type \<Rightarrow> table_field" where
  "TableField_new name data_type =
     \<lparr>tf_name = name, tf_default_expr = None, tf_data_type = data_type, tf_column_id = 0, tf_computed_expr = None\<rparr>"

definition TableField_new_from_column_id :: "rstr \<Rightarrow> table_data_type \<Rightarrow> nat \<Rightarrow> table_field" where
  "TableField_new_from_column_id name data_type column_id =
     \<lparr>tf_name = name, tf_default_expr = None, tf_data_type = data_type, tf_column_id = column_id, tf_computed_expr = None\<rparr>"

text \<open>The identifiers so far and the next one.\<close>

function build_column_ids_from_data_type :: "table_data_type \<Rightarrow> nat list \<times> nat \<Rightarrow> nat list \<times> nat" where
  "build_column_ids_from_data_type data_type (column_ids, next_column_id) =
     (let column_ids = column_ids @ [next_column_id]
      in case remove_nullable data_type of
           TyTuple names fields_type \<Rightarrow> fold build_column_ids_from_data_type fields_type (column_ids, next_column_id)
         | TyArray a \<Rightarrow> build_column_ids_from_data_type a (column_ids, next_column_id)
         | TyMap a \<Rightarrow> build_column_ids_from_data_type a (column_ids, next_column_id)
         | _ \<Rightarrow> (column_ids, u32_add next_column_id 1))"
  by pat_completeness auto
termination
  by (relation "measure (\<lambda>(ty, _). size ty)") (auto simp: size_tuple)

text \<open>The field with its identifier, and the next identifier.\<close>

definition build_column_id :: "table_field \<Rightarrow> nat \<Rightarrow> table_field \<times> nat" where
  "build_column_id f next_column_id =
     (f\<lparr>tf_column_id := next_column_id\<rparr>, snd (build_column_ids_from_data_type (tf_data_type f) ([], next_column_id)))"

definition column_ids :: "table_field \<Rightarrow> nat list" where
  "column_ids f = fst (build_column_ids_from_data_type (tf_data_type f) ([], tf_column_id f))"

definition contain_column_id :: "table_field \<Rightarrow> nat \<Rightarrow> bool" where
  "contain_column_id f column_id = (column_id \<in> set (column_ids f))"

definition leaf_column_ids :: "table_field \<Rightarrow> nat list" where
  "leaf_column_ids f = remdups_adj (sort (column_ids f))"

section \<open>\<open>TableSchema\<close>\<close>

definition U32_MAX :: nat where
  "U32_MAX = 2 ^ 32 - 1"

definition SEARCH_SCORE_COLUMN_ID :: nat where
  "SEARCH_SCORE_COLUMN_ID = U32_MAX - 8"

definition FILENAME_COLUMN_ID :: nat where
  "FILENAME_COLUMN_ID = U32_MAX - 14"

definition FILE_ROW_NUMBER_COLUMN_ID :: nat where
  "FILE_ROW_NUMBER_COLUMN_ID = U32_MAX - 15"

definition is_internal_column_id :: "nat \<Rightarrow> bool" where
  "is_internal_column_id column_id \<longleftrightarrow>
     column_id \<ge> SEARCH_SCORE_COLUMN_ID \<or> FILE_ROW_NUMBER_COLUMN_ID \<le> column_id \<and> column_id \<le> FILENAME_COLUMN_ID"

definition TableSchema_empty :: table_schema where
  "TableSchema_empty = \<lparr>ts_fields = [], ts_metadata = [], ts_next_column_id = 0\<rparr>"

fun build_members_loop :: "table_field list \<Rightarrow> nat \<Rightarrow> table_field list \<Rightarrow> (nat \<times> table_field list) sres" where
  "build_members_loop [] next_id new_fields = Inr (next_id, new_fields)"
| "build_members_loop (field # rest) next_id new_fields =
     (case build_column_id field next_id of (new_field, next_id) \<Rightarrow>
        rbind (sassert (next_id \<ge> tf_column_id new_field)) (\<lambda>_. build_members_loop rest next_id (new_fields @ [new_field])))"

definition build_members_from_fields :: "table_field list \<Rightarrow> nat \<Rightarrow> (nat \<times> table_field list) sres" where
  "build_members_from_fields flds next_column_id =
     (if next_column_id > 0
      then rbind (if length flds > 1 then sassert (tf_column_id (flds ! 1) > 0 \<or> tf_column_id (flds ! 0) > 0) else Inr ()) (\<lambda>_.
             Inr (next_column_id, flds))
      else rbind (build_members_loop flds 0 []) (\<lambda>(new_next_column_id, new_fields).
             rbind (sassert (new_next_column_id \<ge> next_column_id)) (\<lambda>_. Inr (new_next_column_id, new_fields))))"

definition new_from_column_ids :: "table_field list \<Rightarrow> (rstr, rstr) btree \<Rightarrow> nat \<Rightarrow> table_schema sres" where
  "new_from_column_ids flds metadata next_column_id =
     rbind (build_members_from_fields flds next_column_id) (\<lambda>(next_column_id, new_fields).
       Inr \<lparr>ts_fields = new_fields, ts_metadata = metadata, ts_next_column_id = next_column_id\<rparr>)"

definition TableSchema_new_from :: "table_field list \<Rightarrow> (rstr, rstr) btree \<Rightarrow> table_schema sres" where
  "TableSchema_new_from flds metadata =
     rbind (build_members_from_fields flds 0) (\<lambda>(next_column_id, new_fields).
       Inr \<lparr>ts_fields = new_fields, ts_metadata = metadata, ts_next_column_id = next_column_id\<rparr>)"

definition TableSchema_new :: "table_field list \<Rightarrow> table_schema sres" where
  "TableSchema_new flds =
     rbind (build_members_from_fields flds 0) (\<lambda>(next_column_id, new_fields).
       Inr \<lparr>ts_fields = new_fields, ts_metadata = [], ts_next_column_id = next_column_id\<rparr>)"

definition init_if_need :: "table_schema \<Rightarrow> table_schema sres" where
  "init_if_need s = (if ts_next_column_id s = 0 then TableSchema_new_from (ts_fields s) (ts_metadata s) else Inr s)"

text \<open>The position of the first field with the name.\<close>

fun find_field :: "rstr \<Rightarrow> table_field list \<Rightarrow> nat \<Rightarrow> nat option" where
  "find_field name [] i = None"
| "find_field name (f # fs) i = (if tf_name f = name then Some i else find_field name fs (i + 1))"

definition index_of :: "table_schema \<Rightarrow> rstr \<Rightarrow> nat sres" where
  "index_of s name = (case find_field name (ts_fields s) 0 of Some i \<Rightarrow> Inr i | None \<Rightarrow> Inl (Raise BadArguments))"

definition has_field :: "table_schema \<Rightarrow> rstr \<Rightarrow> bool" where
  "has_field s name = list_ex (\<lambda>f. tf_name f = name) (ts_fields s)"

definition column_id_of_index :: "table_schema \<Rightarrow> nat \<Rightarrow> nat sres" where
  "column_id_of_index s i = rbind (sindex (ts_fields s) i) (\<lambda>f. Inr (tf_column_id f))"

definition column_id_of :: "table_schema \<Rightarrow> rstr \<Rightarrow> nat sres" where
  "column_id_of s name = rbind (index_of s name) (\<lambda>i. rbind (sindex (ts_fields s) i) (\<lambda>f. Inr (tf_column_id f)))"

definition is_column_deleted :: "table_schema \<Rightarrow> nat \<Rightarrow> bool" where
  "is_column_deleted s column_id = (\<not> list_ex (\<lambda>f. contain_column_id f column_id) (ts_fields s))"

definition field_of_column_id :: "table_schema \<Rightarrow> nat \<Rightarrow> table_field sres" where
  "field_of_column_id s column_id =
     (case find (\<lambda>f. contain_column_id f column_id) (ts_fields s) of Some f \<Rightarrow> Inr f | None \<Rightarrow> Inl (Raise BadArguments))"

fun add_columns :: "table_schema \<Rightarrow> table_field list \<Rightarrow> table_schema sres" where
  "add_columns s [] = Inr s"
| "add_columns s (f # fs) =
     (case index_of s (tf_name f) of
        Inr _ \<Rightarrow> Inl (Raise AddColumnExistError)
      | Inl _ \<Rightarrow>
          (case build_column_id f (ts_next_column_id s) of (field, next_id) \<Rightarrow>
             add_columns (s\<lparr>ts_fields := ts_fields s @ [field], ts_next_column_id := next_id\<rparr>) fs))"

text \<open>\<open>Vec::insert\<close> panics when the position is behind the end.\<close>

definition vec_insert :: "'a list \<Rightarrow> nat \<Rightarrow> 'a \<Rightarrow> 'a list sres" where
  "vec_insert xs i x = (if i \<le> length xs then Inr (take i xs @ x # drop i xs) else Inl (Panicked IndexOutOfBounds))"

definition vec_remove :: "'a list \<Rightarrow> nat \<Rightarrow> 'a list sres" where
  "vec_remove xs i = (if i < length xs then Inr (take i xs @ drop (i + 1) xs) else Inl (Panicked IndexOutOfBounds))"

definition add_column :: "table_schema \<Rightarrow> table_field \<Rightarrow> nat \<Rightarrow> table_schema sres" where
  "add_column s field index =
     (case index_of s (tf_name field) of
        Inr _ \<Rightarrow> Inl (Raise AddColumnExistError)
      | Inl _ \<Rightarrow>
          (case build_column_id field (ts_next_column_id s) of (field, next_id) \<Rightarrow>
             rbind (vec_insert (ts_fields s) index field) (\<lambda>flds.
               Inr (s\<lparr>ts_fields := flds, ts_next_column_id := next_id\<rparr>))))"

definition add_internal_field :: "table_schema \<Rightarrow> rstr \<Rightarrow> table_data_type \<Rightarrow> nat \<Rightarrow> table_schema" where
  "add_internal_field s name data_type column_id =
     s\<lparr>ts_fields := ts_fields s @ [TableField_new_from_column_id name data_type column_id]\<rparr>"

definition remove_internal_fields :: "table_schema \<Rightarrow> table_schema" where
  "remove_internal_fields s = s\<lparr>ts_fields := filter (\<lambda>f. \<not> is_internal_column_id (tf_column_id f)) (ts_fields s)\<rparr>"

definition drop_column :: "table_schema \<Rightarrow> rstr \<Rightarrow> (nat \<times> table_schema) sres" where
  "drop_column s column =
     (if length (ts_fields s) = 1 then Inl (Raise DropColumnEmptyError)
      else rbind (index_of s column) (\<lambda>i.
           rbind (vec_remove (ts_fields s) i) (\<lambda>flds. Inr (i, s\<lparr>ts_fields := flds\<rparr>))))"

definition to_column_ids :: "table_schema \<Rightarrow> nat list" where
  "to_column_ids s = concat (map column_ids (ts_fields s))"

definition to_leaf_column_ids :: "table_schema \<Rightarrow> nat list" where
  "to_leaf_column_ids s = concat (map leaf_column_ids (ts_fields s))"

definition field_column_ids :: "table_schema \<Rightarrow> nat list list" where
  "field_column_ids s = map column_ids (ts_fields s)"

definition field_leaf_column_ids :: "table_schema \<Rightarrow> nat list list" where
  "field_leaf_column_ids s = map leaf_column_ids (ts_fields s)"

definition rename_field :: "table_schema \<Rightarrow> nat \<Rightarrow> rstr \<Rightarrow> table_schema sres" where
  "rename_field s i new_name =
     rbind (sindex (ts_fields s) i) (\<lambda>f. Inr (s\<lparr>ts_fields := (ts_fields s)[i := f\<lparr>tf_name := new_name\<rparr>]\<rparr>))"

definition field_with_name :: "table_schema \<Rightarrow> rstr \<Rightarrow> table_field sres" where
  "field_with_name s name = rbind (index_of s name) (sindex (ts_fields s))"

definition column_with_name :: "table_schema \<Rightarrow> rstr \<Rightarrow> (nat \<times> table_field) option" where
  "column_with_name s name = find (\<lambda>(_, c). tf_name c = name) (enumerate 0 (ts_fields s))"

definition schema_contains :: "table_schema \<Rightarrow> table_schema \<Rightarrow> bool" where
  "schema_contains s other \<longleftrightarrow>
     length (ts_fields s) = length (ts_fields other) \<and> list_all (\<lambda>(a, b). a = b) (zip (ts_fields s) (ts_fields other))"

definition schema_project :: "table_schema \<Rightarrow> nat list \<Rightarrow> table_schema sres" where
  "schema_project s projection = rbind (rmap (sindex (ts_fields s)) projection) (\<lambda>flds. Inr (s\<lparr>ts_fields := flds\<rparr>))"

definition project_by_fields :: "table_schema \<Rightarrow> (nat, table_field) btree \<Rightarrow> table_schema sres" where
  "project_by_fields s flds =
     rbind (rmap (\<lambda>(index, f). rbind (sindex (to_column_ids s) index) (\<lambda>column_id. Inr (fst (build_column_id f column_id)))) flds) (\<lambda>new_fields.
       Inr (s\<lparr>ts_fields := new_fields\<rparr>))"

definition remove_computed_fields :: "table_schema \<Rightarrow> table_schema" where
  "remove_computed_fields s = s\<lparr>ts_fields := filter (\<lambda>f. tf_computed_expr f = None) (ts_fields s)\<rparr>"

definition remove_virtual_computed_fields :: "table_schema \<Rightarrow> table_schema" where
  "remove_virtual_computed_fields s =
     s\<lparr>ts_fields := filter (\<lambda>f. \<not> (case tf_computed_expr f of Some (ComputedVirtual _) \<Rightarrow> True | _ \<Rightarrow> False)) (ts_fields s)\<rparr>"

section \<open>Inner fields\<close>

text \<open>The fields of a tuple, with their identifiers.\<close>

fun tuple_fields :: "rstr \<Rightarrow> (rstr \<times> table_data_type) list \<Rightarrow> nat \<Rightarrow> table_field list" where
  "tuple_fields outer [] next_column_id = []"
| "tuple_fields outer ((name, ty) # rest) next_column_id =
     (case build_column_id (TableField_new (outer @ str '':'' @ display_tuple_field_name name) ty) next_column_id of
        (f, next_column_id) \<Rightarrow> f # tuple_fields outer rest next_column_id)"

fun traverse_paths :: "table_field list \<Rightarrow> nat list \<Rightarrow> table_field sres" where
  "traverse_paths flds [] = Inl (Raise BadArguments)"
| "traverse_paths flds (index # path) =
     rbind (sindex flds index) (\<lambda>field.
       if path = [] then Inr field
       else case remove_nullable (tf_data_type field) of
              TyTuple names tys \<Rightarrow> traverse_paths (tuple_fields (tf_name field) (zip names tys) (tf_column_id field)) path
            | _ \<Rightarrow> Inl (Raise BadArguments))"

text \<open>An error is unwrapped.\<close>

definition inner_project :: "table_schema \<Rightarrow> (nat, nat list) btree \<Rightarrow> table_schema sres" where
  "inner_project s path_indices =
     rbind (rmap (\<lambda>(_, path). case traverse_paths (ts_fields s) path of Inl _ \<Rightarrow> Inl (Panicked UnwrapNone) | Inr f \<Rightarrow> Inr f) path_indices)
       (\<lambda>flds. Inr (s\<lparr>ts_fields := flds\<rparr>))"

function collect_in_field :: "table_field \<Rightarrow> table_field list \<times> nat \<Rightarrow> table_field list \<times> nat" where
  "collect_in_field field (flds, next_column_id) =
     (case remove_nullable (tf_data_type field) of
        TyTuple names tys \<Rightarrow>
          fold (\<lambda>(name, ty) (flds, next_column_id).
              collect_in_field (TableField_new_from_column_id (tf_name field @ str '':'' @ display_tuple_field_name name) ty next_column_id)
                (flds, next_column_id))
            (zip names tys) (flds, next_column_id)
      | TyArray ty \<Rightarrow>
          collect_in_field (TableField_new_from_column_id (tf_name field @ str '':0'') ty next_column_id) (flds, next_column_id)
      | TyMap ty \<Rightarrow> collect_in_field (TableField_new_from_column_id (tf_name field) ty next_column_id) (flds, next_column_id)
      | _ \<Rightarrow> (flds @ [field], u32_add next_column_id 1))"
  by pat_completeness auto
termination
  by (relation "measure (\<lambda>(f, _). size (tf_data_type f))") (auto simp: size_tuple TableField_new_from_column_id_def dest: set_zip_rightD)

definition leaf_fields :: "table_schema \<Rightarrow> table_field list" where
  "leaf_fields s =
     fold (\<lambda>field flds.
         if is_internal_column_id (tf_column_id field) then flds else fst (collect_in_field field (flds, tf_column_id field)))
       (ts_fields s) []"

lemma size_zip_types: "size_list (\<lambda>p. size (snd p)) (zip names tys) \<le> size_list size (tys :: table_data_type list)"
  by (induction names tys rule: list_induct2') simp_all

lemma size_tuple_zip: "remove_nullable ty = TyTuple names tys \<Longrightarrow> size_list (\<lambda>p. size (snd p)) (zip names tys) < size ty"
  using size_zip_types [of names tys] size_remove_nullable [of ty] by simp

text \<open>Whether the column has been found, the identifiers, and the next identifier.\<close>

function collect_inner_column_ids :: "rstr \<Rightarrow> rstr \<Rightarrow> table_data_type \<Rightarrow> nat list \<Rightarrow> nat \<Rightarrow> bool \<times> nat list \<times> nat"
  and collect_inner_loop :: "rstr \<Rightarrow> rstr \<Rightarrow> nat \<Rightarrow> (rstr \<times> table_data_type) list \<Rightarrow> nat list \<Rightarrow> nat \<Rightarrow> bool \<times> nat list \<times> nat" where
  "collect_inner_column_ids col_name field_name data_type ids next_column_id =
     (if col_name = field_name
      then (True, ids @ map (u32_add next_column_id) [0..<num_leaf_columns data_type], next_column_id)
      else case remove_nullable data_type of
             TyTuple names tys \<Rightarrow>
               if prefix field_name col_name then collect_inner_loop col_name field_name 0 (zip names tys) ids next_column_id
               else (False, ids, next_column_id)
           | _ \<Rightarrow> (False, ids, next_column_id))"
| "collect_inner_loop col_name field_name i [] ids next_column_id = (False, ids, next_column_id)"
| "collect_inner_loop col_name field_name i ((name, ty) # rest) ids next_column_id =
     (let inner_name = field_name @ str '':'' @ display_tuple_field_name name
      in if prefix inner_name col_name then collect_inner_column_ids col_name inner_name ty ids next_column_id
         else let inner_name = field_name @ str '':'' @ show_dec (i + 1)
              in if prefix inner_name col_name then collect_inner_column_ids col_name inner_name ty ids next_column_id
                 else collect_inner_loop col_name field_name (i + 1) rest ids (u32_add next_column_id (num_leaf_columns ty)))"
  by pat_completeness auto
termination
  by (relation "measure (\<lambda>x. case x of Inl (_, _, ty, _, _) \<Rightarrow> 2 * size ty + 1 | Inr (_, _, _, ps, _, _) \<Rightarrow> 2 * size_list (\<lambda>p. size (snd p)) ps)")
     (auto dest: size_tuple_zip)

fun leaf_columns_loop :: "rstr \<Rightarrow> table_field list \<Rightarrow> nat list \<Rightarrow> nat list" where
  "leaf_columns_loop col_name [] ids = ids"
| "leaf_columns_loop col_name (field # flds) ids =
     (case collect_inner_column_ids col_name (tf_name field) (tf_data_type field) ids (tf_column_id field) of
        (found, ids, _) \<Rightarrow> if found then ids else leaf_columns_loop col_name flds ids)"

definition leaf_columns_of :: "table_schema \<Rightarrow> rstr \<Rightarrow> nat list" where
  "leaf_columns_of s col_name = leaf_columns_loop col_name (ts_fields s) []"

end
