(* ===== verification/SchemaProps.thy ===== *)
theory SchemaProps
  imports TableSchema
begin

text \<open>
  Column identifiers: columns never share an identifier, an identifier is never used again after its column is dropped, and
  the leaf columns are numbered in the same way by the two functions that enumerate them.
\<close>

section \<open>Identifiers of one column\<close>

text \<open>Types as the parser makes them: no nullable of a nullable, and every tuple has a component and a name for each.\<close>

fun wf_type :: "table_data_type \<Rightarrow> bool" where
  "wf_type (TyNullable ty) \<longleftrightarrow> (case ty of TyNullable _ \<Rightarrow> False | _ \<Rightarrow> True) \<and> wf_type ty"
| "wf_type (TyArray ty) \<longleftrightarrow> wf_type ty"
| "wf_type (TyMap ty) \<longleftrightarrow> wf_type ty"
| "wf_type (TyTuple names tys) \<longleftrightarrow> tys \<noteq> [] \<and> length names = length tys \<and> list_all wf_type tys"
| "wf_type _ \<longleftrightarrow> True"

lemma wf_remove_nullable:
  assumes "wf_type ty"
  shows "wf_type (remove_nullable ty)" "num_leaf_columns (remove_nullable ty) = num_leaf_columns ty" "remove_nullable (remove_nullable ty) = remove_nullable ty"
proof -
  have "wf_type (remove_nullable ty) \<and> num_leaf_columns (remove_nullable ty) = num_leaf_columns ty \<and>
      remove_nullable (remove_nullable ty) = remove_nullable ty"
  proof (cases ty)
    case (TyNullable t)
    with assms show ?thesis by (cases t) simp_all
  qed (use assms in simp_all)
  then show "wf_type (remove_nullable ty)" "num_leaf_columns (remove_nullable ty) = num_leaf_columns ty"
    "remove_nullable (remove_nullable ty) = remove_nullable ty" by blast+
qed

lemma leaves_pos: "wf_type ty \<Longrightarrow> 1 \<le> num_leaf_columns ty"
proof (induction ty rule: num_leaf_columns.induct)
  case (4 names tys)
  then show ?case by (cases tys) (auto intro: trans_le_add1)
qed auto

declare build_column_ids_from_data_type.simps [simp del] collect_in_field.simps [simp del]

text \<open>The shapes of a type without its nullable.\<close>

definition leaf_type :: "table_data_type \<Rightarrow> bool" where
  "leaf_type ty \<longleftrightarrow> (case remove_nullable ty of TyTuple _ _ \<Rightarrow> False | TyArray _ \<Rightarrow> False | TyMap _ \<Rightarrow> False | _ \<Rightarrow> True)"

lemma leaf_type_case: "leaf_type ty \<Longrightarrow> (case remove_nullable ty of TyTuple names tys \<Rightarrow> f names tys | TyArray a \<Rightarrow> g a | TyMap a \<Rightarrow> h a | _ \<Rightarrow> x) = x"
  by (cases "remove_nullable ty") (simp_all add: leaf_type_def)

lemma wf_cases:
  assumes "wf_type ty"
  obtains names tys where "remove_nullable ty = TyTuple names tys" "num_leaf_columns ty = sum_list (map num_leaf_columns tys)"
      "tys \<noteq> []" "length names = length tys" "list_all wf_type tys"
  | a where "remove_nullable ty = TyArray a \<or> remove_nullable ty = TyMap a" "num_leaf_columns ty = num_leaf_columns a" "wf_type a"
  | "leaf_type ty" "num_leaf_columns ty = 1"
proof -
  note r = wf_remove_nullable [OF assms]
  show thesis
  proof (cases "remove_nullable ty")
    case (TyNullable t)
    with r(3) have "size t = size (TyNullable t)" by simp
    then show ?thesis by simp
  qed (use r that in \<open>simp_all add: leaf_type_def\<close>)
qed

lemma build_step:
  "remove_nullable ty = TyArray a \<or> remove_nullable ty = TyMap a \<Longrightarrow>
     build_column_ids_from_data_type ty (ids, n) = build_column_ids_from_data_type a (ids @ [n], n)"
  "remove_nullable ty = TyTuple names tys \<Longrightarrow>
     build_column_ids_from_data_type ty (ids, n) = fold build_column_ids_from_data_type tys (ids @ [n], n)"
  "leaf_type ty \<Longrightarrow> build_column_ids_from_data_type ty (ids, n) = (ids @ [n], u32_add n 1)"
  by (auto simp only: build_column_ids_from_data_type.simps [of ty] leaf_type_case Let_def table_data_type.case)

text \<open>A sorted list of a range remains one when its start is put in front.\<close>

lemma sorted_range_Cons:
  assumes "sorted xs" and "set xs = {n..<m}" and "n < m"
  shows "sorted (n # xs) \<and> set (n # xs) = {n..<(m :: nat)}"
proof
  have "\<forall>x \<in> set xs. n \<le> x" unfolding assms(2) by simp
  with assms(1) show "sorted (n # xs)" by simp
  show "set (n # xs) = {n..<m}" using assms(3) by (simp add: assms(2) insert_absorb)
qed

lemma build_ids:
  assumes "wf_type ty" and "n + num_leaf_columns ty < 2 ^ 32"
  shows "\<exists>pre. build_column_ids_from_data_type ty (ids, n) = (ids @ pre, n + num_leaf_columns ty) \<and> sorted pre \<and>
    set pre = {n..<n + num_leaf_columns ty}"
  using assms
proof (induction ty arbitrary: ids n rule: measure_induct_rule [of size])
  case (less ty)
  show ?case
  proof (rule wf_cases [OF less.prems(1)])
    fix a assume a: "remove_nullable ty = TyArray a \<or> remove_nullable ty = TyMap a" "num_leaf_columns ty = num_leaf_columns a" "wf_type a"
    then have "size a < size ty" using size_tuple(2,3) by blast
    from less.IH [OF this a(3) less.prems(2) [unfolded a(2)], of "ids @ [n]"] obtain pre where
      "build_column_ids_from_data_type a (ids @ [n], n) = ((ids @ [n]) @ pre, n + num_leaf_columns ty)" "sorted pre" "set pre = {n..<n + num_leaf_columns ty}"
      unfolding a(2) by blast
    moreover from this sorted_range_Cons [of pre n] leaves_pos [OF less.prems(1)]
    have "sorted (n # pre) \<and> set (n # pre) = {n..<n + num_leaf_columns ty}" by simp
    ultimately show ?thesis unfolding build_step(1) [OF a(1)] by (intro exI [of _ "n # pre"]) (simp del: sorted_simps)
  next
    assume "leaf_type ty" "num_leaf_columns ty = 1"
    with less.prems(2) show ?thesis
      by (intro exI [of _ "[n]"]) (auto simp: build_step(3) u32_add_def)
  next
    fix names tys assume ty: "remove_nullable ty = TyTuple names tys" "num_leaf_columns ty = sum_list (map num_leaf_columns tys)" "tys \<noteq> []" "list_all wf_type tys"
    have "\<exists>pre. fold build_column_ids_from_data_type us (js, m) = (js @ pre, m + sum_list (map num_leaf_columns us)) \<and> sorted pre \<and>
        set pre = {m..<m + sum_list (map num_leaf_columns us)}"
      if "set us \<subseteq> set tys" "m + sum_list (map num_leaf_columns us) < 2 ^ 32" for us js m
      using that
    proof (induction us arbitrary: js m)
      case (Cons u us)
      have u: "size u < size ty" "wf_type u" using size_tuple(1) [OF ty(1)] ty(4) Cons.prems(1) by (auto simp: list_all_iff)
      obtain p where p: "build_column_ids_from_data_type u (js, m) = (js @ p, m + num_leaf_columns u)" "sorted p" "set p = {m..<m + num_leaf_columns u}"
        using less.IH [OF u, of m js] Cons.prems(2) by (auto simp del: sum_list_eq_0_iff)
      obtain q where q: "fold build_column_ids_from_data_type us (js @ p, m + num_leaf_columns u) =
          ((js @ p) @ q, m + num_leaf_columns u + sum_list (map num_leaf_columns us))" "sorted q"
          "set q = {m + num_leaf_columns u..<m + num_leaf_columns u + sum_list (map num_leaf_columns us)}"
        using Cons.IH [of "m + num_leaf_columns u" "js @ p"] Cons.prems by (auto simp: add.assoc)
      show ?case
        using p q by (intro exI [of _ "p @ q"]) (auto simp: sorted_append add.assoc)
    qed simp
    from this [of tys n "ids @ [n]"] less.prems(2) ty(2) obtain pre where
      "fold build_column_ids_from_data_type tys (ids @ [n], n) = ((ids @ [n]) @ pre, n + num_leaf_columns ty)" "sorted pre" "set pre = {n..<n + num_leaf_columns ty}"
      by auto
    moreover from this sorted_range_Cons [of pre n] leaves_pos [OF less.prems(1)]
    have "sorted (n # pre) \<and> set (n # pre) = {n..<n + num_leaf_columns ty}" by simp
    ultimately show ?thesis unfolding build_step(2) [OF ty(1)] by (intro exI [of _ "n # pre"]) (simp del: sorted_simps)
  qed
qed

text \<open>The identifiers of a column are the numbers from its own one on, one for each leaf.\<close>

definition field_ok :: "nat \<Rightarrow> table_field \<Rightarrow> bool" where
  "field_ok m f \<longleftrightarrow> wf_type (tf_data_type f) \<and> tf_column_id f + num_leaf_columns (tf_data_type f) \<le> m"

lemma column_ids_range:
  assumes "field_ok m f" and "m < 2 ^ 32"
  shows "set (column_ids f) = {tf_column_id f..<tf_column_id f + num_leaf_columns (tf_data_type f)}" and "sorted (column_ids f)"
proof -
  have "wf_type (tf_data_type f)" "tf_column_id f + num_leaf_columns (tf_data_type f) < 2 ^ 32" using assms by (auto simp: field_ok_def)
  from build_ids [OF this, of "[]"] obtain pre where pre: "column_ids f = pre" "sorted pre"
      "set pre = {tf_column_id f..<tf_column_id f + num_leaf_columns (tf_data_type f)}"
    unfolding column_ids_def by (metis append_Nil fst_conv)
  show "set (column_ids f) = {tf_column_id f..<tf_column_id f + num_leaf_columns (tf_data_type f)}" using pre(3) unfolding pre(1) .
  show "sorted (column_ids f)" using pre(2) unfolding pre(1) .
qed

lemma sorted_remdups_adj_distinct: "sorted xs \<Longrightarrow> distinct (remdups_adj (xs :: nat list))"
  by (induction xs rule: remdups_adj.induct) (auto simp: less_le)

lemma leaf_column_ids_range:
  assumes "field_ok m f" and "m < 2 ^ 32"
  shows "leaf_column_ids f = [tf_column_id f..<tf_column_id f + num_leaf_columns (tf_data_type f)]"
  unfolding leaf_column_ids_def
  by (rule sorted_distinct_set_unique)
     (simp_all add: column_ids_range [OF assms] sorted_sort_id sorted_remdups_adj_distinct del: upt_Suc)

lemma collect_step:
  "remove_nullable (tf_data_type f) = TyTuple names tys \<Longrightarrow> collect_in_field f (fs, n) =
     fold (\<lambda>(name, ty) (fs, n). collect_in_field (TableField_new_from_column_id (tf_name f @ str '':'' @ display_tuple_field_name name) ty n) (fs, n))
       (zip names tys) (fs, n)"
  "remove_nullable (tf_data_type f) = TyArray a \<Longrightarrow>
     collect_in_field f (fs, n) = collect_in_field (TableField_new_from_column_id (tf_name f @ str '':0'') a n) (fs, n)"
  "remove_nullable (tf_data_type f) = TyMap a \<Longrightarrow> collect_in_field f (fs, n) = collect_in_field (TableField_new_from_column_id (tf_name f) a n) (fs, n)"
  "leaf_type (tf_data_type f) \<Longrightarrow> collect_in_field f (fs, n) = (fs @ [f], u32_add n 1)"
  by (subst collect_in_field.simps, simp only: leaf_type_case table_data_type.case)+

lemma sum_zip: "length names = length tys \<Longrightarrow> (\<Sum>p\<leftarrow>zip names tys. num_leaf_columns (snd p)) = sum_list (map num_leaf_columns tys)"
  by (induction names tys rule: list_induct2) simp_all

lemma collect_leaves:
  assumes "wf_type ty" and "tf_data_type f = ty" and "tf_column_id f = n" and "n + num_leaf_columns ty < 2 ^ 32"
  shows "\<exists>gs. collect_in_field f (fs, n) = (fs @ gs, n + num_leaf_columns ty) \<and> map tf_column_id gs = [n..<n + num_leaf_columns ty]"
  using assms
proof (induction ty arbitrary: f fs n rule: measure_induct_rule [of size])
  case (less ty)
  let ?new = "\<lambda>name ty n. TableField_new_from_column_id name ty n"
  have new: "tf_data_type (?new nm t j) = t" "tf_column_id (?new nm t j) = j" for nm t j by (simp_all add: TableField_new_from_column_id_def)
  show ?case
  proof (rule wf_cases [OF less.prems(1)])
    fix a assume a: "remove_nullable ty = TyArray a \<or> remove_nullable ty = TyMap a" "num_leaf_columns ty = num_leaf_columns a" "wf_type a"
    then have "size a < size ty" using size_tuple(2,3) by blast
    note IH = less.IH [OF this a(3) new less.prems(4) [unfolded a(2)]]
    from a(1) obtain nm where nm: "collect_in_field f (fs, n) = collect_in_field (?new nm a n) (fs, n)"
      using collect_step(2,3) [of f a fs n, unfolded less.prems(2)] by blast
    show ?thesis unfolding a(2) nm by (rule IH)
  next
    assume "leaf_type ty" "num_leaf_columns ty = 1"
    with less.prems(2-4) show ?thesis by (intro exI [of _ "[f]"]) (simp add: collect_step(4) u32_add_def)
  next
    fix names tys
    assume ty: "remove_nullable ty = TyTuple names tys" "num_leaf_columns ty = sum_list (map num_leaf_columns tys)" "length names = length tys" "list_all wf_type tys"
    let ?step = "\<lambda>(name, ty) (fs, n). collect_in_field (?new (tf_name f @ str '':'' @ display_tuple_field_name name) ty n) (fs, n)"
    have "\<exists>gs. fold ?step ps (hs, m) = (hs @ gs, m + sum_list (map (\<lambda>p. num_leaf_columns (snd p)) ps)) \<and>
        map tf_column_id gs = [m..<m + sum_list (map (\<lambda>p. num_leaf_columns (snd p)) ps)]"
      if "snd ` set ps \<subseteq> set tys" "m + sum_list (map (\<lambda>p. num_leaf_columns (snd p)) ps) < 2 ^ 32" for ps hs m
      using that
    proof (induction ps arbitrary: hs m)
      case (Cons p ps)
      obtain nm u where p: "p = (nm, u)" by (cases p)
      let ?n = "tf_name f @ str '':'' @ display_tuple_field_name nm"
      have u: "size u < size ty" "wf_type u" "m + num_leaf_columns u < 2 ^ 32"
        using size_tuple(1) [OF ty(1), of u] ty(4) Cons.prems p by (simp_all add: list_all_iff)
      obtain gs where gs: "collect_in_field (?new ?n u m) (hs, m) = (hs @ gs, m + num_leaf_columns u)" "map tf_column_id gs = [m..<m + num_leaf_columns u]"
        using less.IH [OF u(1,2) new u(3), of ?n hs] by blast
      obtain gs' where "fold ?step ps (hs @ gs, m + num_leaf_columns u) =
          (hs @ gs @ gs', m + num_leaf_columns u + sum_list (map (\<lambda>p. num_leaf_columns (snd p)) ps))"
          "map tf_column_id gs' = [m + num_leaf_columns u..<m + num_leaf_columns u + sum_list (map (\<lambda>p. num_leaf_columns (snd p)) ps)]"
        using Cons.IH [of "m + num_leaf_columns u" "hs @ gs", unfolded append_assoc] Cons.prems p by force
      with gs p show ?case
        by (intro exI [of _ "gs @ gs'"]) (simp add: add.assoc upt_add_eq_append [of m "m + num_leaf_columns u", unfolded add.assoc] del: upt_Suc)
    qed simp
    moreover have "snd ` set (zip names tys) \<subseteq> set tys" by (auto dest: set_zip_rightD)
    ultimately have "\<exists>gs. fold ?step (zip names tys) (fs, n) = (fs @ gs, n + num_leaf_columns ty) \<and> map tf_column_id gs = [n..<n + num_leaf_columns ty]"
      using less.prems(4) unfolding sum_zip [OF ty(3), symmetric] ty(2) by blast
    then show ?thesis using collect_step(1) [of f names tys fs n] ty(1) less.prems(2) by simp
  qed
qed

section \<open>Changes of a schema\<close>

datatype schema_op =
    OpAddColumn table_field nat
  | OpAddColumns "table_field list"
  | OpDropColumn rstr
  | OpRenameField nat rstr
  | OpRemoveComputedFields
  | OpRemoveVirtualComputedFields

fun apply_schema_op :: "schema_op \<Rightarrow> table_schema \<Rightarrow> table_schema sres" where
  "apply_schema_op (OpAddColumn f i) s = add_column s f i"
| "apply_schema_op (OpAddColumns fs) s = add_columns s fs"
| "apply_schema_op (OpDropColumn name) s = rbind (drop_column s name) (\<lambda>(i, s). Inr s)"
| "apply_schema_op (OpRenameField i name) s = rename_field s i name"
| "apply_schema_op OpRemoveComputedFields s = Inr (remove_computed_fields s)"
| "apply_schema_op OpRemoveVirtualComputedFields s = Inr (remove_virtual_computed_fields s)"

definition apply_schema_ops :: "schema_op list \<Rightarrow> table_schema \<Rightarrow> table_schema sres" where
  "apply_schema_ops xs s = rfold (\<lambda>s x. apply_schema_op x s) s xs"

fun added_fields :: "schema_op \<Rightarrow> table_field list" where
  "added_fields (OpAddColumn f i) = [f]"
| "added_fields (OpAddColumns fs) = fs"
| "added_fields _ = []"

definition wf_fields :: "table_field list \<Rightarrow> bool" where
  "wf_fields fs = list_all (\<lambda>f. wf_type (tf_data_type f)) fs"

definition total_leaves :: "table_field list \<Rightarrow> nat" where
  "total_leaves fs = sum_list (map (\<lambda>f. num_leaf_columns (tf_data_type f)) fs)"

definition leaf_range :: "table_field \<Rightarrow> nat list" where
  "leaf_range f = [tf_column_id f..<tf_column_id f + num_leaf_columns (tf_data_type f)]"

definition schema_ok :: "table_schema \<Rightarrow> bool" where
  "schema_ok s \<longleftrightarrow> (\<forall>f \<in> set (ts_fields s). field_ok (ts_next_column_id s) f) \<and> distinct (concat (map leaf_range (ts_fields s))) \<and>
     ts_next_column_id s \<le> FILE_ROW_NUMBER_COLUMN_ID"

definition same_column :: "table_field \<Rightarrow> table_field \<Rightarrow> bool" where
  "same_column f g \<longleftrightarrow> tf_column_id f = tf_column_id g \<and> tf_data_type f = tf_data_type g"

definition grown :: "table_schema \<Rightarrow> nat \<Rightarrow> table_schema \<Rightarrow> bool" where
  "grown s n s' \<longleftrightarrow> schema_ok s' \<and> ts_next_column_id s' = ts_next_column_id s + n \<and>
     (\<forall>g \<in> set (ts_fields s'). (\<exists>f \<in> set (ts_fields s). same_column f g) \<or> ts_next_column_id s \<le> tf_column_id g)"

lemma grown_refl: "schema_ok s \<Longrightarrow> grown s 0 s"
  by (auto simp: grown_def same_column_def)

lemma grown_trans: "grown s n s' \<Longrightarrow> grown s' m s'' \<Longrightarrow> grown s (n + m) s''"
  unfolding grown_def same_column_def by (auto simp: Ball_def Bex_def) (metis le_add1 order_trans)

lemma same_column_range: "same_column f g \<Longrightarrow> leaf_range g = leaf_range f" "same_column f g \<Longrightarrow> field_ok m f = field_ok m g"
  by (simp_all add: same_column_def leaf_range_def field_ok_def)

text \<open>Columns that are left out or get another name.\<close>

lemma grown_subseq:
  assumes "schema_ok s" and "list_all2 same_column fs flds" and "subseq fs (ts_fields s)" and "ts_fields s' = flds"
    and "ts_next_column_id s' = ts_next_column_id s"
  shows "grown s 0 s'"
proof -
  have ranges: "map leaf_range flds = map leaf_range fs"
    using assms(2) by (induction rule: list_all2_induct) (simp_all add: same_column_range)
  have g: "\<exists>f \<in> set (ts_fields s). same_column f g" if "g \<in> set flds" for g
    using that assms(2) list_emb_set [OF assms(3)] by (metis in_set_conv_nth list_all2_conv_all_nth)
  have "subseq (concat (map leaf_range fs)) (concat (map leaf_range (ts_fields s)))"
    using assms(3) by (induction rule: list_emb.induct) (auto intro: list_emb_append_mono list_emb_append2)
  then have "distinct (concat (map leaf_range flds))"
    using assms(1) unfolding ranges schema_ok_def by (metis subseq_conv_nths distinct_nthsI)
  with g assms(1,4,5) show ?thesis
    unfolding grown_def schema_ok_def by (metis add_0_right same_column_range(2))
qed

lemma distinct_insert_at:
  "distinct (concat (map g (take i xs @ x # drop i xs))) \<longleftrightarrow>
     distinct (g x) \<and> set (g x) \<inter> set (concat (map g xs)) = {} \<and> distinct (concat (map g xs))"
proof -
  have "mset (concat (map g (take i xs @ x # drop i xs))) = mset (g x @ concat (map g (take i xs @ drop i xs)))"
    by (simp del: append_take_drop_id)
  then have "mset (concat (map g (take i xs @ x # drop i xs))) = mset (g x @ concat (map g xs))" by (simp only: append_take_drop_id)
  from mset_eq_imp_distinct_iff [OF this] show ?thesis by (simp only: distinct_append) blast
qed

text \<open>A new column gets the next identifiers.\<close>

lemma build_column_id_ok:
  assumes "wf_type (tf_data_type f)" and "n + num_leaf_columns (tf_data_type f) < 2 ^ 32"
  shows "build_column_id f n = (f\<lparr>tf_column_id := n\<rparr>, n + num_leaf_columns (tf_data_type f))"
  using build_ids [OF assms, of "[]"] by (auto simp only: build_column_id_def snd_conv)

lemma grown_insert:
  assumes "schema_ok s" and "wf_type (tf_data_type f)" and "ts_next_column_id s + num_leaf_columns (tf_data_type f) \<le> FILE_ROW_NUMBER_COLUMN_ID"
  shows "grown s (num_leaf_columns (tf_data_type f))
    (s\<lparr>ts_fields := take i (ts_fields s) @ f\<lparr>tf_column_id := ts_next_column_id s\<rparr> # drop i (ts_fields s),
       ts_next_column_id := ts_next_column_id s + num_leaf_columns (tf_data_type f)\<rparr>)"
proof -
  let ?g = "f\<lparr>tf_column_id := ts_next_column_id s\<rparr>"
  have disjoint: "set (leaf_range ?g) \<inter> set (concat (map leaf_range (ts_fields s))) = {}"
    using assms(1) by (fastforce simp: schema_ok_def field_ok_def leaf_range_def)
  define gs where "gs = take i (ts_fields s) @ ?g # drop i (ts_fields s)"
  have "set (take i (ts_fields s)) \<union> set (drop i (ts_fields s)) = set (ts_fields s)" by (metis append_take_drop_id set_append)
  then have fields: "set gs = insert ?g (set (ts_fields s))" unfolding gs_def by (metis Un_insert_right list.simps(15) set_append)
  have "distinct (concat (map leaf_range gs))"
    unfolding gs_def distinct_insert_at using disjoint assms(1) by (simp add: schema_ok_def leaf_range_def)
  moreover have "field_ok (ts_next_column_id s + num_leaf_columns (tf_data_type f)) h" if "h \<in> set gs" for h
    using assms(1,2) that unfolding fields by (auto simp: schema_ok_def field_ok_def)
  moreover have "same_column h h" for h by (simp add: same_column_def)
  ultimately show ?thesis
    using assms(3) unfolding gs_def [symmetric] by (auto simp: grown_def schema_ok_def fields)
qed

lemmas internal_ids = FILE_ROW_NUMBER_COLUMN_ID_def FILENAME_COLUMN_ID_def SEARCH_SCORE_COLUMN_ID_def U32_MAX_def

lemma add_column_ok:
  assumes "schema_ok s" and "wf_fields [f]" and "ts_next_column_id s + total_leaves [f] \<le> FILE_ROW_NUMBER_COLUMN_ID" and "add_column s f i = Inr s'"
  shows "grown s (total_leaves [f]) s'"
proof -
  have b: "build_column_id f (ts_next_column_id s) =
      (f\<lparr>tf_column_id := ts_next_column_id s\<rparr>, ts_next_column_id s + num_leaf_columns (tf_data_type f))"
    using assms(2,3) by (intro build_column_id_ok) (auto simp: wf_fields_def total_leaves_def internal_ids)
  with assms(4) have "s' = s\<lparr>ts_fields := take i (ts_fields s) @ f\<lparr>tf_column_id := ts_next_column_id s\<rparr> # drop i (ts_fields s),
       ts_next_column_id := ts_next_column_id s + num_leaf_columns (tf_data_type f)\<rparr>"
    by (auto simp: add_column_def vec_insert_def rbind_Inr_iff split: sum.splits if_splits)
  with grown_insert [OF assms(1), of f i] assms(2,3) show ?thesis by (simp add: wf_fields_def total_leaves_def)
qed

lemma add_columns_single: "add_columns s (f # fs) = rbind (add_column s f (length (ts_fields s))) (\<lambda>s. add_columns s fs)"
  by (auto simp: add_column_def vec_insert_def split: sum.splits prod.splits)

lemma add_columns_ok:
  assumes "schema_ok s" and "wf_fields fs" and "ts_next_column_id s + total_leaves fs \<le> FILE_ROW_NUMBER_COLUMN_ID" and "add_columns s fs = Inr s'"
  shows "grown s (total_leaves fs) s'"
  using assms
proof (induction fs arbitrary: s)
  case (Cons f fs)
  then obtain s1 where s1: "add_column s f (length (ts_fields s)) = Inr s1" "add_columns s1 fs = Inr s'"
    by (auto simp only: add_columns_single rbind_Inr_iff)
  have t: "total_leaves (f # fs) = total_leaves [f] + total_leaves fs" "wf_fields [f]" "wf_fields fs"
    using Cons.prems(2) by (simp_all add: total_leaves_def wf_fields_def)
  have g: "grown s (total_leaves [f]) s1" using add_column_ok [OF Cons.prems(1) t(2) _ s1(1)] Cons.prems(3) t(1) by simp
  then have "grown s1 (total_leaves fs) s'" using Cons.IH [OF _ t(3) _ s1(2)] Cons.prems(3) t(1) by (simp add: grown_def)
  with g show ?case unfolding t(1) by (rule grown_trans)
qed (simp add: grown_refl total_leaves_def)

lemma drop_Suc_tl: "\<exists>ys. drop i xs = ys @ drop (Suc i) xs"
  by (metis append_take_drop_id drop_drop plus_1_eq_Suc)

lemma all_same: "list_all2 same_column fs fs"
  by (simp add: list_all2_refl same_column_def)

lemma apply_schema_op_ok:
  assumes "schema_ok s" and "wf_fields (added_fields x)" and "ts_next_column_id s + total_leaves (added_fields x) \<le> FILE_ROW_NUMBER_COLUMN_ID"
    and "apply_schema_op x s = Inr s'"
  shows "grown s (total_leaves (added_fields x)) s'"
proof (cases x)
  case (OpAddColumn f i)
  with assms add_column_ok show ?thesis by simp
next
  case (OpAddColumns fs)
  with assms add_columns_ok show ?thesis by simp
next
  case (OpDropColumn name)
  with assms(4) obtain i where s': "s' = s\<lparr>ts_fields := take i (ts_fields s) @ drop (i + 1) (ts_fields s)\<rparr>"
    by (auto simp: drop_column_def vec_remove_def rbind_Inr_iff split: if_splits)
  have "subseq (take i (ts_fields s) @ drop (i + 1) (ts_fields s)) (take i (ts_fields s) @ drop i (ts_fields s))"
    by (intro list_emb_append_mono) (simp_all add: suffix_imp_subseq suffix_def drop_Suc_tl)
  with grown_subseq [OF assms(1) all_same, of _ s'] show ?thesis by (simp add: OpDropColumn s' total_leaves_def)
next
  case (OpRenameField i name)
  with assms(4) have "s' = s\<lparr>ts_fields := (ts_fields s)[i := (ts_fields s ! i)\<lparr>tf_name := name\<rparr>]\<rparr>"
    by (auto simp: rename_field_def sindex_def rbind_Inr_iff split: if_splits)
  moreover have "list_all2 same_column (ts_fields s) ((ts_fields s)[i := (ts_fields s ! i)\<lparr>tf_name := name\<rparr>])"
    by (cases "i < length (ts_fields s)") (auto simp: list_all2_conv_all_nth nth_list_update same_column_def)
  ultimately show ?thesis using grown_subseq [OF assms(1), of "ts_fields s" _ s'] by (simp add: OpRenameField total_leaves_def)
next
  case OpRemoveComputedFields
  with assms(4) show ?thesis
    using grown_subseq [OF assms(1) all_same, of _ s'] by (auto simp: remove_computed_fields_def total_leaves_def)
next
  case OpRemoveVirtualComputedFields
  with assms(4) show ?thesis
    using grown_subseq [OF assms(1) all_same, of _ s'] by (auto simp: remove_virtual_computed_fields_def total_leaves_def)
qed

lemma fields_append: "wf_fields (xs @ ys) \<longleftrightarrow> wf_fields xs \<and> wf_fields ys" "total_leaves (xs @ ys) = total_leaves xs + total_leaves ys"
  by (simp_all add: wf_fields_def total_leaves_def)

lemma apply_schema_ops_ok:
  assumes "schema_ok s" and "wf_fields (concat (map added_fields xs))"
    and "ts_next_column_id s + total_leaves (concat (map added_fields xs)) \<le> FILE_ROW_NUMBER_COLUMN_ID" and "apply_schema_ops xs s = Inr s'"
  shows "grown s (total_leaves (concat (map added_fields xs))) s'"
  using assms
proof (induction xs arbitrary: s)
  case (Cons x xs)
  then obtain s1 where s1: "apply_schema_op x s = Inr s1" "apply_schema_ops xs s1 = Inr s'" by (auto simp: apply_schema_ops_def rbind_Inr_iff)
  have g: "grown s (total_leaves (added_fields x)) s1" using apply_schema_op_ok [OF Cons.prems(1) _ _ s1(1)] Cons.prems(2,3) by (simp add: fields_append)
  then have "grown s1 (total_leaves (concat (map added_fields xs))) s'"
    using Cons.IH [OF _ _ _ s1(2)] Cons.prems(2,3) by (simp add: fields_append grown_def)
  with g show ?case by (simp add: fields_append grown_trans)
qed (simp add: grown_refl total_leaves_def apply_schema_ops_def)

lemma build_members_ok:
  assumes "schema_ok s" and "wf_fields flds" and "ts_next_column_id s + total_leaves flds \<le> FILE_ROW_NUMBER_COLUMN_ID"
    and "build_members_loop flds (ts_next_column_id s) (ts_fields s) = Inr (n', acc)"
  shows "grown s (total_leaves flds) (s\<lparr>ts_fields := acc, ts_next_column_id := n'\<rparr>)"
  using assms
proof (induction flds arbitrary: s)
  case (Cons f flds)
  have t: "total_leaves (f # flds) = num_leaf_columns (tf_data_type f) + total_leaves flds" "wf_type (tf_data_type f)" "wf_fields flds"
    using Cons.prems(2) by (simp_all add: total_leaves_def wf_fields_def)
  let ?f = "f\<lparr>tf_column_id := ts_next_column_id s\<rparr>" and ?n = "ts_next_column_id s + num_leaf_columns (tf_data_type f)"
  let ?s = "s\<lparr>ts_fields := ts_fields s @ [?f], ts_next_column_id := ?n\<rparr>"
  have g: "grown s (num_leaf_columns (tf_data_type f)) ?s"
    using grown_insert [OF Cons.prems(1) t(2), of "length (ts_fields s)"] Cons.prems(3) t(1) by simp
  have "build_column_id f (ts_next_column_id s) = (?f, ?n)"
    using Cons.prems(3) t(1,2) by (intro build_column_id_ok) (auto simp: internal_ids)
  with Cons.prems(4) have "build_members_loop flds (ts_next_column_id ?s) (ts_fields ?s) = Inr (n', acc)" by (auto simp: rbind_Inr_iff)
  moreover have "schema_ok ?s" "ts_next_column_id ?s + total_leaves flds \<le> FILE_ROW_NUMBER_COLUMN_ID"
    using g Cons.prems(3) t(1) by (simp_all add: grown_def)
  ultimately have "grown ?s (total_leaves flds) (s\<lparr>ts_fields := acc, ts_next_column_id := n'\<rparr>)" using Cons.IH [of ?s] t(3) by simp
  with g show ?case unfolding t(1) by (rule grown_trans)
next
  case Nil
  then have "s\<lparr>ts_fields := acc, ts_next_column_id := n'\<rparr> = s" by (cases s) simp
  then show ?case using grown_refl [OF Nil.prems(1)] by (simp only: total_leaves_def list.map sum_list.Nil)
qed

lemma TableSchema_new_ok:
  assumes "wf_fields flds" and "total_leaves flds \<le> FILE_ROW_NUMBER_COLUMN_ID" and "TableSchema_new flds = Inr s"
  shows "schema_ok s \<and> ts_next_column_id s = total_leaves flds"
proof -
  have "schema_ok TableSchema_empty" by (simp add: schema_ok_def TableSchema_empty_def)
  from build_members_ok [OF this assms(1)] assms(2,3) show ?thesis
    by (auto simp: TableSchema_new_def build_members_from_fields_def rbind_Inr_iff TableSchema_empty_def grown_def)
qed

text \<open>The whole life of a schema.\<close>

lemma schema_reached:
  assumes "TableSchema_new flds = Inr s" and "apply_schema_ops xs s = Inr s'"
    and "wf_fields (flds @ concat (map added_fields xs))" and "total_leaves (flds @ concat (map added_fields xs)) \<le> FILE_ROW_NUMBER_COLUMN_ID"
  shows "schema_ok s'" "ts_next_column_id s' = total_leaves (flds @ concat (map added_fields xs))"
proof -
  have "schema_ok s \<and> ts_next_column_id s = total_leaves flds" using TableSchema_new_ok [OF _ _ assms(1)] assms(3,4) by (simp add: fields_append)
  with apply_schema_ops_ok [OF _ _ _ assms(2)] assms(3,4)
  have "grown s (total_leaves (concat (map added_fields xs))) s' \<and> ts_next_column_id s = total_leaves flds" by (simp add: fields_append)
  then show "schema_ok s'" "ts_next_column_id s' = total_leaves (flds @ concat (map added_fields xs))" by (simp_all add: grown_def fields_append)
qed

lemma schema_ids:
  assumes "schema_ok s" and "f \<in> set (ts_fields s)"
  shows "leaf_column_ids f = leaf_range f" "set (column_ids f) = set (leaf_range f)"
proof -
  have f: "field_ok (ts_next_column_id s) f" "ts_next_column_id s < 2 ^ 32" using assms by (auto simp: schema_ok_def internal_ids)
  show "leaf_column_ids f = leaf_range f" "set (column_ids f) = set (leaf_range f)"
    using leaf_column_ids_range [OF f] column_ids_range(1) [OF f] by (simp_all add: leaf_range_def)
qed

lemma to_leaf_column_ids_ok: "schema_ok s \<Longrightarrow> to_leaf_column_ids s = concat (map leaf_range (ts_fields s))"
  unfolding to_leaf_column_ids_def by (metis (no_types, lifting) map_eq_conv schema_ids(1))

lemma is_column_deleted_ok: "schema_ok s \<Longrightarrow> is_column_deleted s c \<longleftrightarrow> (\<forall>f \<in> set (ts_fields s). c \<notin> set (leaf_range f))"
  by (auto simp: is_column_deleted_def contain_column_id_def list_ex_iff schema_ids(2))

lemma collect_in_fields:
  assumes "\<forall>f \<in> set flds. field_ok m f" and "m \<le> FILE_ROW_NUMBER_COLUMN_ID"
  shows "map tf_column_id (fold (\<lambda>field flds. if is_internal_column_id (tf_column_id field) then flds
      else fst (collect_in_field field (flds, tf_column_id field))) flds acc) = map tf_column_id acc @ concat (map leaf_range flds)"
  using assms(1)
proof (induction flds arbitrary: acc)
  case (Cons f flds)
  then have f: "wf_type (tf_data_type f)" "tf_column_id f + num_leaf_columns (tf_data_type f) \<le> FILE_ROW_NUMBER_COLUMN_ID"
    using assms(2) by (auto simp: field_ok_def)
  have "\<not> is_internal_column_id (tf_column_id f)" using f leaves_pos [OF f(1)] by (simp add: is_internal_column_id_def internal_ids)
  moreover obtain gs where "collect_in_field f (acc, tf_column_id f) = (acc @ gs, tf_column_id f + num_leaf_columns (tf_data_type f))"
      "map tf_column_id gs = leaf_range f"
    using collect_leaves [OF f(1) refl refl, of acc] f(2) by (auto simp: internal_ids leaf_range_def)
  ultimately show ?case using Cons.IH [of "acc @ gs"] Cons.prems by simp
qed simp

lemma fold_extends:
  assumes "\<And>x st. x \<in> set xs \<Longrightarrow> P (fst st) \<Longrightarrow> P (fst (h x st))" and "P (fst st)"
  shows "P (fst (fold h xs st))"
  using assms by (induction xs arbitrary: st) simp_all

lemma collect_extends: "g \<in> set fs \<Longrightarrow> g \<in> set (fst (collect_in_field f (fs, n)))"
proof (induction "tf_data_type f" arbitrary: f fs n rule: measure_induct_rule [of size])
  case less
  have new: "g \<in> set (fst (collect_in_field (TableField_new_from_column_id nm ty m) (gs, m)))"
    if "size ty < size (tf_data_type f)" "g \<in> set gs" for nm ty m gs
    using less.hyps [of "TableField_new_from_column_id nm ty m" gs m] that by (simp add: TableField_new_from_column_id_def)
  show ?case
  proof (cases "remove_nullable (tf_data_type f)")
    case (TyTuple names tys)
    show ?thesis
      unfolding collect_step(1) [OF TyTuple]
      by (rule fold_extends) (use new size_tuple(1) [OF TyTuple] less.prems in \<open>auto dest: set_zip_rightD\<close>)
  qed (use new size_tuple(2,3) less.prems in \<open>simp_all add: collect_in_field.simps [of f]\<close>)
qed

text \<open>A quoted identifier is read back.\<close>

lemma unquote_escaped: "unquote_loop q (concat (map (\<lambda>c. if c = q then [q, c] else [c]) ident)) = Some ident"
  by (induction ident) auto

lemma quoted_ident_read_back: "quoted_ident_from_str (quoted_ident ident q) = Some (ident, q)"
  by (simp add: quoted_ident_def quoted_ident_from_str_def unquote_escaped butlast_append)

section \<open>Theorems\<close>

text \<open>C11. A column identifier is never given to two columns. Take a schema that \<open>TableSchema::new\<close> has built and
  that columns have been added to, dropped from and renamed in, by any sequence of operations, and let more such operations follow.
  No two leaf columns of the new schema have the same identifier. An identifier that had been given and whose column had been dropped still
  belongs to no column, although new columns have been added since. A column with an identifier from before has the same
  data type as then, whatever its name and position are now. The number of leaf columns ever added has to stay below the identifiers of the
  internal columns; no type has an empty tuple.\<close>

theorem column_ids_never_reused:
  assumes "TableSchema_new flds = Inr s0" and "apply_schema_ops xs s0 = Inr s" and "apply_schema_ops ys s = Inr s'"
    and "wf_fields (flds @ concat (map added_fields (xs @ ys)))"
    and "total_leaves (flds @ concat (map added_fields (xs @ ys))) \<le> FILE_ROW_NUMBER_COLUMN_ID"
  shows "distinct (to_leaf_column_ids s') \<and>
    (\<forall>c < ts_next_column_id s. is_column_deleted s c \<longrightarrow> is_column_deleted s' c) \<and>
    (\<forall>g \<in> set (ts_fields s'). tf_column_id g < ts_next_column_id s \<longrightarrow>
       (\<exists>f \<in> set (ts_fields s). tf_column_id f = tf_column_id g \<and> tf_data_type f = tf_data_type g))"
proof -
  have s: "schema_ok s" "ts_next_column_id s = total_leaves (flds @ concat (map added_fields xs))"
    using schema_reached [OF assms(1,2)] assms(4,5) by (simp_all add: fields_append)
  have g: "grown s (total_leaves (concat (map added_fields ys))) s'"
    using apply_schema_ops_ok [OF s(1) _ _ assms(3)] assms(4,5) s(2) by (simp add: fields_append)
  then have s': "schema_ok s'" by (simp add: grown_def)
  have "is_column_deleted s' c" if c: "c < ts_next_column_id s" "is_column_deleted s c" for c
    unfolding is_column_deleted_ok [OF s']
  proof
    fix h assume h: "h \<in> set (ts_fields s')"
    show "c \<notin> set (leaf_range h)"
    proof (cases "ts_next_column_id s \<le> tf_column_id h")
      case False
      with g h obtain f where "f \<in> set (ts_fields s)" "same_column f h" by (auto simp: grown_def)
      with c(2) show ?thesis by (simp add: is_column_deleted_ok [OF s(1)] same_column_range(1))
    qed (use c(1) in \<open>simp add: leaf_range_def\<close>)
  qed
  moreover have "distinct (to_leaf_column_ids s')" using s' by (simp add: to_leaf_column_ids_ok schema_ok_def)
  ultimately show ?thesis using g by (auto simp: grown_def same_column_def not_le)
qed

definition sample_fields :: "table_field list" where
  "sample_fields = [TableField_new (str ''a'') (TyNumber Int64),
     TableField_new (str ''t'') (TyTuple [str ''x'', str ''y''] [TyString, TyArray (TyNullable TyDate)])]"

definition sample_ops :: "schema_op list" where
  "sample_ops = [OpDropColumn (str ''a''), OpRenameField 0 (str ''u'')]"

definition more_ops :: "schema_op list" where
  "more_ops = [OpAddColumns [TableField_new (str ''b'') TyVariant], OpAddColumn (TableField_new (str ''a'') (TyMap (TyTuple [str ''k'', str ''v''] [TyString, TyString]))) 0]"

lemmas sample_eval = sample_fields_def sample_ops_def more_ops_def apply_schema_ops_def TableSchema_new_def build_members_from_fields_def build_column_id_def
  build_column_ids_from_data_type.simps TableField_new_def u32_add_def sassert_def drop_column_def index_of_def vec_remove_def vec_insert_def
  rename_field_def sindex_def add_column_def str_def valid_char_def

theorem column_ids_never_reused_witness:
  "\<exists>s0 s s'. TableSchema_new sample_fields = Inr s0 \<and> apply_schema_ops sample_ops s0 = Inr s \<and> apply_schema_ops more_ops s = Inr s' \<and>
     map tf_column_id (ts_fields s') = [4, 1, 3] \<and> distinct (to_leaf_column_ids s') \<and> is_column_deleted s' 0"
proof -
  obtain s0 where s0: "TableSchema_new sample_fields = Inr s0" by (simp add: sample_eval)
  obtain s where s: "apply_schema_ops sample_ops s0 = Inr s" "ts_next_column_id s = 3" "is_column_deleted s 0"
    using s0 by (auto simp: sample_eval is_column_deleted_def contain_column_id_def column_ids_def)
  obtain s' where s': "apply_schema_ops more_ops s = Inr s'" "map tf_column_id (ts_fields s') = [4, 1, 3]"
    using s0 s(1) by (auto simp: sample_eval)
  have "wf_fields (sample_fields @ concat (map added_fields (sample_ops @ more_ops)))"
    "total_leaves (sample_fields @ concat (map added_fields (sample_ops @ more_ops))) \<le> FILE_ROW_NUMBER_COLUMN_ID"
    by (simp_all add: sample_eval wf_fields_def total_leaves_def internal_ids)
  from column_ids_never_reused [OF s0 s(1) s'(1) this] s0 s s' show ?thesis by (intro exI [of _ s0] exI [of _ s] exI [of _ s']) simp
qed

text \<open>C28. The fields that \<open>leaf_fields\<close> collects for the readers and writers of the data files have exactly the identifiers of
  \<open>to_leaf_column_ids\<close>, in the same order, in every schema that the operations reach. The two functions number the leaves of nested
  types independently of each other: one counts while it renames the inner fields, the other sorts the identifiers of all nodes of the type.\<close>

theorem leaf_fields_numbered:
  assumes "TableSchema_new flds = Inr s0" and "apply_schema_ops xs s0 = Inr s"
    and "wf_fields (flds @ concat (map added_fields xs))" and "total_leaves (flds @ concat (map added_fields xs)) \<le> FILE_ROW_NUMBER_COLUMN_ID"
  shows "map tf_column_id (leaf_fields s) = to_leaf_column_ids s"
proof -
  have "schema_ok s" by (rule schema_reached [OF assms])
  then show ?thesis using collect_in_fields [of "ts_fields s" "ts_next_column_id s" "[]"]
    by (simp add: to_leaf_column_ids_ok leaf_fields_def schema_ok_def)
qed

theorem leaf_fields_numbered_witness:
  "\<exists>s0 s. TableSchema_new sample_fields = Inr s0 \<and> apply_schema_ops more_ops s0 = Inl (Raise AddColumnExistError) \<and>
     apply_schema_ops sample_ops s0 = Inr s \<and> map tf_column_id (leaf_fields s) = to_leaf_column_ids s \<and> to_leaf_column_ids s = [1, 2]"
proof -
  obtain s0 where s0: "TableSchema_new sample_fields = Inr s0" by (simp add: sample_eval)
  obtain s where s: "apply_schema_ops sample_ops s0 = Inr s" "to_leaf_column_ids s = [1, 2]"
    using s0 by (auto simp: sample_eval to_leaf_column_ids_def leaf_column_ids_def column_ids_def)
  have "apply_schema_ops more_ops s0 = Inl (Raise AddColumnExistError)" using s0 by (auto simp: sample_eval)
  moreover have "wf_fields (sample_fields @ concat (map added_fields sample_ops))"
    "total_leaves (sample_fields @ concat (map added_fields sample_ops)) \<le> FILE_ROW_NUMBER_COLUMN_ID"
    by (simp_all add: sample_eval wf_fields_def total_leaves_def internal_ids)
  ultimately show ?thesis using leaf_fields_numbered [OF s0 s(1)] s0 s by (intro exI [of _ s0] exI [of _ s]) simp
qed

text \<open>C29. \<open>leaf_columns_of\<close> does not find an inner column whose name continues the name of a field in front of it. Let the first two fields of
  a tuple be \<open>a\<close> and \<open>b\<close>, where the display of the name of \<open>a\<close> is a proper prefix of the one of \<open>b\<close> and both have no inner columns. The schema has
  a leaf with the name of \<open>b\<close>, but the search for it goes into \<open>a\<close>, because its name is a prefix, ends there and returns no identifier. The
  range index asserts that there is one.\<close>

theorem prefix_sibling_not_found:
  assumes "ts_fields s = [f]" and "tf_data_type f = TyTuple (a # b # names) (ty # ty' # tys)" and "leaf_type ty" and "leaf_type ty'"
    and "\<not> is_internal_column_id (tf_column_id f)" and "strict_prefix (display_tuple_field_name a) (display_tuple_field_name b)"
  shows "(\<exists>g \<in> set (leaf_fields s). tf_name g = tf_name f @ str '':'' @ display_tuple_field_name b) \<and>
    leaf_columns_of s (tf_name f @ str '':'' @ display_tuple_field_name b) = []"
proof
  let ?n = "\<lambda>x. tf_name f @ str '':'' @ display_tuple_field_name x" and ?c = "tf_column_id f"
  let ?field = "TableField_new_from_column_id"
  have rest: "P (fst (fold h xs st))" if "\<And>x st. P (fst st) \<Longrightarrow> P (fst (h x st))" "P (fst st)"
    for P :: "table_field list \<Rightarrow> bool" and h and xs :: "(rstr \<times> table_data_type) list" and st :: "table_field list \<times> nat"
    using that by (rule fold_extends)
  have "collect_in_field (?field (?n x) t m) (fs, m) = (fs @ [?field (?n x) t m], u32_add m 1)" if "leaf_type t" for x t m fs
    using that by (intro collect_step(4)) (simp add: TableField_new_from_column_id_def)
  then have "leaf_fields s = fst (fold (\<lambda>(name, ty) (fs, n). collect_in_field (?field (?n name) ty n) (fs, n)) (zip names tys)
      ([?field (?n a) ty ?c, ?field (?n b) ty' (u32_add ?c 1)], u32_add (u32_add ?c 1) 1))"
    using assms(1-5) by (simp add: leaf_fields_def collect_step(1) [of f])
  then have "?field (?n b) ty' (u32_add ?c 1) \<in> set (leaf_fields s)"
    by (simp only:) (rule rest, auto intro: collect_extends)
  then show "\<exists>g \<in> set (leaf_fields s). tf_name g = ?n b" by (rule rev_bexI) (simp add: TableField_new_from_column_id_def)
  have "collect_inner_column_ids (?n b) (?n a) ty [] ?c = (False, [], ?c)"
    using assms(3,6) by (simp add: leaf_type_def strict_prefix_def split: table_data_type.splits)
  moreover have "str '':'' \<noteq> []" by (simp add: str_def)
  ultimately show "leaf_columns_of s (?n b) = []"
    using assms(1,2,6)
    by (simp add: leaf_columns_of_def strict_prefix_def collect_inner_column_ids.simps [of "?n b" "tf_name f"]
        del: collect_inner_column_ids.simps)
qed

theorem prefix_sibling_not_found_witness:
  "let f = TableField_new (str ''t'') (TyTuple [str ''a'', str ''ab''] [TyDate, TyString]) in
     TableSchema_new [f] = Inr \<lparr>ts_fields = [f], ts_metadata = [], ts_next_column_id = 2\<rparr> \<and>
     leaf_columns_of \<lparr>ts_fields = [f], ts_metadata = [], ts_next_column_id = 2\<rparr> (str ''t:ab'') = []"
proof -
  let ?f = "TableField_new (str ''t'') (TyTuple [str ''a'', str ''ab''] [TyDate, TyString])"
  let ?s = "\<lparr>ts_fields = [?f], ts_metadata = [], ts_next_column_id = 2\<rparr>"
  have "strict_prefix (display_tuple_field_name (str ''a'')) (display_tuple_field_name (str ''ab''))"
    by (simp add: display_tuple_field_name_def display_ident_def ident_needs_quote_def is_ascii_uppercase_def is_ascii_alphabetic_def is_ascii_alphanumeric_def
        str_def valid_char_def)
  then have "leaf_columns_of ?s (tf_name ?f @ str '':'' @ display_tuple_field_name (str ''ab'')) = []"
    using prefix_sibling_not_found [of ?s ?f "str ''a''" "str ''ab''" "[]" TyDate TyString "[]"]
    by (simp add: TableField_new_def leaf_type_def is_internal_column_id_def internal_ids)
  moreover have "tf_name ?f @ str '':'' @ display_tuple_field_name (str ''ab'') = str ''t:ab''"
    by (simp add: TableField_new_def display_tuple_field_name_def display_ident_def ident_needs_quote_def is_ascii_uppercase_def is_ascii_alphabetic_def
        is_ascii_alphanumeric_def str_def valid_char_def)
  moreover have "TableSchema_new [?f] = Inr ?s" by (simp add: sample_eval)
  ultimately show ?thesis by simp
qed

end
