(* ===== verification/Spec2Isabelle.thy ===== *)
theory Spec2Isabelle
  imports MachineProps TxnProps SnapshotProps StoreProps MemProps KeyProps TrialProps IdProps DatabaseProps UpdateProps ReplyProps SchemaProps
begin

text \<open>
  Databend's replicated metadata store: a verification library for the code under \<open>src/meta\<close> and for the table schemas it stores.

  The meta service keeps the schema of a data warehouse. Applications write typed records under
  structured keys; the records are values with sequence numbers in a key-value map; requests to change
  the map are entries of a replicated log; each replica applies the log to a state machine, whose data
  live in a leveled store with a persisted snapshot at the bottom. The development models these layers
  from the store up to the operations on databases, and proves what each promises to the next one.

  \<^bold>\<open>Conventions.\<close> A fallible function returns a sum: \<open>Inl\<close> an error or a panic, \<open>Inr\<close> the result (\<open>Prelude\<close>). Unsigned
  64-bit numbers are natural numbers with the wrap-around or the overflow check written out where the code has
  one. Strings are lists of Unicode scalar values, bytes are natural numbers, and a \<open>BTreeMap\<close> is its sorted
  list of entries (\<open>BTree\<close>). Code that is not part of the repository is a parameter with named hypotheses:
  the crate \<open>stream_more\<close> (\<open>stream_more_ok\<close>), the table file \<open>rotbl\<close> and the encoding of rows (\<open>rotbl_ok\<close>, \<open>codec_ok\<close>,
  together \<open>env_ok\<close>), the generated protobuf code (\<open>pb_ok\<close>, \<open>pb_faithful\<close>) and \<open>serde_json\<close> (\<open>json_ok\<close>). \<open>ReferenceEnv\<close>,
  \<open>ReferenceCodec\<close> and \<open>DatabaseCodec\<close> give instances, on which all examples are evaluated.

  \<^bold>\<open>Store\<close> (\<open>src/meta/raft-store/src/leveled_store\<close>, \<open>marked\<close>, \<open>src/meta/types/src\<close>).
  \<^item> \<open>SeqValue\<close>, \<open>MarkedValue\<close>: values with sequence numbers and expiration, tombstones and their order.
  \<^item> \<open>StreamMore\<close>, \<open>MapApi\<close>: the traits \<open>MapApiRO\<close> and \<open>MapApi\<close>, and reading several levels as one map.
  \<^item> \<open>Utf8\<close>, \<open>RotblCodec\<close>, \<open>PrefixBound\<close>: the encoding of keys and ranges in the snapshot, and prefix ranges.
  \<^item> \<open>StoreApi\<close>, \<open>Level\<close>, \<open>LeveledMap\<close>: the interface \<open>sm_map\<close> between machine and storage, a single level, and the leveled
    map; both satisfy the interface.
  \<^item> \<open>Compaction\<close>, \<open>CompactionProtocol\<close>: the merge of frozen levels into a snapshot, and compactors beside writers as a
    step relation.
  \<^item> \<open>StoreProps\<close>: a write is what later reads return, ranges agree with reads, freezing and compaction change no
    read, at most one compactor runs, snapshots and keys are read back exactly.

  \<^bold>\<open>State machine\<close> (\<open>applier.rs\<close>, \<open>state_machine_api.rs\<close>, \<open>sm_v003\<close>, \<open>mem_state_machine.rs\<close>, \<open>mem_meta.rs\<close>).
  \<^item> \<open>TxnTypes\<close>, \<open>StateMachine\<close>, \<open>Applier\<close>: requests and replies, the machine over any map, and the application of log
    entries.
  \<^item> \<open>FlatSpec\<close>, \<open>FlatProps\<close>: the abstract specification, a reference machine with one sorted map and no levels,
    tombstones or expiration index.
  \<^item> \<open>Refinement\<close>, \<open>TxnRefinement\<close>, \<open>ApplyRefinement\<close>, \<open>MemRefinement\<close>, \<open>ReadRefinement\<close>: the machine over any map that
    satisfies \<open>sm_map\<close> simulates the reference machine, command by command; so do the two machines of the repository.
  \<^item> \<open>Replica\<close>, \<open>SampleRun\<close>: a replica applies its log while its store is frozen, compacted and replaced.
  \<^item> \<open>MachineProps\<close>, \<open>ReplyProps\<close>, \<open>TxnProps\<close>, \<open>SnapshotProps\<close>, \<open>MemProps\<close>: replicas agree with the reference machine and with each
    other, never fail on well-formed entries, and give well-typed replies; expiration, sequence numbers and change events;
    conditional writes and transactions; transfer by snapshots; reads by clients.

  \<^bold>\<open>Keys\<close> (\<open>src/meta/kvapi/src/kvapi\<close>, \<open>src/meta/app/src\<close>). \<open>KvKey\<close>, \<open>TenantKey\<close>, \<open>AppKeys\<close>: escaping, building and parsing of keys, with
  the contract \<open>key_codec\<close> interpreted for each key type. \<open>KeyProps\<close>: round trips, injectivity across all kinds, and exact listings.

  \<^bold>\<open>Clients\<close> (\<open>src/meta/kvapi/src/kvapi/api.rs\<close>, \<open>src/meta/api/src\<close>, \<open>src/meta/service/src/meta_service\<close>).
  \<^item> \<open>KvClient\<close>: an asynchronous function is a program, a tree of requests whose branches are the replies.
  \<^item> \<open>PbApi\<close>, \<open>ApiUtil\<close>, \<open>CrudApi\<close>: typed access, transactions, retries, and the generic access patterns.
  \<^item> \<open>SequenceApi\<close>, \<open>DataMaskApi\<close>, \<open>ObjectApi\<close>, \<open>DatabaseApi\<close>: the operations on sequences, mask policies, indexes, virtual
    columns, table locks, catalogs, least visible times, dictionaries and databases.
  \<^item> \<open>KvWorld\<close>, \<open>KvServers\<close>: any number of clients interleave with each other, with unknown clients and with steps of the
    server; requests and replies can be lost. The locale \<open>kv_server\<close> is the contract of a server; \<open>MemMeta\<close> and the leader of a
    \<open>MetaNode\<close> satisfy it. Programs are verified with rely and guarantee conditions and ghost state (\<open>wp\<close>, \<open>protocol\<close>).
  \<^item> \<open>ApiLogic\<close>, \<open>TypedReads\<close>: rules for reads, conditional writes and transactions under interference.
  \<^item> \<open>IdProps\<close>, \<open>SequenceProps\<close>, \<open>UpdateProps\<close>, \<open>DatabaseProps\<close>, \<open>TrialProps\<close>: identifiers are unique, ranges of sequences are
    disjoint, updates take effect once, the records of databases stay consistent, and loops of trials end.

  \<^bold>\<open>Table schemas\<close> (\<open>src/query/expression/src/schema.rs\<close>, \<open>src/query/ast/src/ast/quote.rs\<close>). The schema of a table is part of its record in the
  meta service, and the identifiers of its columns name the data in the files of the table.
  \<^item> \<open>TableSchema\<close>: the types of columns, the assignment of identifiers to columns and their leaves, adding, dropping and renaming of
    columns, projections, the enumerations of leaves, and the quoting of the names of inner columns.
  \<^item> \<open>SchemaProps\<close>: identifiers are never used for two columns, the two enumerations of the leaves agree, and the search for an inner column
    misses one whose name continues the name of another.

  \<^bold>\<open>Bounds.\<close> The number of trials of a loop is the one of the code, 60; the model runs through the items of the iterator, so
  there is no fuel. A request is executed only if the counter of sequence numbers cannot overflow 64 bits (\<open>fits\<close>,
  \<open>run_ok\<close>): this is a hypothesis on entries and an enabling condition of the steps of a server. Times are below \<open>2 ^ 64\<close>
  milliseconds. The leaf columns ever added to a table are fewer than the 32-bit identifiers below the internal columns. No other bound is assumed: logs, keys, values, numbers of clients and levels are arbitrary.

  \<^bold>\<open>Not modelled.\<close> The consensus protocol is the crate \<open>openraft\<close>; a node is the leader that has applied its log. Network,
  files, processes, configuration, metrics, logging and the text of error messages are input and output. The conversion of values to
  protobuf (\<open>src/meta/proto-conv\<close>) is versioned data mapping and appears as a codec. Of the schema operations, tables and the garbage
  collection of dropped objects are left out, and so are background jobs. The query engine under \<open>src/query\<close>, apart from table schemas, and the libraries
  under \<open>src/common\<close> are separate programs that use the meta service.
\<close>

end
